(* ===== verification/Prelude.thy ===== *)
theory Prelude
  imports Main "HOL-Library.Char_ord" "HOL-Library.List_Lexorder"
begin

text \<open>
  Shared vocabulary of the development: results and effectful computations, the parts of
  the Rust standard library that the crate \<open>antiburn-checks\<close> uses on integers, text and
  ordered maps, and the interface of ordered maps that the components rely on.

  A Rust \<open>String\<close> is its sequence of UTF-8 bytes, so a HOL \<open>string\<close> (a list of 8-bit
  characters) models it: \<open>len\<close> is \<open>length\<close> and the derived \<open>Ord\<close> is the byte-wise
  lexicographic order. A Rust \<open>char\<close> of a string is one lead byte with its continuation
  bytes. Unsigned machine integers are \<open>nat\<close> with their bound written out where the code
  saturates or checks.
\<close>

section \<open>Collections of facts\<close>

named_theorems ev_simps \<open>evaluation rules of effectful computations\<close>
named_theorems ev_keeps \<open>computations that keep a relation between start and end state\<close>

section \<open>Machine integers\<close>

definition usize_max :: nat where
  "usize_max = 18446744073709551615"

definition u64_max :: nat where
  "u64_max = 18446744073709551615"

definition usize_saturating_add :: "nat \<Rightarrow> nat \<Rightarrow> nat" where
  "usize_saturating_add a b = min (a + b) usize_max"

definition u64_saturating_add :: "nat \<Rightarrow> nat \<Rightarrow> nat" where
  "u64_saturating_add a b = min (a + b) u64_max"

definition i64_min :: int where
  "i64_min = -9223372036854775808"

definition i64_max :: int where
  "i64_max = 9223372036854775807"

definition i64_clamp :: "int \<Rightarrow> int" where
  "i64_clamp x = max i64_min (min i64_max x)"

definition i64_saturating_sub :: "int \<Rightarrow> int \<Rightarrow> int" where
  "i64_saturating_sub a b = i64_clamp (a - b)"

lemma i64_clamp_id [simp]: "i64_min \<le> x \<Longrightarrow> x \<le> i64_max \<Longrightarrow> i64_clamp x = x"
  by (simp add: i64_clamp_def)

lemma i64_clamp_range: "i64_min \<le> i64_clamp x \<and> i64_clamp x \<le> i64_max"
  by (simp add: i64_clamp_def i64_min_def i64_max_def)

section \<open>Orderings\<close>

datatype ordering = OrdLess | OrdEqual | OrdGreater

definition cmp :: "'a::linorder \<Rightarrow> 'a \<Rightarrow> ordering" where
  "cmp a b = (if a < b then OrdLess else if a = b then OrdEqual else OrdGreater)"

fun ordering_reverse :: "ordering \<Rightarrow> ordering" where
  "ordering_reverse OrdLess = OrdGreater"
| "ordering_reverse OrdEqual = OrdEqual"
| "ordering_reverse OrdGreater = OrdLess"

definition ordering_then :: "ordering \<Rightarrow> ordering \<Rightarrow> ordering" where
  "ordering_then a b = (if a = OrdEqual then b else a)"

lemma cmp_iff [simp]:
  "cmp a b = OrdLess \<longleftrightarrow> a < b"
  "cmp a b = OrdEqual \<longleftrightarrow> a = b"
  "cmp a b = OrdGreater \<longleftrightarrow> b < a"
  by (auto simp: cmp_def)

lemma ordering_reverse_iff [simp]:
  "ordering_reverse c = OrdLess \<longleftrightarrow> c = OrdGreater"
  "ordering_reverse c = OrdEqual \<longleftrightarrow> c = OrdEqual"
  "ordering_reverse c = OrdGreater \<longleftrightarrow> c = OrdLess"
  by (cases c; simp)+

section \<open>Results and effectful computations\<close>

text \<open>
  \<open>Result<T, E>\<close> is \<open>'e + 'a\<close>, with \<open>Inl\<close> for the error. A method with a \<open>&mut\<close>
  argument that can fail is a function from the state to its result and the state it
  leaves; a failing call keeps the changes made before the failure.
\<close>

type_synonym ('e, 'a) res = "'e + 'a"
type_synonym ('s, 'e, 'a) ev = "'s \<Rightarrow> ('e + 'a) \<times> 's"

definition ev_return :: "'a \<Rightarrow> ('s, 'e, 'a) ev" where
  "ev_return x s = (Inr x, s)"

definition ev_fail :: "'e \<Rightarrow> ('s, 'e, 'a) ev" where
  "ev_fail e s = (Inl e, s)"

definition ev_bind :: "('s, 'e, 'a) ev \<Rightarrow> ('a \<Rightarrow> ('s, 'e, 'b) ev) \<Rightarrow> ('s, 'e, 'b) ev" where
  "ev_bind m f s = (case m s of (Inl e, t) \<Rightarrow> (Inl e, t) | (Inr x, t) \<Rightarrow> f x t)"

definition res_bind :: "('e, 'a) res \<Rightarrow> ('a \<Rightarrow> ('e, 'b) res) \<Rightarrow> ('e, 'b) res" where
  "res_bind m f = (case m of Inl e \<Rightarrow> Inl e | Inr x \<Rightarrow> f x)"

definition res_map_err :: "('e \<Rightarrow> 'd) \<Rightarrow> ('e, 'a) res \<Rightarrow> ('d, 'a) res" where
  "res_map_err g m = (case m of Inl e \<Rightarrow> Inl (g e) | Inr x \<Rightarrow> Inr x)"

definition is_ok :: "('e, 'a) res \<Rightarrow> bool" where
  "is_ok m = (case m of Inl _ \<Rightarrow> False | Inr _ \<Rightarrow> True)"

lemma ev_return_apply [simp, ev_simps]: "ev_return x s = (Inr x, s)"
  by (simp add: ev_return_def)

lemma ev_fail_apply [simp, ev_simps]: "ev_fail e s = (Inl e, s)"
  by (simp add: ev_fail_def)

lemma ev_bind_cong [fundef_cong]:
  "m = m' \<Longrightarrow> (\<And>x. f x = f' x) \<Longrightarrow> ev_bind m f = ev_bind m' f'"
  by (rule arg_cong2 [where f = ev_bind]) (auto intro: ext)

lemma ev_bind_Inr: "m s = (Inr x, t) \<Longrightarrow> ev_bind m f s = f x t"
  by (simp add: ev_bind_def)

lemma ev_bind_Inl: "m s = (Inl e, t) \<Longrightarrow> ev_bind m f s = (Inl e, t)"
  by (simp add: ev_bind_def)

lemma res_bind_simps [simp]:
  "res_bind (Inl e) f = Inl e"
  "res_bind (Inr x) f = f x"
  by (simp_all add: res_bind_def)

lemma res_bind_eq_Inr [simp]: "res_bind m f = Inr y \<longleftrightarrow> (\<exists>x. m = Inr x \<and> f x = Inr y)"
  by (cases m) simp_all

lemma res_map_err_simps [simp]:
  "res_map_err g (Inl e) = Inl (g e)"
  "res_map_err g (Inr x) = Inr x"
  by (simp_all add: res_map_err_def)

lemma res_map_err_Inr [simp]: "res_map_err g m = Inr x \<longleftrightarrow> m = Inr x"
  by (cases m) simp_all

lemma is_ok_simps [simp]: "\<not> is_ok (Inl e)" "is_ok (Inr x)"
  by (simp_all add: is_ok_def)

lemma is_ok_iff: "is_ok m \<longleftrightarrow> (\<exists>x. m = Inr x)"
  by (cases m) simp_all

text \<open>A loop that collects the results of a fallible function.\<close>

fun res_map :: "('x \<Rightarrow> ('e, 'a) res) \<Rightarrow> 'x list \<Rightarrow> ('e, 'a list) res" where
  "res_map f [] = Inr []"
| "res_map f (x # xs) = res_bind (f x) (\<lambda>y. res_bind (res_map f xs) (\<lambda>ys. Inr (y # ys)))"

lemma res_map_Inr: "res_map f xs = Inr ys \<longleftrightarrow> list_all2 (\<lambda>x y. f x = Inr y) xs ys"
  by (induction xs arbitrary: ys) (auto simp: list_all2_Cons1)

lemma res_map_Inl: "res_map f xs = Inl e \<Longrightarrow> \<exists>x \<in> set xs. f x = Inl e"
  by (induction xs) (auto simp: res_bind_def split: sum.splits)

text \<open>A \<open>for\<close> loop whose body may fail: the accumulator is what the body updates.\<close>

fun ev_fold :: "('x \<Rightarrow> 'a \<Rightarrow> ('s, 'e, 'a) ev) \<Rightarrow> 'x list \<Rightarrow> 'a \<Rightarrow> ('s, 'e, 'a) ev" where
  "ev_fold f [] a = ev_return a"
| "ev_fold f (x # xs) a = ev_bind (f x a) (ev_fold f xs)"

lemma ev_fold_cong [fundef_cong]:
  "xs = ys \<Longrightarrow> a = b \<Longrightarrow> (\<And>x. x \<in> set ys \<Longrightarrow> f x = g x) \<Longrightarrow> ev_fold f xs a = ev_fold g ys b"
proof (induction ys arbitrary: xs a b)
  case (Cons y ys)
  have "ev_fold f ys = ev_fold g ys" by (rule ext, rule Cons.IH) (use Cons.prems in auto)
  with Cons.prems show ?case by simp
qed simp

text \<open>
  A computation keeps a relation when every run relates its start state to its end state,
  on success and on failure.
\<close>

definition keeps :: "('s \<Rightarrow> 's \<Rightarrow> bool) \<Rightarrow> ('s, 'e, 'a) ev \<Rightarrow> bool" where
  "keeps R m \<longleftrightarrow> (\<forall>s. R s (snd (m s)))"

locale state_relation =
  fixes R :: "'s \<Rightarrow> 's \<Rightarrow> bool"
  assumes refl: "R s s"
    and trans: "R s t \<Longrightarrow> R t u \<Longrightarrow> R s u"
begin

lemma keeps_return: "keeps R (ev_return x)"
  by (simp add: keeps_def refl)

lemma keeps_fail: "keeps R (ev_fail e)"
  by (simp add: keeps_def refl)

lemma keeps_bind:
  assumes "keeps R m" and "\<And>x. keeps R (f x)"
  shows "keeps R (ev_bind m f)"
  unfolding keeps_def
proof
  fix s
  obtain r t where m: "m s = (r, t)" by (cases "m s")
  with assms(1) have st: "R s t" by (force simp: keeps_def dest: spec [of _ s])
  show "R s (snd (ev_bind m f s))"
  proof (cases r)
    case (Inl e)
    with m st show ?thesis by (simp add: ev_bind_def)
  next
    case (Inr x)
    from assms(2) have "R t (snd (f x t))" by (simp add: keeps_def)
    with m Inr st show ?thesis by (auto simp: ev_bind_def intro: trans)
  qed
qed

end

text \<open>
  \<open>returns m P\<close>: every successful run of \<open>m\<close> returns a value with \<open>P\<close>; \<open>fails m E\<close>: every
  failing run ends with an error with \<open>E\<close>.
\<close>

definition returns :: "('s, 'e, 'a) ev \<Rightarrow> ('a \<Rightarrow> bool) \<Rightarrow> bool" where
  "returns m P \<longleftrightarrow> (\<forall>s x t. m s = (Inr x, t) \<longrightarrow> P x)"

definition fails :: "('s, 'e, 'a) ev \<Rightarrow> ('e \<Rightarrow> bool) \<Rightarrow> bool" where
  "fails m E \<longleftrightarrow> (\<forall>s e t. m s = (Inl e, t) \<longrightarrow> E e)"

lemma returnsD: "returns m P \<Longrightarrow> m s = (Inr x, t) \<Longrightarrow> P x"
  by (auto simp: returns_def)

lemma failsD: "fails m E \<Longrightarrow> m s = (Inl e, t) \<Longrightarrow> E e"
  by (auto simp: fails_def)

lemma returns_return [simp]: "returns (ev_return x) P = P x"
  by (auto simp: returns_def)

lemma returns_Pair [simp]: "returns (Pair (Inr x)) P = P x"
  by (auto simp: returns_def)

lemma returns_fail [simp]: "returns (ev_fail e) P"
  by (auto simp: returns_def)

lemma returns_True [simp]: "returns m (\<lambda>_. True)"
  by (simp add: returns_def)

lemma returns_mono: "returns m P \<Longrightarrow> (\<And>x. P x \<Longrightarrow> Q x) \<Longrightarrow> returns m Q"
  by (auto simp: returns_def)

lemma returns_bind: "returns m P \<Longrightarrow> (\<And>x. P x \<Longrightarrow> returns (f x) Q) \<Longrightarrow> returns (ev_bind m f) Q"
  unfolding returns_def ev_bind_def by (auto split: prod.splits sum.splits) blast

lemma returns_bind_any: "(\<And>x. returns (f x) Q) \<Longrightarrow> returns (ev_bind m f) Q"
  by (rule returns_bind [of m "\<lambda>_. True"]) simp_all

lemma returns_fold:
  assumes "\<And>x a. x \<in> set xs \<Longrightarrow> I a \<Longrightarrow> returns (f x a) I" "I a"
  shows "returns (ev_fold f xs a) I"
  using assms by (induction xs arbitrary: a) (auto intro!: returns_bind)

lemma returns_fold_view:
  assumes "\<And>x a. x \<in> set xs \<Longrightarrow> returns (f x a) (\<lambda>b. h b = g x (h a))"
  shows "returns (ev_fold f xs a) (\<lambda>b. h b = fold g xs (h a))"
  using assms
proof (induction xs arbitrary: a)
  case (Cons x xs)
  have tail: "returns (ev_fold f xs b) (\<lambda>c. h c = fold g xs (h b))" for b
    by (rule Cons.IH) (use Cons.prems in auto)
  have "returns (ev_fold f xs b) (\<lambda>c. h c = fold g xs (g x (h a)))" if "h b = g x (h a)" for b
    using tail [of b] that by simp
  with Cons.prems [of x a] show ?case by (auto intro!: returns_bind)
qed simp

lemma fails_return [simp]: "fails (ev_return x) E"
  by (auto simp: fails_def)

lemma fails_fail [simp]: "fails (ev_fail e) E = E e"
  by (auto simp: fails_def)

lemma fails_bind: "fails m E \<Longrightarrow> (\<And>x. fails (f x) E) \<Longrightarrow> fails (ev_bind m f) E"
  unfolding fails_def ev_bind_def by (auto split: prod.splits sum.splits)

lemma fails_fold: "(\<And>x a. x \<in> set xs \<Longrightarrow> fails (f x a) E) \<Longrightarrow> fails (ev_fold f xs a) E"
  by (induction xs arbitrary: a) (auto intro!: fails_bind)

section \<open>Text\<close>

fun join_with :: "string \<Rightarrow> string list \<Rightarrow> string" where
  "join_with sep [] = []"
| "join_with sep [t] = t"
| "join_with sep (t # u # ts) = t @ sep @ join_with sep (u # ts)"

definition utf8_continuation :: "char \<Rightarrow> bool" where
  "utf8_continuation c \<longleftrightarrow> 128 \<le> (of_char c :: nat) \<and> (of_char c :: nat) < 192"

definition is_char_boundary :: "string \<Rightarrow> nat \<Rightarrow> bool" where
  "is_char_boundary s i \<longleftrightarrow> i = length s \<or> i < length s \<and> \<not> utf8_continuation (s ! i)"

text \<open>The \<open>chars\<close> of a valid string: each lead byte with its continuation bytes.\<close>

function utf8_chars :: "string \<Rightarrow> string list" where
  "utf8_chars [] = []"
| "utf8_chars (c # s) =
     (c # takeWhile utf8_continuation s) # utf8_chars (dropWhile utf8_continuation s)"
  by pat_completeness auto
termination
  by (relation "measure length") (auto simp: less_Suc_eq_le length_dropWhile_le)

lemma concat_utf8_chars [simp]: "concat (utf8_chars s) = s"
  by (induction s rule: utf8_chars.induct) simp_all

lemma utf8_chars_inject: "utf8_chars s = utf8_chars t \<longleftrightarrow> s = t"
  by (metis concat_utf8_chars)

lemma utf8_chars_nonempty: "w \<in> set (utf8_chars s) \<Longrightarrow> w \<noteq> []"
  by (induction s rule: utf8_chars.induct) auto

definition byte_at :: "string \<Rightarrow> nat \<Rightarrow> nat" where
  "byte_at s i = (if i < length s then of_char (s ! i) else 0)"

text \<open>\<open>char::is_whitespace\<close>: the Unicode White\_Space property, on the UTF-8 form.\<close>

definition is_whitespace :: "string \<Rightarrow> bool" where
  "is_whitespace w \<longleftrightarrow>
     (let b = map of_char w :: nat list in
      b = [32] \<or> b \<in> {[9], [10], [11], [12], [13]} \<or> b = [194, 133] \<or> b = [194, 160]
      \<or> b = [225, 154, 128]
      \<or> (length b = 3 \<and> take 2 b = [226, 128] \<and>
          (128 \<le> b ! 2 \<and> b ! 2 \<le> 138 \<or> b ! 2 \<in> {168, 169, 175}))
      \<or> b = [226, 129, 159] \<or> b = [227, 128, 128])"

text \<open>\<open>str::trim().is_empty()\<close>: every character is white space.\<close>

definition is_blank :: "string \<Rightarrow> bool" where
  "is_blank s \<longleftrightarrow> list_all is_whitespace (utf8_chars s)"

definition is_ascii_digit :: "char \<Rightarrow> bool" where
  "is_ascii_digit c \<longleftrightarrow> 48 \<le> (of_char c :: nat) \<and> (of_char c :: nat) \<le> 57"

definition is_ascii_lowercase :: "char \<Rightarrow> bool" where
  "is_ascii_lowercase c \<longleftrightarrow> 97 \<le> (of_char c :: nat) \<and> (of_char c :: nat) \<le> 122"

definition is_ascii_uppercase :: "char \<Rightarrow> bool" where
  "is_ascii_uppercase c \<longleftrightarrow> 65 \<le> (of_char c :: nat) \<and> (of_char c :: nat) \<le> 90"

definition is_ascii_alphabetic :: "char \<Rightarrow> bool" where
  "is_ascii_alphabetic c \<longleftrightarrow> is_ascii_lowercase c \<or> is_ascii_uppercase c"

definition is_ascii_alphanumeric :: "char \<Rightarrow> bool" where
  "is_ascii_alphanumeric c \<longleftrightarrow> is_ascii_alphabetic c \<or> is_ascii_digit c"

text \<open>\<open>u8::is_ascii_whitespace\<close>: space, tab, line feed, form feed and carriage return.\<close>

definition is_ascii_whitespace :: "char \<Rightarrow> bool" where
  "is_ascii_whitespace c \<longleftrightarrow> (of_char c :: nat) \<in> {32, 9, 10, 12, 13}"

definition to_ascii_lowercase :: "string \<Rightarrow> string" where
  "to_ascii_lowercase s =
     map (\<lambda>c. if is_ascii_uppercase c then char_of ((of_char c :: nat) + 32) else c) s"

definition digit_value :: "char \<Rightarrow> nat" where
  "digit_value c = of_char c - 48"

text \<open>\<open>str::starts_with\<close>, \<open>str::ends_with\<close>, \<open>str::contains\<close> and \<open>str::split\<close> on bytes.\<close>

definition starts_with :: "string \<Rightarrow> string \<Rightarrow> bool" where
  "starts_with s p \<longleftrightarrow> take (length p) s = p"

definition ends_with :: "string \<Rightarrow> string \<Rightarrow> bool" where
  "ends_with s p \<longleftrightarrow> length p \<le> length s \<and> drop (length s - length p) s = p"

fun contains_str :: "string \<Rightarrow> string \<Rightarrow> bool" where
  "contains_str [] p \<longleftrightarrow> p = []"
| "contains_str (c # s) p \<longleftrightarrow> starts_with (c # s) p \<or> contains_str s p"

fun split_on :: "char \<Rightarrow> string \<Rightarrow> string list" where
  "split_on d [] = [[]]"
| "split_on d (c # s) =
     (if c = d then [] # split_on d s
      else (case split_on d s of [] \<Rightarrow> [[c]] | w # ws \<Rightarrow> (c # w) # ws))"

lemma split_on_nonempty [simp]: "split_on d s \<noteq> []"
  by (induction s) (auto split: list.splits)

text \<open>Decimal notation of an unsigned integer, as \<open>Display\<close> writes it.\<close>

function show_nat :: "nat \<Rightarrow> string" where
  "show_nat n =
     (if n < 10 then [char_of (48 + n)] else show_nat (n div 10) @ [char_of (48 + n mod 10)])"
  by pat_completeness auto
termination
  by (relation "measure id") auto

declare show_nat.simps [simp del]

lemma of_char_char_of_small: "n < 256 \<Longrightarrow> (of_char (char_of (n :: nat)) :: nat) = n"
  by (simp add: of_char_of)

definition read_nat :: "string \<Rightarrow> nat" where
  "read_nat s = foldl (\<lambda>a c. 10 * a + digit_value c) 0 s"

lemma read_show_nat [simp]: "read_nat (show_nat n) = n"
proof (induction n rule: show_nat.induct)
  case (1 n)
  then show ?case
    by (subst show_nat.simps) (auto simp: read_nat_def digit_value_def of_char_char_of_small)
qed

lemma show_nat_inject [simp]: "show_nat m = show_nat n \<longleftrightarrow> m = n"
  by (metis read_show_nat)

lemma show_nat_digits: "list_all is_ascii_digit (show_nat n)"
proof (induction n rule: show_nat.induct)
  case (1 n)
  have "is_ascii_digit (char_of (48 + k :: nat))" if "k < 10" for k
    using that by (simp add: is_ascii_digit_def of_char_char_of_small)
  with 1 show ?case by (subst show_nat.simps) auto
qed

section \<open>Ordered maps\<close>

text \<open>
  A \<open>BTreeMap\<close> is the list of its entries in key order. \<open>bt_ok\<close> is its invariant:
  keys strictly increase.
\<close>

type_synonym ('k, 'v) bt = "('k \<times> 'v) list"

definition bt_ok :: "('k::linorder, 'v) bt \<Rightarrow> bool" where
  "bt_ok m \<longleftrightarrow> sorted_wrt (<) (map fst m)"

definition bt_get :: "('k, 'v) bt \<Rightarrow> 'k \<Rightarrow> 'v option" where
  "bt_get m k = map_of m k"

definition bt_insert :: "'k::linorder \<Rightarrow> 'v \<Rightarrow> ('k, 'v) bt \<Rightarrow> ('k, 'v) bt" where
  "bt_insert k v m = takeWhile (\<lambda>p. fst p < k) m @ (k, v) # dropWhile (\<lambda>p. fst p \<le> k) m"

definition bt_remove :: "'k \<Rightarrow> ('k, 'v) bt \<Rightarrow> ('k, 'v) bt" where
  "bt_remove k m = filter (\<lambda>p. fst p \<noteq> k) m"

text \<open>\<open>get_mut\<close> followed by an update in place.\<close>

definition bt_adjust :: "'k \<Rightarrow> ('v \<Rightarrow> 'v) \<Rightarrow> ('k, 'v) bt \<Rightarrow> ('k, 'v) bt" where
  "bt_adjust k f m = map (\<lambda>(a, b). (a, if a = k then f b else b)) m"

text \<open>\<open>retain\<close> with a predicate on key and value.\<close>

definition bt_retain :: "('k \<Rightarrow> 'v \<Rightarrow> bool) \<Rightarrow> ('k, 'v) bt \<Rightarrow> ('k, 'v) bt" where
  "bt_retain P m = filter (\<lambda>(a, b). P a b) m"

definition bt_contains :: "('k, 'v) bt \<Rightarrow> 'k \<Rightarrow> bool" where
  "bt_contains m k \<longleftrightarrow> bt_get m k \<noteq> None"

lemma bt_ok_Nil [simp]: "bt_ok []"
  by (simp add: bt_ok_def)

lemma bt_ok_Cons: "bt_ok ((a, b) # m) \<longleftrightarrow> (\<forall>p \<in> set m. a < fst p) \<and> bt_ok m"
  by (auto simp: bt_ok_def)

lemma bt_insert_Nil [simp]: "bt_insert k v [] = [(k, v)]"
  by (simp add: bt_insert_def)

lemma bt_insert_Cons:
  "bt_insert k v ((a, b) # m) =
     (if a < k then (a, b) # bt_insert k v m
      else if a = k then (k, v) # dropWhile (\<lambda>p. fst p \<le> k) m
      else (k, v) # (a, b) # m)"
  by (auto simp: bt_insert_def)

lemma dropWhile_above:
  "(\<forall>p \<in> set m. (k::'k::linorder) < fst p) \<Longrightarrow> dropWhile (\<lambda>p. fst p \<le> k) m = m"
  by (cases m) auto

lemma set_bt_insert:
  "bt_ok m \<Longrightarrow> set (bt_insert k v m) = insert (k, v) {p \<in> set m. fst p \<noteq> k}"
proof (induction m)
  case Nil
  then show ?case by simp
next
  case (Cons p m)
  obtain a b where p: "p = (a, b)" by (cases p)
  from Cons.prems p have m: "bt_ok m" "\<forall>p \<in> set m. a < fst p"
    by (auto simp: bt_ok_Cons)
  consider "a < k" | "a = k" | "k < a" by fastforce
  then show ?case
  proof cases
    case 1
    with Cons.IH [OF m(1)] p show ?thesis by (auto simp: bt_insert_Cons)
  next
    case 2
    with m(2) have "dropWhile (\<lambda>p. fst p \<le> k) m = m" by (simp add: dropWhile_above)
    with 2 m p show ?thesis by (auto simp: bt_insert_Cons)
  next
    case 3
    with m(2) have "\<forall>q \<in> set m. k < fst q" by (auto intro: less_trans)
    with 3 p show ?thesis by (auto simp: bt_insert_Cons)
  qed
qed

lemma bt_ok_insert: "bt_ok m \<Longrightarrow> bt_ok (bt_insert k v m)"
proof (induction m)
  case Nil
  then show ?case by (simp add: bt_ok_def)
next
  case (Cons p m)
  obtain a b where p: "p = (a, b)" by (cases p)
  from Cons.prems p have m: "bt_ok m" "\<forall>p \<in> set m. a < fst p"
    by (auto simp: bt_ok_Cons)
  consider "a < k" | "a = k" | "k < a" by fastforce
  then show ?case
  proof cases
    case 1
    with Cons.IH [OF m(1)] m p show ?thesis
      by (auto simp: bt_insert_Cons bt_ok_Cons set_bt_insert)
  next
    case 2
    with m(2) have "dropWhile (\<lambda>p. fst p \<le> k) m = m" by (simp add: dropWhile_above)
    with 2 m p show ?thesis by (auto simp: bt_insert_Cons bt_ok_Cons)
  next
    case 3
    with m p show ?thesis by (auto simp: bt_insert_Cons bt_ok_Cons intro: less_trans)
  qed
qed

lemma bt_ok_distinct: "bt_ok m \<Longrightarrow> distinct (map fst m)"
  by (simp add: bt_ok_def strict_sorted_iff)

lemma bt_get_iff: "bt_ok m \<Longrightarrow> bt_get m k = Some v \<longleftrightarrow> (k, v) \<in> set m"
  by (simp add: bt_get_def bt_ok_distinct)

lemma bt_get_insert:
  assumes "bt_ok m"
  shows "bt_get (bt_insert k v m) j = (if j = k then Some v else bt_get m j)"
proof (cases "j = k")
  case True
  have "(k, v) \<in> set (bt_insert k v m)" using assms by (simp add: set_bt_insert)
  with assms True show ?thesis by (simp add: bt_get_iff bt_ok_insert)
next
  case False
  have "bt_get (bt_insert k v m) j = Some w \<longleftrightarrow> bt_get m j = Some w" for w
    using assms False by (auto simp: bt_get_iff bt_ok_insert set_bt_insert)
  then have "bt_get (bt_insert k v m) j = bt_get m j"
    by (metis option.exhaust)
  with False show ?thesis by simp
qed

lemma length_bt_insert:
  assumes "bt_ok m" "bt_get m k = None"
  shows "length (bt_insert k v m) = Suc (length m)"
proof -
  have new: "\<forall>p \<in> set m. fst p \<noteq> k" using assms(2) by (auto simp: bt_get_def map_of_eq_None_iff)
  then have "set (bt_insert k v m) = insert (k, v) (set m)" by (auto simp: set_bt_insert [OF assms(1)])
  moreover have "(k, v) \<notin> set m" using new by auto
  moreover have "card (set m) = length m" "card (set (bt_insert k v m)) = length (bt_insert k v m)"
    using bt_ok_distinct [OF assms(1)] bt_ok_distinct [OF bt_ok_insert [OF assms(1)]]
    by (simp_all add: distinct_card distinct_map)
  ultimately show ?thesis by simp
qed

lemma bt_get_remove: "bt_get (bt_remove k m) j = (if j = k then None else bt_get m j)"
  by (induction m) (auto simp: bt_get_def bt_remove_def)

lemma bt_get_adjust: "bt_get (bt_adjust k f m) j = (if j = k then map_option f (bt_get m j) else bt_get m j)"
  by (induction m) (auto simp: bt_get_def bt_adjust_def)

lemma fst_bt_adjust [simp]: "map fst (bt_adjust k f m) = map fst m"
  by (induction m) (auto simp: bt_adjust_def)

lemma bt_ok_adjust: "bt_ok m \<Longrightarrow> bt_ok (bt_adjust k f m)"
  by (simp add: bt_ok_def)

lemma bt_ok_filter: "bt_ok m \<Longrightarrow> bt_ok (filter P m)"
  by (induction m) (auto simp: bt_ok_Cons)

lemma bt_ok_remove: "bt_ok m \<Longrightarrow> bt_ok (bt_remove k m)"
  by (simp add: bt_remove_def bt_ok_filter)

lemma bt_ok_retain: "bt_ok m \<Longrightarrow> bt_ok (bt_retain P m)"
  by (simp add: bt_retain_def bt_ok_filter)

text \<open>\<open>collect\<close> into a map: entries are inserted in order, so the last one with a key wins.\<close>

definition bt_collect :: "('k::linorder \<times> 'v) list \<Rightarrow> ('k, 'v) bt" where
  "bt_collect entries = fold (\<lambda>(k, v). bt_insert k v) entries []"

lemma bt_ok_fold: "bt_ok m \<Longrightarrow> bt_ok (fold (\<lambda>(k, v). bt_insert k v) entries m)"
  by (induction entries arbitrary: m) (auto simp: bt_ok_insert)

lemma bt_get_fold:
  "bt_ok m \<Longrightarrow> bt_get (fold (\<lambda>(k, v). bt_insert k v) entries m) j =
     (case map_of (rev entries) j of None \<Rightarrow> bt_get m j | Some v \<Rightarrow> Some v)"
  by (induction entries arbitrary: m)
    (auto simp: bt_ok_insert bt_get_insert map_add_def split: option.splits)

lemma bt_ok_collect [simp]: "bt_ok (bt_collect entries)"
  by (simp add: bt_collect_def bt_ok_fold)

lemma bt_get_collect: "bt_get (bt_collect entries) = map_of (rev entries)"
  by (rule ext) (simp add: bt_collect_def bt_get_fold bt_get_def [of "[]"] split: option.splits)

lemma bt_keys: "fst ` set m = {k. bt_get m k \<noteq> None}"
  by (auto simp: bt_get_def map_of_eq_None_iff)

lemma keys_bt_collect: "fst ` set (bt_collect entries) = fst ` set entries"
  by (subst bt_keys) (auto simp: bt_get_collect map_of_eq_None_iff)

lemma length_bt_collect: "length (bt_collect entries) = card (fst ` set entries)"
proof -
  have "length (bt_collect entries) = card (set (map fst (bt_collect entries)))"
    using distinct_card [OF bt_ok_distinct [OF bt_ok_collect], of entries] by simp
  then show ?thesis by (simp add: keys_bt_collect)
qed

text \<open>The contract the components rely on, and that the entry lists keep it.\<close>

locale keyed_store =
  fixes invar :: "'m \<Rightarrow> bool"
    and lookup :: "'m \<Rightarrow> 'k \<Rightarrow> 'v option"
    and store :: "'k \<Rightarrow> 'v \<Rightarrow> 'm \<Rightarrow> 'm"
    and drop_key :: "'k \<Rightarrow> 'm \<Rightarrow> 'm"
  assumes invar_store: "invar m \<Longrightarrow> invar (store k v m)"
    and invar_drop: "invar m \<Longrightarrow> invar (drop_key k m)"
    and lookup_store: "invar m \<Longrightarrow> lookup (store k v m) j = (if j = k then Some v else lookup m j)"
    and lookup_drop: "invar m \<Longrightarrow> lookup (drop_key k m) j = (if j = k then None else lookup m j)"
begin

lemma store_last_wins: "invar m \<Longrightarrow> lookup (store k v (store k w m)) = lookup (store k v m)"
  by (rule ext) (simp add: lookup_store invar_store)

lemma drop_store_other:
  "invar m \<Longrightarrow> j \<noteq> k \<Longrightarrow> lookup (drop_key k (store k v m)) j = lookup m j"
  by (simp add: lookup_store lookup_drop invar_store)

end

interpretation bt: keyed_store bt_ok bt_get bt_insert bt_remove
  by unfold_locales (auto simp: bt_ok_insert bt_ok_remove bt_get_insert bt_get_remove)

end
