(* ===== verification/Diagnostics.thy ===== *)
theory Diagnostics
  imports Prelude
begin

text \<open>
  \<open>diagnostics.rs\<close>: the closed set of diagnostic codes with their stable names, source
  ranges, and the diagnostics that parsing, compilation and discovery report.
\<close>

record source_span =
  span_start :: nat
  span_end :: nat
  span_line :: nat
  span_column :: nat
  span_end_line :: nat
  span_end_column :: nat

definition span_point :: "nat \<Rightarrow> nat \<Rightarrow> nat \<Rightarrow> source_span" where
  "span_point offset line column =
     \<lparr>span_start = offset, span_end = offset, span_line = line, span_column = column,
      span_end_line = line, span_end_column = column\<rparr>"

datatype diagnostic_code =
    YamlSyntax
  | YamlDirective
  | YamlDocumentCount
  | YamlRootType
  | YamlNestingLimit
  | YamlAnchor
  | YamlAlias
  | YamlUnsupportedTag
  | YamlNonStringKey
  | YamlDuplicateKey
  | YamlMergeKey
  | YamlNonFiniteNumber
  | YamlInvalidScalar
  | ConfigMissingField
  | ConfigUnknownField
  | ConfigInvalidType
  | ConfigInvalidValue
  | CompileUnsupportedFeature
  | CompileInvalidExpression
  | CompileUnknownReference
  | CompileInvalidWindow
  | CompileInvalidCooldown
  | CompileInvalidDecision
  | CompileInvalidAction
  | RuntimeInvalidDecision
  | RuntimeInvalidContext
  | EvaluationLimitExceeded
  | DiscoveryInvalidId
  | DiscoveryDuplicateId
  | DiscoveryReadFailed
  | DiscoveryPaused
  | DiscoveryShadowed

fun code_as_str :: "diagnostic_code \<Rightarrow> string" where
  "code_as_str YamlSyntax = ''yaml-syntax''"
| "code_as_str YamlDirective = ''yaml-directive''"
| "code_as_str YamlDocumentCount = ''yaml-document-count''"
| "code_as_str YamlRootType = ''yaml-root-type''"
| "code_as_str YamlNestingLimit = ''yaml-nesting-limit''"
| "code_as_str YamlAnchor = ''yaml-anchor''"
| "code_as_str YamlAlias = ''yaml-alias''"
| "code_as_str YamlUnsupportedTag = ''yaml-unsupported-tag''"
| "code_as_str YamlNonStringKey = ''yaml-non-string-key''"
| "code_as_str YamlDuplicateKey = ''yaml-duplicate-key''"
| "code_as_str YamlMergeKey = ''yaml-merge-key''"
| "code_as_str YamlNonFiniteNumber = ''yaml-non-finite-number''"
| "code_as_str YamlInvalidScalar = ''yaml-invalid-scalar''"
| "code_as_str ConfigMissingField = ''config-missing-field''"
| "code_as_str ConfigUnknownField = ''config-unknown-field''"
| "code_as_str ConfigInvalidType = ''config-invalid-type''"
| "code_as_str ConfigInvalidValue = ''config-invalid-value''"
| "code_as_str CompileUnsupportedFeature = ''compile-unsupported-feature''"
| "code_as_str CompileInvalidExpression = ''compile-invalid-expression''"
| "code_as_str CompileUnknownReference = ''compile-unknown-reference''"
| "code_as_str CompileInvalidWindow = ''compile-invalid-window''"
| "code_as_str CompileInvalidCooldown = ''compile-invalid-cooldown''"
| "code_as_str CompileInvalidDecision = ''compile-invalid-decision''"
| "code_as_str CompileInvalidAction = ''compile-invalid-action''"
| "code_as_str RuntimeInvalidDecision = ''runtime-invalid-decision''"
| "code_as_str RuntimeInvalidContext = ''runtime-invalid-context''"
| "code_as_str EvaluationLimitExceeded = ''evaluation-limit-exceeded''"
| "code_as_str DiscoveryInvalidId = ''discovery-invalid-id''"
| "code_as_str DiscoveryDuplicateId = ''discovery-duplicate-id''"
| "code_as_str DiscoveryReadFailed = ''discovery-read-failed''"
| "code_as_str DiscoveryPaused = ''discovery-paused''"
| "code_as_str DiscoveryShadowed = ''discovery-shadowed''"

record diagnostic =
  diag_code :: diagnostic_code
  diag_message :: string
  diag_span :: "source_span option"
  diag_config_path :: "string option"
  diag_source_path :: "string option"

definition diagnostic_at :: "diagnostic_code \<Rightarrow> string \<Rightarrow> source_span \<Rightarrow> diagnostic" where
  "diagnostic_at code message span =
     \<lparr>diag_code = code, diag_message = message, diag_span = Some span,
      diag_config_path = None, diag_source_path = None\<rparr>"

definition diagnostic_new :: "diagnostic_code \<Rightarrow> string \<Rightarrow> diagnostic" where
  "diagnostic_new code message =
     \<lparr>diag_code = code, diag_message = message, diag_span = None,
      diag_config_path = None, diag_source_path = None\<rparr>"

definition with_config_path :: "diagnostic \<Rightarrow> string \<Rightarrow> diagnostic" where
  "with_config_path d path = d\<lparr>diag_config_path := Some path\<rparr>"

definition with_source_path :: "diagnostic \<Rightarrow> string \<Rightarrow> diagnostic" where
  "with_source_path d path = d\<lparr>diag_source_path := Some path\<rparr>"

end
