(* ===== verification/Json_Value.thy ===== *)
theory Json_Value
  imports Prelude
begin

text \<open>
  \<open>serde_json::Value\<close> as the crate uses it. The representation of numbers is the library's
  own, so a JSON value is polymorphic in the type of its numbers. An object is a
  \<open>serde_json::Map\<close>, an ordered map from keys to values (the crate does not enable the
  \<open>preserve_order\<close> feature).

  \<open>json_lib\<close> collects what the crate calls of third-party code and of the Unicode tables:
  conversions of numbers, the streaming JSON parser, \<open>char::to_lowercase\<close> (on the UTF-8 form of
  one character) and \<open>str::to_lowercase\<close>. They are
  parameters of every definition that uses them.
\<close>

datatype 'n json =
    JNull
  | JBool bool
  | JNumber 'n
  | JString string
  | JArray "'n json list"
  | JObject "(string \<times> 'n json) list"

text \<open>
  What the streaming parser delivers for a text: the shape of the document in reading
  order. \<open>DBad\<close> is a syntax error before the value is complete; a sequence or a map says
  whether its end was reached.
\<close>

datatype 'n json_doc =
    DBad
  | DNull
  | DBool bool
  | DNumber "'n option"
  | DString string
  | DSeq "'n json_doc list" bool
  | DMap "(string \<times> 'n json_doc) list" bool

record 'n json_lib =
  num_to_string :: "'n \<Rightarrow> string"
  num_from_str :: "string \<Rightarrow> 'n option"
  num_from_usize :: "nat \<Rightarrow> 'n"
  num_as_u64 :: "'n \<Rightarrow> nat option"
  read_document :: "string \<Rightarrow> 'n json_doc \<times> bool"
  char_to_lowercase :: "string \<Rightarrow> string"
  str_to_lowercase :: "string \<Rightarrow> string"

text \<open>
  An instance of the library on natural numbers and ASCII text without a document reader,
  for closed examples.
\<close>

definition nat_lib :: "nat json_lib" where
  "nat_lib =
     \<lparr>num_to_string = show_nat,
      num_from_str = (\<lambda>s. if s \<noteq> [] \<and> list_all is_ascii_digit s
                          then Some (foldl (\<lambda>a c. 10 * a + digit_value c) 0 s) else None),
      num_from_usize = (\<lambda>n. n), num_as_u64 = Some,
      read_document = (\<lambda>_. (DBad, True)),
      char_to_lowercase = to_ascii_lowercase, str_to_lowercase = to_ascii_lowercase\<rparr>"

section \<open>Accessors\<close>

definition json_get :: "'n json \<Rightarrow> string \<Rightarrow> 'n json option" where
  "json_get v key = (case v of JObject obj \<Rightarrow> bt_get obj key | _ \<Rightarrow> None)"

definition json_as_str :: "'n json \<Rightarrow> string option" where
  "json_as_str v = (case v of JString s \<Rightarrow> Some s | _ \<Rightarrow> None)"

definition json_as_bool :: "'n json \<Rightarrow> bool option" where
  "json_as_bool v = (case v of JBool b \<Rightarrow> Some b | _ \<Rightarrow> None)"

definition json_as_array :: "'n json \<Rightarrow> 'n json list option" where
  "json_as_array v = (case v of JArray items \<Rightarrow> Some items | _ \<Rightarrow> None)"

definition json_as_object :: "'n json \<Rightarrow> (string \<times> 'n json) list option" where
  "json_as_object v = (case v of JObject obj \<Rightarrow> Some obj | _ \<Rightarrow> None)"

lemma json_as_iff [simp]:
  "json_as_str v = Some s \<longleftrightarrow> v = JString s"
  "json_as_bool v = Some b \<longleftrightarrow> v = JBool b"
  "json_as_array v = Some items \<longleftrightarrow> v = JArray items"
  "json_as_object v = Some obj \<longleftrightarrow> v = JObject obj"
  by (cases v; auto simp: json_as_str_def json_as_bool_def json_as_array_def json_as_object_def)+

lemma json_as_simps [simp]:
  "json_as_str (JString s) = Some s"
  "json_as_bool (JBool b) = Some b"
  "json_as_array (JArray items) = Some items"
  "json_as_object (JObject obj) = Some obj"
  by simp_all

text \<open>\<open>value[key]\<close> reads \<open>Null\<close> for a missing field.\<close>

definition json_index :: "'n json \<Rightarrow> string \<Rightarrow> 'n json" where
  "json_index v key = (case json_get v key of None \<Rightarrow> JNull | Some w \<Rightarrow> w)"

text \<open>\<open>Value::pointer\<close> with a fixed pointer made of field names.\<close>

fun json_pointer :: "'n json \<Rightarrow> string list \<Rightarrow> 'n json option" where
  "json_pointer v [] = Some v"
| "json_pointer v (key # rest) =
     (case json_get v key of None \<Rightarrow> None | Some w \<Rightarrow> json_pointer w rest)"

definition json_is_container :: "'n json \<Rightarrow> bool" where
  "json_is_container v = (case v of JArray _ \<Rightarrow> True | JObject _ \<Rightarrow> True | _ \<Rightarrow> False)"

text \<open>Every object of a value is a map: its keys strictly increase.\<close>

fun json_ok :: "'n json \<Rightarrow> bool" where
  "json_ok (JArray items) = list_all json_ok items"
| "json_ok (JObject obj) = (bt_ok obj \<and> list_all (\<lambda>(k, v). json_ok v) obj)"
| "json_ok _ = True"

lemma json_get_ok: "json_ok v \<Longrightarrow> json_get v key = Some w \<Longrightarrow> json_ok w"
  by (cases v) (auto simp: json_get_def bt_get_def list_all_iff dest!: map_of_SomeD)

lemma json_ok_insert:
  "json_ok (JObject obj) \<Longrightarrow> json_ok v \<Longrightarrow> json_ok (JObject (bt_insert key v obj))"
  by (auto simp: list_all_iff bt_ok_insert set_bt_insert)

lemma json_ok_remove: "json_ok (JObject obj) \<Longrightarrow> json_ok (JObject (bt_remove key obj))"
  by (auto simp: list_all_iff bt_ok_filter bt_remove_def)

end
