(* ===== verification/Expr_Syntax.thy ===== *)
theory Expr_Syntax
  imports Diagnostics Json_Value
begin

text \<open>
  The syntax tree of Burn Check expressions and their lexer (\<open>expression.rs\<close>). The lexer
  walks the bytes of the source; a position is the number of bytes consumed, and the bytes
  that remain stand for \<open>source[index..]\<close>.
\<close>

section \<open>Syntax trees\<close>

datatype path_segment = PathProperty string | PathIndex nat

datatype expression_function =
    StrictEquals | Contains | StartsWith | EndsWith | Join | Format | ToJSON | FromJSON

datatype 'n expression_literal =
    LString string | LNumber 'n | LBoolean bool | LNull

datatype binary_operator =
    OpLess | OpLessOrEqual | OpGreater | OpGreaterOrEqual | OpEqual | OpNotEqual | OpAnd | OpOr

datatype 'n expression =
    Literal "'n expression_literal"
  | Path "path_segment list"
  | Access "'n expression" "'n access_segment list"
  | Call expression_function "'n expression list"
  | Not "'n expression"
  | Binary binary_operator "'n expression" "'n expression"
and 'n access_segment =
    AProperty string | AIndex nat | ADynamic "'n expression" | AProjection

record expression_error =
  expr_error_code :: diagnostic_code
  expr_error_message :: string

definition function_parse :: "string \<Rightarrow> expression_function option" where
  "function_parse name =
     (let n = to_ascii_lowercase name in
      if n = ''strictequals'' then Some StrictEquals
      else if n = ''contains'' then Some Contains
      else if n = ''startswith'' then Some StartsWith
      else if n = ''endswith'' then Some EndsWith
      else if n = ''join'' then Some Join
      else if n = ''format'' then Some Format
      else if n = ''tojson'' then Some ToJSON
      else if n = ''fromjson'' then Some FromJSON
      else None)"

fun accepts_arity :: "expression_function \<Rightarrow> nat \<Rightarrow> bool" where
  "accepts_arity StrictEquals count = (count = 2)"
| "accepts_arity Contains count = (count = 2)"
| "accepts_arity StartsWith count = (count = 2)"
| "accepts_arity EndsWith count = (count = 2)"
| "accepts_arity Join count = (1 \<le> count \<and> count \<le> 2)"
| "accepts_arity Format count = (2 \<le> count)"
| "accepts_arity ToJSON count = (count = 1)"
| "accepts_arity FromJSON count = (count = 1)"

text \<open>The paths and the access chains that a visitor is called with, in order.\<close>

fun visit_paths :: "'n expression \<Rightarrow> path_segment list list"
  and visit_segment_paths :: "'n access_segment \<Rightarrow> path_segment list list" where
  "visit_paths (Literal _) = []"
| "visit_paths (Path segments) = [segments]"
| "visit_paths (Access base segments) =
     visit_paths base @ concat (map visit_segment_paths segments)"
| "visit_paths (Call _ arguments) = concat (map visit_paths arguments)"
| "visit_paths (Not v) = visit_paths v"
| "visit_paths (Binary _ l r) = visit_paths l @ visit_paths r"
| "visit_segment_paths (ADynamic e) = visit_paths e"
| "visit_segment_paths _ = []"

fun visit_accesses :: "'n expression \<Rightarrow> ('n expression \<times> 'n access_segment list) list"
  and visit_segment_accesses ::
    "'n access_segment \<Rightarrow> ('n expression \<times> 'n access_segment list) list" where
  "visit_accesses (Access base segments) =
     (base, segments) # visit_accesses base @ concat (map visit_segment_accesses segments)"
| "visit_accesses (Call _ arguments) = concat (map visit_accesses arguments)"
| "visit_accesses (Not v) = visit_accesses v"
| "visit_accesses (Binary _ l r) = visit_accesses l @ visit_accesses r"
| "visit_accesses (Literal _) = []"
| "visit_accesses (Path _) = []"
| "visit_segment_accesses (ADynamic e) = visit_accesses e"
| "visit_segment_accesses _ = []"

section \<open>Tokens\<close>

datatype 'n token_kind =
    TIdentifier string | TString string | TNumber 'n
  | TAnd | TOr | TEqual | TNotEqual | TLess | TLessOrEqual | TGreater | TGreaterOrEqual | TNot
  | TLeftParen | TRightParen | TLeftBracket | TRightBracket | TDot | TStar | TComma | TEnd

record 'n token =
  kind :: "'n token_kind"
  offset :: nat

definition invalid_expression :: "string \<Rightarrow> expression_error" where
  "invalid_expression message =
     \<lparr>expr_error_code = CompileInvalidExpression, expr_error_message = message\<rparr>"

definition number_error :: "nat \<Rightarrow> expression_error" where
  "number_error start =
     invalid_expression (''Invalid finite JSON number at expression byte '' @ show_nat start @ ''.'')"

text \<open>
  \<open>lex_string\<close> after the opening quote: the value and the bytes after the closing quote;
  \<open>None\<close> when the literal is not closed.
\<close>

fun lex_string :: "string \<Rightarrow> (string \<times> string) option" where
  "lex_string [] = None"
| "lex_string (c # rest) =
     (if c = CHR 0x27
      then (case rest of
              d # rest' \<Rightarrow>
                if d = CHR 0x27 then map_option (\<lambda>(v, r). (c # v, r)) (lex_string rest')
                else Some ([], rest)
            | [] \<Rightarrow> Some ([], rest))
      else map_option (\<lambda>(v, r). (c # v, r)) (lex_string rest))"

definition starts_with_char :: "(char \<Rightarrow> bool) \<Rightarrow> string \<Rightarrow> bool" where
  "starts_with_char P s = (case s of [] \<Rightarrow> False | c # _ \<Rightarrow> P c)"

text \<open>The stages of \<open>lex_number\<close>: each leaves the bytes after what it consumed.\<close>

definition skip_sign :: "string \<Rightarrow> string" where
  "skip_sign s = (if starts_with_char (\<lambda>c. c = CHR ''-'') s then tl s else s)"

definition skip_integer :: "string \<Rightarrow> string" where
  "skip_integer s =
     (if starts_with_char (\<lambda>c. c = CHR ''0'') s then tl s else dropWhile is_ascii_digit s)"

definition skip_fraction :: "string \<Rightarrow> string option" where
  "skip_fraction s =
     (if starts_with_char (\<lambda>c. c = CHR ''.'') s
      then (if starts_with_char is_ascii_digit (tl s)
            then Some (dropWhile is_ascii_digit (tl s)) else None)
      else Some s)"

definition skip_exponent :: "string \<Rightarrow> string option" where
  "skip_exponent s =
     (if starts_with_char (\<lambda>c. c = CHR ''e'' \<or> c = CHR ''E'') s
      then (let r = (if starts_with_char (\<lambda>c. c = CHR ''+'' \<or> c = CHR ''-'') (tl s)
                     then tl (tl s) else tl s)
            in if starts_with_char is_ascii_digit r
               then Some (dropWhile is_ascii_digit r) else None)
      else Some s)"

definition lex_number :: "'n json_lib \<Rightarrow> nat \<Rightarrow> string \<Rightarrow> expression_error + ('n \<times> string)" where
  "lex_number L start s =
     (case skip_fraction (skip_integer (skip_sign s)) of
        None \<Rightarrow> Inl (number_error start)
      | Some r \<Rightarrow>
          (case skip_exponent r of
             None \<Rightarrow> Inl (number_error start)
           | Some rest \<Rightarrow>
               (case num_from_str L (take (length s - length rest) s) of
                  None \<Rightarrow> Inl (number_error start)
                | Some n \<Rightarrow> Inr (n, rest))))"

definition is_identifier_start :: "char \<Rightarrow> bool" where
  "is_identifier_start c \<longleftrightarrow> is_ascii_alphabetic c \<or> c = CHR ''_''"

definition is_identifier_part :: "char \<Rightarrow> bool" where
  "is_identifier_part c \<longleftrightarrow> is_ascii_alphanumeric c \<or> c = CHR ''_''"

text \<open>One pass of the loop of \<open>lex\<close>: the token that starts with the byte \<open>c\<close>.\<close>

definition lex_token ::
  "'n json_lib \<Rightarrow> nat \<Rightarrow> char \<Rightarrow> string \<Rightarrow> expression_error + ('n token_kind \<times> string)" where
  "lex_token L start c rest =
     (let next = (\<lambda>d. starts_with_char (\<lambda>x. x = d) rest);
          number = (case lex_number L start (c # rest) of
                      Inl e \<Rightarrow> Inl e | Inr (n, r) \<Rightarrow> Inr (TNumber n, r))
      in if c = CHR ''&'' \<and> next (CHR ''&'') then Inr (TAnd, tl rest)
      else if c = CHR ''|'' \<and> next (CHR ''|'') then Inr (TOr, tl rest)
      else if c = CHR ''='' \<and> next (CHR ''='') then Inr (TEqual, tl rest)
      else if c = CHR ''!'' \<and> next (CHR ''='') then Inr (TNotEqual, tl rest)
      else if c = CHR ''!'' then Inr (TNot, rest)
      else if c = CHR ''<'' \<and> next (CHR ''='') then Inr (TLessOrEqual, tl rest)
      else if c = CHR ''<'' then Inr (TLess, rest)
      else if c = CHR ''>'' \<and> next (CHR ''='') then Inr (TGreaterOrEqual, tl rest)
      else if c = CHR ''>'' then Inr (TGreater, rest)
      else if c = CHR ''('' then Inr (TLeftParen, rest)
      else if c = CHR '')'' then Inr (TRightParen, rest)
      else if c = CHR ''['' then Inr (TLeftBracket, rest)
      else if c = CHR '']'' then Inr (TRightBracket, rest)
      else if c = CHR ''.'' then Inr (TDot, rest)
      else if c = CHR ''*'' then Inr (TStar, rest)
      else if c = CHR '','' then Inr (TComma, rest)
      else if c = CHR 0x27 then
        (case lex_string rest of
           None \<Rightarrow> Inl (invalid_expression (''Unterminated string literal at expression byte ''
                      @ show_nat start @ ''.''))
         | Some (v, r) \<Rightarrow> Inr (TString v, r))
      else if c = CHR ''-'' \<and> starts_with_char is_ascii_digit rest then number
      else if is_ascii_digit c then number
      else if is_identifier_start c
      then Inr (TIdentifier (c # takeWhile is_identifier_part rest), dropWhile is_identifier_part rest)
      else Inl (invalid_expression (''Unexpected expression character at byte ''
                  @ show_nat start @ ''.'')))"

lemma lex_string_shorter: "lex_string s = Some (v, r) \<Longrightarrow> length r < length s"
  by (induction s arbitrary: v r rule: lex_string.induct)
    (fastforce split: if_splits list.splits)+

lemma length_skip_sign: "length (skip_sign s) \<le> length s"
  by (cases s) (auto simp: skip_sign_def starts_with_char_def)

lemma length_skip_integer: "length (skip_integer s) \<le> length s"
  using length_dropWhile_le [of is_ascii_digit s]
  by (cases s) (auto simp: skip_integer_def starts_with_char_def)

lemma length_skip_fraction: "skip_fraction s = Some r \<Longrightarrow> length r \<le> length s"
  using length_dropWhile_le [of is_ascii_digit "tl s"] 
  by (cases s) (auto simp: skip_fraction_def starts_with_char_def split: if_splits)

lemma length_skip_exponent: "skip_exponent s = Some r \<Longrightarrow> length r \<le> length s"
  using length_dropWhile_le [of is_ascii_digit "tl s"] length_dropWhile_le [of is_ascii_digit "tl (tl s)"]
  by (cases s) (auto simp: skip_exponent_def starts_with_char_def Let_def split: if_splits)

lemma length_skip_signed_integer:
  assumes "is_ascii_digit c \<or> c = CHR ''-'' \<and> starts_with_char is_ascii_digit s"
  shows "length (skip_integer (skip_sign (c # s))) < length (c # s)"
proof (cases "c = CHR ''-''")
  case True
  then show ?thesis using length_skip_integer [of s]
    by (simp add: skip_sign_def starts_with_char_def)
next
  case False
  with assms have "is_ascii_digit c" by simp
  with False show ?thesis using length_dropWhile_le [of is_ascii_digit s]
    by (auto simp: skip_sign_def starts_with_char_def skip_integer_def)
qed

lemma lex_number_shorter:
  assumes "is_ascii_digit c \<or> c = CHR ''-'' \<and> starts_with_char is_ascii_digit s"
    and "lex_number L start (c # s) = Inr (n, r)"
  shows "length r < length (c # s)"
  using assms(2) length_skip_signed_integer [OF assms(1)]
  by (auto simp: lex_number_def split: option.splits
      dest!: length_skip_fraction length_skip_exponent)

lemma lex_token_shorter:
  assumes "lex_token L start c rest = Inr (k, r)"
  shows "length r < length (c # rest)"
proof -
  have tl: "length (tl rest) < Suc (length rest)" by simp
  note dw = le_imp_less_Suc [OF length_dropWhile_le [of is_identifier_part rest]]
  from assms show ?thesis
    unfolding lex_token_def Let_def
    using tl dw lex_string_shorter [of rest] lex_number_shorter [of c rest L start]
    by (auto split: if_splits option.splits sum.splits prod.splits simp: less_Suc_eq)
qed

function lex_loop :: "'n json_lib \<Rightarrow> nat \<Rightarrow> string \<Rightarrow> expression_error + 'n token list" where
  "lex_loop L index [] = Inr [\<lparr>kind = TEnd, offset = index\<rparr>]"
| "lex_loop L index (c # rest) =
     (if is_ascii_whitespace c then lex_loop L (index + 1) rest
      else (case lex_token L index c rest of
              Inl e \<Rightarrow> Inl e
            | Inr (k, r) \<Rightarrow>
                (case lex_loop L (index + (length (c # rest) - length r)) r of
                   Inl e \<Rightarrow> Inl e
                 | Inr ts \<Rightarrow> Inr (\<lparr>kind = k, offset = index\<rparr> # ts))))"
  by pat_completeness auto
termination
  by (relation "measure (\<lambda>(L, i, s). length s)") (auto dest: lex_token_shorter)

definition lex :: "'n json_lib \<Rightarrow> string \<Rightarrow> expression_error + 'n token list" where
  "lex L source = lex_loop L 0 source"

section \<open>The token stream\<close>

text \<open>Exactly the last token of a stream is \<open>End\<close>.\<close>

definition stream_ok :: "'n token list \<Rightarrow> bool" where
  "stream_ok ts \<longleftrightarrow> ts \<noteq> [] \<and> kind (last ts) = TEnd \<and> (\<forall>t \<in> set (butlast ts). kind t \<noteq> TEnd)"

lemma lex_token_not_end: "lex_token L start c rest = Inr (k, r) \<Longrightarrow> k \<noteq> TEnd"
  unfolding lex_token_def Let_def
  by (auto split: if_splits option.splits sum.splits prod.splits)

lemma stream_ok_Cons: "kind t \<noteq> TEnd \<Longrightarrow> stream_ok ts \<Longrightarrow> stream_ok (t # ts)"
  by (auto simp: stream_ok_def)

lemma lex_loop_stream: "lex_loop L i s = Inr ts \<Longrightarrow> stream_ok ts"
proof (induction L i s arbitrary: ts rule: lex_loop.induct)
  case (1 L i)
  then show ?case by (auto simp: stream_ok_def)
next
  case (2 L i c rest)
  show ?case
  proof (cases "is_ascii_whitespace c")
    case True
    with 2 show ?thesis by simp
  next
    case False
    with 2(3) obtain k r us where tok: "lex_token L i c rest = Inr (k, r)"
      and us: "lex_loop L (i + (length (c # rest) - length r)) r = Inr us"
      and ts: "ts = \<lparr>kind = k, offset = i\<rparr> # us"
      by (auto split: sum.splits prod.splits)
    from 2(2) [OF False tok refl us] lex_token_not_end [OF tok] show ?thesis
      unfolding ts by (intro stream_ok_Cons) simp_all
  qed
qed

definition quote_string :: "string \<Rightarrow> string" where
  "quote_string v = concat (map (\<lambda>c. if c = CHR 0x27 then [c, c] else [c]) v)"

text \<open>
  Every string literal survives the lexer: a value written between quotes with each
  quote doubled is read back as the same value, and lexing goes on right after it.
\<close>

lemma lex_string_quote:
  assumes "\<not> starts_with_char (\<lambda>c. c = CHR 0x27) rest"
  shows "lex_string (quote_string v @ CHR 0x27 # rest) = Some (v, rest)"
proof (induction v)
  case Nil
  with assms show ?case by (cases rest) (auto simp: quote_string_def starts_with_char_def)
next
  case (Cons c v)
  then show ?case by (auto simp: quote_string_def)
qed

end
