(* ===== verification/Budget.thy ===== *)
theory Budget
  imports Diagnostics
begin

text \<open>
  \<open>expression_eval/budget.rs\<close> and the limits of \<open>expression_eval.rs\<close>: the work budget that
  input preparation and action planning of one assessment share. The record is open, so
  that the evaluator's state extends it; each operation charges before the work it pays
  for and marks the budget exhausted when a limit fails.
\<close>

section \<open>Data\<close>

record evaluation_limits =
  max_depth :: nat
  max_steps :: nat

record evaluation_error =
  error_code :: diagnostic_code
  error_message :: string

record evaluation_budget =
  limits :: evaluation_limits
  max_items :: nat
  max_generated_bytes :: nat
  max_materialized_bytes :: nat
  steps :: nat
  visited_items :: nat
  generated_bytes :: nat
  materialized_bytes :: nat
  exhausted :: bool

definition DEFAULT_MAX_EVALUATION_DEPTH :: nat where
  "DEFAULT_MAX_EVALUATION_DEPTH = 32"

definition DEFAULT_MAX_EVALUATION_STEPS :: nat where
  "DEFAULT_MAX_EVALUATION_STEPS = 10000"

definition DEFAULT_MAX_EVALUATION_ITEMS :: nat where
  "DEFAULT_MAX_EVALUATION_ITEMS = 1000"

definition DEFAULT_MAX_GENERATED_BYTES :: nat where
  "DEFAULT_MAX_GENERATED_BYTES = 8 * 1024 * 1024"

definition DEFAULT_MAX_MATERIALIZED_BYTES :: nat where
  "DEFAULT_MAX_MATERIALIZED_BYTES = 8 * 1024 * 1024"

definition default_limits :: evaluation_limits where
  "default_limits =
     \<lparr>max_depth = DEFAULT_MAX_EVALUATION_DEPTH, max_steps = DEFAULT_MAX_EVALUATION_STEPS\<rparr>"

section \<open>Operations\<close>

definition limit_error :: "string \<Rightarrow> evaluation_error" where
  "limit_error message = \<lparr>error_code = EvaluationLimitExceeded, error_message = message\<rparr>"

definition invalid_error :: "string \<Rightarrow> evaluation_error" where
  "invalid_error message = \<lparr>error_code = RuntimeInvalidContext, error_message = message\<rparr>"

definition new_with_materialization_limit ::
  "evaluation_limits \<Rightarrow> nat \<Rightarrow> nat \<Rightarrow> nat \<Rightarrow> evaluation_budget" where
  "new_with_materialization_limit lim items generated materialized =
     \<lparr>limits = lim, max_items = items, max_generated_bytes = generated,
      max_materialized_bytes = materialized, steps = 0, visited_items = 0,
      generated_bytes = 0, materialized_bytes = 0, exhausted = False\<rparr>"

definition budget_new :: "evaluation_limits \<Rightarrow> nat \<Rightarrow> nat \<Rightarrow> evaluation_budget" where
  "budget_new lim items generated =
     new_with_materialization_limit lim items generated DEFAULT_MAX_MATERIALIZED_BYTES"

definition default_budget :: evaluation_budget where
  "default_budget =
     budget_new default_limits DEFAULT_MAX_EVALUATION_ITEMS DEFAULT_MAX_GENERATED_BYTES"

type_synonym ('r, 'a) metering = "('r evaluation_budget_scheme, evaluation_error, 'a) ev"

definition check_active :: "('r, unit) metering" where
  "check_active b =
     (if exhausted b then (Inl (limit_error ''The shared evaluation budget is exhausted.''), b)
      else (Inr (), b))"

definition budget_fail :: "string \<Rightarrow> ('r, unit) metering" where
  "budget_fail message b = (Inl (limit_error message), b\<lparr>exhausted := True\<rparr>)"

definition step :: "nat \<Rightarrow> ('r, unit) metering" where
  "step depth =
     ev_bind check_active (\<lambda>_ b.
       if max_depth (limits b) < depth
       then budget_fail ''Expression evaluation exceeded the depth limit.'' b
       else if max_steps (limits b) \<le> steps b
       then budget_fail ''Expression evaluation exceeded the step limit.'' b
       else (Inr (), b\<lparr>steps := steps b + 1\<rparr>))"

definition visit_items :: "nat \<Rightarrow> ('r, unit) metering" where
  "visit_items count =
     ev_bind check_active (\<lambda>_ b.
       if max_items b - visited_items b < count
       then budget_fail ''Expression evaluation exceeded the visited-item limit.'' b
       else (Inr (), b\<lparr>visited_items := visited_items b + count\<rparr>))"

definition reserve_generated_bytes :: "nat \<Rightarrow> ('r, unit) metering" where
  "reserve_generated_bytes count =
     ev_bind check_active (\<lambda>_ b.
       if max_generated_bytes b - generated_bytes b < count
       then budget_fail ''Expression evaluation exceeded the generated-byte limit.'' b
       else (Inr (), b\<lparr>generated_bytes := generated_bytes b + count\<rparr>))"

definition reserve_materialized_bytes :: "nat \<Rightarrow> ('r, unit) metering" where
  "reserve_materialized_bytes count =
     ev_bind check_active (\<lambda>_ b.
       if max_materialized_bytes b - materialized_bytes b < count
       then budget_fail ''Expression evaluation exceeded the materialized-byte limit.'' b
       else (Inr (), b\<lparr>materialized_bytes := materialized_bytes b + count\<rparr>))"

definition validate_for_resume :: "evaluation_budget \<Rightarrow> (evaluation_error, unit) res" where
  "validate_for_resume b =
     res_bind (fst (check_active b)) (\<lambda>_.
       if limits b \<noteq> default_limits
          \<or> max_items b \<noteq> DEFAULT_MAX_EVALUATION_ITEMS
          \<or> max_generated_bytes b \<noteq> DEFAULT_MAX_GENERATED_BYTES
          \<or> max_materialized_bytes b \<noteq> DEFAULT_MAX_MATERIALIZED_BYTES
       then Inl (limit_error ''Saved evaluation limits are incompatible.'')
       else Inr ())"

text \<open>The checks of \<open>Deserialize\<close> on the fields of a saved budget.\<close>

definition admit_saved_budget :: "evaluation_budget \<Rightarrow> (string, evaluation_budget) res" where
  "admit_saved_budget saved =
     (if DEFAULT_MAX_EVALUATION_DEPTH < max_depth (limits saved)
         \<or> DEFAULT_MAX_EVALUATION_STEPS < max_steps (limits saved)
         \<or> DEFAULT_MAX_EVALUATION_ITEMS < max_items saved
         \<or> DEFAULT_MAX_GENERATED_BYTES < max_generated_bytes saved
         \<or> DEFAULT_MAX_MATERIALIZED_BYTES < max_materialized_bytes saved
         \<or> max_steps (limits saved) < steps saved
         \<or> max_items saved < visited_items saved
         \<or> max_generated_bytes saved < generated_bytes saved
         \<or> max_materialized_bytes saved < materialized_bytes saved
      then Inl ''Invalid saved evaluation counters.''
      else Inr saved)"

section \<open>Metered computations\<close>

text \<open>Every counter is within its limit.\<close>

definition within_limits :: "'r evaluation_budget_scheme \<Rightarrow> bool" where
  "within_limits b \<longleftrightarrow>
     steps b \<le> max_steps (limits b) \<and> visited_items b \<le> max_items b
     \<and> generated_bytes b \<le> max_generated_bytes b
     \<and> materialized_bytes b \<le> max_materialized_bytes b"

text \<open>
  A later state of the same budget: the limits stay, no counter goes down, exhaustion is
  permanent, and counters that were within their limits stay within them.
\<close>

definition budget_extends ::
  "'r evaluation_budget_scheme \<Rightarrow> 'r evaluation_budget_scheme \<Rightarrow> bool" where
  "budget_extends b c \<longleftrightarrow>
     limits c = limits b \<and> max_items c = max_items b
     \<and> max_generated_bytes c = max_generated_bytes b
     \<and> max_materialized_bytes c = max_materialized_bytes b
     \<and> steps b \<le> steps c \<and> visited_items b \<le> visited_items c
     \<and> generated_bytes b \<le> generated_bytes c
     \<and> materialized_bytes b \<le> materialized_bytes c
     \<and> (exhausted b \<longrightarrow> exhausted c)
     \<and> (within_limits b \<longrightarrow> within_limits c)"

interpretation budget_order: state_relation budget_extends
  by unfold_locales (auto simp: budget_extends_def)

text \<open>
  The outcome of a computation started on an active budget agrees with the budget it
  leaves: it ends with the limit code exactly when it exhausts the budget.
\<close>

definition outcome_agrees :: "(evaluation_error + 'a) \<Rightarrow> 'r evaluation_budget_scheme \<Rightarrow> bool" where
  "outcome_agrees r c \<longleftrightarrow>
     (case r of Inr _ \<Rightarrow> \<not> exhausted c
      | Inl e \<Rightarrow> error_code e = EvaluationLimitExceeded \<longleftrightarrow> exhausted c)"

definition limited :: "(evaluation_error + 'a) \<Rightarrow> bool" where
  "limited r \<longleftrightarrow> (case r of Inl e \<Rightarrow> error_code e = EvaluationLimitExceeded | Inr _ \<Rightarrow> False)"

text \<open>Two runs agree when one hits a limit or both have the same outcome and effect.\<close>

definition same_run ::
  "(evaluation_error + 'a) \<times> 'r evaluation_budget_scheme
     \<Rightarrow> (evaluation_error + 'a) \<times> 'r evaluation_budget_scheme \<Rightarrow> bool" where
  "same_run x y \<longleftrightarrow>
     limited (fst x) \<or> limited (fst y)
     \<or> fst x = fst y \<and> evaluation_budget.more (snd x) = evaluation_budget.more (snd y)"

text \<open>
  A metered computation extends its budget, agrees with the budget it leaves, and reads
  the budget only to stop: runs on two budgets agree.
\<close>

definition metered :: "('r, 'a) metering \<Rightarrow> bool" where
  "metered m \<longleftrightarrow>
     keeps budget_extends m
     \<and> (\<forall>b. \<not> exhausted b \<longrightarrow> outcome_agrees (fst (m b)) (snd (m b)))
     \<and> (\<forall>b c. evaluation_budget.more b = evaluation_budget.more c \<longrightarrow> same_run (m b) (m c))"

lemma limited_simps [simp]:
  "limited (Inl e) = (error_code e = EvaluationLimitExceeded)" "\<not> limited (Inr x)"
  by (simp_all add: limited_def)

lemma limit_error_code [simp]: "error_code (limit_error m) = EvaluationLimitExceeded"
  by (simp add: limit_error_def)

lemma invalid_error_code [simp]: "error_code (invalid_error m) = RuntimeInvalidContext"
  by (simp add: invalid_error_def)

lemma meteredD:
  assumes "metered m"
  shows "budget_extends b (snd (m b))"
    and "\<not> exhausted b \<Longrightarrow> outcome_agrees (fst (m b)) (snd (m b))"
    and "evaluation_budget.more b = evaluation_budget.more c \<Longrightarrow> same_run (m b) (m c)"
  using assms by (auto simp: metered_def keeps_def)

lemma metered_return [simp, ev_keeps]: "metered (ev_return x)"
  by (simp add: metered_def outcome_agrees_def same_run_def budget_order.keeps_return)

lemma metered_Pair [simp]: "metered (Pair (Inr x))"
  using metered_return [of x] by (simp add: ev_return_def [abs_def])

lemma metered_fail [ev_keeps]:
  "error_code e \<noteq> EvaluationLimitExceeded \<Longrightarrow> metered (ev_fail e)"
  by (simp add: metered_def outcome_agrees_def same_run_def budget_order.keeps_fail)

lemma metered_invalid [simp, ev_keeps]: "metered (ev_fail (invalid_error m))"
  by (rule metered_fail) simp

lemma metered_bind [ev_keeps]:
  assumes m: "metered m" and f: "\<And>x. metered (f x)"
  shows "metered (ev_bind m f)"
  unfolding metered_def
proof (intro conjI allI impI)
  show "keeps budget_extends (ev_bind m f)"
    using m f by (auto simp: metered_def intro: budget_order.keeps_bind)
next
  fix b :: "'a evaluation_budget_scheme"
  assume active: "\<not> exhausted b"
  obtain r c where run: "m b = (r, c)" by (cases "m b")
  from meteredD(2) [OF m active] run have agrees: "outcome_agrees r c" by simp
  show "outcome_agrees (fst (ev_bind m f b)) (snd (ev_bind m f b))"
  proof (cases r)
    case (Inl e)
    with run agrees show ?thesis by (simp add: ev_bind_def outcome_agrees_def)
  next
    case (Inr x)
    with agrees have "\<not> exhausted c" by (simp add: outcome_agrees_def)
    from meteredD(2) [OF f this, of x] show ?thesis using run Inr
      by (simp add: ev_bind_def)
  qed
next
  fix b c :: "'a evaluation_budget_scheme"
  assume "evaluation_budget.more b = evaluation_budget.more c"
  note m' = meteredD(3) [OF m this]
  obtain r s where b: "m b = (r, s)" by (cases "m b")
  obtain r' s' where c: "m c = (r', s')" by (cases "m c")
  show "same_run (ev_bind m f b) (ev_bind m f c)"
  proof (cases "limited r \<or> limited r'")
    case True
    then show ?thesis
      by (auto simp: same_run_def limited_def ev_bind_def b c split: sum.splits)
  next
    case False
    with m' have "r = r'" "evaluation_budget.more s = evaluation_budget.more s'"
      by (auto simp: same_run_def b c)
    then show ?thesis
      using meteredD(3) [OF f, of s s'] by (cases r') (auto simp: same_run_def ev_bind_def b c)
  qed
qed

lemma metered_if [ev_keeps]:
  "(P \<Longrightarrow> metered m) \<Longrightarrow> (\<not> P \<Longrightarrow> metered n) \<Longrightarrow> metered (if P then m else n)"
  by simp

lemma metered_let [ev_keeps]: "(\<And>x. metered (f x)) \<Longrightarrow> metered (let x = e in f x)"
  by simp

lemma metered_case_option [ev_keeps]:
  "(\<And>x. y = Some x \<Longrightarrow> metered (f x)) \<Longrightarrow> (y = None \<Longrightarrow> metered n) \<Longrightarrow>
   metered (case y of None \<Rightarrow> n | Some x \<Rightarrow> f x)"
  by (cases y) simp_all

lemma metered_case_prod [ev_keeps]:
  "(\<And>x y. p = (x, y) \<Longrightarrow> metered (f x y)) \<Longrightarrow> metered (case p of (x, y) \<Rightarrow> f x y)"
  by (cases p) simp

lemma metered_case_sum [ev_keeps]:
  "(\<And>x. r = Inl x \<Longrightarrow> metered (f x)) \<Longrightarrow> (\<And>y. r = Inr y \<Longrightarrow> metered (g y)) \<Longrightarrow>
   metered (case r of Inl x \<Rightarrow> f x | Inr y \<Rightarrow> g y)"
  by (cases r) simp_all

lemma metered_fold [ev_keeps]:
  "(\<And>x a. x \<in> set xs \<Longrightarrow> metered (f x a)) \<Longrightarrow> metered (ev_fold f xs a)"
  by (induction xs arbitrary: a) (auto intro: metered_bind)

text \<open>
  The primitive charges: each adds to one counter and fails, with the budget exhausted,
  when the counter would pass its limit.
\<close>

lemmas charge_defs = step_def visit_items_def reserve_generated_bytes_def
  reserve_materialized_bytes_def check_active_def budget_fail_def ev_bind_def

lemma metered_step [simp, ev_keeps]: "metered (step d)"
  by (auto simp: metered_def keeps_def charge_defs budget_extends_def within_limits_def
      outcome_agrees_def same_run_def)

lemma metered_visit_items [simp, ev_keeps]: "metered (visit_items n)"
  by (auto simp: metered_def keeps_def charge_defs budget_extends_def within_limits_def
      outcome_agrees_def same_run_def)

lemma metered_reserve_generated [simp, ev_keeps]: "metered (reserve_generated_bytes n)"
  by (auto simp: metered_def keeps_def charge_defs budget_extends_def within_limits_def
      outcome_agrees_def same_run_def)

lemma metered_reserve_materialized [simp, ev_keeps]: "metered (reserve_materialized_bytes n)"
  by (auto simp: metered_def keeps_def charge_defs budget_extends_def within_limits_def
      outcome_agrees_def same_run_def)

lemma exhausted_stops:
  assumes "exhausted b"
  shows "step d b = (Inl (limit_error ''The shared evaluation budget is exhausted.''), b)"
    and "visit_items n b = (Inl (limit_error ''The shared evaluation budget is exhausted.''), b)"
    and "reserve_generated_bytes n b =
           (Inl (limit_error ''The shared evaluation budget is exhausted.''), b)"
    and "reserve_materialized_bytes n b =
           (Inl (limit_error ''The shared evaluation budget is exhausted.''), b)"
  using assms by (simp_all add: charge_defs)

lemma within_limits_new [simp]:
  "within_limits (new_with_materialization_limit lim i g m)"
  "within_limits (budget_new lim i g)"
  "within_limits default_budget"
  by (simp_all add: within_limits_def new_with_materialization_limit_def budget_new_def
      default_budget_def)

end
