(* ===== verification/Expr_Parser.thy ===== *)
theory Expr_Parser
  imports Expr_Syntax Budget
begin

text \<open>
  The recursive descent parser of \<open>expression.rs\<close>. The parser's state is the list of
  tokens from its cursor on; \<open>advance\<close> never moves past \<open>End\<close>. The mutually recursive
  methods take fuel, one unit per call and per loop pass, and \<open>None\<close> is running out of
  it; the depth check of every method bounds the fuel that is needed, and
  \<open>parse_expression\<close> starts with that much.
\<close>

section \<open>The code\<close>

definition MAX_EXPRESSION_PARSE_DEPTH :: nat where
  "MAX_EXPRESSION_PARSE_DEPTH = 128"

definition MAX_EXPRESSION_DEPTH :: nat where
  "MAX_EXPRESSION_DEPTH = DEFAULT_MAX_EVALUATION_DEPTH"

record 'n parsed_expression =
  parsed :: "'n expression"
  parsed_depth :: nat

type_synonym ('n, 'a) parse_result = "(expression_error + ('a \<times> 'n token list)) option"

definition p_ok :: "'a \<Rightarrow> 'n token list \<Rightarrow> ('n, 'a) parse_result" where
  "p_ok x ts = Some (Inr (x, ts))"

definition p_bind ::
  "('n, 'a) parse_result \<Rightarrow> ('a \<Rightarrow> 'n token list \<Rightarrow> ('n, 'b) parse_result) \<Rightarrow> ('n, 'b) parse_result"
where
  "p_bind m f =
     (case m of None \<Rightarrow> None
      | Some r \<Rightarrow> (case r of Inl e \<Rightarrow> Some (Inl e) | Inr (x, ts) \<Rightarrow> f x ts))"

definition current :: "'n token list \<Rightarrow> 'n token_kind" where
  "current ts = (case ts of [] \<Rightarrow> TEnd | t # _ \<Rightarrow> kind t)"

definition advance :: "'n token list \<Rightarrow> 'n token list" where
  "advance ts = (if current ts = TEnd then ts else tl ts)"

definition parser_error :: "'n token list \<Rightarrow> diagnostic_code \<Rightarrow> string \<Rightarrow> expression_error" where
  "parser_error ts code message =
     \<lparr>expr_error_code = code,
      expr_error_message = message @ '' (expression byte ''
        @ show_nat (case ts of [] \<Rightarrow> 0 | t # _ \<Rightarrow> offset t) @ '').''\<rparr>"

definition p_fail ::
  "'n token list \<Rightarrow> diagnostic_code \<Rightarrow> string \<Rightarrow> ('n, 'a) parse_result" where
  "p_fail ts code message = Some (Inl (parser_error ts code message))"

definition check_parse_depth ::
  "nat \<Rightarrow> 'n token list \<Rightarrow> ('n, unit) parse_result" where
  "check_parse_depth depth ts =
     (if MAX_EXPRESSION_PARSE_DEPTH < depth
      then p_fail ts CompileInvalidExpression
             ''Expression syntax exceeds the parser nesting limit of 128.''
      else p_ok () ts)"

definition expression_depth_error :: "'n token list \<Rightarrow> ('n, 'a) parse_result" where
  "expression_depth_error ts =
     p_fail ts CompileInvalidExpression
       (''Expression AST exceeds the maximum evaluation depth of ''
         @ show_nat MAX_EXPRESSION_DEPTH @ ''.'')"

definition binary_operator_of :: "'n token list \<Rightarrow> (binary_operator \<times> nat) option" where
  "binary_operator_of ts =
     (case current ts of
        TOr \<Rightarrow> Some (OpOr, 1) | TAnd \<Rightarrow> Some (OpAnd, 2)
      | TEqual \<Rightarrow> Some (OpEqual, 3) | TNotEqual \<Rightarrow> Some (OpNotEqual, 3)
      | TLess \<Rightarrow> Some (OpLess, 4) | TLessOrEqual \<Rightarrow> Some (OpLessOrEqual, 4)
      | TGreater \<Rightarrow> Some (OpGreater, 4) | TGreaterOrEqual \<Rightarrow> Some (OpGreaterOrEqual, 4)
      | _ \<Rightarrow> None)"

text \<open>What the first token of a primary expression announces.\<close>

datatype 'n primary_start =
    StartName string | StartLiteral "'n expression_literal" | StartGroup | StartEnd | StartOther

definition primary_start_of :: "'n token_kind \<Rightarrow> 'n primary_start" where
  "primary_start_of k =
     (case k of
        TIdentifier v \<Rightarrow>
          if v = ''true'' then StartLiteral (LBoolean True)
          else if v = ''false'' then StartLiteral (LBoolean False)
          else if v = ''null'' then StartLiteral LNull
          else StartName v
      | TString v \<Rightarrow> StartLiteral (LString v)
      | TNumber n \<Rightarrow> StartLiteral (LNumber n)
      | TLeftParen \<Rightarrow> StartGroup
      | TEnd \<Rightarrow> StartEnd
      | _ \<Rightarrow> StartOther)"

text \<open>The access that follows a dot.\<close>

definition dot_segment :: "'n token_kind \<Rightarrow> 'n access_segment option" where
  "dot_segment k =
     (case k of TIdentifier name \<Rightarrow> Some (AProperty name) | TStar \<Rightarrow> Some AProjection | _ \<Rightarrow> None)"

text \<open>\<open>push_access\<close> returns the extended expression; the caller clears \<open>grouped\<close>.\<close>

definition push_access ::
  "'n expression \<Rightarrow> 'n access_segment \<Rightarrow> bool \<Rightarrow> 'n expression" where
  "push_access e seg grouped =
     (case (e, seg) of
        (Access base segs, _) \<Rightarrow>
          if grouped then Access e [seg] else Access base (segs @ [seg])
      | (Path segs, AProperty name) \<Rightarrow> Path (segs @ [PathProperty name])
      | (Path segs, AIndex index) \<Rightarrow> Path (segs @ [PathIndex index])
      | _ \<Rightarrow> Access e [seg])"

text \<open>A bracket selector: literal keys and indexes are static, anything else dynamic.\<close>

definition selector_segment :: "'n json_lib \<Rightarrow> 'n expression \<Rightarrow> 'n access_segment" where
  "selector_segment L e =
     (case e of
        Literal (LString name) \<Rightarrow> AProperty name
      | Literal (LNumber n) \<Rightarrow>
          (case num_as_u64 L n of Some i \<Rightarrow> AIndex i | None \<Rightarrow> ADynamic e)
      | _ \<Rightarrow> ADynamic e)"

function (sequential) parse_binary ::
    "'n json_lib \<Rightarrow> nat \<Rightarrow> nat \<Rightarrow> nat \<Rightarrow> 'n token list \<Rightarrow> ('n, 'n parsed_expression) parse_result"
  and binary_loop ::
    "'n json_lib \<Rightarrow> nat \<Rightarrow> nat \<Rightarrow> nat \<Rightarrow> 'n parsed_expression \<Rightarrow> 'n token list
       \<Rightarrow> ('n, 'n parsed_expression) parse_result"
  and parse_unary ::
    "'n json_lib \<Rightarrow> nat \<Rightarrow> nat \<Rightarrow> 'n token list \<Rightarrow> ('n, 'n parsed_expression) parse_result"
  and parse_primary ::
    "'n json_lib \<Rightarrow> nat \<Rightarrow> nat \<Rightarrow> 'n token list \<Rightarrow> ('n, 'n parsed_expression) parse_result"
  and access_loop ::
    "'n json_lib \<Rightarrow> nat \<Rightarrow> nat \<Rightarrow> 'n expression \<Rightarrow> nat \<Rightarrow> bool \<Rightarrow> 'n token list
       \<Rightarrow> ('n, 'n parsed_expression) parse_result"
  and parse_call ::
    "'n json_lib \<Rightarrow> nat \<Rightarrow> string \<Rightarrow> nat \<Rightarrow> 'n token list
       \<Rightarrow> ('n, 'n parsed_expression) parse_result"
  and call_arguments ::
    "'n json_lib \<Rightarrow> nat \<Rightarrow> nat \<Rightarrow> 'n expression list \<Rightarrow> nat \<Rightarrow> 'n token list
       \<Rightarrow> ('n, 'n expression list \<times> nat) parse_result"
where
  "parse_binary L 0 minimum depth ts = None"
| "parse_binary L (Suc fuel) minimum depth ts =
     p_bind (check_parse_depth depth ts) (\<lambda>_ ts.
     p_bind (parse_unary L fuel (depth + 1) ts) (\<lambda>left ts.
     binary_loop L fuel minimum depth left ts))"
| "binary_loop L 0 minimum depth left ts = None"
| "binary_loop L (Suc fuel) minimum depth left ts =
     (case binary_operator_of ts of
        None \<Rightarrow> p_ok left ts
      | Some (operator, precedence) \<Rightarrow>
          if precedence < minimum then p_ok left ts
          else
            p_bind (parse_binary L fuel (precedence + 1) (depth + 1) (advance ts)) (\<lambda>right ts.
              (let expression_depth =
                     usize_saturating_add (max (parsed_depth left) (parsed_depth right)) 1
               in if MAX_EXPRESSION_DEPTH < expression_depth then expression_depth_error ts
                  else binary_loop L fuel minimum depth
                         \<lparr>parsed = Binary operator (parsed left) (parsed right),
                          parsed_depth = expression_depth\<rparr> ts)))"
| "parse_unary L 0 depth ts = None"
| "parse_unary L (Suc fuel) depth ts =
     p_bind (check_parse_depth depth ts) (\<lambda>_ ts.
       if current ts = TNot
       then
         p_bind (parse_unary L fuel (depth + 1) (advance ts)) (\<lambda>nested ts.
           (let expression_depth = usize_saturating_add (parsed_depth nested) 1
            in if MAX_EXPRESSION_DEPTH < expression_depth then expression_depth_error ts
               else p_ok \<lparr>parsed = Not (parsed nested), parsed_depth = expression_depth\<rparr> ts))
       else parse_primary L fuel (depth + 1) ts)"
| "parse_primary L 0 depth ts = None"
| "parse_primary L (Suc fuel) depth ts =
     p_bind (check_parse_depth depth ts) (\<lambda>_ ts.
       case primary_start_of (current ts) of
         StartLiteral l \<Rightarrow> access_loop L fuel depth (Literal l) 1 False (advance ts)
       | StartName v \<Rightarrow>
           if current (advance ts) = TLeftParen
           then
             p_bind (parse_call L fuel v depth (advance ts)) (\<lambda>call ts.
               access_loop L fuel depth (parsed call) (parsed_depth call) False ts)
           else access_loop L fuel depth (Path [PathProperty v]) 1 False (advance ts)
       | StartGroup \<Rightarrow>
           p_bind (parse_binary L fuel 0 (depth + 1) (advance ts)) (\<lambda>nested ts.
             if current ts \<noteq> TRightParen
             then p_fail (advance ts) CompileInvalidExpression
                    ''Expected `)` to close the expression group.''
             else access_loop L fuel depth (parsed nested) (parsed_depth nested) True (advance ts))
       | StartEnd \<Rightarrow> p_fail (advance ts) CompileInvalidExpression ''Expected an expression value.''
       | StartOther \<Rightarrow> p_fail (advance ts) CompileInvalidExpression
                         ''Expected a literal, path, or parenthesized expression.'')"
| "access_loop L 0 depth e expression_depth grouped ts = None"
| "access_loop L (Suc fuel) depth e expression_depth grouped ts =
     (if current ts = TDot
      then
        (case dot_segment (current (advance ts)) of
           Some seg \<Rightarrow>
             access_loop L fuel depth (push_access e seg grouped) expression_depth False
               (advance (advance ts))
         | None \<Rightarrow> p_fail (advance (advance ts)) CompileInvalidExpression
                     ''Expected a property name after `.`.'')
      else if current ts = TLeftBracket
      then
        p_bind (parse_binary L fuel 0 (depth + 1) (advance ts)) (\<lambda>selector ts.
          if current ts \<noteq> TRightBracket
          then p_fail (advance ts) CompileInvalidExpression
                 ''Expected `]` after a bracket key or index.''
          else
            access_loop L fuel depth
              (push_access e (selector_segment L (parsed selector)) grouped)
              (max expression_depth (parsed_depth selector + 1)) False (advance ts))
      else if current ts = TLeftParen
      then p_fail ts CompileUnsupportedFeature
             ''Method calls and calls on computed values are not supported.''
      else if MAX_EXPRESSION_DEPTH < expression_depth then expression_depth_error ts
      else p_ok \<lparr>parsed = e, parsed_depth = expression_depth\<rparr> ts)"
| "parse_call L 0 name depth ts = None"
| "parse_call L (Suc fuel) name depth ts =
     (case function_parse name of
        None \<Rightarrow> p_fail ts CompileUnsupportedFeature ''Unknown expression function.''
      | Some f \<Rightarrow>
          (let ts = advance ts in
           p_bind (if current ts = TRightParen then p_ok ([], 1) ts
                   else call_arguments L fuel depth [] 1 ts) (\<lambda>(arguments, expression_depth) ts.
             if current ts \<noteq> TRightParen
             then p_fail (advance ts) CompileInvalidExpression
                    ''Expected `)` after function arguments.''
             else if \<not> accepts_arity f (length arguments)
             then p_fail (advance ts) CompileInvalidExpression
                    ''Wrong number of expression function arguments.''
             else p_ok \<lparr>parsed = Call f arguments, parsed_depth = expression_depth\<rparr>
                    (advance ts))))"
| "call_arguments L 0 depth arguments expression_depth ts = None"
| "call_arguments L (Suc fuel) depth arguments expression_depth ts =
     p_bind (parse_binary L fuel 0 (depth + 1) ts) (\<lambda>argument ts.
       (let arguments = arguments @ [parsed argument];
            expression_depth = max expression_depth (parsed_depth argument + 1)
        in if current ts \<noteq> TComma then p_ok (arguments, expression_depth) ts
           else call_arguments L fuel depth arguments expression_depth (advance ts)))"

  by pat_completeness auto
termination
  by (relation "measure (case_sum
        (case_sum (\<lambda>(L, fuel, _). fuel) (case_sum (\<lambda>(L, fuel, _). fuel) (\<lambda>(L, fuel, _). fuel)))
        (case_sum (case_sum (\<lambda>(L, fuel, _). fuel) (\<lambda>(L, fuel, _). fuel))
          (case_sum (\<lambda>(L, fuel, _). fuel) (\<lambda>(L, fuel, _). fuel))))") simp_all

definition parse_expression :: "'n json_lib \<Rightarrow> string \<Rightarrow> (expression_error + 'n expression) option" where
  "parse_expression L source =
     (case lex L source of
        Inl e \<Rightarrow> Some (Inl e)
      | Inr ts \<Rightarrow>
          (case p_bind (parse_binary L (MAX_EXPRESSION_PARSE_DEPTH + 2 + length ts) 0 0 ts) (\<lambda>e ts.
                  if current ts \<noteq> TEnd
                  then p_fail ts CompileInvalidExpression
                         ''Unexpected content after the expression.''
                  else p_ok (parsed e) ts) of
             None \<Rightarrow> None
           | Some (Inl e) \<Rightarrow> Some (Inl e)
           | Some (Inr (e, _)) \<Rightarrow> Some (Inr e)))"

section \<open>What every parsed expression satisfies\<close>

text \<open>
  Well-formed trees: a path starts with a name, an access has a segment, and a call has
  an accepted number of arguments.
\<close>

fun expr_wf :: "'n expression \<Rightarrow> bool" and segment_wf :: "'n access_segment \<Rightarrow> bool" where
  "expr_wf (Literal _) = True"
| "expr_wf (Path segs) = (case segs of PathProperty _ # _ \<Rightarrow> True | _ \<Rightarrow> False)"
| "expr_wf (Access base segs) = (expr_wf base \<and> segs \<noteq> [] \<and> list_all segment_wf segs)"
| "expr_wf (Call f arguments) = (accepts_arity f (length arguments) \<and> list_all expr_wf arguments)"
| "expr_wf (Not e) = expr_wf e"
| "expr_wf (Binary _ l r) = (expr_wf l \<and> expr_wf r)"
| "segment_wf (ADynamic e) = expr_wf e"
| "segment_wf _ = True"

text \<open>
  The nesting of operators, calls and dynamic selectors. The segments of an access and the
  nesting of an access in another one do not count.
\<close>

fun counted_depth :: "'n expression \<Rightarrow> nat" and segment_depth :: "'n access_segment \<Rightarrow> nat" where
  "counted_depth (Literal _) = 1"
| "counted_depth (Path _) = 1"
| "counted_depth (Access base segs) = fold max (map segment_depth segs) (counted_depth base)"
| "counted_depth (Call _ arguments) = fold max (map (\<lambda>a. counted_depth a + 1) arguments) 1"
| "counted_depth (Not e) = counted_depth e + 1"
| "counted_depth (Binary _ l r) = max (counted_depth l) (counted_depth r) + 1"
| "segment_depth (ADynamic e) = counted_depth e + 1"
| "segment_depth _ = 0"

lemma fold_max_le: "fold max xs (a::nat) \<le> b \<longleftrightarrow> a \<le> b \<and> (\<forall>x \<in> set xs. x \<le> b)"
  by (induction xs arbitrary: a) auto

lemma push_access_wf:
  "expr_wf e \<Longrightarrow> segment_wf seg \<Longrightarrow> expr_wf (push_access e seg grouped)"
  by (auto simp: push_access_def split: expression.splits access_segment.splits
      list.splits path_segment.splits)

lemma push_access_depth:
  "counted_depth e \<le> n \<Longrightarrow> segment_depth seg \<le> n \<Longrightarrow> counted_depth (push_access e seg grouped) \<le> n"
  by (auto simp: push_access_def fold_max_le split: expression.splits access_segment.splits)

lemma selector_segment_ok:
  assumes "expr_wf e"
  shows "segment_wf (selector_segment L e)"
    and "segment_depth (selector_segment L e) \<le> counted_depth e + 1"
  using assms
  by (auto simp: selector_segment_def split: expression.splits expression_literal.splits
      option.splits)

lemma dot_segment_ok:
  "dot_segment k = Some seg \<Longrightarrow> segment_wf seg \<and> segment_depth seg = 0 \<and> k \<noteq> TEnd"
  by (auto simp: dot_segment_def split: token_kind.splits)

section \<open>Outcomes of the parser\<close>

text \<open>
  A parse meets a postcondition when it does not run out of fuel, a result satisfies it,
  and an error carries one of the two codes of the parser.
\<close>

definition p_post :: "('n, 'a) parse_result \<Rightarrow> ('a \<Rightarrow> 'n token list \<Rightarrow> bool) \<Rightarrow> bool" where
  "p_post m Q \<longleftrightarrow>
     (case m of None \<Rightarrow> False
      | Some (Inl e) \<Rightarrow> expr_error_code e \<in> {CompileInvalidExpression, CompileUnsupportedFeature}
      | Some (Inr (x, ts)) \<Rightarrow> Q x ts)"

lemma p_post_ok [simp]: "p_post (p_ok x ts) Q = Q x ts"
  by (simp add: p_post_def p_ok_def)

lemma p_post_fail [simp]:
  "p_post (p_fail ts CompileInvalidExpression m) Q"
  "p_post (p_fail ts CompileUnsupportedFeature m) Q"
  "p_post (expression_depth_error ts) Q"
  by (simp_all add: p_post_def p_fail_def parser_error_def expression_depth_error_def)

lemma p_post_bind:
  "p_post m P \<Longrightarrow> (\<And>x ts. P x ts \<Longrightarrow> p_post (f x ts) Q) \<Longrightarrow> p_post (p_bind m f) Q"
proof -
  assume m: "p_post m P" and f: "\<And>x ts. P x ts \<Longrightarrow> p_post (f x ts) Q"
  from m show ?thesis
  proof (cases m)
    case (Some r)
    show ?thesis
    proof (cases r)
      case (Inl e)
      with m Some show ?thesis by (simp add: p_post_def p_bind_def)
    next
      case (Inr p)
      with m Some have "P (fst p) (snd p)" by (simp add: p_post_def split: prod.splits)
      from f [OF this] Some Inr show ?thesis by (cases p) (simp add: p_bind_def)
    qed
  qed (simp add: p_post_def)
qed

lemma p_post_mono: "p_post m P \<Longrightarrow> (\<And>x ts. P x ts \<Longrightarrow> Q x ts) \<Longrightarrow> p_post m Q"
  by (auto simp: p_post_def split: option.splits sum.splits)

lemma p_post_check_depth:
  "(depth \<le> MAX_EXPRESSION_PARSE_DEPTH \<Longrightarrow> p_post (f () ts) Q) \<Longrightarrow>
   p_post (p_bind (check_parse_depth depth ts) f) Q"
  by (auto simp: check_parse_depth_def p_bind_def p_ok_def p_fail_def p_post_def parser_error_def)

lemma stream_advance:
  assumes "stream_ok ts" "current ts \<noteq> TEnd"
  shows "stream_ok (advance ts)" and "length ts = Suc (length (advance ts))"
  using assms by (cases ts; auto simp: stream_ok_def advance_def current_def split: if_splits)+

definition parsed_ok :: "'n parsed_expression \<Rightarrow> bool" where
  "parsed_ok e \<longleftrightarrow>
     expr_wf (parsed e) \<and> counted_depth (parsed e) \<le> parsed_depth e
     \<and> parsed_depth e \<le> MAX_EXPRESSION_DEPTH"

text \<open>The specification of each method, for a given amount of fuel.\<close>

definition enough :: "nat \<Rightarrow> nat \<Rightarrow> 'n token list \<Rightarrow> bool" where
  "enough fuel depth ts \<longleftrightarrow>
     stream_ok ts \<and> depth \<le> MAX_EXPRESSION_PARSE_DEPTH + 1
     \<and> MAX_EXPRESSION_PARSE_DEPTH + 1 + length ts < fuel + depth"

lemma enough_deeper:
  "enough (Suc fuel) depth ts \<Longrightarrow> depth \<le> MAX_EXPRESSION_PARSE_DEPTH \<Longrightarrow> stream_ok us \<Longrightarrow>
   length us \<le> length ts \<Longrightarrow> enough fuel (depth + 1) us"
  by (simp add: enough_def)

lemma enough_shorter:
  "enough (Suc fuel) depth ts \<Longrightarrow> stream_ok us \<Longrightarrow> length us < length ts \<Longrightarrow> enough fuel depth us"
  by (simp add: enough_def)

lemma enough_stream: "enough fuel depth ts \<Longrightarrow> stream_ok ts"
  by (simp add: enough_def)

lemmas enough_rules = enough_deeper enough_shorter enough_stream

definition consumed :: "'n token list \<Rightarrow> 'n parsed_expression \<Rightarrow> 'n token list \<Rightarrow> bool" where
  "consumed ts e us \<longleftrightarrow> parsed_ok e \<and> stream_ok us \<and> length us < length ts"

definition kept :: "'n token list \<Rightarrow> 'n parsed_expression \<Rightarrow> 'n token list \<Rightarrow> bool" where
  "kept ts e us \<longleftrightarrow> parsed_ok e \<and> stream_ok us \<and> length us \<le> length ts"

definition binary_spec :: "'n json_lib \<Rightarrow> nat \<Rightarrow> bool" where
  "binary_spec L fuel \<longleftrightarrow>
     (\<forall>minimum depth ts. enough fuel depth ts \<longrightarrow>
        p_post (parse_binary L fuel minimum depth ts) (consumed ts))"

definition binary_loop_spec :: "'n json_lib \<Rightarrow> nat \<Rightarrow> bool" where
  "binary_loop_spec L fuel \<longleftrightarrow>
     (\<forall>minimum depth left ts. enough fuel depth ts \<longrightarrow> depth \<le> MAX_EXPRESSION_PARSE_DEPTH \<longrightarrow>
        parsed_ok left \<longrightarrow> p_post (binary_loop L fuel minimum depth left ts) (kept ts))"

definition unary_spec :: "'n json_lib \<Rightarrow> nat \<Rightarrow> bool" where
  "unary_spec L fuel \<longleftrightarrow>
     (\<forall>depth ts. enough fuel depth ts \<longrightarrow> p_post (parse_unary L fuel depth ts) (consumed ts))"

definition primary_spec :: "'n json_lib \<Rightarrow> nat \<Rightarrow> bool" where
  "primary_spec L fuel \<longleftrightarrow>
     (\<forall>depth ts. enough fuel depth ts \<longrightarrow> p_post (parse_primary L fuel depth ts) (consumed ts))"

definition access_spec :: "'n json_lib \<Rightarrow> nat \<Rightarrow> bool" where
  "access_spec L fuel \<longleftrightarrow>
     (\<forall>depth e n grouped ts. enough fuel depth ts \<longrightarrow> depth \<le> MAX_EXPRESSION_PARSE_DEPTH \<longrightarrow>
        expr_wf e \<longrightarrow> counted_depth e \<le> n \<longrightarrow>
        p_post (access_loop L fuel depth e n grouped ts) (kept ts))"

definition call_spec :: "'n json_lib \<Rightarrow> nat \<Rightarrow> bool" where
  "call_spec L fuel \<longleftrightarrow>
     (\<forall>name depth ts. enough fuel depth ts \<longrightarrow> depth \<le> MAX_EXPRESSION_PARSE_DEPTH \<longrightarrow>
        current ts = TLeftParen \<longrightarrow>
        p_post (parse_call L fuel name depth ts) (\<lambda>e us.
          expr_wf (parsed e) \<and> counted_depth (parsed e) \<le> parsed_depth e
          \<and> stream_ok us \<and> length us < length ts))"

definition arguments_spec :: "'n json_lib \<Rightarrow> nat \<Rightarrow> bool" where
  "arguments_spec L fuel \<longleftrightarrow>
     (\<forall>depth args n ts. enough fuel depth ts \<longrightarrow> depth \<le> MAX_EXPRESSION_PARSE_DEPTH \<longrightarrow>
        list_all expr_wf args \<longrightarrow> counted_depth (Call Format args) \<le> n \<longrightarrow>
        p_post (call_arguments L fuel depth args n ts) (\<lambda>(args', n') us.
          list_all expr_wf args' \<and> counted_depth (Call Format args') \<le> n'
          \<and> stream_ok us \<and> length us \<le> length ts))"

lemmas parser_specs = binary_spec_def binary_loop_spec_def unary_spec_def primary_spec_def
  access_spec_def call_spec_def arguments_spec_def

lemma binary_step:
  assumes "unary_spec L fuel" "binary_loop_spec L fuel"
  shows "binary_spec L (Suc fuel)"
  unfolding binary_spec_def
proof (intro allI impI)
  fix minimum depth and ts :: "'a token list"
  assume en: "enough (Suc fuel) depth ts"
  show "p_post (parse_binary L (Suc fuel) minimum depth ts) (consumed ts)"
    unfolding parse_binary.simps
  proof (rule p_post_check_depth, rule p_post_bind)
    assume d: "depth \<le> MAX_EXPRESSION_PARSE_DEPTH"
    show "p_post (parse_unary L fuel (depth + 1) ts) (consumed ts)"
      using assms(1) enough_deeper [OF en d enough_stream [OF en]] by (simp add: unary_spec_def)
    fix left us
    assume left: "consumed ts left us"
    then have "p_post (binary_loop L fuel minimum depth left us) (kept us)"
      using assms(2) d enough_shorter [OF en, of us] by (simp add: binary_loop_spec_def consumed_def)
    with left show "p_post (binary_loop L fuel minimum depth left us) (consumed ts)"
      by (auto simp: p_post_def kept_def consumed_def split: option.splits sum.splits)
  qed
qed

lemma binary_loop_step:
  assumes B: "binary_spec L fuel" and BL: "binary_loop_spec L fuel"
  shows "binary_loop_spec L (Suc fuel)"
  unfolding binary_loop_spec_def
proof (intro allI impI)
  fix minimum depth and left :: "'a parsed_expression" and ts :: "'a token list"
  assume en: "enough (Suc fuel) depth ts" and d: "depth \<le> MAX_EXPRESSION_PARSE_DEPTH"
    and left: "parsed_ok left"
  have stop: "kept ts left ts" using left en by (simp add: kept_def enough_def)
  show "p_post (binary_loop L (Suc fuel) minimum depth left ts) (kept ts)"
  proof (cases "binary_operator_of ts")
    case None
    with stop show ?thesis by simp
  next
    case (Some op)
    then obtain operator precedence where op: "binary_operator_of ts = Some (operator, precedence)"
      by (cases op) simp
    then have cur: "current ts \<noteq> TEnd" by (auto simp: binary_operator_of_def)
    note adv = stream_advance [OF _ cur]
    have "p_post (parse_binary L fuel (precedence + 1) (depth + 1) (advance ts))
            (consumed (advance ts))"
      using B enough_deeper [OF en d, of "advance ts"] adv enough_stream [OF en] by (simp add: binary_spec_def)
    moreover have "p_post
        (let n = usize_saturating_add (max (parsed_depth left) (parsed_depth right)) 1
         in if MAX_EXPRESSION_DEPTH < n then expression_depth_error us
            else binary_loop L fuel minimum depth
                   \<lparr>parsed = Binary operator (parsed left) (parsed right), parsed_depth = n\<rparr> us)
        (kept ts)"
      if right: "consumed (advance ts) right us" for right us
    proof -
      let ?n = "usize_saturating_add (max (parsed_depth left) (parsed_depth right)) 1"
      let ?e = "\<lparr>parsed = Binary operator (parsed left) (parsed right), parsed_depth = ?n\<rparr>"
      have n: "?n = max (parsed_depth left) (parsed_depth right) + 1"
        using left right by (auto simp: parsed_ok_def consumed_def usize_saturating_add_def
            usize_max_def MAX_EXPRESSION_DEPTH_def DEFAULT_MAX_EVALUATION_DEPTH_def)
      have "p_post (binary_loop L fuel minimum depth ?e us) (kept us)"
        if "\<not> MAX_EXPRESSION_DEPTH < ?n"
      proof -
        have "parsed_ok ?e"
          using that left right unfolding n by (auto simp: parsed_ok_def consumed_def)
        then show ?thesis using BL d right adv enough_stream [OF en] enough_shorter [OF en, of us]
          by (simp add: binary_loop_spec_def consumed_def)
      qed
      then show ?thesis
        unfolding Let_def using right en adv(2)
        by (auto simp: enough_def consumed_def kept_def elim!: p_post_mono)
    qed
    ultimately show ?thesis
      using stop by (simp add: op p_post_bind)
  qed
qed

lemma unary_step:
  assumes U: "unary_spec L fuel" and P: "primary_spec L fuel"
  shows "unary_spec L (Suc fuel)"
  unfolding unary_spec_def
proof (intro allI impI)
  fix depth and ts :: "'a token list"
  assume en: "enough (Suc fuel) depth ts"
  show "p_post (parse_unary L (Suc fuel) depth ts) (consumed ts)"
    unfolding parse_unary.simps
  proof (rule p_post_check_depth)
    assume d: "depth \<le> MAX_EXPRESSION_PARSE_DEPTH"
    have primary: "p_post (parse_primary L fuel (depth + 1) ts) (consumed ts)"
      using P enough_deeper [OF en d enough_stream [OF en]] by (simp add: primary_spec_def)
    have nested: "p_post (parse_unary L fuel (depth + 1) (advance ts)) (consumed (advance ts))"
      if "current ts = TNot"
      using U that stream_advance [of ts] enough_stream [OF en] enough_deeper [OF en d, of "advance ts"]
      by (simp add: unary_spec_def)
    show "p_post (if current ts = TNot
       then p_bind (parse_unary L fuel (depth + 1) (advance ts)) (\<lambda>nested ts.
              let n = usize_saturating_add (parsed_depth nested) 1
              in if MAX_EXPRESSION_DEPTH < n then expression_depth_error ts
                 else p_ok \<lparr>parsed = Not (parsed nested), parsed_depth = n\<rparr> ts)
       else parse_primary L fuel (depth + 1) ts) (consumed ts)"
      using primary nested stream_advance [of ts] en
      by (auto intro!: p_post_bind simp: Let_def consumed_def parsed_ok_def enough_def
          usize_saturating_add_def usize_max_def MAX_EXPRESSION_DEPTH_def
          DEFAULT_MAX_EVALUATION_DEPTH_def)
  qed
qed

lemma primary_step:
  assumes B: "binary_spec L fuel" and A: "access_spec L fuel" and C: "call_spec L fuel"
  shows "primary_spec L (Suc fuel)"
  unfolding primary_spec_def
proof (intro allI impI)
  fix depth and ts :: "'a token list"
  assume en: "enough (Suc fuel) depth ts"
  show "p_post (parse_primary L (Suc fuel) depth ts) (consumed ts)"
    unfolding parse_primary.simps
  proof (rule p_post_check_depth)
    assume d: "depth \<le> MAX_EXPRESSION_PARSE_DEPTH"
    have go: "p_post (access_loop L fuel depth e n g us) (consumed ts)"
      if "expr_wf e" "counted_depth e \<le> n" "stream_ok us" "length us < length ts" for e n g us
    proof -
      have "p_post (access_loop L fuel depth e n g us) (kept us)"
        using A d that enough_shorter [OF en, of us] by (simp add: access_spec_def)
      with that(4) show ?thesis
        by (auto simp: kept_def consumed_def elim!: p_post_mono)
    qed
    have group: "p_post (parse_binary L fuel 0 (Suc depth) (advance ts)) (consumed (advance ts))"
      if "current ts \<noteq> TEnd"
      using B enough_deeper [OF en d, of "advance ts"] stream_advance [OF _ that] enough_stream [OF en]
      by (simp add: binary_spec_def)
    have call: "p_post (parse_call L fuel v depth (advance ts)) (\<lambda>e us.
          expr_wf (parsed e) \<and> counted_depth (parsed e) \<le> parsed_depth e
          \<and> stream_ok us \<and> length us < length (advance ts))"
      if "current ts \<noteq> TEnd" "current (advance ts) = TLeftParen" for v
      using C d enough_shorter [OF en, of "advance ts"] stream_advance [OF _ that(1)] that(2)
        enough_stream [OF en]
      by (simp add: call_spec_def)
    have not_end: "current ts \<noteq> TEnd" if "primary_start_of (current ts) \<noteq> StartEnd"
      using that by (auto simp: primary_start_of_def)
    note adv = stream_advance [OF _ not_end]
    have stream: "stream_ok ts" using en by (simp add: enough_def)
    have after_group: "p_post (if current us \<noteq> TRightParen
        then p_fail (advance us) CompileInvalidExpression m
        else access_loop L fuel depth (parsed nested) (parsed_depth nested) True (advance us))
        (consumed ts)"
      if "consumed (advance ts) nested us" "current ts \<noteq> TEnd" for nested us m
      using that stream_advance [of us] stream_advance [OF stream that(2)]
      by (auto simp: consumed_def parsed_ok_def intro!: go)
    show "p_post (case primary_start_of (current ts) of
         StartLiteral l \<Rightarrow> access_loop L fuel depth (Literal l) 1 False (advance ts)
       | StartName v \<Rightarrow>
           if current (advance ts) = TLeftParen
           then
             p_bind (parse_call L fuel v depth (advance ts)) (\<lambda>call ts.
               access_loop L fuel depth (parsed call) (parsed_depth call) False ts)
           else access_loop L fuel depth (Path [PathProperty v]) 1 False (advance ts)
       | StartGroup \<Rightarrow>
           p_bind (parse_binary L fuel 0 (depth + 1) (advance ts)) (\<lambda>nested ts.
             if current ts \<noteq> TRightParen
             then p_fail (advance ts) CompileInvalidExpression
                    ''Expected `)` to close the expression group.''
             else access_loop L fuel depth (parsed nested) (parsed_depth nested) True (advance ts))
       | StartEnd \<Rightarrow> p_fail (advance ts) CompileInvalidExpression ''Expected an expression value.''
       | StartOther \<Rightarrow> p_fail (advance ts) CompileInvalidExpression
                         ''Expected a literal, path, or parenthesized expression.'')
      (consumed ts)"
      using adv stream
      by (auto split: primary_start.splits intro!: go p_post_bind [OF call] p_post_bind [OF group]
          after_group not_end)
  qed
qed

lemma access_step:
  assumes B: "binary_spec L fuel" and A: "access_spec L fuel"
  shows "access_spec L (Suc fuel)"
  unfolding access_spec_def
proof (intro allI impI)
  fix depth n grouped and e :: "'a expression" and ts :: "'a token list"
  assume en: "enough (Suc fuel) depth ts" and d: "depth \<le> MAX_EXPRESSION_PARSE_DEPTH"
    and e: "expr_wf e" "counted_depth e \<le> n"
  have stream: "stream_ok ts" using en by (rule enough_stream)
  have go: "p_post (access_loop L fuel depth e' n' g us) (kept ts)"
    if "expr_wf e'" "counted_depth e' \<le> n'" "stream_ok us" "length us < length ts" for e' n' g us
  proof -
    have "p_post (access_loop L fuel depth e' n' g us) (kept us)"
      using A d that enough_shorter [OF en, of us] by (simp add: access_spec_def)
    with that(4) show ?thesis by (auto simp: kept_def elim!: p_post_mono)
  qed
  have dot: "p_post (access_loop L fuel depth (push_access e seg grouped) n False
                (advance (advance ts))) (kept ts)"
    if "current ts = TDot" "dot_segment (current (advance ts)) = Some seg" for seg
    using that e stream stream_advance [of ts] stream_advance [of "advance ts"]
      dot_segment_ok [OF that(2)]
    by (intro go push_access_wf push_access_depth) auto
  have bracket: "p_post (if current us \<noteq> TRightBracket
        then p_fail (advance us) CompileInvalidExpression m
        else access_loop L fuel depth (push_access e (selector_segment L (parsed selector)) grouped)
               (max n (parsed_depth selector + 1)) False (advance us)) (kept ts)"
    if "consumed (advance ts) selector us" "current ts = TLeftBracket" for selector us m
  proof -
    from that(1) have "segment_wf (selector_segment L (parsed selector))"
      "segment_depth (selector_segment L (parsed selector)) \<le> max n (parsed_depth selector + 1)"
      using selector_segment_ok [of "parsed selector" L]
      by (auto simp: consumed_def parsed_ok_def)
    with that e stream stream_advance [of ts] stream_advance [of us] show ?thesis
      by (auto simp: consumed_def intro!: go push_access_wf push_access_depth)
  qed
  have select: "p_post (parse_binary L fuel 0 (depth + 1) (advance ts)) (consumed (advance ts))"
    if "current ts = TLeftBracket"
    using B enough_deeper [OF en d, of "advance ts"] stream_advance [of ts] stream that
    by (simp add: binary_spec_def)
  show "p_post (access_loop L (Suc fuel) depth e n grouped ts) (kept ts)"
    unfolding access_loop.simps using dot p_post_bind [OF select bracket] e stream
    by (auto split: option.splits simp: kept_def parsed_ok_def simp del: add_Suc_right)
qed

lemma call_step:
  assumes R: "arguments_spec L fuel"
  shows "call_spec L (Suc fuel)"
  unfolding call_spec_def
proof (intro allI impI)
  fix name depth and ts :: "'a token list"
  assume en: "enough (Suc fuel) depth ts" and d: "depth \<le> MAX_EXPRESSION_PARSE_DEPTH"
    and paren: "current ts = TLeftParen"
  let ?post = "\<lambda>(args, n) us. list_all expr_wf args \<and> counted_depth (Call Format args) \<le> n
                \<and> stream_ok us \<and> length us \<le> length (advance ts)"
  have adv: "stream_ok (advance ts)" "length ts = Suc (length (advance ts))"
    using stream_advance [OF enough_stream [OF en]] paren by auto
  have "p_post (call_arguments L fuel depth [] 1 (advance ts)) ?post"
    using R d adv enough_shorter [OF en adv(1)] unfolding arguments_spec_def by simp
  then have "p_post (if current (advance ts) = TRightParen then p_ok ([], 1) (advance ts)
               else call_arguments L fuel depth [] 1 (advance ts)) ?post"
    using adv by simp
  moreover have "p_post ((\<lambda>(args, n) us.
        if current us \<noteq> TRightParen
        then p_fail (advance us) CompileInvalidExpression m
        else if \<not> accepts_arity f (length args)
        then p_fail (advance us) CompileInvalidExpression m'
        else p_ok \<lparr>parsed = Call f args, parsed_depth = n\<rparr> (advance us)) r us)
      (\<lambda>e us. expr_wf (parsed e) \<and> counted_depth (parsed e) \<le> parsed_depth e
          \<and> stream_ok us \<and> length us < length ts)"
    if "?post r us" for r us f m m'
    using that adv(2) stream_advance [of us] by (auto split: prod.splits)
  ultimately have "p_post (p_bind (if current (advance ts) = TRightParen then p_ok ([], 1) (advance ts)
               else call_arguments L fuel depth [] 1 (advance ts)) (\<lambda>(args, n) us.
        if current us \<noteq> TRightParen
        then p_fail (advance us) CompileInvalidExpression m
        else if \<not> accepts_arity f (length args)
        then p_fail (advance us) CompileInvalidExpression m'
        else p_ok \<lparr>parsed = Call f args, parsed_depth = n\<rparr> (advance us)))
      (\<lambda>e us. expr_wf (parsed e) \<and> counted_depth (parsed e) \<le> parsed_depth e
          \<and> stream_ok us \<and> length us < length ts)" for f m m'
    by (rule p_post_bind)
  then show "p_post (parse_call L (Suc fuel) name depth ts) (\<lambda>e us.
          expr_wf (parsed e) \<and> counted_depth (parsed e) \<le> parsed_depth e
          \<and> stream_ok us \<and> length us < length ts)"
    unfolding parse_call.simps Let_def by (cases "function_parse name") (simp_all only: option.case p_post_fail)
qed

lemma arguments_step:
  assumes B: "binary_spec L fuel" and R: "arguments_spec L fuel"
  shows "arguments_spec L (Suc fuel)"
  unfolding arguments_spec_def
proof (intro allI impI)
  fix depth n and args :: "'a expression list" and ts :: "'a token list"
  assume en: "enough (Suc fuel) depth ts" and d: "depth \<le> MAX_EXPRESSION_PARSE_DEPTH"
    and args: "list_all expr_wf args" "counted_depth (Call Format args) \<le> n"
  let ?post = "\<lambda>us (args', n') vs. list_all expr_wf args' \<and> counted_depth (Call Format args') \<le> n'
                \<and> stream_ok vs \<and> length vs \<le> length (us :: 'a token list)"
  have "p_post (parse_binary L fuel 0 (depth + 1) ts) (consumed ts)"
    using B enough_deeper [OF en d enough_stream [OF en]] by (simp add: binary_spec_def)
  moreover have "p_post (let as = args @ [parsed a]; n' = max n (parsed_depth a + 1)
       in if current us \<noteq> TComma then p_ok (as, n') us
          else call_arguments L fuel depth as n' (advance us)) (?post ts)"
    if a: "consumed ts a us" for a us
  proof -
    let ?as = "args @ [parsed a]" and ?n = "max n (parsed_depth a + 1)"
    have ok: "list_all expr_wf ?as" "counted_depth (Call Format ?as) \<le> ?n"
      using a args by (auto simp: consumed_def parsed_ok_def fold_max_le)
    have "p_post (call_arguments L fuel depth ?as ?n (advance us)) (?post (advance us))"
      if "current us = TComma"
      using R d a that ok stream_advance [of us] enough_shorter [OF en, of "advance us"]
      unfolding arguments_spec_def consumed_def by simp
    then show ?thesis
      using a ok stream_advance [of us]
      by (auto simp: Let_def consumed_def simp del: counted_depth.simps elim!: p_post_mono)
  qed
  ultimately show "p_post (call_arguments L (Suc fuel) depth args n ts) (?post ts)"
    unfolding call_arguments.simps by (rule p_post_bind)
qed

lemma parser_meets_specs:
  "binary_spec L fuel \<and> binary_loop_spec L fuel \<and> unary_spec L fuel \<and> primary_spec L fuel
   \<and> access_spec L fuel \<and> call_spec L fuel \<and> arguments_spec L fuel"
proof (induction fuel)
  case 0
  have "\<not> enough 0 depth ts" for depth and ts :: "'a token list" by (auto simp: enough_def)
  then show ?case by (simp add: parser_specs)
next
  case (Suc fuel)
  then show ?case
    by (blast intro: binary_step binary_loop_step unary_step primary_step access_step call_step
        arguments_step)
qed

lemma lex_number_error:
  "lex_number L i s = Inl e \<Longrightarrow> expr_error_code e = CompileInvalidExpression"
  by (auto simp: lex_number_def number_error_def invalid_expression_def split: option.splits)

lemma lex_token_error:
  assumes "lex_token L i c s = Inl e"
  shows "expr_error_code e = CompileInvalidExpression"
  using assms unfolding lex_token_def Let_def
  by (auto simp: invalid_expression_def dest: lex_number_error
      split: if_splits option.splits sum.splits prod.splits)

lemma lex_error_code:
  "lex_loop L i s = Inl e \<Longrightarrow> expr_error_code e = CompileInvalidExpression"
proof (induction L i s rule: lex_loop.induct)
  case (2 L i c rest)
  then show ?case
    by (cases "lex_token L i c rest")
      (auto dest: lex_token_error split: if_splits sum.splits prod.splits)
qed simp

text \<open>
  C24. \<open>parse_expression\<close> terminates on every source: with the fuel it starts with, each
  source yields a syntax tree or an error. An error carries the invalid-expression or the
  unsupported-feature code. A tree is well formed, and its operators, calls and dynamic
  selectors nest at most 32 deep, the depth limit of the evaluator.
\<close>

theorem parse_expression_total:
  "case parse_expression L source of
     None \<Rightarrow> False
   | Some (Inl e) \<Rightarrow> expr_error_code e \<in> {CompileInvalidExpression, CompileUnsupportedFeature}
   | Some (Inr e) \<Rightarrow> expr_wf e \<and> counted_depth e \<le> DEFAULT_MAX_EVALUATION_DEPTH"
proof (cases "lex L source")
  case (Inl e)
  then show ?thesis by (simp add: parse_expression_def lex_def lex_error_code)
next
  case (Inr ts)
  then have "stream_ok ts" by (simp add: lex_def lex_loop_stream)
  then have "enough (MAX_EXPRESSION_PARSE_DEPTH + 2 + length ts) 0 ts" by (simp add: enough_def)
  then have "p_post (parse_binary L (MAX_EXPRESSION_PARSE_DEPTH + 2 + length ts) 0 0 ts) (consumed ts)"
    using parser_meets_specs [of L "MAX_EXPRESSION_PARSE_DEPTH + 2 + length ts"]
    by (simp add: binary_spec_def)
  then have "p_post (p_bind (parse_binary L (MAX_EXPRESSION_PARSE_DEPTH + 2 + length ts) 0 0 ts)
      (\<lambda>e ts. if current ts \<noteq> TEnd
         then p_fail ts CompileInvalidExpression ''Unexpected content after the expression.''
         else p_ok (parsed e) ts))
      (\<lambda>e us. expr_wf e \<and> counted_depth e \<le> DEFAULT_MAX_EVALUATION_DEPTH)"
    by (rule p_post_bind) (auto simp: consumed_def parsed_ok_def MAX_EXPRESSION_DEPTH_def)
  with Inr show ?thesis
    unfolding parse_expression_def p_post_def by (auto split: option.splits sum.splits)
qed

end
