(* ===== verification/Eval_Value.thy ===== *)
theory Eval_Value
  imports Expr_Syntax Budget
begin

text \<open>
  \<open>expression_eval/value.rs\<close>: evidence traces, the identity of frozen and generated
  values, provenance across JSON conversion, and the runtime values of the evaluator.

  An \<open>Arc<()>\<close> that marks a generated value is only ever compared by pointer, so a root is
  a number and the evaluator's state, which extends the budget, counts the roots handed
  out. \<open>Cow\<close> keeps the distinction between borrowed and owned values: only borrowed values
  pay for a copy.
\<close>

section \<open>Traces\<close>

datatype dependency_kind = DependsValue | DependsMembership

record evaluation_dependency =
  dep_path :: "path_segment list"
  dep_kind :: dependency_kind

type_synonym evaluation_trace = "evaluation_dependency list"

definition trace_merge :: "evaluation_trace \<Rightarrow> evaluation_trace \<Rightarrow> evaluation_trace" where
  "trace_merge self other = foldl (\<lambda>t d. if d \<in> set t then t else t @ [d]) self other"

definition trace_add ::
  "evaluation_trace \<Rightarrow> path_segment list \<Rightarrow> dependency_kind \<Rightarrow> evaluation_trace" where
  "trace_add self path k = trace_merge self [\<lparr>dep_path = path, dep_kind = k\<rparr>]"

section \<open>Identity, provenance and metadata\<close>

datatype value_identity =
    Frozen "path_segment list"
  | Generated nat "path_segment list"

fun identity_child :: "value_identity \<Rightarrow> path_segment \<Rightarrow> value_identity" where
  "identity_child (Frozen path) segment = Frozen (path @ [segment])"
| "identity_child (Generated root path) segment = Generated root (path @ [segment])"

fun identity_same :: "value_identity \<Rightarrow> value_identity \<Rightarrow> bool" where
  "identity_same (Frozen left) (Frozen right) = (left = right)"
| "identity_same (Generated left left_path) (Generated right right_path) =
     (left = right \<and> left_path = right_path)"
| "identity_same _ _ = False"

datatype value_provenance =
  Provenance (pv_origin: "path_segment list option") (pv_items: "value_provenance list")
    (pv_text_sources: evaluation_trace) (pv_membership_sources: evaluation_trace)
    (pv_encoded: "value_provenance option")

datatype value_metadata =
  Metadata (md_identity: "value_identity option") (md_origin: "path_segment list option")
    (md_dependencies: evaluation_trace) (md_items: "value_metadata list")
    (md_provenance: "value_provenance option") (md_encoded: "value_provenance option")
    (md_text_sources: evaluation_trace) (md_membership_sources: evaluation_trace)

definition provenance_child :: "value_provenance \<Rightarrow> path_segment \<Rightarrow> value_provenance" where
  "provenance_child p segment =
     (let plain = Provenance (map_option (\<lambda>path. path @ [segment]) (pv_origin p)) [] []
                    (pv_membership_sources p) None
      in case segment of
           PathIndex index \<Rightarrow>
             if index < length (pv_items p)
             then (let item = pv_items p ! index
                   in Provenance (pv_origin item) (pv_items item) (pv_text_sources item)
                        (trace_merge (pv_membership_sources item) (pv_membership_sources p))
                        (pv_encoded item))
             else plain
         | PathProperty _ \<Rightarrow> plain)"

definition collect_sources ::
  "value_provenance \<Rightarrow> 'n json \<Rightarrow> evaluation_trace \<Rightarrow> evaluation_trace" where
  "collect_sources p v sources =
     (let merged = trace_merge (trace_merge sources (pv_text_sources p)) (pv_membership_sources p)
      in if json_is_container v
         then (case pv_origin p of
                 Some origin \<Rightarrow> trace_add merged origin DependsMembership
               | None \<Rightarrow> merged)
         else merged)"

definition metadata_default :: value_metadata where
  "metadata_default = Metadata None None [] [] None None [] []"

definition metadata_frozen :: "path_segment list \<Rightarrow> value_metadata" where
  "metadata_frozen path = Metadata (Some (Frozen path)) (Some path) [] [] None None [] []"

definition metadata_derived :: "evaluation_trace \<Rightarrow> value_metadata" where
  "metadata_derived dependencies = Metadata None None dependencies [] None None [] []"

definition add_dependencies :: "evaluation_trace \<Rightarrow> value_metadata \<Rightarrow> value_metadata" where
  "add_dependencies t m =
     Metadata (md_identity m) (md_origin m) (trace_merge (md_dependencies m) t) (md_items m)
       (md_provenance m) (md_encoded m) (md_text_sources m) (md_membership_sources m)"

definition add_membership :: "evaluation_trace \<Rightarrow> value_metadata \<Rightarrow> value_metadata" where
  "add_membership t m =
     Metadata (md_identity m) (md_origin m) (md_dependencies m) (md_items m)
       (md_provenance m) (md_encoded m) (md_text_sources m)
       (trace_merge (md_membership_sources m) t)"

definition set_text_sources :: "evaluation_trace \<Rightarrow> value_metadata \<Rightarrow> value_metadata" where
  "set_text_sources t m =
     Metadata (md_identity m) (md_origin m) (md_dependencies m) (md_items m)
       (md_provenance m) (md_encoded m) t (md_membership_sources m)"

definition set_membership :: "evaluation_trace \<Rightarrow> value_metadata \<Rightarrow> value_metadata" where
  "set_membership t m =
     Metadata (md_identity m) (md_origin m) (md_dependencies m) (md_items m)
       (md_provenance m) (md_encoded m) (md_text_sources m) t"

definition set_encoded :: "value_provenance option \<Rightarrow> value_metadata \<Rightarrow> value_metadata" where
  "set_encoded e m =
     Metadata (md_identity m) (md_origin m) (md_dependencies m) (md_items m)
       (md_provenance m) e (md_text_sources m) (md_membership_sources m)"

definition set_items :: "value_metadata list \<Rightarrow> value_metadata \<Rightarrow> value_metadata" where
  "set_items items m =
     Metadata (md_identity m) (md_origin m) (md_dependencies m) items
       (md_provenance m) (md_encoded m) (md_text_sources m) (md_membership_sources m)"

definition restore_provenance :: "value_provenance \<Rightarrow> value_metadata \<Rightarrow> value_metadata" where
  "restore_provenance p m =
     Metadata (md_identity m) (md_origin m) (md_dependencies m) (md_items m)
       (Some p) (pv_encoded p) (pv_text_sources p) (pv_membership_sources p)"

definition metadata_child :: "value_metadata \<Rightarrow> path_segment \<Rightarrow> value_metadata" where
  "metadata_child m segment =
     (let plain =
            Metadata (map_option (\<lambda>i. identity_child i segment) (md_identity m))
              (map_option (\<lambda>path. path @ [segment]) (md_origin m)) (md_dependencies m) []
              None None [] (md_membership_sources m);
          computed =
            (case md_provenance m of
               None \<Rightarrow> plain
             | Some p \<Rightarrow>
                 add_membership (md_membership_sources m)
                   (restore_provenance (provenance_child p segment) plain))
      in case segment of
           PathIndex index \<Rightarrow>
             if index < length (md_items m)
             then add_membership (md_membership_sources m)
                    (add_dependencies (md_dependencies m) (md_items m ! index))
             else computed
         | PathProperty _ \<Rightarrow> computed)"

fun metadata_trace :: "value_metadata \<Rightarrow> evaluation_trace" where
  "metadata_trace (Metadata identity origin dependencies items p e text membership) =
     foldl trace_merge
       (case origin of None \<Rightarrow> dependencies
        | Some path \<Rightarrow> trace_add dependencies path DependsValue)
       (map metadata_trace items)"

definition metadata_membership_trace :: "value_metadata \<Rightarrow> evaluation_trace" where
  "metadata_membership_trace m =
     (let merged = trace_merge (md_dependencies m) (md_membership_sources m);
          origin = (case md_origin m of
                      Some path \<Rightarrow> Some path
                    | None \<Rightarrow> (case md_provenance m of None \<Rightarrow> None | Some p \<Rightarrow> pv_origin p))
      in case origin of None \<Rightarrow> merged | Some path \<Rightarrow> trace_add merged path DependsMembership)"

fun source_provenance :: "value_metadata \<Rightarrow> value_provenance" where
  "source_provenance (Metadata identity origin dependencies items p e text membership) =
     (case p of
        Some p' \<Rightarrow> Provenance (pv_origin p') (pv_items p') text membership e
      | None \<Rightarrow> Provenance origin (map source_provenance items) text membership e)"

definition text_source_trace :: "value_metadata \<Rightarrow> evaluation_trace" where
  "text_source_trace m = trace_merge (md_text_sources m) (md_membership_sources m)"

section \<open>Values\<close>

datatype 'n evaluation_value = Available "'n json" | Unavailable

record 'n evaluated_value =
  ev_value :: "'n evaluation_value"
  ev_trace :: evaluation_trace
  ev_metadata :: value_metadata

type_synonym 'n evaluation_bindings = "(string, 'n evaluated_value) bt"

datatype 'n cow = Borrowed "'n json" | Owned "'n json"

fun cow_ref :: "'n cow \<Rightarrow> 'n json" where
  "cow_ref (Borrowed v) = v"
| "cow_ref (Owned v) = v"

record 'n runtime_value =
  rv_value :: "'n cow option"
  rv_metadata :: value_metadata

record eval_state = evaluation_budget +
  next_root :: nat

text \<open>An assessment's state before its first generated value.\<close>

definition start_state :: "evaluation_budget \<Rightarrow> eval_state" where
  "start_state b = evaluation_budget.extend b \<lparr>next_root = 0\<rparr>"

lemma start_state_budget [simp]:
  "exhausted (start_state b) = exhausted b"
  "limits (start_state b) = limits b"
  "steps (start_state b) = steps b"
  by (simp_all add: start_state_def evaluation_budget.defs)

type_synonym 'a evaluating = "(eval_state, evaluation_error, 'a) ev"

text \<open>\<open>ValueMetadata::generated\<close>: a container gets a new root, a scalar has no identity.\<close>

definition metadata_generated :: "'n json \<Rightarrow> value_metadata evaluating" where
  "metadata_generated v s =
     (if json_is_container v
      then (Inr (Metadata (Some (Generated (next_root s) [])) None [] [] None None [] []),
            s\<lparr>next_root := next_root s + 1\<rparr>)
      else (Inr metadata_default, s))"

definition runtime_owned :: "'n json \<Rightarrow> evaluation_trace \<Rightarrow> 'n runtime_value evaluating" where
  "runtime_owned v dependencies =
     ev_bind (metadata_generated v) (\<lambda>m.
       ev_return \<lparr>rv_value = Some (Owned v),
         rv_metadata = Metadata (md_identity m) (md_origin m) dependencies (md_items m)
           (md_provenance m) (md_encoded m) (md_text_sources m) (md_membership_sources m)\<rparr>)"

definition runtime_unavailable :: "value_metadata \<Rightarrow> 'n runtime_value" where
  "runtime_unavailable m = \<lparr>rv_value = None, rv_metadata = m\<rparr>"

definition runtime_trace :: "'n runtime_value \<Rightarrow> evaluation_trace" where
  "runtime_trace v = metadata_trace (rv_metadata v)"

text \<open>\<open>check_copy\<close> charges for every node of a value before it is cloned.\<close>

fun check_copy :: "'n json \<Rightarrow> nat \<Rightarrow> unit evaluating" where
  "check_copy (JArray items) depth =
     ev_bind (step depth) (\<lambda>_.
     ev_bind (visit_items (length items)) (\<lambda>_.
     ev_bind (reserve_materialized_bytes (usize_saturating_add (length items) 2)) (\<lambda>_.
     ev_fold (\<lambda>item _. check_copy item (depth + 1)) items ())))"
| "check_copy (JObject obj) depth =
     ev_bind (step depth) (\<lambda>_.
     ev_bind (visit_items (length obj)) (\<lambda>_.
     ev_bind (reserve_materialized_bytes (usize_saturating_add (length obj) 2)) (\<lambda>_.
     ev_fold (\<lambda>(key, v) _.
        ev_bind (reserve_materialized_bytes (usize_saturating_add (length key) 3)) (\<lambda>_.
        check_copy v (depth + 1))) obj ())))"
| "check_copy (JString text) depth =
     ev_bind (step depth) (\<lambda>_. reserve_materialized_bytes (length text))"
| "check_copy _ depth =
     ev_bind (step depth) (\<lambda>_. reserve_materialized_bytes 32)"

definition copy_value :: "'n json \<Rightarrow> nat \<Rightarrow> 'n json evaluating" where
  "copy_value v depth = ev_bind (check_copy v depth) (\<lambda>_. ev_return v)"

definition runtime_finish :: "'n runtime_value \<Rightarrow> nat \<Rightarrow> 'n evaluated_value evaluating" where
  "runtime_finish self depth =
     (let trace = runtime_trace self;
          done = (\<lambda>v. ev_return \<lparr>ev_value = v, ev_trace = trace, ev_metadata = rv_metadata self\<rparr>)
      in case rv_value self of
           Some (Borrowed v) \<Rightarrow> ev_bind (copy_value v depth) (\<lambda>w. done (Available w))
         | Some (Owned v) \<Rightarrow> done (Available v)
         | None \<Rightarrow> done Unavailable)"

definition evaluated_available :: "'n json \<Rightarrow> 'n evaluated_value evaluating" where
  "evaluated_available v =
     ev_bind (metadata_generated v) (\<lambda>m.
       ev_return \<lparr>ev_value = Available v, ev_trace = [], ev_metadata = m\<rparr>)"

definition evaluated_unavailable :: "evaluation_trace \<Rightarrow> 'n evaluated_value" where
  "evaluated_unavailable trace =
     \<lparr>ev_value = Unavailable, ev_trace = trace, ev_metadata = metadata_derived trace\<rparr>"

definition array_item :: "'n evaluated_value \<Rightarrow> nat \<Rightarrow> 'n evaluated_value evaluating" where
  "array_item self index =
     ev_bind (visit_items 1) (\<lambda>_.
       (let missing = evaluated_unavailable (metadata_membership_trace (ev_metadata self)) in
        case ev_value self of
          Available (JArray items) \<Rightarrow>
            if index < length items
            then
              (let m = add_dependencies (metadata_membership_trace (ev_metadata self))
                         (metadata_child (ev_metadata self) (PathIndex index))
               in ev_bind (copy_value (items ! index) 1) (\<lambda>v.
                  ev_return \<lparr>ev_value = Available v, ev_trace = metadata_trace m,
                              ev_metadata = m\<rparr>))
            else ev_return missing
        | _ \<Rightarrow> ev_return missing))"

definition merge_text_provenance ::
  "'n evaluated_value \<Rightarrow> 'n evaluated_value \<Rightarrow> 'n evaluated_value" where
  "merge_text_provenance self source =
     (let m = add_dependencies (ev_trace source) (ev_metadata self)
      in self\<lparr>ev_trace := trace_merge (ev_trace self) (ev_trace source),
              ev_metadata := set_encoded None
                (set_text_sources
                  (trace_merge (md_text_sources m) (text_source_trace (ev_metadata source))) m)\<rparr>)"

section \<open>Lemmas\<close>

lemma set_trace_merge [simp]: "set (trace_merge t u) = set t \<union> set u"
  unfolding trace_merge_def by (induction u arbitrary: t) auto

lemma distinct_trace_merge [simp]: "distinct t \<Longrightarrow> distinct (trace_merge t u)"
  unfolding trace_merge_def by (induction u arbitrary: t) auto

lemma trace_merge_prefix: "\<exists>v. trace_merge t u = t @ v"
  unfolding trace_merge_def
proof (induction u arbitrary: t)
  case (Cons d u)
  then obtain v w where "foldl (\<lambda>t d. if d \<in> set t then t else t @ [d]) t u = t @ v"
    and "foldl (\<lambda>t d. if d \<in> set t then t else t @ [d]) (t @ [d]) u = t @ [d] @ w"
    by (metis append_assoc)
  then show ?case by auto
qed simp

lemma trace_merge_idem [simp]: "set u \<subseteq> set t \<Longrightarrow> trace_merge t u = t"
  unfolding trace_merge_def by (induction u) auto

lemma identity_same_iff: "identity_same i j \<longleftrightarrow> i = j"
  by (cases i; cases j) auto

lemma more_next_root:
  "evaluation_budget.more s = evaluation_budget.more t \<longleftrightarrow> next_root s = next_root (t :: eval_state)"
  by (cases s; cases t) auto

lemma metered_generated [simp, ev_keeps]: "metered (metadata_generated v)"
  by (auto simp: metered_def keeps_def metadata_generated_def budget_extends_def
      within_limits_def outcome_agrees_def same_run_def more_next_root)

lemma metered_owned [simp, ev_keeps]: "metered (runtime_owned v t)"
  by (auto simp: runtime_owned_def intro: ev_keeps)

lemma metered_check_copy [simp, ev_keeps]: "metered (check_copy v depth)"
proof (induction v depth rule: check_copy.induct)
  case (2 obj depth)
  then show ?case by (auto intro!: metered_bind metered_fold split: prod.splits)
qed (auto intro!: metered_bind metered_fold)

lemma metered_copy_value [simp, ev_keeps]: "metered (copy_value v depth)"
  by (auto simp: copy_value_def intro: metered_bind)

lemma metered_finish [simp, ev_keeps]: "metered (runtime_finish v depth)"
  by (auto simp: runtime_finish_def Let_def intro!: metered_bind split: option.splits cow.splits)

lemma metered_array_item [simp, ev_keeps]: "metered (array_item v index)"
  by (auto simp: array_item_def Let_def intro!: metered_bind
      split: evaluation_value.splits json.splits)

end
