(* ===== verification/Eval_Json.thy ===== *)
theory Eval_Json
  imports Eval_Value
begin

text \<open>
  \<open>expression_eval/json.rs\<close> and the text helpers of \<open>expression_eval.rs\<close> and
  \<open>functions.rs\<close>: metered serialisation of JSON values, metered reading through the
  streaming parser, and template text of scalars. The serialiser is shown equal to an
  unmetered reference printer.
\<close>

section \<open>The code\<close>

definition append_text :: "string \<Rightarrow> string \<Rightarrow> string evaluating" where
  "append_text output text =
     ev_bind (reserve_generated_bytes (length text)) (\<lambda>_. ev_return (output @ text))"

definition scalar_text :: "'n json_lib \<Rightarrow> 'n json \<Rightarrow> string evaluating" where
  "scalar_text L v =
     (case v of
        JNull \<Rightarrow> ev_return []
      | JBool b \<Rightarrow>
          (let text = (if b then ''true'' else ''false'')
           in ev_bind (reserve_generated_bytes (length text)) (\<lambda>_. ev_return text))
      | JNumber n \<Rightarrow>
          ev_bind (reserve_generated_bytes (length (num_to_string L n))) (\<lambda>_.
            ev_return (num_to_string L n))
      | JString text \<Rightarrow>
          ev_bind (reserve_generated_bytes (length text)) (\<lambda>_. ev_return text)
      | _ \<Rightarrow> ev_fail (invalid_error ''Arrays and objects require explicit toJSON conversion.''))"

definition lowercase :: "'n json_lib \<Rightarrow> string \<Rightarrow> string evaluating" where
  "lowercase L v =
     ev_bind
       (reserve_generated_bytes (sum_list (map (length \<circ> char_to_lowercase L) (utf8_chars v))))
       (\<lambda>_. ev_return (str_to_lowercase L v))"

text \<open>The escape of a character inside a JSON string, when it needs one.\<close>

definition hex_digit :: "nat \<Rightarrow> char" where
  "hex_digit n = ''0123456789abcdef'' ! n"

definition escape_of :: "char \<Rightarrow> string option" where
  "escape_of c =
     (if c = CHR 0x22 then Some [CHR 0x5C, CHR 0x22]
      else if c = CHR 0x5C then Some [CHR 0x5C, CHR 0x5C]
      else if c = CHR 0x0A then Some [CHR 0x5C, CHR ''n'']
      else if c = CHR 0x0D then Some [CHR 0x5C, CHR ''r'']
      else if c = CHR 0x09 then Some [CHR 0x5C, CHR ''t'']
      else if c = CHR 0x08 then Some [CHR 0x5C, CHR ''b'']
      else if c = CHR 0x0C then Some [CHR 0x5C, CHR ''f'']
      else if (of_char c :: nat) \<le> 31
      then Some [CHR 0x5C, CHR ''u'', CHR ''0'', CHR ''0'',
                 hex_digit (of_char c div 16), hex_digit (of_char c mod 16)]
      else None)"

text \<open>
  The loop of \<open>write_string\<close>: \<open>pending\<close> is \<open>value[start..index]\<close>. A character that needs an
  escape is one byte, so walking bytes visits the same escapes as walking characters.
\<close>

fun write_string_loop :: "string \<Rightarrow> string \<Rightarrow> string \<Rightarrow> string evaluating" where
  "write_string_loop pending [] output = append_text output pending"
| "write_string_loop pending (c # rest) output =
     (case escape_of c of
        None \<Rightarrow> write_string_loop (pending @ [c]) rest output
      | Some esc \<Rightarrow>
          ev_bind (append_text output pending) (\<lambda>output.
          ev_bind (append_text output esc) (\<lambda>output.
          write_string_loop [] rest output)))"

definition write_string :: "string \<Rightarrow> string \<Rightarrow> string evaluating" where
  "write_string v output =
     ev_bind (append_text output [CHR 0x22]) (\<lambda>output.
     ev_bind (write_string_loop [] v output) (\<lambda>output.
     append_text output [CHR 0x22]))"

definition write_separator :: "nat \<Rightarrow> string \<Rightarrow> string evaluating" where
  "write_separator index output =
     (if 0 < index then append_text output '','' else ev_return output)"

lemma enumerate_item: "(i, x) \<in> set (List.enumerate n xs) \<Longrightarrow> x \<in> set xs"
  by (auto simp: in_set_enumerate_eq)

lemma size_json_items:
  fixes x :: "'n json"
  shows "x \<in> set items \<Longrightarrow> size x < size (JArray items)"
    and "(k, x) \<in> set obj \<Longrightarrow> size x < size (JObject obj)"
proof -
  show "x \<in> set items \<Longrightarrow> size x < size (JArray items)"
    using size_list_estimation' [of x items "size x" size] by simp
  show "(k, x) \<in> set obj \<Longrightarrow> size x < size (JObject obj)"
    using size_list_estimation' [of "(k, x)" obj "size x" "size_prod (\<lambda>_. 0) size"] by simp
qed

function write_json ::
  "'n json_lib \<Rightarrow> 'n json \<Rightarrow> value_provenance \<Rightarrow> nat \<Rightarrow> string \<times> evaluation_trace
     \<Rightarrow> (string \<times> evaluation_trace) evaluating" where
  "write_json L v provenance depth acc =
     ev_bind (step depth) (\<lambda>_.
       (let output = fst acc;
            sources = collect_sources provenance v (snd acc);
            with_sources = (\<lambda>m. ev_bind m (\<lambda>output. ev_return (output, sources)))
        in case v of
             JNull \<Rightarrow> with_sources (append_text output ''null'')
           | JBool b \<Rightarrow> with_sources (append_text output (if b then ''true'' else ''false''))
           | JNumber n \<Rightarrow>
               with_sources (ev_bind (scalar_text L (JNumber n)) (append_text output))
           | JString text \<Rightarrow> with_sources (write_string text output)
           | JArray items \<Rightarrow>
               ev_bind (visit_items (length items)) (\<lambda>_.
               ev_bind (append_text output ''['') (\<lambda>output.
               ev_bind
                 (ev_fold (\<lambda>(index, item) (output, sources).
                    ev_bind (write_separator index output) (\<lambda>output.
                    write_json L item (provenance_child provenance (PathIndex index))
                      (depth + 1) (output, sources)))
                    (List.enumerate 0 items) (output, sources)) (\<lambda>(output, sources).
               ev_bind (append_text output '']'') (\<lambda>output. ev_return (output, sources)))))
           | JObject obj \<Rightarrow>
               ev_bind (visit_items (length obj)) (\<lambda>_.
               ev_bind (append_text output ''{'') (\<lambda>output.
               ev_bind
                 (ev_fold (\<lambda>(index, key, item) (output, sources).
                    ev_bind (write_separator index output) (\<lambda>output.
                    ev_bind (write_string key output) (\<lambda>output.
                    ev_bind (append_text output '':'') (\<lambda>output.
                    write_json L item (provenance_child provenance (PathProperty key))
                      (depth + 1) (output, sources)))))
                    (List.enumerate 0 (sort_key fst obj)) (output, sources)) (\<lambda>(output, sources).
               ev_bind (append_text output ''}'') (\<lambda>output. ev_return (output, sources)))))))"
  by pat_completeness auto
termination
  by (relation "measure (\<lambda>(L, v, _). size v)") (auto dest!: enumerate_item dest: size_json_items [simplified])

declare write_json.simps [simp del]

definition serialize ::
  "'n json_lib \<Rightarrow> 'n json \<Rightarrow> value_provenance \<Rightarrow> nat \<Rightarrow> (string \<times> evaluation_trace) evaluating" where
  "serialize L v provenance depth = write_json L v provenance depth ([], [])"

text \<open>
  \<open>ValueSeed\<close> walks the document as the streaming parser delivers it. Each value is
  charged before it is read; a syntax error shows only after the charge of the value it
  is in.
\<close>

definition malformed :: evaluation_error where
  "malformed = invalid_error ''fromJSON requires valid finite JSON.''"

fun read_value :: "'n json_doc \<Rightarrow> nat \<Rightarrow> bool \<Rightarrow> 'n json evaluating" where
  "read_value doc depth item =
     ev_bind (step depth) (\<lambda>_.
     ev_bind (if item then visit_items 1 else ev_return ()) (\<lambda>_.
       case doc of
         DBad \<Rightarrow> ev_fail malformed
       | DNull \<Rightarrow> ev_return JNull
       | DBool b \<Rightarrow> ev_return (JBool b)
       | DNumber n \<Rightarrow> (case n of Some v \<Rightarrow> ev_return (JNumber v) | None \<Rightarrow> ev_fail malformed)
       | DString text \<Rightarrow> ev_return (JString text)
       | DSeq items complete \<Rightarrow>
           ev_bind (ev_fold (\<lambda>d vs. ev_bind (read_value d (depth + 1) True) (\<lambda>v.
                      ev_return (vs @ [v]))) items []) (\<lambda>vs.
             if complete then ev_return (JArray vs) else ev_fail malformed)
       | DMap entries complete \<Rightarrow>
           ev_bind (ev_fold (\<lambda>(key, d) vs. ev_bind (read_value d (depth + 1) True) (\<lambda>v.
                      ev_return (bt_insert key v vs))) entries []) (\<lambda>vs.
             if complete then ev_return (JObject vs) else ev_fail malformed)))"

declare read_value.simps [simp del]

definition parse_json :: "'n json_lib \<Rightarrow> string \<Rightarrow> nat \<Rightarrow> 'n json evaluating" where
  "parse_json L text depth =
     ev_bind (reserve_generated_bytes (length text)) (\<lambda>_ s.
       (case ev_bind (read_value (fst (read_document L text)) depth False) (\<lambda>v.
               if snd (read_document L text) then ev_return v else ev_fail malformed) s of
          (Inr v, t) \<Rightarrow> (Inr v, t)
        | (Inl _, t) \<Rightarrow>
            if exhausted t
            then (Inl (limit_error ''JSON parsing exhausted the shared evaluation budget.''), t)
            else (Inl malformed, t)))"

section \<open>Metering\<close>

lemma metered_append [simp, ev_keeps]: "metered (append_text output text)"
  by (auto simp: append_text_def intro: metered_bind)

lemma metered_scalar_text [simp, ev_keeps]: "metered (scalar_text L v)"
  by (auto simp: scalar_text_def Let_def intro: metered_bind split: json.splits)

lemma metered_lowercase [simp, ev_keeps]: "metered (lowercase L v)"
  by (auto simp: lowercase_def intro: metered_bind)

lemma metered_write_string_loop [simp, ev_keeps]: "metered (write_string_loop pending v out)"
  by (induction pending v out rule: write_string_loop.induct)
    (auto intro!: metered_bind split: option.splits)

lemma metered_write_string [simp, ev_keeps]: "metered (write_string v output)"
  by (auto simp: write_string_def intro!: metered_bind)

lemma metered_write_separator [simp, ev_keeps]: "metered (write_separator index output)"
  by (auto simp: write_separator_def)

lemma metered_write_json [simp, ev_keeps]: "metered (write_json L v provenance depth acc)"
proof (induction L v provenance depth acc rule: write_json.induct)
  case (1 L v provenance depth acc)
  then show ?case
    by (subst write_json.simps)
      (auto simp: Let_def intro!: metered_bind metered_fold split: json.splits prod.splits)
qed

lemma metered_serialize [simp, ev_keeps]: "metered (serialize L v provenance depth)"
  by (simp add: serialize_def)

lemma malformed_code [simp]: "error_code malformed \<noteq> EvaluationLimitExceeded"
  by (simp add: malformed_def)

lemma metered_read_value [simp, ev_keeps]: "metered (read_value doc depth item)"
proof (induction doc depth item rule: read_value.induct)
  case (1 doc depth item)
  then show ?case
    by (subst read_value.simps)
      (auto intro!: metered_bind metered_fold metered_fail
        split: json_doc.splits option.splits prod.splits)
qed

text \<open>Replacing an error by the limit error exactly when the budget is exhausted.\<close>

lemma metered_recover:
  assumes m: "metered m" and codes: "error_code e = EvaluationLimitExceeded"
    "error_code f \<noteq> EvaluationLimitExceeded"
  shows "metered (\<lambda>s. case m s of
      (Inr v, t) \<Rightarrow> (Inr v, t) | (Inl _, t) \<Rightarrow> if exhausted t then (Inl e, t) else (Inl f, t))"
    (is "metered ?m")
  unfolding metered_def keeps_def
proof (intro conjI allI impI)
  fix b
  obtain r t where run: "m b = (r, t)" by fastforce
  then show "budget_extends b (snd (?m b))"
    using meteredD(1) [OF m, of b] by (simp split: sum.splits)
  assume "\<not> exhausted b"
  from meteredD(2) [OF m this] run codes show "outcome_agrees (fst (?m b)) (snd (?m b))"
    by (simp add: outcome_agrees_def split: sum.splits)
next
  fix b c :: "'a evaluation_budget_scheme"
  assume "evaluation_budget.more b = evaluation_budget.more c"
  note same = meteredD(3) [OF m this]
  obtain r s where b: "m b = (r, s)" by (cases "m b")
  obtain r' s' where c: "m c = (r', s')" by (cases "m c")
  have "exhausted s" if "limited r"
    using meteredD(1,2) [OF m, of b] that
    by (cases "exhausted b") (auto simp: b budget_extends_def outcome_agrees_def limited_def split: sum.splits)
  moreover have "exhausted s'" if "limited r'"
    using meteredD(1,2) [OF m, of c] that
    by (cases "exhausted c") (auto simp: c budget_extends_def outcome_agrees_def limited_def split: sum.splits)
  ultimately show "same_run (?m b) (?m c)"
    using same codes by (cases r; cases r') (auto simp: same_run_def b c)
qed

lemma metered_parse_json [simp, ev_keeps]: "metered (parse_json L text depth)"
  unfolding parse_json_def
  by (intro metered_bind metered_reserve_generated metered_recover) (auto intro!: ev_keeps)

section \<open>The reference printer\<close>

definition escape_text :: "string \<Rightarrow> string" where
  "escape_text v = concat (map (\<lambda>c. case escape_of c of None \<Rightarrow> [c] | Some e \<Rightarrow> e) v)"

definition quote_json :: "string \<Rightarrow> string" where
  "quote_json v = [CHR 0x22] @ escape_text v @ [CHR 0x22]"

function json_text :: "'n json_lib \<Rightarrow> 'n json \<Rightarrow> string" where
  "json_text L JNull = ''null''"
| "json_text L (JBool b) = (if b then ''true'' else ''false'')"
| "json_text L (JNumber n) = num_to_string L n"
| "json_text L (JString v) = quote_json v"
| "json_text L (JArray items) = ''['' @ join_with '','' (map (json_text L) items) @ '']''"
| "json_text L (JObject obj) =
     ''{'' @ join_with '','' (map (\<lambda>(k, v). quote_json k @ '':'' @ json_text L v) (sort_key fst obj))
       @ ''}''"
  by pat_completeness auto
termination
  by (relation "measure (\<lambda>(L, v). size v)") (auto dest: size_json_items [simplified])

lemma returns_append: "returns (append_text out t) (\<lambda>r. r = out @ t)"
  unfolding append_text_def by (intro returns_bind_any) simp

lemma returns_append_then:
  "returns (f (out @ t)) Q \<Longrightarrow> returns (ev_bind (append_text out t) f) Q"
  by (rule returns_bind [OF returns_append]) simp

lemma escape_text_Nil [simp]: "escape_text [] = []"
  by (simp add: escape_text_def)

lemma escape_text_Cons:
  "escape_text (c # v) = (case escape_of c of None \<Rightarrow> [c] | Some e \<Rightarrow> e) @ escape_text v"
  by (simp add: escape_text_def)

lemma returns_write_string_loop:
  "returns (write_string_loop pending v out) (\<lambda>r. r = out @ pending @ escape_text v)"
proof (induction pending v out rule: write_string_loop.induct)
  case (1 pending out)
  then show ?case by (simp add: returns_append)
next
  case (2 pending c rest out)
  show ?case
  proof (cases "escape_of c")
    case None
    with 2(1) show ?thesis by (simp add: escape_text_Cons)
  next
    case (Some e)
    show ?thesis
      using Some by (auto simp: escape_text_Cons intro!: returns_append_then returns_mono [OF 2(2)])
  qed
qed

lemma returns_write_string: "returns (write_string v out) (\<lambda>r. r = out @ quote_json v)"
  unfolding write_string_def quote_json_def
  by (intro returns_append_then returns_bind [OF returns_write_string_loop]
      returns_mono [OF returns_append]) simp

lemma returns_write_separator:
  "returns (write_separator i out) (\<lambda>r. r = out @ (if 0 < i then '','' else []))"
  unfolding write_separator_def by (simp add: returns_append)

lemma fold_append:
  "fold (\<lambda>x out. out @ g x) xs out = out @ concat (map g xs)"
  by (induction xs arbitrary: out) auto

lemma concat_separated_tail:
  "concat (map (\<lambda>(i, t). (if 0 < i then sep else []) @ t) (List.enumerate (Suc n) ts)) =
     (if ts = [] then [] else sep @ join_with sep ts)"
proof (induction ts arbitrary: n)
  case (Cons t ts)
  then show ?case by (cases ts) auto
qed simp

lemma concat_separated:
  "concat (map (\<lambda>(i, t). (if 0 < i then sep else []) @ t) (List.enumerate 0 ts)) = join_with sep ts"
  using concat_separated_tail [of sep 0 "tl ts"] by (cases ts; cases "tl ts") simp_all

lemma concat_separated_map:
  "concat (map (\<lambda>(i, x). (if 0 < i then sep else []) @ g x) (List.enumerate 0 xs)) =
     join_with sep (map g xs)"
proof -
  have "map (\<lambda>(i, x). (if 0 < i then sep else []) @ g x) (List.enumerate n xs) =
      map (\<lambda>(i, t). (if 0 < i then sep else []) @ t) (List.enumerate n (map g xs))" for n
    by (induction xs arbitrary: n) auto
  then show ?thesis by (simp only: concat_separated)
qed

lemma returns_separated:
  assumes "\<And>out sources. returns (write (out, sources)) (\<lambda>b. fst b = out @ text)"
  shows "returns (ev_bind (write_separator i out) (\<lambda>out. write (out, sources)))
           (\<lambda>b. fst b = out @ (if 0 < i then '','' else []) @ text)"
  by (rule returns_bind [OF returns_write_separator], rule returns_mono [OF assms]) simp

lemma returns_close:
  assumes "returns m (\<lambda>b. fst b = text)"
  shows "returns (ev_bind m (\<lambda>(out, sources). ev_bind (append_text out t) (\<lambda>out. ev_return (out, sources))))
           (\<lambda>r. fst r = text @ t)"
  by (rule returns_bind [OF assms]) (auto intro!: returns_append_then split: prod.splits)

lemma returns_write_json:
  "returns (write_json L v p d acc) (\<lambda>r. fst r = fst acc @ json_text L v)"
proof (induction v arbitrary: p d acc rule: measure_induct_rule [of size])
  case (less v)
  show ?case
  proof (cases v)
    case (JArray items)
    let ?f = "\<lambda>(index, item) (out, sources).
                    ev_bind (write_separator index out) (\<lambda>out.
                    write_json L item (provenance_child p (PathIndex index))
                      (d + 1) (out, sources))"
    let ?t = "\<lambda>(i, item). (if (0::nat) < i then '','' else []) @ json_text L item"
    have item: "returns (?f x a) (\<lambda>b. fst b = fst a @ ?t x)"
      if "x \<in> set (List.enumerate 0 items)" for x a
    proof -
      obtain i y where x: "x = (i, y)" by (cases x)
      with that have "size y < size v"
        unfolding JArray by (auto dest!: enumerate_item dest: size_json_items [simplified])
      then have "returns (write_json L y (provenance_child p (PathIndex i)) (d + 1) (out, sources))
          (\<lambda>b. fst b = out @ json_text L y)" for out sources
        using less.IH [of y _ _ "(out, sources)"] by simp
      from returns_separated [OF this] show ?thesis
        by (cases a) (simp only: x prod.case fst_conv)
    qed
    have "returns (ev_fold ?f (List.enumerate 0 items) a)
        (\<lambda>b. fst b = fst a @ join_with '','' (map (json_text L) items))" for a
      using returns_fold_view [of "List.enumerate 0 items" ?f fst "\<lambda>x out. out @ ?t x", OF item]
      by (simp only: fold_append concat_separated_map)
    note loop = returns_close [OF this]
    show ?thesis
      unfolding JArray write_json.simps [of L "JArray items"] Let_def json.case json_text.simps
      by (intro returns_bind_any returns_append_then returns_mono [OF loop]) simp
  next
    case (JObject obj)
    let ?f = "\<lambda>(index, key, item) (out, sources).
                    ev_bind (write_separator index out) (\<lambda>out.
                    ev_bind (write_string key out) (\<lambda>out.
                    ev_bind (append_text out '':'') (\<lambda>out.
                    write_json L item (provenance_child p (PathProperty key))
                      (d + 1) (out, sources))))"
    let ?e = "\<lambda>(k, v). quote_json k @ '':'' @ json_text L v"
    let ?t = "\<lambda>(i, e). (if (0::nat) < i then '','' else []) @ ?e e"
    have item: "returns (?f x a) (\<lambda>b. fst b = fst a @ ?t x)"
      if "x \<in> set (List.enumerate 0 (sort_key fst obj))" for x a
    proof -
      obtain i k y where x: "x = (i, k, y)" by (cases x)
      with that have "size y < size v"
        unfolding JObject by (auto dest!: enumerate_item dest: size_json_items [simplified])
      then have "returns (ev_bind (write_string k out) (\<lambda>out.
                    ev_bind (append_text out '':'') (\<lambda>out.
                    write_json L y (provenance_child p (PathProperty k)) (d + 1) (out, sources))))
          (\<lambda>b. fst b = out @ ?e (k, y))" for out sources
        by (auto intro!: returns_bind [OF returns_write_string] returns_append_then
            returns_mono [OF less.IH])
      then have "returns ((\<lambda>(out, sources). ev_bind (write_string k out) (\<lambda>out.
                    ev_bind (append_text out '':'') (\<lambda>out.
                    write_json L y (provenance_child p (PathProperty k)) (d + 1) (out, sources))))
            (out, sources)) (\<lambda>b. fst b = out @ ?e (k, y))" for out sources
        by (simp only: prod.case)
      from returns_separated [OF this] show ?thesis
        by (cases a) (simp only: x prod.case fst_conv)
    qed
    have "returns (ev_fold ?f (List.enumerate 0 (sort_key fst obj)) a)
        (\<lambda>b. fst b = fst a @ join_with '','' (map ?e (sort_key fst obj)))" for a
      using returns_fold_view [of "List.enumerate 0 (sort_key fst obj)" ?f fst "\<lambda>x out. out @ ?t x", OF item]
      by (simp only: fold_append concat_separated_map)
    note loop = returns_close [OF this]
    show ?thesis
      unfolding JObject write_json.simps [of L "JObject obj"] Let_def json.case json_text.simps
      by (intro returns_bind_any returns_append_then returns_mono [OF loop]) simp
  next
    case (JNumber n)
    have "returns (scalar_text L (JNumber n)) (\<lambda>t. t = num_to_string L n)"
      by (auto simp: scalar_text_def intro!: returns_bind_any)
    then have "returns (ev_bind (scalar_text L (JNumber n)) (append_text (fst acc)))
        (\<lambda>out. out = fst acc @ num_to_string L n)"
      by (rule returns_bind) (simp add: returns_append)
    then show ?thesis
      by (auto simp: JNumber write_json.simps Let_def intro!: returns_bind_any
          elim!: returns_bind)
  qed (auto simp: write_json.simps scalar_text_def Let_def
      intro!: returns_bind_any returns_append_then returns_bind [OF returns_write_string])
qed

section \<open>Errors of the serialiser\<close>

definition is_limit_error :: "evaluation_error \<Rightarrow> bool" where
  "is_limit_error e \<longleftrightarrow> error_code e = EvaluationLimitExceeded"

lemma fails_charge [simp]:
  "fails (step d) is_limit_error"
  "fails (visit_items n) is_limit_error"
  "fails (reserve_generated_bytes n) is_limit_error"
  "fails (reserve_materialized_bytes n) is_limit_error"
  by (auto simp: fails_def is_limit_error_def charge_defs split: if_splits)

lemma fails_append [simp]: "fails (append_text out t) is_limit_error"
  by (auto simp: append_text_def intro: fails_bind)

lemma fails_write_string [simp]: "fails (write_string v out) is_limit_error"
proof -
  have "fails (write_string_loop pending v out) is_limit_error" for pending out
    by (induction pending v out rule: write_string_loop.induct)
      (auto intro!: fails_bind split: option.splits)
  then show ?thesis by (auto simp: write_string_def intro!: fails_bind)
qed

lemma fails_write_json: "fails (write_json L v p d acc) is_limit_error"
proof (induction L v p d acc rule: write_json.induct)
  case (1 L v p d acc)
  then show ?case
    by (subst write_json.simps)
      (auto simp: Let_def scalar_text_def write_separator_def intro!: fails_bind fails_fold
        split: json.splits prod.splits)
qed

text \<open>
  C27. \<open>toJSON\<close>: on an active budget the metered serialiser either returns exactly the
  text of the unmetered reference printer, or exhausts the budget and ends with the
  limit error; it has no other outcome.
\<close>

theorem serialize_reference:
  assumes "\<not> exhausted s"
  shows "case serialize L v p d s of
           (Inr (text, sources), t) \<Rightarrow> text = json_text L v \<and> \<not> exhausted t
         | (Inl e, t) \<Rightarrow> error_code e = EvaluationLimitExceeded \<and> exhausted t"
proof -
  obtain r t where run: "serialize L v p d s = (r, t)" by fastforce
  have agrees: "outcome_agrees r t"
    using meteredD(2) [OF metered_serialize assms, of L v p d] run by simp
  show ?thesis
  proof (cases r)
    case (Inl e)
    then have "is_limit_error e"
      using failsD [OF fails_write_json [of L v p d "([], [])"], of s e t] run
      by (simp add: serialize_def)
    with Inl run agrees show ?thesis by (simp add: is_limit_error_def outcome_agrees_def)
  next
    case (Inr x)
    then have "fst x = json_text L v"
      using returnsD [OF returns_write_json [of L v p d "([], [])"], of s x t] run
      by (simp add: serialize_def)
    with Inr run agrees show ?thesis by (auto simp: outcome_agrees_def split: prod.splits)
  qed
qed

theorem serialize_reference_witness:
  "case serialize nat_lib (JArray [JNull, JNumber 7]) (Provenance None [] [] [] None) 1
          (start_state default_budget) of
     (Inr (text, sources), t) \<Rightarrow> text = json_text nat_lib (JArray [JNull, JNumber 7]) \<and> \<not> exhausted t
   | (Inl e, t) \<Rightarrow> error_code e = EvaluationLimitExceeded \<and> exhausted t"
  by (rule serialize_reference)
    (simp add: default_budget_def budget_new_def new_with_materialization_limit_def)

section \<open>Strings\<close>

definition hex_value :: "char \<Rightarrow> nat" where
  "hex_value c = (if is_ascii_digit c then of_char c - 48 else of_char c - 87)"

text \<open>What a JSON reader makes of the inside of a string literal.\<close>

fun unescape_text :: "string \<Rightarrow> string option" where
  "unescape_text [] = Some []"
| "unescape_text (c # s) =
     (if c \<noteq> CHR 0x5C
      then if c = CHR 0x22 \<or> (of_char c :: nat) \<le> 31 then None
           else map_option (Cons c) (unescape_text s)
      else (case s of
              [] \<Rightarrow> None
            | e # s \<Rightarrow>
                if e = CHR ''u''
                then (case s of
                        a # b # h # l # s \<Rightarrow>
                          if a = CHR ''0'' \<and> b = CHR ''0''
                          then map_option (Cons (char_of (16 * hex_value h + hex_value l)))
                                 (unescape_text s)
                          else None
                      | _ \<Rightarrow> None)
                else
                  (let plain = (\<lambda>d. map_option (Cons d) (unescape_text s)) in
                   if e = CHR 0x22 then plain (CHR 0x22)
                   else if e = CHR 0x5C then plain (CHR 0x5C)
                   else if e = CHR ''n'' then plain (CHR 0x0A)
                   else if e = CHR ''r'' then plain (CHR 0x0D)
                   else if e = CHR ''t'' then plain (CHR 0x09)
                   else if e = CHR ''b'' then plain (CHR 0x08)
                   else if e = CHR ''f'' then plain (CHR 0x0C)
                   else None)))"

lemma hex_value_digit: "n < 16 \<Longrightarrow> hex_value (hex_digit n) = n"
proof -
  assume "n < 16"
  then have "n \<in> set [0..<16]" by simp
  moreover have "list_all (\<lambda>n. hex_value (hex_digit n) = n) [0..<16]" by code_simp
  ultimately show ?thesis by (auto simp: list_all_iff)
qed

lemma unescape_escape_char:
  "unescape_text ((case escape_of c of None \<Rightarrow> [c] | Some e \<Rightarrow> e) @ s)
     = map_option (Cons c) (unescape_text s)"
proof (cases "escape_of c")
  case None
  then show ?thesis by (simp add: escape_of_def split: if_splits)
next
  case (Some e)
  have digits: "16 * hex_value (hex_digit (of_char c div 16))
      + hex_value (hex_digit (of_char c mod 16)) = (of_char c :: nat)"
    if "(of_char c :: nat) \<le> 31"
    using that by (simp add: hex_value_digit)
  show ?thesis using Some digits by (auto simp: escape_of_def Let_def split: if_splits)
qed

text \<open>
  Reading back the string literals that \<open>toJSON\<close> writes gives the original text, for
  every text: quotes, backslashes and all control characters are escaped without loss.
\<close>

lemma escape_text_round_trip: "unescape_text (escape_text v) = Some v"
  by (induction v) (simp_all add: escape_text_Cons unescape_escape_char)

end
