(* ===== verification/Decimal.thy ===== *)
theory Decimal
  imports Json_Value Complex_Main
begin

text \<open>
  \<open>DecimalNumber\<close> of \<open>expression_eval.rs\<close>: exact decimal numbers parsed from the text of a
  JSON number, and their comparison by order of magnitude and digits. The theory shows
  that parsing yields a normal form, that structural equality of normal forms is equality
  of values, and that the comparison is the order of the values.
\<close>

section \<open>The code\<close>

record decimal_number =
  negative :: bool
  digits :: "nat list"
  scale :: int

text \<open>\<open>str::parse::<i64>\<close>.\<close>

definition nat_of_digits :: "nat list \<Rightarrow> nat" where
  "nat_of_digits ds = foldl (\<lambda>a d. 10 * a + d) 0 ds"

definition strip_sign :: "string \<Rightarrow> string" where
  "strip_sign s =
     (case s of [] \<Rightarrow> [] | c # r \<Rightarrow> if c = CHR ''-'' \<or> c = CHR ''+'' then r else s)"

definition i64_from_str :: "string \<Rightarrow> int option" where
  "i64_from_str s =
     (let ds = strip_sign s;
          n = int (nat_of_digits (map digit_value ds));
          v = (if starts_with s ''-'' then - n else n)
      in if ds = [] \<or> \<not> list_all is_ascii_digit ds then None
         else if i64_min \<le> v \<and> v \<le> i64_max then Some v else None)"

definition parse_exponent :: "string \<Rightarrow> int option" where
  "parse_exponent source =
     (if source = [] then None
      else (case i64_from_str source of
              Some v \<Rightarrow> Some v
            | None \<Rightarrow>
                (let ds = strip_sign source in
                 if ds = [] \<or> \<not> list_all is_ascii_digit ds then None
                 else if starts_with source ''-'' then Some i64_min
                 else Some i64_max)))"

definition usize_to_i64 :: "nat \<Rightarrow> int" where
  "usize_to_i64 n = (if int n \<le> i64_max then int n else i64_max)"

text \<open>The loop that drops trailing zeros, each one lowering the scale.\<close>

function strip_trailing_zeros :: "nat list \<Rightarrow> int \<Rightarrow> nat list \<times> int" where
  "strip_trailing_zeros ds sc =
     (if 1 < length ds \<and> last ds = 0
      then strip_trailing_zeros (butlast ds) (i64_saturating_sub sc 1)
      else (ds, sc))"
  by pat_completeness auto
termination
  by (relation "measure (\<lambda>(ds, sc). length ds)") auto

declare strip_trailing_zeros.simps [simp del]

definition split_exponent :: "string \<Rightarrow> (string \<times> string option)" where
  "split_exponent source =
     (let m = takeWhile (\<lambda>c. c \<noteq> CHR ''e'' \<and> c \<noteq> CHR ''E'') source;
          r = drop (length m) source
      in (m, case r of [] \<Rightarrow> None | _ # e \<Rightarrow> Some e))"

definition split_point :: "string \<Rightarrow> string \<times> string" where
  "split_point s =
     (let i = takeWhile (\<lambda>c. c \<noteq> CHR ''.'') s; r = drop (length i) s
      in (i, case r of [] \<Rightarrow> [] | _ # f \<Rightarrow> f))"

text \<open>The number made of checked digit strings: the second half of \<open>parse\<close>.\<close>

definition decimal_build :: "bool \<Rightarrow> string \<Rightarrow> string \<Rightarrow> int \<Rightarrow> decimal_number" where
  "decimal_build neg integer fraction exponent =
     (let sig = dropWhile (\<lambda>d. d = 0) (map digit_value (integer @ fraction)) in
      if sig = [] then \<lparr>negative = False, digits = [0], scale = 0\<rparr>
      else
        (let sc = i64_saturating_sub (usize_to_i64 (length fraction)) exponent;
             (ds, sc') = strip_trailing_zeros sig sc
         in \<lparr>negative = neg, digits = ds, scale = sc'\<rparr>))"

definition decimal_parse :: "string \<Rightarrow> decimal_number option" where
  "decimal_parse source =
     (let (mantissa, exponent_text) = split_exponent source;
          exponent = (case exponent_text of None \<Rightarrow> Some 0 | Some t \<Rightarrow> parse_exponent t)
      in case exponent of None \<Rightarrow> None
         | Some exponent \<Rightarrow>
           (let neg = starts_with mantissa ''-'';
                unsigned = strip_sign mantissa;
                (integer, fraction) = split_point unsigned
            in if integer = [] \<or> \<not> list_all is_ascii_digit integer
                  \<or> \<not> list_all is_ascii_digit fraction
               then None
               else Some (decimal_build neg integer fraction exponent)))"

definition decimal_is_zero :: "decimal_number \<Rightarrow> bool" where
  "decimal_is_zero d \<longleftrightarrow> digits d = [0]"

definition decimal_order :: "decimal_number \<Rightarrow> int" where
  "decimal_order d = i64_saturating_sub (usize_to_i64 (length (digits d))) (scale d)"

text \<open>The digits as the comparison reads them: missing positions count as zero.\<close>

definition padded_digits :: "nat \<Rightarrow> nat list \<Rightarrow> nat list" where
  "padded_digits n ds = map (\<lambda>i. if i < length ds then ds ! i else 0) [0..<n]"

definition decimal_cmp :: "decimal_number \<Rightarrow> decimal_number \<Rightarrow> ordering" where
  "decimal_cmp a b =
     (if decimal_is_zero a \<and> decimal_is_zero b then OrdEqual
      else if decimal_is_zero a then (if negative b then OrdGreater else OrdLess)
      else if decimal_is_zero b then (if negative a then OrdLess else OrdGreater)
      else if negative a \<noteq> negative b then (if negative a then OrdLess else OrdGreater)
      else
        (let n = max (length (digits a)) (length (digits b));
             magnitude = ordering_then (cmp (decimal_order a) (decimal_order b))
                           (cmp (padded_digits n (digits a)) (padded_digits n (digits b)))
         in if negative a then ordering_reverse magnitude else magnitude))"

definition decimal_value_of :: "'n json_lib \<Rightarrow> 'n \<Rightarrow> decimal_number option" where
  "decimal_value_of L n = decimal_parse (num_to_string L n)"

text \<open>\<open>integral_index\<close>: an array index given by a number, when it is a \<open>usize\<close>.\<close>

fun checked_digits :: "nat \<Rightarrow> nat list \<Rightarrow> nat option" where
  "checked_digits acc [] = Some acc"
| "checked_digits acc (d # ds) =
     (if acc * 10 > usize_max \<or> acc * 10 + d > usize_max then None
      else checked_digits (acc * 10 + d) ds)"

definition integral_index :: "'n json_lib \<Rightarrow> 'n \<Rightarrow> nat option" where
  "integral_index L n =
     (case decimal_value_of L n of None \<Rightarrow> None
      | Some d \<Rightarrow>
          if negative d \<or> 0 < scale d then None
          else if scale d = i64_min then None
          else
            (let zeros = nat (- scale d) in
             if length (digits d) + zeros > usize_max then None
             else if length (digits d) + zeros > 20 then None
             else checked_digits 0 (digits d @ replicate zeros 0)))"

section \<open>Values and normal forms\<close>

definition decimal_real :: "decimal_number \<Rightarrow> real" where
  "decimal_real d =
     (if negative d then -1 else 1) * real (nat_of_digits (digits d)) * (10 powi (- scale d))"

definition decimal_normal :: "decimal_number \<Rightarrow> bool" where
  "decimal_normal d \<longleftrightarrow>
     d = \<lparr>negative = False, digits = [0], scale = 0\<rparr>
     \<or> digits d \<noteq> [] \<and> list_all (\<lambda>k. k < 10) (digits d)
        \<and> hd (digits d) \<noteq> 0 \<and> last (digits d) \<noteq> 0"

text \<open>No operation on the scale or the order left the range of \<open>i64\<close>.\<close>

definition decimal_in_range :: "decimal_number \<Rightarrow> bool" where
  "decimal_in_range d \<longleftrightarrow>
     int (length (digits d)) \<le> i64_max
     \<and> i64_min \<le> int (length (digits d)) - scale d
     \<and> int (length (digits d)) - scale d \<le> i64_max"

lemma nat_of_digits_Nil [simp]: "nat_of_digits [] = 0"
  by (simp add: nat_of_digits_def)

lemma nat_of_digits_snoc [simp]: "nat_of_digits (ds @ [d]) = 10 * nat_of_digits ds + d"
  by (simp add: nat_of_digits_def)

lemma nat_of_digits_append:
  "nat_of_digits (xs @ ys) = nat_of_digits xs * 10 ^ length ys + nat_of_digits ys"
proof (induction ys rule: rev_induct)
  case Nil
  then show ?case by simp
next
  case (snoc y ys)
  then show ?case
    unfolding append_assoc [symmetric] nat_of_digits_snoc by (simp add: algebra_simps)
qed

lemma nat_of_digits_Cons: "nat_of_digits (d # ds) = d * 10 ^ length ds + nat_of_digits ds"
  using nat_of_digits_append [of "[d]" ds] by (simp add: nat_of_digits_def)

lemma nat_of_digits_zeros [simp]: "nat_of_digits (replicate n 0) = 0"
  by (induction n) (simp_all add: nat_of_digits_Cons)

lemma nat_of_digits_bound:
  "list_all (\<lambda>k. k < 10) ds \<Longrightarrow> nat_of_digits ds < 10 ^ length ds"
proof (induction ds)
  case Nil
  then show ?case by simp
next
  case (Cons d ds)
  then have "d \<le> 9" and "nat_of_digits ds < 10 ^ length ds" by simp_all
  then have "d * 10 ^ length ds \<le> 9 * 10 ^ length ds" by simp
  with \<open>nat_of_digits ds < 10 ^ length ds\<close> show ?case
    unfolding nat_of_digits_Cons length_Cons power_Suc by linarith
qed

lemma nat_of_digits_lower:
  assumes "ds \<noteq> []" and "hd ds \<noteq> 0"
  shows "10 ^ (length ds - 1) \<le> nat_of_digits ds"
proof (cases ds)
  case (Cons d r)
  with assms have "1 * 10 ^ length r \<le> d * 10 ^ length r" by (intro mult_le_mono1) simp
  then have "10 ^ length r \<le> d * 10 ^ length r + nat_of_digits r" by linarith
  with Cons show ?thesis by (simp add: nat_of_digits_Cons)
qed (use assms in simp)

lemma nat_of_digits_lex:
  assumes "length xs = length ys" "list_all (\<lambda>k. k < 10) xs" "list_all (\<lambda>k. k < 10) ys"
  shows "xs < ys \<longleftrightarrow> nat_of_digits xs < nat_of_digits ys"
  using assms
proof (induction xs ys rule: list_induct2)
  case Nil
  then show ?case by simp
next
  case (Cons x xs y ys)
  have bx: "nat_of_digits xs < 10 ^ length ys" and by': "nat_of_digits ys < 10 ^ length ys"
    using Cons nat_of_digits_bound [of xs] nat_of_digits_bound [of ys] by simp_all
  consider "x < y" | "x = y" | "y < x" by arith
  then show ?case
  proof cases
    case 1
    then have "Suc x * 10 ^ length ys \<le> y * 10 ^ length ys" by (intro mult_le_mono1) simp
    with 1 bx Cons.hyps show ?thesis by (simp add: nat_of_digits_Cons)
  next
    case 2
    with Cons show ?thesis by (simp add: nat_of_digits_Cons)
  next
    case 3
    then have "Suc y * 10 ^ length ys \<le> x * 10 ^ length ys" by (intro mult_le_mono1) simp
    with 3 by' Cons.hyps show ?thesis by (simp add: nat_of_digits_Cons)
  qed
qed

section \<open>Comparison is the order of the values\<close>

definition exponent_of :: "decimal_number \<Rightarrow> int" where
  "exponent_of d = int (length (digits d)) - scale d"

definition magnitude :: "decimal_number \<Rightarrow> real" where
  "magnitude d = real (nat_of_digits (digits d)) * (10 powi (- scale d))"

definition proper_digits :: "nat list \<Rightarrow> bool" where
  "proper_digits ds \<longleftrightarrow>
     ds \<noteq> [] \<and> list_all (\<lambda>k. k < 10) ds \<and> hd ds \<noteq> 0 \<and> last ds \<noteq> 0"

lemma decimal_real_magnitude:
  "decimal_real d = (if negative d then - magnitude d else magnitude d)"
  by (simp add: decimal_real_def magnitude_def)

lemma decimal_normal_cases:
  assumes "decimal_normal d"
  obtains (zero) "d = \<lparr>negative = False, digits = [0], scale = 0\<rparr>"
    | (proper) "proper_digits (digits d)" "\<not> decimal_is_zero d"
  using assms by (fastforce simp: decimal_normal_def proper_digits_def decimal_is_zero_def)

lemma decimal_order_exponent: "decimal_in_range d \<Longrightarrow> decimal_order d = exponent_of d"
  by (simp add: decimal_in_range_def decimal_order_def exponent_of_def usize_to_i64_def
      i64_saturating_sub_def)

lemma padded_digits_eq:
  "length ds \<le> n \<Longrightarrow> padded_digits n ds = ds @ replicate (n - length ds) 0"
  by (rule nth_equalityI) (auto simp: padded_digits_def nth_append)

lemma magnitude_padded:
  assumes "length (digits d) \<le> n"
  shows "magnitude d = real (nat_of_digits (padded_digits n (digits d)))
           * (10 powi (exponent_of d - int n))"
proof -
  have "(10::real) powi (- scale d) = 10 ^ (n - length (digits d)) * 10 powi (exponent_of d - int n)"
    using assms
    by (simp add: exponent_of_def power_int_add [symmetric] flip: power_int_of_nat)
  with assms show ?thesis
    by (simp add: magnitude_def padded_digits_eq nat_of_digits_append)
qed

lemma magnitude_bounds:
  assumes "proper_digits (digits d)"
  shows "10 powi (exponent_of d - 1) \<le> magnitude d" and "magnitude d < 10 powi (exponent_of d)"
proof -
  let ?n = "length (digits d)"
  from assms have n: "1 \<le> ?n" by (cases "digits d") (auto simp: proper_digits_def)
  have up: "nat_of_digits (digits d) < 10 ^ ?n"
    and low: "10 ^ (?n - 1) \<le> nat_of_digits (digits d)"
    using assms nat_of_digits_bound nat_of_digits_lower by (auto simp: proper_digits_def)
  have "(10::real) powi (exponent_of d - 1) = 10 ^ (?n - 1) * 10 powi (- scale d)"
    using n by (simp add: exponent_of_def power_int_add [symmetric] of_nat_diff algebra_simps flip: power_int_of_nat)
  moreover from low have "(10::real) ^ (?n - 1) \<le> real (nat_of_digits (digits d))"
    by (metis of_nat_le_iff of_nat_numeral of_nat_power)
  ultimately show "10 powi (exponent_of d - 1) \<le> magnitude d"
    by (simp add: magnitude_def mult_right_mono)
  have "(10::real) powi (exponent_of d) = 10 ^ ?n * 10 powi (- scale d)"
    by (simp add: exponent_of_def power_int_add [symmetric] flip: power_int_of_nat)
  moreover from up have "real (nat_of_digits (digits d)) < (10::real) ^ ?n"
    by (metis of_nat_less_iff of_nat_numeral of_nat_power)
  ultimately show "magnitude d < 10 powi (exponent_of d)"
    by (simp add: magnitude_def)
qed

lemma magnitude_pos: "proper_digits (digits d) \<Longrightarrow> 0 < magnitude d"
  using magnitude_bounds(1) [of d] by (meson less_le_trans zero_less_numeral zero_less_power_int)

lemma exponent_less_magnitude:
  assumes "proper_digits (digits a)" "proper_digits (digits b)" "exponent_of a < exponent_of b"
  shows "magnitude a < magnitude b"
proof -
  have "magnitude a < 10 powi (exponent_of a)" using assms(1) by (rule magnitude_bounds)
  also have "\<dots> \<le> 10 powi (exponent_of b - 1)"
    using assms(3) by (intro power_int_increasing) auto
  also have "\<dots> \<le> magnitude b" using assms(2) by (rule magnitude_bounds)
  finally show ?thesis .
qed

lemma same_exponent_magnitude:
  assumes "proper_digits (digits a)" "proper_digits (digits b)" "exponent_of a = exponent_of b"
    and "length (digits a) \<le> n" "length (digits b) \<le> n"
  shows "cmp (padded_digits n (digits a)) (padded_digits n (digits b))
           = cmp (magnitude a) (magnitude b)"
proof -
  let ?x = "padded_digits n (digits a)" and ?y = "padded_digits n (digits b)"
  have len: "length ?x = length ?y" by (simp add: padded_digits_def)
  have small: "list_all (\<lambda>k. k < 10) ?x" "list_all (\<lambda>k. k < 10) ?y"
    using assms by (auto simp: padded_digits_eq proper_digits_def list_all_iff)
  have pos: "(0::real) < 10 powi (exponent_of b - int n)" by simp
  have less: "magnitude a < magnitude b \<longleftrightarrow> ?x < ?y"
    using assms pos
    by (simp add: magnitude_padded [of a n] magnitude_padded [of b n]
        nat_of_digits_lex [OF len small])
  have greater: "magnitude b < magnitude a \<longleftrightarrow> ?y < ?x"
    using assms pos
    by (simp add: magnitude_padded [of a n] magnitude_padded [of b n]
        nat_of_digits_lex [OF len [symmetric] small(2) small(1)])
  from less greater show ?thesis unfolding cmp_def by (smt (verit) linorder_less_linear)
qed

lemma magnitude_cmp:
  assumes "proper_digits (digits a)" "proper_digits (digits b)"
  shows "ordering_then (cmp (exponent_of a) (exponent_of b))
           (cmp (padded_digits (max (length (digits a)) (length (digits b))) (digits a))
                (padded_digits (max (length (digits a)) (length (digits b))) (digits b)))
         = cmp (magnitude a) (magnitude b)"
  using same_exponent_magnitude [OF assms] exponent_less_magnitude [OF assms]
    exponent_less_magnitude [OF assms(2,1)]
  by (cases "exponent_of a" "exponent_of b" rule: linorder_cases)
    (simp_all add: ordering_then_def cmp_def)

lemma proper_digits_padded_eq:
  assumes "proper_digits xs" "proper_digits ys" "length xs \<le> n" "length ys \<le> n"
    and "padded_digits n xs = padded_digits n ys"
  shows "xs = ys"
proof -
  have strip: "rev (dropWhile (\<lambda>d. d = 0) (rev (padded_digits n zs))) = zs"
    if zs: "proper_digits zs" "length zs \<le> n" for zs
  proof -
    from zs(1) obtain us u where "zs = us @ [u]" "u \<noteq> 0"
      by (cases zs rule: rev_exhaust) (auto simp: proper_digits_def)
    then show ?thesis unfolding padded_digits_eq [OF zs(2)] by (simp add: dropWhile_append)
  qed
  from strip [OF assms(1,3)] strip [OF assms(2,4)] assms(5) show ?thesis by metis
qed

lemma magnitude_inject:
  assumes "proper_digits (digits a)" "proper_digits (digits b)" "magnitude a = magnitude b"
  shows "digits a = digits b \<and> scale a = scale b"
proof -
  let ?n = "max (length (digits a)) (length (digits b))"
  from magnitude_cmp [OF assms(1,2)] assms(3)
  have "exponent_of a = exponent_of b"
    and "padded_digits ?n (digits a) = padded_digits ?n (digits b)"
    by (auto simp: ordering_then_def cmp_def split: if_splits)
  moreover from this(2) have "digits a = digits b"
    using proper_digits_padded_eq [OF assms(1,2), of ?n] by simp
  ultimately show ?thesis by (simp add: exponent_of_def)
qed

lemma magnitude_zero: "magnitude \<lparr>negative = n, digits = [0], scale = 0\<rparr> = 0"
  by (simp add: magnitude_def nat_of_digits_def)

lemma decimal_cmp_real:
  assumes "decimal_normal a" "decimal_normal b" "decimal_in_range a" "decimal_in_range b"
  shows "decimal_cmp a b = cmp (decimal_real a) (decimal_real b)"
  using assms(1)
proof (cases rule: decimal_normal_cases)
  case zero
  show ?thesis
    using assms(2)
  proof (cases rule: decimal_normal_cases)
    case zero': zero
    with zero show ?thesis by (simp add: decimal_cmp_def decimal_is_zero_def cmp_def)
  next
    case proper
    with zero magnitude_pos [OF proper(1)] show ?thesis
      by (simp add: decimal_cmp_def decimal_real_magnitude magnitude_zero cmp_def)
        (simp add: decimal_is_zero_def)
  qed
next
  case proper
  note a = this
  show ?thesis
    using assms(2)
  proof (cases rule: decimal_normal_cases)
    case zero
    with a magnitude_pos [OF a(1)] show ?thesis
      by (simp add: decimal_cmp_def decimal_real_magnitude magnitude_zero cmp_def)
        (simp add: decimal_is_zero_def)
  next
    case proper
    with a assms(3,4) magnitude_pos [OF a(1)] magnitude_pos [OF proper(1)]
      magnitude_cmp [OF a(1) proper(1)]
    show ?thesis
      by (simp add: decimal_cmp_def Let_def decimal_order_exponent decimal_real_magnitude)
        (auto simp: cmp_def)
  qed
qed

text \<open>
  C40. On numbers in normal form whose exponents fit an \<open>i64\<close>, \<open>DecimalNumber::cmp\<close> is the
  order of the real numbers they denote: no precision is lost.
\<close>

theorem decimal_cmp_value:
  assumes "decimal_normal a" "decimal_normal b" "decimal_in_range a" "decimal_in_range b"
  shows "decimal_cmp a b = cmp (decimal_real a) (decimal_real b)"
  using assms by (rule decimal_cmp_real)

theorem decimal_cmp_value_witness:
  "decimal_cmp \<lparr>negative = False, digits = [1, 5], scale = 1\<rparr>
               \<lparr>negative = False, digits = [1, 2, 5], scale = 1\<rparr> =
   cmp (decimal_real \<lparr>negative = False, digits = [1, 5], scale = 1\<rparr>)
       (decimal_real \<lparr>negative = False, digits = [1, 2, 5], scale = 1\<rparr>)"
  by (rule decimal_cmp_value)
    (simp_all add: decimal_normal_def decimal_in_range_def i64_min_def i64_max_def)

section \<open>Parsing yields the normal form of the value\<close>

lemma strip_trailing_zeros_proper:
  assumes "ds \<noteq> []" "list_all (\<lambda>k. k < 10) ds" "hd ds \<noteq> 0"
  shows "proper_digits (fst (strip_trailing_zeros ds sc))"
  using assms
proof (induction ds sc rule: strip_trailing_zeros.induct)
  case (1 ds sc)
  obtain us u where ds: "ds = us @ [u]" using 1(2) by (cases ds rule: rev_exhaust) auto
  show ?case
  proof (cases "1 < length ds \<and> last ds = 0")
    case True
    then have "us \<noteq> []" using ds by auto
    with 1(1) [OF True] 1(3,4) True show ?thesis
      by (subst strip_trailing_zeros.simps) (simp add: ds)
  next
    case False
    with 1(3,4) ds show ?thesis
      by (subst strip_trailing_zeros.simps) (cases us; auto simp: proper_digits_def)
  qed
qed

text \<open>As long as the scale does not saturate, dropping zeros keeps the value.\<close>

lemma strip_trailing_zeros_value:
  assumes "i64_min + int (length ds) \<le> sc" "sc \<le> i64_max"
    and "strip_trailing_zeros ds sc = (ds', sc')"
  shows "real (nat_of_digits ds') * 10 powi (- sc') = real (nat_of_digits ds) * 10 powi (- sc)"
  using assms
proof (induction ds sc arbitrary: ds' sc' rule: strip_trailing_zeros.induct)
  case (1 ds sc)
  show ?case
  proof (cases "1 < length ds \<and> last ds = 0")
    case True
    then obtain us where ds: "ds = us @ [0]"
      by (metis append_butlast_last_id list.size(3) not_less_zero)
    from 1(2,3) ds have sub: "i64_saturating_sub sc 1 = sc - 1"
      by (simp add: i64_saturating_sub_def)
    have "real (nat_of_digits ds') * 10 powi (- sc') = real (nat_of_digits us) * 10 powi (1 - sc)"
      using 1(1) [OF True, of ds' sc'] 1(2,3,4) True
      by (simp add: strip_trailing_zeros.simps [of ds sc] sub) (simp add: ds)
    also have "(10::real) powi (1 - sc) = 10 * 10 powi (- sc)"
      by (simp add: power_int_diff power_int_minus field_simps)
    finally show ?thesis by (simp add: ds)
  next
    case False
    then have "strip_trailing_zeros ds sc = (ds, sc)"
      by (subst strip_trailing_zeros.simps) (rule if_not_P)
    with 1(4) show ?thesis by simp
  qed
qed

lemma is_ascii_digit_value: "is_ascii_digit c \<Longrightarrow> digit_value c < 10"
  by (auto simp: is_ascii_digit_def digit_value_def)

lemma nat_of_digits_dropWhile [simp]:
  "nat_of_digits (dropWhile (\<lambda>d. d = 0) ds) = nat_of_digits ds"
  by (induction ds) (simp_all add: nat_of_digits_Cons)

lemma significant_digits:
  assumes "list_all is_ascii_digit s" "dropWhile (\<lambda>d. d = 0) (map digit_value s) \<noteq> []"
  shows "list_all (\<lambda>k. k < 10) (dropWhile (\<lambda>d. d = 0) (map digit_value s))"
    and "hd (dropWhile (\<lambda>d. d = 0) (map digit_value s)) \<noteq> 0"
proof -
  have "list_all (\<lambda>k. k < 10) (map digit_value s)"
    using assms(1) by (auto simp: list_all_iff is_ascii_digit_value)
  then show "list_all (\<lambda>k. k < 10) (dropWhile (\<lambda>d. d = 0) (map digit_value s))"
    by (meson list_all_iff set_dropWhileD)
  show "hd (dropWhile (\<lambda>d. d = 0) (map digit_value s)) \<noteq> 0"
    using hd_dropWhile [OF assms(2)] by simp
qed

lemma decimal_build_normal:
  assumes "list_all is_ascii_digit (i @ f)"
  shows "decimal_normal (decimal_build n i f e)"
proof (cases "dropWhile (\<lambda>d. d = 0) (map digit_value (i @ f)) = []")
  case True
  then show ?thesis by (simp only: decimal_build_def Let_def if_True decimal_normal_def simp_thms)
next
  case False
  note strip_trailing_zeros_proper [OF False significant_digits [OF assms False]]
  with False show ?thesis
    unfolding decimal_build_def Let_def
    by (simp only: if_False prod.case_eq_if) (simp add: decimal_normal_def proper_digits_def)
qed

lemma decimal_build_value:
  assumes "i64_min + int (length i) + int (length f) \<le> int (length f) - e"
    and "int (length f) \<le> i64_max" "int (length f) - e \<le> i64_max"
  shows "decimal_real (decimal_build n i f e) =
           (if n then -1 else 1) * real (nat_of_digits (map digit_value (i @ f)))
             * 10 powi (e - int (length f))"
proof (cases "dropWhile (\<lambda>d. d = 0) (map digit_value (i @ f)) = []")
  case True
  then have "nat_of_digits (map digit_value (i @ f)) = 0"
    by (metis nat_of_digits_Nil nat_of_digits_dropWhile)
  with True show ?thesis
    by (simp only: decimal_build_def Let_def if_True) (simp add: decimal_real_def nat_of_digits_def)
next
  case False
  let ?sig = "dropWhile (\<lambda>d. d = 0) (map digit_value (i @ f))"
  have len: "length ?sig \<le> length i + length f"
    by (metis length_append length_dropWhile_le length_map)
  from assms have sc: "i64_saturating_sub (usize_to_i64 (length f)) e = int (length f) - e"
    by (simp add: usize_to_i64_def i64_saturating_sub_def)
  obtain ds sc' where strip: "strip_trailing_zeros ?sig (int (length f) - e) = (ds, sc')"
    by fastforce
  have "real (nat_of_digits ds) * 10 powi (- sc')
      = real (nat_of_digits ?sig) * 10 powi (- (int (length f) - e))"
    using assms len by (intro strip_trailing_zeros_value [OF _ _ strip]) linarith+
  then show ?thesis
    using False strip
    by (simp only: decimal_build_def Let_def if_False sc prod.case nat_of_digits_dropWhile)
      (simp add: decimal_real_def)
qed

lemma parse_yields_normal:
  assumes "decimal_parse source = Some d"
  shows "decimal_normal d"
  using assms
  by (auto simp: decimal_parse_def Let_def intro!: decimal_build_normal
      split: option.splits if_splits prod.splits)

text \<open>
  Whatever text it is given, \<open>DecimalNumber::parse\<close> returns a number in normal form
  (zero as the one digit zero, no leading and no trailing zero otherwise).
\<close>

lemma decimal_parse_normal:
  assumes "decimal_parse source = Some d"
  shows "decimal_normal d"
  using assms by (rule parse_yields_normal)

text \<open>
  \<open>DecimalNumber::parse\<close> on the text of a JSON number denotes exactly the number
  written, for every sign, integer part, fraction and exponent whose scale fits an \<open>i64\<close>.
\<close>

lemma decimal_parse_value:
  assumes "i \<noteq> []" "list_all is_ascii_digit i" "list_all is_ascii_digit f"
    and "parse_exponent t = Some e"
    and "i64_min + int (length i) + int (length f) \<le> int (length f) - e"
    and "int (length f) \<le> i64_max" "int (length f) - e \<le> i64_max"
  shows "\<exists>d. decimal_parse ((if n then ''-'' else []) @ i @ ''.'' @ f @ ''e'' @ t) = Some d
           \<and> decimal_real d = (if n then -1 else 1) * real (nat_of_digits (map digit_value (i @ f)))
               * 10 powi (e - int (length f))"
proof -
  let ?m = "(if n then ''-'' else []) @ i @ ''.'' @ f"
  have digit: "c \<noteq> CHR ''e'' \<and> c \<noteq> CHR ''E'' \<and> c \<noteq> CHR ''.'' \<and> c \<noteq> CHR ''-'' \<and> c \<noteq> CHR ''+''"
    if "is_ascii_digit c" for c
    using that by (auto simp: is_ascii_digit_def)
  have "split_exponent (?m @ CHR ''e'' # t) = (?m, Some t)"
    using assms(2,3) digit
    by (auto simp: split_exponent_def Let_def list_all_iff takeWhile_append)
  moreover have "starts_with ?m ''-'' = n" "strip_sign ?m = i @ ''.'' @ f"
    using assms(1,2) digit
    by (cases i; auto simp: starts_with_def strip_sign_def)+
  moreover have "split_point (i @ ''.'' @ f) = (i, f)"
    using assms(2) digit by (auto simp: split_point_def Let_def list_all_iff takeWhile_append)
  ultimately have "decimal_parse (?m @ CHR ''e'' # t) = Some (decimal_build n i f e)"
    using assms(1-4) unfolding decimal_parse_def by (simp add: Let_def)
  with decimal_build_value [OF assms(5-7)] show ?thesis by simp
qed

lemma decimal_eq_real:
  assumes "decimal_normal a" "decimal_normal b"
  shows "a = b \<longleftrightarrow> decimal_real a = decimal_real b"
proof
  assume eq: "decimal_real a = decimal_real b"
  show "a = b"
    using assms(1)
  proof (cases rule: decimal_normal_cases)
    case zero
    with assms(2) eq show ?thesis
      by (cases rule: decimal_normal_cases)
        (auto simp: decimal_real_magnitude magnitude_zero dest!: magnitude_pos split: if_splits)
  next
    case proper
    note a = this
    show ?thesis
      using assms(2)
    proof (cases rule: decimal_normal_cases)
      case zero
      with a eq show ?thesis
        by (auto simp: decimal_real_magnitude magnitude_zero dest!: magnitude_pos split: if_splits)
    next
      case proper
      from eq magnitude_pos [OF a(1)] magnitude_pos [OF proper(1)]
      have "negative a = negative b \<and> magnitude a = magnitude b"
        by (simp add: decimal_real_magnitude split: if_splits)
      with magnitude_inject [OF a(1) proper(1)] show ?thesis by simp
    qed
  qed
qed simp

text \<open>
  Two numbers in normal form are structurally equal exactly when they denote the same
  real number, so the derived \<open>PartialEq\<close> that \<open>==\<close> of the expression language uses is
  numeric equality.
\<close>

lemma decimal_eq_value:
  assumes "decimal_normal a" "decimal_normal b"
  shows "a = b \<longleftrightarrow> decimal_real a = decimal_real b"
  using assms by (rule decimal_eq_real)

end
