(* ===== verification/Eval_Expr.thy ===== *)
theory Eval_Expr
  imports Eval_Json Decimal
begin

text \<open>
  \<open>expression_eval.rs\<close> and \<open>expression_eval/functions.rs\<close>: bounded evaluation of
  expressions over an immutable JSON context, with evidence traces and frozen-value
  identity. Evaluation recurses on the syntax tree and the remaining access segments, so it
  needs no fuel.
\<close>

section \<open>Comparison\<close>

fun literal_value :: "'n expression_literal \<Rightarrow> 'n json" where
  "literal_value (LString v) = JString v"
| "literal_value (LNumber n) = JNumber n"
| "literal_value (LBoolean b) = JBool b"
| "literal_value LNull = JNull"

fun is_truthy :: "'n json_lib \<Rightarrow> 'n json \<Rightarrow> bool" where
  "is_truthy L JNull = False"
| "is_truthy L (JBool b) = b"
| "is_truthy L (JNumber n) =
     (case decimal_parse (num_to_string L n) of None \<Rightarrow> False | Some d \<Rightarrow> \<not> decimal_is_zero d)"
| "is_truthy L (JString v) = (v \<noteq> [])"
| "is_truthy L (JArray _) = True"
| "is_truthy L (JObject _) = True"

fun coerce_number :: "'n json_lib \<Rightarrow> 'n json \<Rightarrow> decimal_number option" where
  "coerce_number L JNull = decimal_parse ''0''"
| "coerce_number L (JBool b) = decimal_parse (if b then ''1'' else ''0'')"
| "coerce_number L (JNumber n) = decimal_value_of L n"
| "coerce_number L (JString v) =
     (if v = [] then decimal_parse ''0''
      else (case num_from_str L v of None \<Rightarrow> None | Some n \<Rightarrow> decimal_value_of L n))"
| "coerce_number L (JArray _) = None"
| "coerce_number L (JObject _) = None"

text \<open>\<open>std::mem::discriminant\<close>.\<close>

fun discriminant :: "'n json \<Rightarrow> nat" where
  "discriminant JNull = 0"
| "discriminant (JBool _) = 1"
| "discriminant (JNumber _) = 2"
| "discriminant (JString _) = 3"
| "discriminant (JArray _) = 4"
| "discriminant (JObject _) = 5"

definition coerced_equal :: "'n json_lib \<Rightarrow> 'n json \<Rightarrow> 'n json \<Rightarrow> bool" where
  "coerced_equal L left right =
     (case (coerce_number L left, coerce_number L right) of
        (Some l, Some r) \<Rightarrow> l = r | _ \<Rightarrow> False)"

definition equal_values ::
  "'n json_lib \<Rightarrow> 'n json \<Rightarrow> 'n json \<Rightarrow> bool \<Rightarrow> bool evaluating" where
  "equal_values L left right same_origin =
     (if json_is_container left \<and> json_is_container right then ev_return same_origin
      else
        (case (left, right) of
           (JNull, JNull) \<Rightarrow> ev_return True
         | (JBool l, JBool r) \<Rightarrow> ev_return (l = r)
         | (JNumber l, JNumber r) \<Rightarrow> ev_return (decimal_value_of L l = decimal_value_of L r)
         | (JString l, JString r) \<Rightarrow>
             ev_bind (lowercase L l) (\<lambda>l. ev_bind (lowercase L r) (\<lambda>r. ev_return (l = r)))
         | _ \<Rightarrow> ev_return (coerced_equal L left right)))"

definition cmp_options :: "decimal_number option \<Rightarrow> decimal_number option \<Rightarrow> ordering option" where
  "cmp_options a b =
     (case (a, b) of (Some l, Some r) \<Rightarrow> Some (decimal_cmp l r) | _ \<Rightarrow> None)"

definition ordered :: "'n json_lib \<Rightarrow> 'n json \<Rightarrow> 'n json \<Rightarrow> ordering option evaluating" where
  "ordered L left right =
     (case (left, right) of
        (JString l, JString r) \<Rightarrow>
          ev_bind (lowercase L l) (\<lambda>l. ev_bind (lowercase L r) (\<lambda>r. ev_return (Some (cmp l r))))
      | (JNumber l, JNumber r) \<Rightarrow>
          ev_return (cmp_options (decimal_value_of L l) (decimal_value_of L r))
      | (JBool l, JBool r) \<Rightarrow> ev_return (Some (cmp l r))
      | _ \<Rightarrow>
          ev_return (if discriminant left \<noteq> discriminant right
                     then cmp_options (coerce_number L left) (coerce_number L right)
                     else None))"

definition same_identity :: "value_metadata \<Rightarrow> value_metadata \<Rightarrow> bool" where
  "same_identity left right =
     (case (md_identity left, md_identity right) of
        (Some l, Some r) \<Rightarrow> identity_same l r | _ \<Rightarrow> False)"

definition ordered_is ::
  "'n json_lib \<Rightarrow> (ordering \<Rightarrow> bool) \<Rightarrow> 'n json \<Rightarrow> 'n json \<Rightarrow> bool evaluating" where
  "ordered_is L P left right =
     ev_bind (ordered L left right) (\<lambda>c.
       ev_return (case c of None \<Rightarrow> False | Some order \<Rightarrow> P order))"

definition compare_values ::
  "'n json_lib \<Rightarrow> binary_operator \<Rightarrow> 'n json \<Rightarrow> 'n json \<Rightarrow> bool \<Rightarrow> bool evaluating" where
  "compare_values L operator left right same =
     (case operator of
        OpEqual \<Rightarrow> equal_values L left right same
      | OpNotEqual \<Rightarrow> ev_bind (equal_values L left right same) (\<lambda>b. ev_return (\<not> b))
      | OpLess \<Rightarrow> ordered_is L (\<lambda>c. c = OrdLess) left right
      | OpLessOrEqual \<Rightarrow> ordered_is L (\<lambda>c. c \<noteq> OrdGreater) left right
      | OpGreater \<Rightarrow> ordered_is L (\<lambda>c. c = OrdGreater) left right
      | OpGreaterOrEqual \<Rightarrow> ordered_is L (\<lambda>c. c \<noteq> OrdLess) left right
      | OpAnd \<Rightarrow> ev_return False
      | OpOr \<Rightarrow> ev_return False)"

definition compare ::
  "'n json_lib \<Rightarrow> binary_operator \<Rightarrow> 'n runtime_value \<Rightarrow> 'n runtime_value \<Rightarrow> 'n runtime_value evaluating"
where
  "compare L operator left right =
     (let trace = trace_merge (runtime_trace left) (runtime_trace right) in
      case (rv_value left, rv_value right) of
        (Some l, Some r) \<Rightarrow>
          ev_bind (compare_values L operator (cow_ref l) (cow_ref r)
                    (same_identity (rv_metadata left) (rv_metadata right))) (\<lambda>b.
          runtime_owned (JBool b) trace)
      | _ \<Rightarrow> ev_return (runtime_unavailable (metadata_derived trace)))"

section \<open>Functions\<close>

definition rv_json :: "'n runtime_value \<Rightarrow> 'n json" where
  "rv_json v = (case rv_value v of Some c \<Rightarrow> cow_ref c | None \<Rightarrow> JNull)"

fun contains_loop ::
  "'n json_lib \<Rightarrow> nat \<Rightarrow> value_metadata \<Rightarrow> 'n runtime_value \<Rightarrow> nat \<Rightarrow> 'n json list \<Rightarrow> evaluation_trace
     \<Rightarrow> (bool \<times> evaluation_trace) evaluating" where
  "contains_loop L depth metadata right index [] trace = ev_return (False, trace)"
| "contains_loop L depth metadata right index (item # items) trace =
     ev_bind (visit_items 1) (\<lambda>_.
     ev_bind (step (depth + 1)) (\<lambda>_.
       (let child = metadata_child metadata (PathIndex index);
            trace = trace_merge trace (metadata_trace child)
        in ev_bind (equal_values L item (rv_json right) (same_identity child (rv_metadata right)))
             (\<lambda>found. if found then ev_return (True, trace)
                      else contains_loop L depth metadata right (index + 1) items trace))))"

definition text_pair ::
  "'n json_lib \<Rightarrow> 'n runtime_value \<Rightarrow> 'n runtime_value \<Rightarrow> (string \<times> string) evaluating" where
  "text_pair L a b =
     ev_bind (scalar_text L (rv_json a)) (\<lambda>text.
     ev_bind (scalar_text L (rv_json b)) (\<lambda>part.
     ev_bind (lowercase L text) (\<lambda>text.
     ev_bind (lowercase L part) (\<lambda>part. ev_return (text, part)))))"

definition join_items ::
  "'n json_lib \<Rightarrow> nat \<Rightarrow> value_metadata \<Rightarrow> string \<Rightarrow> value_metadata option \<Rightarrow> 'n json list
     \<Rightarrow> (string \<times> evaluation_trace) evaluating" where
  "join_items L depth metadata separator separator_metadata items =
     ev_fold (\<lambda>(index, item) (text, sources).
        ev_bind (step (depth + 1)) (\<lambda>_.
          (let sources = trace_merge sources
                 (text_source_trace (metadata_child metadata (PathIndex index)))
           in ev_bind (if 0 < index then append_text text separator else ev_return text) (\<lambda>text.
              (let sources = (case separator_metadata of
                     Some m \<Rightarrow> if 0 < index then trace_merge sources (text_source_trace m) else sources
                   | None \<Rightarrow> sources)
               in ev_bind (scalar_text L item) (\<lambda>part.
                  ev_bind (append_text text part) (\<lambda>text. ev_return (text, sources))))))))
       (List.enumerate 0 items) ([], text_source_trace metadata)"

text \<open>The placeholder between braces: an index below the number of values.\<close>

definition placeholder_index :: "string \<Rightarrow> nat \<Rightarrow> evaluation_error + nat" where
  "placeholder_index index count =
     (if index = [] \<or> \<not> list_all is_ascii_digit index
      then Inl (invalid_error ''format placeholders require a nonnegative integer.'')
      else
        (let n = nat_of_digits (map digit_value index) in
         if n \<le> usize_max \<and> n < count then Inr n
         else Inl (invalid_error ''format references an unavailable argument.'')))"

function render_format ::
  "string \<Rightarrow> string list \<Rightarrow> value_metadata list \<Rightarrow> nat \<Rightarrow> string \<Rightarrow> evaluation_trace
     \<Rightarrow> (string \<times> evaluation_trace) evaluating" where
  "render_format rest values evaluated depth out sources =
     (if rest = [] then ev_return (out, sources)
      else ev_bind (step depth) (\<lambda>_.
        if starts_with rest ''{{'' \<or> starts_with rest ''}}''
        then ev_bind (append_text out (take 1 rest)) (\<lambda>out.
               render_format (drop 2 rest) values evaluated depth out sources)
        else if starts_with rest ''{''
        then
          (let inner = takeWhile (\<lambda>c. c \<noteq> CHR ''}'') (tl rest) in
           if length inner = length (tl rest)
           then ev_fail (invalid_error ''format has an unmatched opening brace.'')
           else
             (case placeholder_index inner (length values) of
                Inl e \<Rightarrow> ev_fail e
              | Inr index \<Rightarrow>
                  ev_bind (append_text out (values ! index)) (\<lambda>out.
                    render_format (drop (length inner + 2) rest) values evaluated depth out
                      (trace_merge sources (text_source_trace (evaluated ! index))))))
        else if starts_with rest ''}''
        then ev_fail (invalid_error ''format has an unmatched closing brace.'')
        else
          (let text = takeWhile (\<lambda>c. c \<noteq> CHR ''{'' \<and> c \<noteq> CHR ''}'') rest in
           ev_bind (append_text out text) (\<lambda>out.
             render_format (drop (length text) rest) values evaluated depth out sources))))"
  by pat_completeness auto
termination
  by (relation "measure (\<lambda>(rest, _). length rest)")
    (auto simp: starts_with_def neq_Nil_conv)

declare render_format.simps [simp del]

definition with_metadata ::
  "(value_metadata \<Rightarrow> value_metadata) \<Rightarrow> 'n runtime_value \<Rightarrow> 'n runtime_value" where
  "with_metadata f v = v\<lparr>rv_metadata := f (rv_metadata v)\<rparr>"

definition owned_with ::
  "(value_metadata \<Rightarrow> value_metadata) \<Rightarrow> 'n json \<Rightarrow> evaluation_trace \<Rightarrow> 'n runtime_value evaluating"
where
  "owned_with f v trace = ev_bind (runtime_owned v trace) (\<lambda>r. ev_return (with_metadata f r))"

text \<open>\<open>Evaluator::call\<close> once its arguments are evaluated and available.\<close>

definition call_strict_equals ::
  "'n json_lib \<Rightarrow> 'n json \<Rightarrow> 'n json \<Rightarrow> evaluation_trace \<Rightarrow> 'n runtime_value evaluating" where
  "call_strict_equals L left right trace =
     (if json_is_container left \<or> json_is_container right
      then ev_fail (invalid_error ''strictEquals requires primitive arguments.'')
      else
        (let result = (case (left, right) of
               (JNumber l, JNumber r) \<Rightarrow> decimal_value_of L l = decimal_value_of L r
             | _ \<Rightarrow> left = right)
         in runtime_owned (JBool result) trace))"

definition call_contains ::
  "'n json_lib \<Rightarrow> 'n runtime_value \<Rightarrow> 'n runtime_value \<Rightarrow> evaluation_trace \<Rightarrow> nat
     \<Rightarrow> 'n runtime_value evaluating" where
  "call_contains L a b trace depth =
     (case rv_json a of
        JArray items \<Rightarrow>
          ev_bind (contains_loop L depth (rv_metadata a) b 0 items
                    (trace_merge (metadata_membership_trace (rv_metadata a)) (runtime_trace b)))
            (\<lambda>(result, trace). runtime_owned (JBool result) trace)
      | _ \<Rightarrow>
          ev_bind (text_pair L a b) (\<lambda>(text, needle).
            runtime_owned (JBool (contains_str text needle)) trace))"

definition call_join ::
  "'n json_lib \<Rightarrow> 'n runtime_value list \<Rightarrow> evaluation_trace \<Rightarrow> nat \<Rightarrow> 'n runtime_value evaluating" where
  "call_join L vals trace depth =
     ev_bind (if 1 < length vals then scalar_text L (rv_json (vals ! 1)) else ev_return '','')
       (\<lambda>separator.
         case rv_json (vals ! 0) of
           JString _ \<Rightarrow> ev_return (with_metadata (add_dependencies trace) (vals ! 0))
         | JArray items \<Rightarrow>
             (let m = rv_metadata (vals ! 0);
                  trace = trace_merge trace (metadata_membership_trace m)
              in ev_bind (visit_items (length items)) (\<lambda>_.
                 ev_bind (join_items L depth m separator
                           (if 1 < length vals then Some (rv_metadata (vals ! 1)) else None) items)
                   (\<lambda>(text, sources). owned_with (set_text_sources sources) (JString text) trace)))
         | _ \<Rightarrow> ev_fail (invalid_error ''join requires an array or a string.''))"

definition call_format ::
  "'n json_lib \<Rightarrow> 'n runtime_value list \<Rightarrow> evaluation_trace \<Rightarrow> nat \<Rightarrow> 'n runtime_value evaluating" where
  "call_format L vals trace depth =
     ev_bind (scalar_text L (rv_json (vals ! 0))) (\<lambda>template.
     ev_bind (ev_fold (\<lambda>v texts. ev_bind (scalar_text L (rv_json v)) (\<lambda>t. ev_return (texts @ [t])))
               (drop 1 vals) []) (\<lambda>replacements.
     ev_bind (render_format template replacements (map rv_metadata (drop 1 vals)) depth []
               (text_source_trace (rv_metadata (vals ! 0)))) (\<lambda>(text, sources).
     owned_with (set_text_sources sources) (JString text) trace)))"

definition call_to_json ::
  "'n json_lib \<Rightarrow> 'n runtime_value \<Rightarrow> evaluation_trace \<Rightarrow> nat \<Rightarrow> 'n runtime_value evaluating" where
  "call_to_json L v trace depth =
     (let provenance = source_provenance (rv_metadata v)
      in ev_bind (serialize L (rv_json v) provenance (depth + 1)) (\<lambda>(text, sources).
         owned_with (\<lambda>m. set_text_sources sources (set_encoded (Some provenance) m))
           (JString text) trace))"

definition call_from_json ::
  "'n json_lib \<Rightarrow> 'n runtime_value \<Rightarrow> evaluation_trace \<Rightarrow> nat \<Rightarrow> 'n runtime_value evaluating" where
  "call_from_json L v trace depth =
     (case rv_json v of
        JString text \<Rightarrow>
          ev_bind (parse_json L text (depth + 1)) (\<lambda>w.
          owned_with (case md_encoded (rv_metadata v) of
                        Some p \<Rightarrow> restore_provenance p
                      | None \<Rightarrow> set_membership (text_source_trace (rv_metadata v))) w trace)
      | _ \<Rightarrow> ev_fail (invalid_error ''fromJSON requires a string.''))"

definition call_function ::
  "'n json_lib \<Rightarrow> expression_function \<Rightarrow> 'n runtime_value list \<Rightarrow> evaluation_trace \<Rightarrow> nat
     \<Rightarrow> 'n runtime_value evaluating" where
  "call_function L f vals trace depth =
     (case f of
        StrictEquals \<Rightarrow> call_strict_equals L (rv_json (vals ! 0)) (rv_json (vals ! 1)) trace
      | Contains \<Rightarrow> call_contains L (vals ! 0) (vals ! 1) trace depth
      | StartsWith \<Rightarrow>
          ev_bind (text_pair L (vals ! 0) (vals ! 1)) (\<lambda>(text, part).
            runtime_owned (JBool (starts_with text part)) trace)
      | EndsWith \<Rightarrow>
          ev_bind (text_pair L (vals ! 0) (vals ! 1)) (\<lambda>(text, part).
            runtime_owned (JBool (ends_with text part)) trace)
      | Join \<Rightarrow> call_join L vals trace depth
      | Format \<Rightarrow> call_format L vals trace depth
      | ToJSON \<Rightarrow> call_to_json L (vals ! 0) trace depth
      | FromJSON \<Rightarrow> call_from_json L (vals ! 0) trace depth)"

section \<open>The evaluator\<close>

definition json_lookup :: "'n json \<Rightarrow> path_segment \<Rightarrow> 'n json option" where
  "json_lookup v segment =
     (case (segment, v) of
        (PathProperty name, JObject obj) \<Rightarrow> bt_get obj name
      | (PathIndex i, JArray items) \<Rightarrow> if i < length items then Some (items ! i) else None
      | _ \<Rightarrow> None)"

definition json_is_array :: "'n json \<Rightarrow> bool" where
  "json_is_array v = (case v of JArray _ \<Rightarrow> True | _ \<Rightarrow> False)"

definition select ::
  "'n json_lib \<Rightarrow> 'n runtime_value \<Rightarrow> path_segment \<Rightarrow> 'n runtime_value evaluating" where
  "select L v segment =
     (case rv_value v of
        None \<Rightarrow> ev_return (runtime_unavailable (rv_metadata v))
      | Some json \<Rightarrow>
          (let m = rv_metadata v; membership = metadata_membership_trace m;
               child = metadata_child m segment;
               plain = ev_return
                 \<lparr>rv_value = (case json of
                     Borrowed w \<Rightarrow> map_option Borrowed (json_lookup w segment)
                   | Owned w \<Rightarrow> map_option Owned (json_lookup w segment)),
                  rv_metadata = (if json_is_array (cow_ref json)
                                 then add_dependencies membership child else child)\<rparr>
           in case cow_ref json of
                JArray items \<Rightarrow>
                  if segment = PathProperty ''length''
                  then runtime_owned (JNumber (num_from_usize L (length items))) membership
                  else plain
              | _ \<Rightarrow> plain))"

definition path_root ::
  "'n json \<Rightarrow> 'n evaluation_bindings \<Rightarrow> string \<Rightarrow> 'n runtime_value" where
  "path_root context bindings root_name =
     (case bt_get bindings root_name of
        Some binding \<Rightarrow>
          \<lparr>rv_value = (case ev_value binding of
              Available v \<Rightarrow> Some (Borrowed v) | Unavailable \<Rightarrow> None),
           rv_metadata = ev_metadata binding\<rparr>
      | None \<Rightarrow>
          \<lparr>rv_value = map_option Borrowed (json_get context root_name),
           rv_metadata = metadata_frozen [PathProperty root_name]\<rparr>)"

definition eval_path ::
  "'n json_lib \<Rightarrow> 'n json \<Rightarrow> 'n evaluation_bindings \<Rightarrow> path_segment list \<Rightarrow> nat
     \<Rightarrow> 'n runtime_value evaluating" where
  "eval_path L context bindings path depth =
     (case path of
        PathProperty root_name # remaining \<Rightarrow>
          ev_fold (\<lambda>(position, segment) v.
             ev_bind (step (usize_saturating_add depth position)) (\<lambda>_. select L v segment))
            (List.enumerate 0 remaining) (path_root context bindings root_name)
      | _ \<Rightarrow> ev_return (runtime_unavailable metadata_default))"

text \<open>The static step that a computed selector stands for.\<close>

definition selector_path :: "'n json_lib \<Rightarrow> 'n json \<Rightarrow> path_segment option evaluating" where
  "selector_path L v =
     (case v of
        JString key \<Rightarrow>
          ev_bind (reserve_generated_bytes (length key)) (\<lambda>_.
            ev_return (Some (PathProperty key)))
      | JNumber n \<Rightarrow> ev_return (map_option PathIndex (integral_index L n))
      | _ \<Rightarrow> ev_return None)"

definition projection_entries :: "'n cow \<Rightarrow> (path_segment \<times> 'n cow) list evaluating" where
  "projection_entries json =
     (let items = map (\<lambda>(i, v). (PathIndex i, v));
          named = map (\<lambda>(k, v). (PathProperty k, v))
      in case json of
           Borrowed (JArray vs) \<Rightarrow> ev_return (items (List.enumerate 0 (map Borrowed vs)))
         | Borrowed (JObject obj) \<Rightarrow>
             ev_bind (ev_fold (\<lambda>(key, _) _. reserve_generated_bytes (length key)) obj ()) (\<lambda>_.
               ev_return (named (map (\<lambda>(k, v). (k, Borrowed v)) (sort_key fst obj))))
         | Owned (JArray vs) \<Rightarrow> ev_return (items (List.enumerate 0 (map Owned vs)))
         | Owned (JObject obj) \<Rightarrow>
             ev_return (named (map (\<lambda>(k, v). (k, Owned v)) (sort_key fst obj)))
         | _ \<Rightarrow> ev_return [])"

fun project_loop ::
  "('n runtime_value \<Rightarrow> 'n runtime_value evaluating) \<Rightarrow> nat \<Rightarrow> value_metadata \<Rightarrow> evaluation_trace
     \<Rightarrow> (path_segment \<times> 'n cow) list \<Rightarrow> 'n json list \<Rightarrow> value_metadata list
     \<Rightarrow> (evaluation_trace + ('n json list \<times> value_metadata list)) evaluating" where
  "project_loop access depth metadata dependencies [] outputs item_metadata =
     ev_return (Inr (outputs, item_metadata))"
| "project_loop access depth metadata dependencies ((segment, item) # entries) outputs item_metadata =
     ev_bind (access \<lparr>rv_value = Some item, rv_metadata = metadata_child metadata segment\<rparr>)
       (\<lambda>selected.
         if rv_value selected = None
         then ev_return (Inl (foldl trace_merge (trace_merge dependencies (runtime_trace selected))
                               (map metadata_trace item_metadata)))
         else
           ev_bind (runtime_finish selected depth) (\<lambda>finished.
             project_loop access depth metadata dependencies entries
               (outputs @ [case ev_value finished of Available json \<Rightarrow> json | Unavailable \<Rightarrow> JNull])
               (item_metadata @ [ev_metadata finished])))"

definition project_with ::
  "('n runtime_value \<Rightarrow> 'n runtime_value evaluating) \<Rightarrow> 'n runtime_value \<Rightarrow> nat
     \<Rightarrow> 'n runtime_value evaluating" where
  "project_with access v depth =
     ev_bind (step depth) (\<lambda>_.
       (let m = rv_metadata v; dependencies = metadata_membership_trace m in
        case rv_value v of
          None \<Rightarrow> ev_return (runtime_unavailable (metadata_derived dependencies))
        | Some json \<Rightarrow>
            if \<not> json_is_container (cow_ref json)
            then ev_return (runtime_unavailable (metadata_derived (metadata_trace m)))
            else
              (let count = (case cow_ref json of
                     JArray items \<Rightarrow> length items | JObject obj \<Rightarrow> length obj | _ \<Rightarrow> 0)
               in ev_bind (visit_items count) (\<lambda>_.
                  ev_bind (reserve_generated_bytes (usize_saturating_add count 2)) (\<lambda>_.
                  ev_bind (projection_entries json) (\<lambda>entries.
                  ev_bind (project_loop access depth m dependencies entries [] []) (\<lambda>r.
                    case r of
                      Inl trace \<Rightarrow> ev_return (runtime_unavailable (metadata_derived trace))
                    | Inr (outputs, item_metadata) \<Rightarrow>
                        owned_with (set_items item_metadata) (JArray outputs) dependencies)))))))"

function (sequential) evaluate ::
    "'n json_lib \<Rightarrow> 'n json \<Rightarrow> 'n evaluation_bindings \<Rightarrow> 'n expression \<Rightarrow> nat
       \<Rightarrow> 'n runtime_value evaluating"
  and access ::
    "'n json_lib \<Rightarrow> 'n json \<Rightarrow> 'n evaluation_bindings \<Rightarrow> 'n access_segment list \<Rightarrow> nat \<Rightarrow> nat
       \<Rightarrow> 'n runtime_value \<Rightarrow> 'n runtime_value evaluating"
  and eval_arguments ::
    "'n json_lib \<Rightarrow> 'n json \<Rightarrow> 'n evaluation_bindings \<Rightarrow> 'n expression list \<Rightarrow> nat
       \<Rightarrow> evaluation_trace \<Rightarrow> 'n runtime_value list
       \<Rightarrow> (evaluation_trace + ('n runtime_value list \<times> evaluation_trace)) evaluating"
where
  "evaluate L context bindings (Literal literal) depth =
     ev_bind (step depth) (\<lambda>_.
     ev_bind (case literal of LString text \<Rightarrow> reserve_generated_bytes (length text)
              | _ \<Rightarrow> ev_return ()) (\<lambda>_.
     runtime_owned (literal_value literal) []))"
| "evaluate L context bindings (Path path) depth =
     ev_bind (step depth) (\<lambda>_. eval_path L context bindings path depth)"
| "evaluate L context bindings (Access base segments) depth =
     ev_bind (step depth) (\<lambda>_.
     ev_bind (evaluate L context bindings base (depth + 1)) (\<lambda>v.
     access L context bindings segments depth 0 v))"
| "evaluate L context bindings (Call f arguments) depth =
     ev_bind (step depth) (\<lambda>_.
       if \<not> accepts_arity f (length arguments)
       then ev_fail (invalid_error ''Wrong number of expression function arguments.'')
       else
         ev_bind (eval_arguments L context bindings arguments depth [] []) (\<lambda>r.
           case r of
             Inl trace \<Rightarrow> ev_return (runtime_unavailable (metadata_derived trace))
           | Inr (vals, trace) \<Rightarrow> call_function L f vals trace depth))"
| "evaluate L context bindings (Not e) depth =
     ev_bind (step depth) (\<lambda>_.
     ev_bind (evaluate L context bindings e (depth + 1)) (\<lambda>v.
       case rv_value v of
         Some json \<Rightarrow> runtime_owned (JBool (\<not> is_truthy L (cow_ref json))) (runtime_trace v)
       | None \<Rightarrow> ev_return (runtime_unavailable (metadata_derived (runtime_trace v)))))"
| "evaluate L context bindings (Binary operator left right) depth =
     ev_bind (step depth) (\<lambda>_.
     ev_bind (evaluate L context bindings left (depth + 1)) (\<lambda>l.
       case rv_value l of
         None \<Rightarrow> ev_return l
       | Some json \<Rightarrow>
           if operator = OpAnd \<and> \<not> is_truthy L (cow_ref json)
              \<or> operator = OpOr \<and> is_truthy L (cow_ref json)
           then ev_return l
           else
             ev_bind (evaluate L context bindings right (depth + 1)) (\<lambda>r.
               if operator = OpAnd \<or> operator = OpOr
               then ev_return (with_metadata (add_dependencies (runtime_trace l)) r)
               else compare L operator l r)))"
| "access L context bindings [] depth position v = ev_return v"
| "access L context bindings (segment # rest) depth position v =
     ev_bind (step (usize_saturating_add depth position)) (\<lambda>_.
       if rv_value v = None then ev_return v
       else
         (case segment of
            AProperty name \<Rightarrow>
              ev_bind (select L v (PathProperty name))
                (access L context bindings rest depth (position + 1))
          | AIndex i \<Rightarrow>
              ev_bind (select L v (PathIndex i))
                (access L context bindings rest depth (position + 1))
          | ADynamic e \<Rightarrow>
              ev_bind (evaluate L context bindings e (depth + 1)) (\<lambda>selector.
                (let v = with_metadata (add_dependencies (runtime_trace selector)) v;
                     missing = runtime_unavailable (metadata_derived (runtime_trace v))
                 in case rv_value selector of
                      None \<Rightarrow> ev_return missing
                    | Some json \<Rightarrow>
                        ev_bind (selector_path L (cow_ref json)) (\<lambda>seg.
                          case seg of
                            None \<Rightarrow> ev_return missing
                          | Some seg \<Rightarrow>
                              ev_bind (select L v seg)
                                (access L context bindings rest depth (position + 1)))))
          | AProjection \<Rightarrow>
              project_with (access L context bindings rest (depth + 1) 0) v (depth + 1)))"
| "eval_arguments L context bindings [] depth trace vals = ev_return (Inr (vals, trace))"
| "eval_arguments L context bindings (argument # arguments) depth trace vals =
     ev_bind (evaluate L context bindings argument (depth + 1)) (\<lambda>v.
       (let trace = trace_merge trace (runtime_trace v) in
        if rv_value v = None then ev_return (Inl trace)
        else eval_arguments L context bindings arguments depth trace (vals @ [v])))"
  by pat_completeness auto
termination
  by (relation "measure (case_sum (\<lambda>(L, c, b, e, _). size e)
        (case_sum (\<lambda>(L, c, b, segs, _). size_list size segs)
          (\<lambda>(L, c, b, args, _). size_list size args)))") auto

definition evaluate_expression_with_budget ::
  "'n json_lib \<Rightarrow> 'n expression \<Rightarrow> 'n json \<Rightarrow> 'n evaluation_bindings \<Rightarrow> nat
     \<Rightarrow> 'n evaluated_value evaluating" where
  "evaluate_expression_with_budget L e context bindings depth =
     ev_bind (evaluate L context bindings e depth) (\<lambda>v. runtime_finish v depth)"

definition evaluate_expression_with_limits ::
  "'n json_lib \<Rightarrow> 'n expression \<Rightarrow> 'n json \<Rightarrow> evaluation_limits
     \<Rightarrow> evaluation_error + 'n evaluation_value" where
  "evaluate_expression_with_limits L e context lims =
     (case fst (evaluate_expression_with_budget L e context [] 1
                 (start_state (budget_new lims DEFAULT_MAX_EVALUATION_ITEMS DEFAULT_MAX_GENERATED_BYTES))) of
        Inl err \<Rightarrow> Inl err
      | Inr v \<Rightarrow> Inr (ev_value v))"

definition evaluate_expression ::
  "'n json_lib \<Rightarrow> 'n expression \<Rightarrow> 'n json \<Rightarrow> evaluation_error + 'n evaluation_value" where
  "evaluate_expression L e context = evaluate_expression_with_limits L e context default_limits"

end
