(* ===== verification/Eval_Laws.thy ===== *)
theory Eval_Laws
  imports Eval_Expr
begin

text \<open>
  What the evaluator of \<open>Eval_Expr\<close> guarantees: its work stays within the budget, it reads
  only the roots its expression names, it keeps JSON values well formed, and its
  comparisons are the order of the numbers they compare.
\<close>

lemmas default_state_simps = evaluation_budget.defs default_budget_def budget_new_def
  new_with_materialization_limit_def default_limits_def DEFAULT_MAX_EVALUATION_DEPTH_def
  DEFAULT_MAX_EVALUATION_STEPS_def DEFAULT_MAX_EVALUATION_ITEMS_def
  DEFAULT_MAX_GENERATED_BYTES_def DEFAULT_MAX_MATERIALIZED_BYTES_def

section \<open>Evaluation is metered\<close>

lemma metered_equal_values [simp, ev_keeps]: "metered (equal_values L a b same)"
  by (auto simp: equal_values_def intro!: metered_bind split: json.splits)

lemma metered_ordered [simp, ev_keeps]: "metered (ordered L a b)"
  by (auto simp: ordered_def intro!: metered_bind split: json.splits)

lemma metered_compare [simp, ev_keeps]: "metered (compare L op a b)"
  by (auto simp: compare_def compare_values_def ordered_is_def Let_def intro!: metered_bind
      split: option.splits binary_operator.splits)

lemma metered_contains_loop [simp, ev_keeps]: "metered (contains_loop L d m r i items t)"
  by (induction L d m r i items t rule: contains_loop.induct) (auto simp: Let_def intro!: metered_bind)

lemma metered_text_pair [simp, ev_keeps]: "metered (text_pair L a b)"
  by (auto simp: text_pair_def intro!: metered_bind)

lemma metered_join_items [simp, ev_keeps]: "metered (join_items L d m sep sm items)"
  by (auto simp: join_items_def Let_def intro!: metered_fold metered_bind metered_if
      split: prod.splits option.splits)

lemma placeholder_error: "placeholder_index i n = Inl e \<Longrightarrow> error_code e = RuntimeInvalidContext"
  by (auto simp: placeholder_index_def Let_def split: if_splits)

lemma metered_render_format [simp, ev_keeps]: "metered (render_format rest vs ms d out src)"
proof (induction rest vs ms d out src rule: render_format.induct)
  case (1 rest vs ms d out src)
  then show ?case
    by (subst render_format.simps)
      (auto simp: Let_def placeholder_error intro!: metered_bind metered_if metered_fail
        split: sum.splits)
qed

lemma metered_owned_with [simp, ev_keeps]: "metered (owned_with f v t)"
  by (auto simp: owned_with_def intro!: metered_bind)

lemma metered_call_function [simp, ev_keeps]: "metered (call_function L f vals t d)"
  by (cases f; simp add: call_function_def call_strict_equals_def call_contains_def call_join_def
      call_format_def call_to_json_def call_from_json_def Let_def)
    (auto intro!: metered_bind metered_fold metered_if metered_let split: json.splits prod.splits)

lemma metered_select [simp, ev_keeps]: "metered (select L v seg)"
  by (auto simp: select_def Let_def split: option.splits json.splits)

lemma metered_eval_path [simp, ev_keeps]: "metered (eval_path L c b path d)"
  by (auto simp: eval_path_def intro!: metered_fold metered_bind
      split: list.splits path_segment.splits prod.splits)

lemma metered_selector_path [simp, ev_keeps]: "metered (selector_path L v)"
  by (auto simp: selector_path_def intro!: metered_bind split: json.splits)

lemma metered_projection_entries [simp, ev_keeps]: "metered (projection_entries v)"
  by (auto simp: projection_entries_def Let_def intro!: metered_bind metered_fold
      split: cow.splits json.splits prod.splits)

lemma metered_project_loop:
  "(\<And>v. metered (acc v)) \<Longrightarrow> metered (project_loop acc d m deps es outs ms)"
proof (induction acc d m deps es outs ms rule: project_loop.induct)
  case (2 acc d m deps seg item es outs ms)
  then show ?case by (auto intro!: metered_bind metered_if)
qed simp

lemma metered_project_with [ev_keeps]:
  "(\<And>v. metered (acc v)) \<Longrightarrow> metered (project_with acc v d)"
  by (auto simp: project_with_def Let_def intro!: metered_bind metered_project_loop
      split: option.splits sum.splits prod.splits)

lemma metered_evaluation:
  "metered (evaluate L c b e d)"
  "metered (access L c b segs d n v)"
  "metered (eval_arguments L c b args d t vals)"
proof (induction L c b e d and L c b segs d n v and L c b args d t vals
    rule: evaluate_access_eval_arguments.induct)
  case (1 L c b l d)
  then show ?case by (auto intro!: metered_bind split: expression_literal.splits)
next
  case (4 L c b f args d)
  then show ?case by (auto intro!: metered_bind split: sum.splits)
next
  case (8 L c b seg rest d n v)
  then show ?case
    by (auto simp: Let_def intro!: metered_bind metered_project_with
        split: access_segment.splits option.splits)
qed (auto simp: Let_def intro!: metered_bind split: option.splits)

lemma metered_evaluate_expression [simp]:
  "metered (evaluate_expression_with_budget L e c b d)"
  by (auto simp: evaluate_expression_with_budget_def metered_evaluation intro!: metered_bind)

text \<open>
  C8. Evaluating an expression never takes the shared budget past a limit: on every
  outcome each counter is at most its limit, the limits are those of the start, no counter
  went down, and exhaustion is permanent. Evaluation ends with the limit code exactly when
  it exhausts a budget that was active.
\<close>

theorem evaluate_within_budget:
  assumes "within_limits s" "\<not> exhausted s"
  shows "case evaluate_expression_with_budget L e c b d s of (r, t) \<Rightarrow>
           within_limits t \<and> limits t = limits s \<and> steps s \<le> steps t
           \<and> visited_items s \<le> visited_items t \<and> generated_bytes s \<le> generated_bytes t
           \<and> materialized_bytes s \<le> materialized_bytes t
           \<and> (exhausted t \<longleftrightarrow> (\<exists>err. r = Inl err \<and> error_code err = EvaluationLimitExceeded))"
proof -
  obtain r t where run: "evaluate_expression_with_budget L e c b d s = (r, t)"
    by fastforce
  have "budget_extends s t" "outcome_agrees r t"
    using meteredD(1,2) [OF metered_evaluate_expression, of s L e c b d] run assms
    by auto
  with run assms show ?thesis
    by (auto simp: budget_extends_def outcome_agrees_def split: sum.splits)
qed

theorem evaluate_within_budget_witness:
  "case evaluate_expression_with_budget nat_lib (Not (Path [PathProperty ''a''])) (JObject [])
          [] 1 (start_state default_budget) of (r, t) \<Rightarrow>
     within_limits t \<and> limits t = limits (start_state default_budget)
     \<and> steps (start_state default_budget) \<le> steps t
     \<and> visited_items (start_state default_budget) \<le> visited_items t
     \<and> generated_bytes (start_state default_budget) \<le> generated_bytes t
     \<and> materialized_bytes (start_state default_budget) \<le> materialized_bytes t
     \<and> (exhausted t \<longleftrightarrow> (\<exists>err. r = Inl err \<and> error_code err = EvaluationLimitExceeded))"
  by (rule evaluate_within_budget)
    (simp_all add: within_limits_def start_state_def evaluation_budget.defs default_budget_def
      budget_new_def new_with_materialization_limit_def)

text \<open>
  C31. The budget decides only whether evaluation stops: runs of an expression on two
  budgets, with any limits and any counters, return the same value, trace and ordinary
  error unless one of them ends with the limit code.
\<close>

theorem evaluate_budget_independent:
  assumes "next_root s = next_root s'"
  shows "case (evaluate_expression_with_budget L e c b d s,
               evaluate_expression_with_budget L e c b d s') of
           ((r, t), (r', t')) \<Rightarrow>
             limited r \<or> limited r' \<or> r = r' \<and> next_root t = next_root t'"
  using meteredD(3) [OF metered_evaluate_expression, of s s' L e c b d] assms
  by (auto simp: same_run_def more_next_root split: prod.splits)

theorem evaluate_budget_independent_witness:
  "case (evaluate_expression_with_budget nat_lib (Not (Path [PathProperty ''a''])) (JObject []) [] 1
           (start_state default_budget),
         evaluate_expression_with_budget nat_lib (Not (Path [PathProperty ''a''])) (JObject []) [] 1
           (start_state (budget_new \<lparr>max_depth = 2, max_steps = 5\<rparr> 0 0))) of
     ((r, t), (r', t')) \<Rightarrow> limited r \<or> limited r' \<or> r = r' \<and> next_root t = next_root t'"
  by (rule evaluate_budget_independent) (simp add: start_state_def evaluation_budget.defs)

section \<open>Evaluation reads the named roots only\<close>

lemma access_same:
  assumes "\<And>e d. ADynamic e \<in> set segs \<Longrightarrow> evaluate L c b e d = evaluate L c' b e d"
  shows "access L c b segs d n v = access L c' b segs d n v"
  using assms
proof (induction segs arbitrary: d n v)
  case (Cons seg segs)
  have rest: "access L c b segs d n = access L c' b segs d n" for d n
    by (rule ext, rule Cons.IH) (use Cons.prems in auto)
  show ?case
  proof (cases seg)
    case (ADynamic e)
    then have "evaluate L c b e = evaluate L c' b e" using Cons.prems by (intro ext) simp
    then show ?thesis by (simp only: ADynamic access.simps access_segment.case rest)
  qed (simp_all only: access.simps access_segment.case rest)
qed simp

lemma eval_arguments_same:
  assumes "\<And>a d. a \<in> set args \<Longrightarrow> evaluate L c b a d = evaluate L c' b a d"
  shows "eval_arguments L c b args d t vals = eval_arguments L c' b args d t vals"
  using assms
proof (induction args arbitrary: t vals)
  case (Cons a args)
  have "eval_arguments L c b args d t vals = eval_arguments L c' b args d t vals" for t vals
    by (rule Cons.IH) (use Cons.prems in auto)
  moreover have "evaluate L c b a = evaluate L c' b a" using Cons.prems by (intro ext) simp
  ultimately show ?case by (simp only: eval_arguments.simps)
qed simp

text \<open>Two contexts agree on every unbound root that a list of paths starts with.\<close>

definition agree_on ::
  "'n evaluation_bindings \<Rightarrow> path_segment list list \<Rightarrow> 'n json \<Rightarrow> 'n json \<Rightarrow> bool" where
  "agree_on b paths c c' \<longleftrightarrow>
     (\<forall>r rest. PathProperty r # rest \<in> set paths \<longrightarrow> bt_get b r = None \<longrightarrow>
        json_get c r = json_get c' r)"

lemma agree_on_append [simp]:
  "agree_on b (ps @ qs) c c' \<longleftrightarrow> agree_on b ps c c' \<and> agree_on b qs c c'"
  by (auto simp: agree_on_def)

lemma agree_on_concat:
  "agree_on b (concat (map f xs)) c c' \<Longrightarrow> x \<in> set xs \<Longrightarrow> agree_on b (f x) c c'"
  by (auto simp: agree_on_def)

lemma eval_path_same:
  "agree_on b [path] c c' \<Longrightarrow> eval_path L c b path d = eval_path L c' b path d"
  by (auto simp: eval_path_def agree_on_def path_root_def split: list.splits path_segment.splits
      option.splits)

lemma evaluate_same:
  shows "agree_on b (visit_paths e) c c' \<Longrightarrow> evaluate L c b e d = evaluate L c' b e d"
    and "seg = ADynamic e' \<Longrightarrow> agree_on b (visit_segment_paths seg) c c' \<Longrightarrow>
      evaluate L c b e' d = evaluate L c' b e' d"
proof (induction e and seg arbitrary: d and e' d)
  case (Path path)
  then show ?case by (simp add: eval_path_same)
next
  case (Access base segs)
  have "access L c b segs d n v = access L c' b segs d n v" for d n v
    by (rule access_same) (use Access agree_on_concat in fastforce)
  then have "access L c b segs = access L c' b segs" by (intro ext) simp
  moreover have "evaluate L c b base = evaluate L c' b base" using Access by (intro ext) simp
  ultimately show ?case by (simp only: evaluate.simps)
next
  case (Call f args)
  have "eval_arguments L c b args d t vals = eval_arguments L c' b args d t vals" for d t vals
    by (rule eval_arguments_same) (use Call agree_on_concat in fastforce)
  then show ?case by (simp only: evaluate.simps)
next
  case (Not e)
  then have "evaluate L c b e = evaluate L c' b e" by (intro ext) simp
  then show ?case by (simp only: evaluate.simps)
next
  case (Binary op l r)
  then have "evaluate L c b l = evaluate L c' b l" "evaluate L c b r = evaluate L c' b r"
    by (intro ext; simp)+
  then show ?case by (simp only: evaluate.simps)
qed simp_all

text \<open>
  C15. Evaluation reads no more of the context than the paths that \<open>visit_paths\<close> reports:
  if two contexts agree on the roots of these paths (those that no alias shadows),
  evaluation has the same result, the same trace and the same effect on the budget.
\<close>

theorem evaluate_local:
  assumes "agree_on b (visit_paths e) c c'"
  shows "evaluate_expression_with_budget L e c b d = evaluate_expression_with_budget L e c' b d"
  using evaluate_same(1) [OF assms] by (simp add: evaluate_expression_with_budget_def)

theorem evaluate_local_witness:
  "evaluate_expression_with_budget nat_lib (Not (Path [PathProperty ''a'']))
       (JObject [(''a'', JNull), (''b'', JNull)]) [] 1 =
   evaluate_expression_with_budget nat_lib (Not (Path [PathProperty ''a'']))
       (JObject [(''a'', JNull), (''c'', JBool True)]) [] 1"
  by (rule evaluate_local) (simp add: agree_on_def json_get_def bt_get_def)

section \<open>Evaluation keeps values well formed\<close>

definition rv_ok :: "'n runtime_value \<Rightarrow> bool" where
  "rv_ok v \<longleftrightarrow> (case rv_value v of None \<Rightarrow> True | Some c \<Rightarrow> json_ok (cow_ref c))"

definition value_ok :: "'n evaluation_value \<Rightarrow> bool" where
  "value_ok v \<longleftrightarrow> (case v of Available j \<Rightarrow> json_ok j | Unavailable \<Rightarrow> True)"

definition bindings_ok :: "'n evaluation_bindings \<Rightarrow> bool" where
  "bindings_ok b \<longleftrightarrow> list_all (\<lambda>(k, v). value_ok (ev_value v)) b"

lemma rv_ok_unavailable [simp]: "rv_ok (runtime_unavailable m)"
  by (simp add: rv_ok_def runtime_unavailable_def)

lemma rv_ok_with_metadata [simp]: "rv_ok (with_metadata f v) = rv_ok v"
  by (simp add: rv_ok_def with_metadata_def)

lemma rv_json_ok: "rv_ok v \<Longrightarrow> json_ok (rv_json v)"
  by (auto simp: rv_ok_def rv_json_def split: option.splits)

lemma returns_owned: "json_ok v \<Longrightarrow> returns (runtime_owned v t) rv_ok"
  by (auto simp: runtime_owned_def rv_ok_def intro!: returns_bind_any)

lemma returns_owned_with: "json_ok v \<Longrightarrow> returns (owned_with f v t) rv_ok"
  by (auto simp: owned_with_def intro!: returns_bind [OF returns_owned])

lemma json_lookup_ok: "json_ok v \<Longrightarrow> json_lookup v seg = Some w \<Longrightarrow> json_ok w"
  by (auto simp: json_lookup_def bt_get_def list_all_iff dest!: map_of_SomeD
      split: path_segment.splits json.splits if_splits)

lemma returns_select:
  assumes "rv_ok v"
  shows "returns (select L v seg) rv_ok"
proof (cases "rv_value v")
  case None
  then show ?thesis by (simp add: select_def)
next
  case (Some json)
  have plain: "rv_ok \<lparr>rv_value = (case json of Borrowed w \<Rightarrow> map_option Borrowed (json_lookup w seg)
        | Owned w \<Rightarrow> map_option Owned (json_lookup w seg)), rv_metadata = m\<rparr>" for m
    using assms Some
    by (cases json) (auto simp: rv_ok_def dest: json_lookup_ok split: option.splits)
  show ?thesis
    by (auto simp: select_def Let_def Some plain returns_owned split: json.splits)
qed

lemma returns_read_value: "returns (read_value doc d item) json_ok"
proof (induction doc d item rule: read_value.induct)
  case (1 doc d item)
  have seq: "returns (ev_fold (\<lambda>d' vs. ev_bind (read_value d' (d + 1) True) (\<lambda>v.
                ev_return (vs @ [v]))) docs []) (list_all json_ok)"
    if "doc = DSeq docs complete" for docs complete
    using 1(1) [OF that] by (intro returns_fold) (auto intro!: returns_bind)
  have map: "returns (ev_fold (\<lambda>(key, d') vs. ev_bind (read_value d' (d + 1) True) (\<lambda>v.
                ev_return (bt_insert key v vs))) entries []) (\<lambda>vs. json_ok (JObject vs))"
    if "doc = DMap entries complete" for entries complete
    using 1(2) [OF that]
    by (intro returns_fold) (auto intro!: returns_bind json_ok_insert simp del: json_ok.simps(2)
        split: prod.splits, simp)
  show ?case
  proof (cases doc)
    case (DSeq docs complete)
    show ?thesis
      unfolding DSeq read_value.simps [of "DSeq docs complete"] json_doc.case
      by (rule returns_bind_any, rule returns_bind_any, rule returns_bind [OF seq [OF DSeq]]) simp
  next
    case (DMap entries complete)
    show ?thesis
      unfolding DMap read_value.simps [of "DMap entries complete"] json_doc.case
      by (rule returns_bind_any, rule returns_bind_any, rule returns_bind [OF map [OF DMap]]) simp
  qed (auto simp: read_value.simps intro!: returns_bind_any split: option.splits)
qed

lemma returns_parse_json: "returns (parse_json L text d) json_ok"
proof -
  have "returns (ev_bind (read_value (fst (read_document L text)) d False) (\<lambda>v.
           if snd (read_document L text) then ev_return v else ev_fail malformed)) json_ok"
    by (rule returns_bind [OF returns_read_value]) simp
  then show ?thesis
    unfolding parse_json_def
    by (intro returns_bind_any) (auto simp: returns_def split: prod.splits sum.splits if_splits)
qed

lemma returns_compare: "returns (compare L op a b) rv_ok"
  by (auto simp: compare_def Let_def intro!: returns_bind_any returns_owned split: option.splits)

lemma returns_call_function:
  assumes "list_all rv_ok vals" "vals \<noteq> []"
  shows "returns (call_function L f vals t d) rv_ok"
proof -
  have first: "rv_ok (vals ! 0)" using assms by (cases vals) auto
  have "returns (call_join L vals t d) rv_ok"
    unfolding call_join_def
    by (rule returns_bind_any)
      (use first in \<open>auto simp: Let_def intro!: returns_bind_any returns_owned_with
        split: json.splits prod.splits\<close>)
  moreover have "returns (call_from_json L v t d) rv_ok" for v :: "'a runtime_value"
    unfolding call_from_json_def
    by (auto intro!: returns_bind [OF returns_parse_json] returns_owned_with split: json.splits)
  moreover have "returns (call_contains L a b t d) rv_ok" for a b :: "'a runtime_value"
    unfolding call_contains_def
    by (auto intro!: returns_bind_any returns_owned split: json.splits)
  ultimately show ?thesis
    by (cases f)
      (auto simp: call_function_def call_strict_equals_def call_format_def call_to_json_def Let_def
        intro!: returns_bind_any returns_owned returns_owned_with)
qed

lemma returns_copy: "returns (copy_value v d) (\<lambda>w. w = v)"
  by (auto simp: copy_value_def intro!: returns_bind_any)

lemma returns_finish: "rv_ok v \<Longrightarrow> returns (runtime_finish v d) (\<lambda>r. value_ok (ev_value r))"
  by (auto simp: runtime_finish_def rv_ok_def value_ok_def Let_def
      intro!: returns_bind [OF returns_copy] split: option.splits cow.splits)

lemma projection_entries_ok:
  "json_ok (cow_ref v) \<Longrightarrow> returns (projection_entries v) (list_all (\<lambda>(seg, c). json_ok (cow_ref c)))"
  by (cases v; cases "cow_ref v")
    (auto 0 4 simp: projection_entries_def Let_def list_all_iff in_set_enumerate_eq
      intro!: returns_bind_any split: json.splits)

lemma returns_project_loop:
  assumes acc: "\<And>v. rv_ok v \<Longrightarrow> returns (acc v) rv_ok"
    and "list_all (\<lambda>(seg, c). json_ok (cow_ref c)) es" "list_all json_ok outs"
  shows "returns (project_loop acc d m deps es outs ms)
           (\<lambda>r. case r of Inl _ \<Rightarrow> True | Inr (outs, _) \<Rightarrow> list_all json_ok outs)"
  using assms(2,3)
proof (induction es arbitrary: outs ms)
  case (Cons e es)
  obtain seg c where e: "e = (seg, c)" by (cases e)
  have item: "rv_ok \<lparr>rv_value = Some c, rv_metadata = metadata_child m seg\<rparr>"
    using Cons.prems by (simp add: e rv_ok_def)
  have tail: "returns (project_loop acc d m deps es
        (outs @ [case ev_value fin of Available json \<Rightarrow> json | Unavailable \<Rightarrow> JNull])
        (ms @ [ev_metadata fin]))
        (\<lambda>r. case r of Inl _ \<Rightarrow> True | Inr (outs, _) \<Rightarrow> list_all json_ok outs)"
    if "value_ok (ev_value fin)" for fin
    by (rule Cons.IH)
      (use Cons.prems that in \<open>auto simp: value_ok_def split: evaluation_value.splits\<close>)
  show ?case
    by (auto simp: e intro!: returns_bind [OF acc [OF item]] returns_bind [OF returns_finish] tail)
qed simp

lemma returns_project_with:
  assumes "\<And>v. rv_ok v \<Longrightarrow> returns (acc v) rv_ok" "rv_ok v"
  shows "returns (project_with acc v d) rv_ok"
proof -
  have loop: "returns (ev_bind (projection_entries json) (\<lambda>es.
        ev_bind (project_loop acc d m deps es [] []) (\<lambda>r.
          case r of
            Inl trace \<Rightarrow> ev_return (runtime_unavailable (metadata_derived trace))
          | Inr (outputs, item_metadata) \<Rightarrow>
              owned_with (set_items item_metadata) (JArray outputs) deps'))) rv_ok"
    if "rv_value v = Some json" for json m deps deps'
  proof -
    have "json_ok (cow_ref json)" using that assms(2) by (simp add: rv_ok_def)
    with assms(1) show ?thesis
      by (intro returns_bind [OF projection_entries_ok] returns_bind [OF returns_project_loop])
        (auto intro!: returns_owned_with split: sum.splits)
  qed
  show ?thesis
    unfolding project_with_def Let_def
    by (rule returns_bind_any, cases "rv_value v")
      (auto intro!: returns_bind_any [of _ _ "visit_items _"]
        returns_bind_any [of _ _ "reserve_generated_bytes _"] loop)
qed

lemma access_ok:
  assumes "\<And>e d. ADynamic e \<in> set segs \<Longrightarrow> returns (evaluate L c b e d) rv_ok" "rv_ok v"
  shows "returns (access L c b segs d n v) rv_ok"
  using assms
proof (induction segs arbitrary: d n v)
  case (Cons seg segs)
  have rest: "returns (access L c b segs d n v) rv_ok" if "rv_ok v" for d n v
    by (rule Cons.IH) (use Cons.prems that in auto)
  show ?case
    unfolding access.simps
    by (rule returns_bind_any, cases seg)
      (use Cons.prems(2) in \<open>auto simp: Let_def intro!: returns_bind [OF returns_select] rest
        returns_project_with returns_bind_any [of _ _ "evaluate _ _ _ _ _"]
        returns_bind_any [of _ _ "selector_path _ _"] split: option.splits\<close>)
qed simp

lemma eval_arguments_ok:
  assumes "\<And>a d. a \<in> set args \<Longrightarrow> returns (evaluate L c b a d) rv_ok" "list_all rv_ok vals"
  shows "returns (eval_arguments L c b args d t vals) (\<lambda>r. case r of Inl _ \<Rightarrow> True
           | Inr (vs, _) \<Rightarrow> list_all rv_ok vs \<and> length vs = length vals + length args)"
  using assms
proof (induction args arbitrary: t vals)
  case (Cons a args)
  have rest: "returns (eval_arguments L c b args d t (vals @ [v])) (\<lambda>r. case r of Inl _ \<Rightarrow> True
           | Inr (vs, _) \<Rightarrow> list_all rv_ok vs \<and> length vs = length vals + length (a # args))"
    if "rv_ok v" for t v
    by (rule returns_mono, rule Cons.IH)
      (use Cons.prems that in \<open>auto split: sum.splits\<close>)
  have "returns (evaluate L c b a (d + 1)) rv_ok" using Cons.prems by simp
  then show ?case
    unfolding eval_arguments.simps
    by (rule returns_bind) (auto simp: Let_def rest simp del: length_Cons)
qed simp

lemma path_root_ok:
  "json_ok c \<Longrightarrow> bindings_ok b \<Longrightarrow> rv_ok (path_root c b r)"
  by (auto simp: path_root_def rv_ok_def bindings_ok_def value_ok_def list_all_iff bt_get_def
      dest: json_get_ok dest!: map_of_SomeD split: option.splits evaluation_value.splits)

lemma eval_path_ok:
  "json_ok c \<Longrightarrow> bindings_ok b \<Longrightarrow> returns (eval_path L c b path d) rv_ok"
  by (auto simp: eval_path_def path_root_ok intro!: returns_fold returns_bind_any returns_select
      split: list.splits path_segment.splits)

lemma evaluate_ok:
  assumes "json_ok c" "bindings_ok b"
  shows "returns (evaluate L c b e d) rv_ok"
    and "seg = ADynamic e' \<Longrightarrow> returns (evaluate L c b e' d) rv_ok"
proof (induction e and seg arbitrary: d and e' d)
  case (Literal l)
  have "json_ok (literal_value l)" by (cases l) simp_all
  then show ?case by (auto intro!: returns_bind_any returns_owned)
next
  case (Path path)
  then show ?case by (auto intro!: returns_bind_any eval_path_ok assms)
next
  case (Access base segs)
  have "returns (access L c b segs d n v) rv_ok" if "rv_ok v" for d n v
    by (rule access_ok) (use Access that in auto)
  then show ?case
    unfolding evaluate.simps
    by (intro returns_bind_any [of _ _ "step _"] returns_bind [OF Access(1)])
next
  case (Call f args)
  note args_ok = eval_arguments_ok [where vals = "[]" and args = args and L = L and c = c and b = b]
  have "returns (call_function L f vs t d) rv_ok"
    if "list_all rv_ok vs" "length vs = length args" "accepts_arity f (length args)" for vs t d
    by (rule returns_call_function) (use that in \<open>cases f; auto\<close>)+
  then show ?case
    unfolding evaluate.simps using Call
    by (intro returns_bind_any [of _ _ "step _"])
      (auto intro!: returns_bind [OF args_ok] split: sum.splits)
next
  case (Not e)
  then show ?case
    by (auto intro!: returns_bind_any returns_owned split: option.splits)
next
  case (Binary op l r)
  show ?case
    unfolding evaluate.simps
    by (rule returns_bind_any, rule returns_bind [OF Binary(1)])
      (auto intro!: returns_bind [OF Binary(2)] returns_compare split: option.splits)
qed auto



section \<open>Numbers compare by value\<close>

text \<open>
  The six comparison operators on two JSON numbers whose text reads as decimals in the
  range of the exponent are exactly the comparisons of the numbers written, whatever their
  notation (\<open>1.0\<close> and \<open>1\<close>, \<open>1e3\<close> and \<open>1000\<close>), and they cost nothing.
\<close>

lemma compare_numbers_exact:
  assumes "decimal_value_of L a = Some x" "decimal_value_of L b = Some y"
    and "decimal_in_range x" "decimal_in_range y" "operator \<noteq> OpAnd" "operator \<noteq> OpOr"
  shows "compare_values L operator (JNumber a) (JNumber b) same s =
    (Inr (case operator of
        OpEqual \<Rightarrow> decimal_real x = decimal_real y
      | OpNotEqual \<Rightarrow> decimal_real x \<noteq> decimal_real y
      | OpLess \<Rightarrow> decimal_real x < decimal_real y
      | OpLessOrEqual \<Rightarrow> decimal_real x \<le> decimal_real y
      | OpGreater \<Rightarrow> decimal_real y < decimal_real x
      | OpGreaterOrEqual \<Rightarrow> decimal_real y \<le> decimal_real x
      | _ \<Rightarrow> False), s)"
proof -
  have normal: "decimal_normal x" "decimal_normal y"
    using assms(1,2) by (auto simp: decimal_value_of_def intro: parse_yields_normal)
  note order = decimal_cmp_real [OF normal assms(3,4)] and eq = decimal_eq_real [OF normal]
  show ?thesis
    using assms
    by (cases operator)
      (auto simp: compare_values_def equal_values_def ordered_is_def ordered_def ev_bind_def
        cmp_options_def json_is_container_def order eq cmp_def)
qed

section \<open>Template text\<close>

definition double_braces :: "string \<Rightarrow> string" where
  "double_braces v = concat (map (\<lambda>c. if c = CHR ''{'' \<or> c = CHR ''}'' then [c, c] else [c]) v)"

lemma double_braces_plain:
  "list_all (\<lambda>c. c \<noteq> CHR ''{'' \<and> c \<noteq> CHR ''}'') v \<Longrightarrow> double_braces (v @ w) = v @ double_braces w"
  by (induction v) (auto simp: double_braces_def)

text \<open>Every run returns a value with \<open>P\<close> or ends with the limit error.\<close>

definition yields :: "'a evaluating \<Rightarrow> ('a \<Rightarrow> bool) \<Rightarrow> bool" where
  "yields m P \<longleftrightarrow> returns m P \<and> fails m is_limit_error"

lemma yields_return [simp]: "yields (ev_return x) P = P x"
  by (simp add: yields_def)

lemma yields_Pair [simp]: "yields (Pair (Inr x)) P = P x"
  by (simp add: yields_def fails_def)

lemma yields_step_then: "yields (f ()) Q \<Longrightarrow> yields (ev_bind (step d) f) Q"
  by (auto simp: yields_def intro!: returns_bind_any fails_bind)

lemma yields_append_then: "yields (f (out @ t)) Q \<Longrightarrow> yields (ev_bind (append_text out t) f) Q"
proof -
  assume f: "yields (f (out @ t)) Q"
  have "fails (ev_bind (append_text out t) f) is_limit_error"
    using f by (auto simp: yields_def append_text_def fails_def ev_bind_def is_limit_error_def
        charge_defs split: prod.splits sum.splits if_splits)
  with f show ?thesis by (auto simp: yields_def intro!: returns_append_then)
qed

lemma yields_render_doubled:
  "yields (render_format (double_braces v) vs ms d out src) (\<lambda>r. r = (out @ v, src))"
proof (induction v arbitrary: out rule: length_induct)
  case (1 v)
  consider "v = []" | c w where "v = c # w" "c = CHR ''{'' \<or> c = CHR ''}''"
    | "v \<noteq> []" "hd v \<noteq> CHR ''{''" "hd v \<noteq> CHR ''}''"
    by (cases v) auto
  then show ?case
  proof cases
    case 1
    then show ?thesis by (simp add: double_braces_def render_format.simps [of "[]"])
  next
    case (2 c w)
    then have dbl: "double_braces v = c # c # double_braces w" by (auto simp: double_braces_def)
    have "yields (render_format (double_braces w) vs ms d (out @ [c]) src)
        (\<lambda>r. r = (out @ v, src))"
      using 1 [rule_format, of w "out @ [c]"] 2 by simp
    then show ?thesis
      unfolding dbl using 2(2)
      by (subst render_format.simps)
        (auto simp: starts_with_def intro!: yields_step_then yields_append_then)
  next
    case 3
    let ?p = "\<lambda>c. c \<noteq> CHR ''{'' \<and> c \<noteq> CHR ''}''"
    obtain x w where v: "v = x @ w" and x: "\<And>c. c \<in> set x \<Longrightarrow> ?p c" "x \<noteq> []"
      and w: "w = [] \<or> \<not> ?p (hd w)"
    proof
      show "v = takeWhile ?p v @ dropWhile ?p v" by simp
      show "takeWhile ?p v \<noteq> []" using 3 by (cases v) auto
      show "dropWhile ?p v = [] \<or> \<not> ?p (hd (dropWhile ?p v))" using hd_dropWhile [of ?p v] by blast
    qed (auto dest: set_takeWhileD)
    have dbl: "double_braces v = x @ double_braces w"
      unfolding v using x(1) by (intro double_braces_plain) (simp add: list_all_iff)
    have "takeWhile ?p (double_braces w) = []"
      using w by (cases w) (auto simp: double_braces_def)
    then have take: "takeWhile ?p (double_braces v) = x"
      unfolding dbl using takeWhile_append2 [of x ?p "double_braces w"] x(1) by simp
    have "yields (render_format (double_braces w) vs ms d (out @ x) src)
        (\<lambda>r. r = (out @ v, src))"
      using 1 [rule_format, of w "out @ x"] x(2) by (simp add: v)
    moreover have "drop (length x) (double_braces v) = double_braces w" unfolding dbl by simp
    moreover obtain c cs where "double_braces v = c # cs" "?p c"
      unfolding dbl using x by (cases x) auto
    ultimately show ?thesis
      using take
      by (subst render_format.simps)
        (auto simp: starts_with_def Let_def intro!: yields_step_then
          yields_append_then)
  qed
qed

text \<open>
  \<open>format\<close> with doubled braces: a template obtained from a text by doubling its braces
  renders to that text, whatever the arguments, without adding a source; the only other
  outcome is the limit error.
\<close>

lemma render_format_literal:
  "case render_format (double_braces v) texts metadata depth [] sources s of
     (Inr r, t) \<Rightarrow> r = (v, sources)
   | (Inl e, t) \<Rightarrow> error_code e = EvaluationLimitExceeded"
proof -
  obtain r t where run: "render_format (double_braces v) texts metadata depth [] sources s = (r, t)"
    by fastforce
  with yields_render_doubled [of v texts metadata depth "[]" sources] show ?thesis
    unfolding yields_def is_limit_error_def
    by (auto dest: returnsD failsD split: sum.splits)
qed

end
