(* ===== verification/Filters.thy ===== *)
theory Filters
  imports Json_Value
begin

text \<open>
  \<open>filters.rs\<close>: attribution filters on the model and mode of an event, and repository path
  globs matched by dynamic programming over segments and characters. The matcher is shown
  equal to the textbook recursive definition of wildcards, and the path filters to their
  specification: a veto is never overlooked, and an incomplete path set never proves a
  veto absent.
\<close>

section \<open>The code\<close>

definition MAX_PATH_FILTER_WORK :: nat where
  "MAX_PATH_FILTER_WORK = 1000000"

datatype attribution_scope = ScopeMessage | ScopeTurn | ScopeSession

datatype filter_field = FieldModel | FieldFastMode | FieldPaths | FieldPathsIgnore

datatype filter_reason =
    ReasonUnavailable | ReasonIncomplete | ReasonInvalid | ReasonKnownEmpty | ReasonNoMatch
  | ReasonIgnoredPath | ReasonLimitExceeded

record filter_diagnostic =
  filter_field :: filter_field
  filter_reason :: filter_reason
  filter_scope :: attribution_scope
  filter_limits :: "string list"

definition is_model_identifier :: "string \<Rightarrow> bool" where
  "is_model_identifier v \<longleftrightarrow>
     CHR ''/'' \<in> set v \<and> list_all (\<lambda>s. s \<noteq> []) (split_on (CHR ''/'') v)
     \<and> \<not> list_ex is_whitespace (utf8_chars v)"

definition recorded_limit :: "'n json \<Rightarrow> string \<Rightarrow> string list" where
  "recorded_limit v field =
     (case json_get v ''quality'' of None \<Rightarrow> []
      | Some quality \<Rightarrow>
          (case json_get quality field of None \<Rightarrow> []
           | Some w \<Rightarrow> (case json_as_str w of None \<Rightarrow> [] | Some s \<Rightarrow> [s])))"

definition model_reason :: "string list \<Rightarrow> 'n json \<Rightarrow> filter_reason option" where
  "model_reason models v =
     (case Option.bind (json_get v ''model'') json_as_str of
        None \<Rightarrow> Some ReasonUnavailable
      | Some model \<Rightarrow>
          if \<not> is_model_identifier model then Some ReasonInvalid
          else if model \<notin> set models then Some ReasonNoMatch else None)"

definition mode_reason :: "bool \<Rightarrow> 'n json \<Rightarrow> filter_reason option" where
  "mode_reason expected v =
     (case Option.bind (json_get v ''fast_mode'') json_as_bool of
        None \<Rightarrow> Some ReasonUnavailable
      | Some mode \<Rightarrow> if mode \<noteq> expected then Some ReasonNoMatch else None)"

definition evaluate_attribution_filters ::
  "string list option \<Rightarrow> bool option \<Rightarrow> attribution_scope \<Rightarrow> 'n json
     \<Rightarrow> filter_diagnostic + unit" where
  "evaluate_attribution_filters models fast_mode scope v =
     (case Option.bind models (\<lambda>ms. model_reason ms v) of
        Some reason \<Rightarrow>
          Inl \<lparr>filter_field = FieldModel, filter_reason = reason, filter_scope = scope,
               filter_limits = recorded_limit v ''model_limit''\<rparr>
      | None \<Rightarrow>
          (case Option.bind fast_mode (\<lambda>expected. mode_reason expected v) of
             Some reason \<Rightarrow>
               Inl \<lparr>filter_field = FieldFastMode, filter_reason = reason, filter_scope = scope,
                    filter_limits = recorded_limit v ''fast_mode_limit''\<rparr>
           | None \<Rightarrow> Inr ()))"

definition is_repository_path :: "string \<Rightarrow> bool" where
  "is_repository_path v \<longleftrightarrow>
     v \<noteq> [] \<and> CHR 0x5C \<notin> set v \<and> CHR 0x00 \<notin> set v
     \<and> \<not> (1 < length v \<and> v ! 1 = CHR '':'')
     \<and> list_all (\<lambda>s. s \<notin> {[], ''.'', ''..''}) (split_on (CHR ''/'') v)"

datatype repository_glob = RepositoryGlob string

fun glob_as_str :: "repository_glob \<Rightarrow> string" where
  "glob_as_str (RepositoryGlob p) = p"

definition glob_parse :: "string \<Rightarrow> string + repository_glob" where
  "glob_parse p =
     (if \<not> is_repository_path p
         \<or> list_ex (\<lambda>c. c \<in> set p) [CHR ''['', CHR '']'', CHR ''{'', CHR ''}'']
         \<or> list_ex (contains_str p) [''@('', ''!('', ''?('', ''*('', ''+('']
         \<or> list_ex (\<lambda>s. contains_str s ''**'' \<and> s \<noteq> ''**'') (split_on (CHR ''/'') p)
      then Inl ''Use a repository-relative pattern with / separators, *, ?, and whole ** segments.''
      else Inr (RepositoryGlob p))"

text \<open>
  One row of the reachability table. \<open>star_row\<close> is the ascending loop
  \<open>reachable[i] |= reachable[i - 1]\<close>; \<open>token_row\<close> is the descending loop that shifts the
  row by one position and then clears position zero.
\<close>

fun star_row :: "bool \<Rightarrow> bool list \<Rightarrow> bool list" where
  "star_row before [] = []"
| "star_row before (r # row) = (before \<or> r) # star_row (before \<or> r) row"

definition token_row :: "('v \<Rightarrow> bool) \<Rightarrow> 'v list \<Rightarrow> bool list \<Rightarrow> bool list" where
  "token_row fits vs row = False # map2 (\<lambda>r v. r \<and> fits v) row vs"

definition segment_matches :: "string \<Rightarrow> string \<Rightarrow> bool" where
  "segment_matches pattern v =
     (let vs = utf8_chars v
      in foldl (\<lambda>row token.
           if token = ''*'' then star_row False row
           else token_row (\<lambda>c. token = ''?'' \<or> token = c) vs row)
         (True # replicate (length vs) False) (utf8_chars pattern) ! length vs)"

definition glob_matches :: "repository_glob \<Rightarrow> string \<Rightarrow> bool" where
  "glob_matches g path =
     (if \<not> is_repository_path path then False
      else
        (let segments = split_on (CHR ''/'') path
         in foldl (\<lambda>row p.
              if p = ''**'' then star_row False row else token_row (segment_matches p) segments row)
            (True # replicate (length segments) False) (split_on (CHR ''/'') (glob_as_str g))
              ! length segments))"

text \<open>The scan of all path and glob pairs; \<open>None\<close> when the work limit is reached.\<close>

fun any_glob_matches ::
  "repository_glob list \<Rightarrow> string \<Rightarrow> nat \<Rightarrow> (bool \<times> nat) option" where
  "any_glob_matches [] path work_left = Some (False, work_left)"
| "any_glob_matches (g # globs) path work_left =
     (let cost = length (glob_as_str g) * length path in
      if usize_max < cost \<or> work_left < cost then None
      else if glob_matches g path then Some (True, work_left - cost)
      else any_glob_matches globs path (work_left - cost))"

fun any_path_matches ::
  "repository_glob list \<Rightarrow> string list \<Rightarrow> nat \<Rightarrow> (bool \<times> nat) option" where
  "any_path_matches globs [] work_left = Some (False, work_left)"
| "any_path_matches globs (path # paths) work_left =
     (case any_glob_matches globs path work_left of
        None \<Rightarrow> None
      | Some (True, left) \<Rightarrow> Some (True, left)
      | Some (False, left) \<Rightarrow> any_path_matches globs paths left)"

definition path_limits :: "'n json \<Rightarrow> string list" where
  "path_limits message =
     (case Option.bind (json_pointer message [''quality'', ''paths_limits'']) json_as_array of
        None \<Rightarrow> [] | Some items \<Rightarrow> List.map_filter json_as_str items)"

definition path_failure ::
  "'n json \<Rightarrow> filter_field \<Rightarrow> filter_reason \<Rightarrow> filter_diagnostic + 'a" where
  "path_failure message field reason =
     Inl \<lparr>filter_field = field, filter_reason = reason, filter_scope = ScopeMessage,
          filter_limits = path_limits message\<rparr>"

text \<open>The recorded paths, when each is text and repository relative.\<close>

definition recorded_paths :: "'n json list \<Rightarrow> string list option" where
  "recorded_paths items =
     those (map (\<lambda>v. case json_as_str v of
                       Some s \<Rightarrow> if is_repository_path s then Some s else None | None \<Rightarrow> None) items)"

definition paths_complete :: "'n json \<Rightarrow> bool" where
  "paths_complete message \<longleftrightarrow>
     Option.bind (json_pointer message [''quality'', ''paths_complete'']) json_as_bool = Some True"

definition check_ignores ::
  "'n json \<Rightarrow> string list \<Rightarrow> repository_glob list option \<Rightarrow> nat \<Rightarrow> filter_diagnostic + nat" where
  "check_ignores message paths ignores work_left =
     (case ignores of None \<Rightarrow> Inr work_left
      | Some globs \<Rightarrow>
          (case any_path_matches globs paths work_left of
             None \<Rightarrow> path_failure message FieldPathsIgnore ReasonLimitExceeded
           | Some (found, left) \<Rightarrow>
               if found then path_failure message FieldPathsIgnore ReasonIgnoredPath
               else if \<not> paths_complete message
               then path_failure message FieldPathsIgnore ReasonIncomplete
               else Inr left))"

definition check_includes ::
  "'n json \<Rightarrow> string list \<Rightarrow> repository_glob list option \<Rightarrow> nat \<Rightarrow> filter_diagnostic + unit" where
  "check_includes message paths includes work_left =
     (case includes of None \<Rightarrow> Inr ()
      | Some globs \<Rightarrow>
          (case any_path_matches globs paths work_left of
             None \<Rightarrow> path_failure message FieldPaths ReasonLimitExceeded
           | Some (found, left) \<Rightarrow>
               if found then Inr ()
               else path_failure message FieldPaths
                      (if \<not> paths_complete message then ReasonIncomplete
                       else if paths = [] then ReasonKnownEmpty else ReasonNoMatch)))"

definition evaluate_path_filters ::
  "repository_glob list option \<Rightarrow> repository_glob list option \<Rightarrow> 'n json
     \<Rightarrow> filter_diagnostic + unit" where
  "evaluate_path_filters includes ignores message =
     (if includes = None \<and> ignores = None then Inr ()
      else
        (let field = (if ignores \<noteq> None then FieldPathsIgnore else FieldPaths) in
         case Option.bind (json_pointer message [''tool'', ''paths'']) json_as_array of
           None \<Rightarrow> path_failure message field ReasonUnavailable
         | Some items \<Rightarrow>
             (case recorded_paths items of
                None \<Rightarrow> path_failure message field ReasonInvalid
              | Some paths \<Rightarrow>
                  res_bind (check_ignores message paths ignores MAX_PATH_FILTER_WORK)
                    (check_includes message paths includes))))"

section \<open>Wildcards\<close>

text \<open>The recursive definition: a star takes any number of elements.\<close>

fun wildcard :: "('t \<Rightarrow> bool) \<Rightarrow> ('t \<Rightarrow> 'v \<Rightarrow> bool) \<Rightarrow> 't list \<Rightarrow> 'v list \<Rightarrow> bool" where
  "wildcard star fits [] vs = (vs = [])"
| "wildcard star fits (t # ts) [] = (star t \<and> wildcard star fits ts [])"
| "wildcard star fits (t # ts) (v # vs) =
     (if star t then wildcard star fits ts (v # vs) \<or> wildcard star fits (t # ts) vs
      else fits t v \<and> wildcard star fits ts vs)"

lemma wildcard_star:
  "star t \<Longrightarrow> wildcard star fits (t # ts) vs \<longleftrightarrow> (\<exists>k \<le> length vs. wildcard star fits ts (drop k vs))"
proof (induction vs)
  case (Cons v vs)
  have "(\<exists>k \<le> length (v # vs). wildcard star fits ts (drop k (v # vs))) \<longleftrightarrow>
      wildcard star fits ts (v # vs) \<or> (\<exists>k \<le> length vs. wildcard star fits ts (drop k vs))"
    by (metis (no_types, lifting) drop0 drop_Suc_Cons le_0_eq length_Cons not0_implies_Suc
        not_less_eq_eq zero_le)
  with Cons show ?case by simp
qed simp

lemma length_star_row [simp]: "length (star_row b row) = length row"
  by (induction row arbitrary: b) auto

lemma nth_star_row:
  "i < length row \<Longrightarrow> star_row b row ! i \<longleftrightarrow> b \<or> (\<exists>j \<le> i. row ! j)"
proof (induction row arbitrary: b i)
  case (Cons r row)
  show ?case
  proof (cases i)
    case (Suc k)
    have "(\<exists>j \<le> Suc k. (r # row) ! j) \<longleftrightarrow> r \<or> (\<exists>j \<le> k. row ! j)"
      by (metis (no_types, lifting) Suc_le_mono nth_Cons_0 nth_Cons_Suc not0_implies_Suc zero_le)
    with Suc Cons show ?thesis by auto
  qed auto
qed simp

text \<open>
  A row is read as the set of its reachable positions: the table ends in acceptance exactly
  when the remaining tokens match the rest of the values from some reachable position.
\<close>

lemma table_accepts:
  assumes "length row = Suc (length vs)"
  shows "foldl (\<lambda>row t. if star t then star_row False row else token_row (fits t) vs row) row ts
           ! length vs
         \<longleftrightarrow> (\<exists>i \<le> length vs. row ! i \<and> wildcard star fits ts (drop i vs))"
  using assms
proof (induction ts arbitrary: row)
  case Nil
  then show ?case by auto
next
  case (Cons t ts)
  let ?next = "if star t then star_row False row else token_row (fits t) vs row"
  have len: "length ?next = Suc (length vs)" using Cons.prems by (simp add: token_row_def)
  have "(\<exists>i \<le> length vs. ?next ! i \<and> wildcard star fits ts (drop i vs))
      \<longleftrightarrow> (\<exists>i \<le> length vs. row ! i \<and> wildcard star fits (t # ts) (drop i vs))" (is "?l \<longleftrightarrow> ?r")
  proof (cases "star t")
    case True
    have "?next ! i \<longleftrightarrow> (\<exists>j \<le> i. row ! j)" if "i \<le> length vs" for i
      using True Cons.prems that by (simp add: nth_star_row)
    then have "?l \<longleftrightarrow> (\<exists>i \<le> length vs. \<exists>j \<le> i. row ! j \<and> wildcard star fits ts (drop i vs))"
      by (simp cong: conj_cong) blast
    also have "\<dots> \<longleftrightarrow> (\<exists>j \<le> length vs. row ! j \<and>
        (\<exists>k \<le> length vs - j. wildcard star fits ts (drop (k + j) vs)))" (is "?a \<longleftrightarrow> ?b")
    proof
      assume ?a
      then obtain i j where "i \<le> length vs" "j \<le> i" "row ! j" "wildcard star fits ts (drop i vs)"
        by blast
      then show ?b by (intro exI [of _ j]) (auto intro!: exI [of _ "i - j"])
    next
      assume ?b
      then obtain j k where "j \<le> length vs" "row ! j" "k \<le> length vs - j"
        "wildcard star fits ts (drop (k + j) vs)" by blast
      then show ?a by (intro exI [of _ "k + j"]) (auto intro: exI [of _ j])
    qed
    finally show ?thesis using True by (simp add: wildcard_star)
  next
    case False
    have "?next ! i \<longleftrightarrow> (\<exists>j. i = Suc j \<and> row ! j \<and> fits t (vs ! j))" if "i \<le> length vs" for i
      using False that Cons.prems by (cases i) (auto simp: token_row_def)
    then have "?l \<longleftrightarrow> (\<exists>j < length vs. row ! j \<and> fits t (vs ! j) \<and> wildcard star fits ts (drop (Suc j) vs))"
      by (simp cong: conj_cong) (use Suc_le_eq in blast)
    also have "\<dots> \<longleftrightarrow> ?r"
    proof -
      have "wildcard star fits (t # ts) (drop j vs) \<longleftrightarrow>
          j < length vs \<and> fits t (vs ! j) \<and> wildcard star fits ts (drop (Suc j) vs)" for j
        using False by (cases "j < length vs") (auto simp: Cons_nth_drop_Suc [symmetric])
      then show ?thesis by (auto intro: less_imp_le)
    qed
    finally show ?thesis .
  qed
  with Cons.IH [OF len] show ?case by simp
qed

lemma table_start:
  "foldl (\<lambda>row t. if star t then star_row False row else token_row (fits t) vs row)
     (True # replicate (length vs) False) ts ! length vs \<longleftrightarrow> wildcard star fits ts vs"
proof -
  have "(True # replicate (length vs) False) ! i \<longleftrightarrow> i = 0" if "i \<le> length vs" for i
    using that by (cases i) auto
  then show ?thesis by (subst table_accepts) auto
qed

definition segment_wildcard :: "string \<Rightarrow> string \<Rightarrow> bool" where
  "segment_wildcard p v =
     wildcard (\<lambda>t. t = ''*'') (\<lambda>t c. t = ''?'' \<or> t = c) (utf8_chars p) (utf8_chars v)"

lemma segment_matches_wildcard: "segment_matches p v = segment_wildcard p v"
  unfolding segment_matches_def segment_wildcard_def Let_def by (rule table_start)

text \<open>
  C16. \<open>RepositoryGlob::matches\<close> is the recursive definition of path wildcards: \<open>**\<close>
  stands for any number of segments, and within a segment \<open>*\<close> for any number of characters
  and \<open>?\<close> for one character.
\<close>

theorem glob_matches_wildcard:
  "glob_matches (RepositoryGlob p) path \<longleftrightarrow>
     is_repository_path path \<and>
     wildcard (\<lambda>s. s = ''**'')
       (\<lambda>s v. wildcard (\<lambda>t. t = ''*'') (\<lambda>t c. t = ''?'' \<or> t = c) (utf8_chars s) (utf8_chars v))
       (split_on (CHR ''/'') p) (split_on (CHR ''/'') path)"
  using table_start [where star = "\<lambda>s. s = ''**''" and fits = segment_matches]
  by (simp add: glob_matches_def Let_def segment_matches_wildcard [abs_def] segment_wildcard_def)

section \<open>Path filters\<close>

definition glob_work :: "repository_glob list \<Rightarrow> string list \<Rightarrow> nat" where
  "glob_work globs paths =
     sum_list (map (\<lambda>p. sum_list (map (\<lambda>g. length (glob_as_str g) * length p) globs)) paths)"

lemma any_glob_matches_sound:
  "any_glob_matches globs path w = Some (b, left) \<Longrightarrow> b = (\<exists>g \<in> set globs. glob_matches g path)"
  by (induction globs path w rule: any_glob_matches.induct) (auto simp: Let_def split: if_splits)

lemma any_path_matches_sound:
  "any_path_matches globs paths w = Some (b, left) \<Longrightarrow>
     b = (\<exists>p \<in> set paths. \<exists>g \<in> set globs. glob_matches g p)"
proof (induction paths arbitrary: w)
  case (Cons path paths)
  then obtain c l where "any_glob_matches globs path w = Some (c, l)" by (auto split: option.splits)
  with Cons any_glob_matches_sound [OF this] show ?case by (cases c) auto
qed simp

lemma any_glob_matches_enough:
  assumes "sum_list (map (\<lambda>g. length (glob_as_str g) * length path) globs) \<le> w" "w \<le> usize_max"
  obtains b left where "any_glob_matches globs path w = Some (b, left)" "left \<le> w"
    and "w - sum_list (map (\<lambda>g. length (glob_as_str g) * length path) globs) \<le> left"
proof -
  have "\<exists>b left. any_glob_matches globs path w = Some (b, left) \<and> left \<le> w
     \<and> w - sum_list (map (\<lambda>g. length (glob_as_str g) * length path) globs) \<le> left"
    using assms
  proof (induction globs path w rule: any_glob_matches.induct)
    case (2 g globs path w)
    let ?c = "length (glob_as_str g) * length path"
    show ?case
    proof (cases "glob_matches g path")
      case True
      with 2(2,3) show ?thesis by (auto simp: Let_def)
    next
      case False
      with 2(2,3) have "\<exists>b left. any_glob_matches globs path (w - ?c) = Some (b, left) \<and> left \<le> w - ?c
        \<and> w - ?c - sum_list (map (\<lambda>g. length (glob_as_str g) * length path) globs) \<le> left"
        by (intro 2(1)) auto
      with False 2(2,3) show ?thesis by (auto simp: Let_def)
    qed
  qed auto
  with that show thesis by blast
qed

lemma any_path_matches_enough:
  assumes "glob_work globs paths \<le> w" "w \<le> usize_max"
  obtains b left where "any_path_matches globs paths w = Some (b, left)" "left \<le> w"
    and "w - glob_work globs paths \<le> left"
proof -
  have "\<exists>b left. any_path_matches globs paths w = Some (b, left) \<and> left \<le> w
     \<and> w - glob_work globs paths \<le> left"
    using assms
  proof (induction globs paths w rule: any_path_matches.induct)
    case (2 globs path paths w)
    let ?c = "sum_list (map (\<lambda>g. length (glob_as_str g) * length path) globs)"
    have total: "glob_work globs (path # paths) = ?c + glob_work globs paths"
      by (simp add: glob_work_def)
    from 2(2,3) obtain b left where first: "any_glob_matches globs path w = Some (b, left)"
      and left: "left \<le> w" "w - ?c \<le> left"
      using any_glob_matches_enough [of path globs w] unfolding total by (metis add_leD1)
    show ?case
    proof (cases b)
      case True
      with first left show ?thesis unfolding total by auto
    next
      case False
      have "glob_work globs paths \<le> left" "left \<le> usize_max"
        using 2(2,3) left unfolding total by linarith+
      with 2(1) [OF first refl _ this] False obtain b' left' where
        "any_path_matches globs paths left = Some (b', left')" "left' \<le> left"
        "left - glob_work globs paths \<le> left'" by auto
      with first False left show ?thesis unfolding total by auto
    qed
  qed auto
  with that show thesis by blast
qed

text \<open>What the two path filters mean for the paths of an event.\<close>

definition paths_admitted ::
  "repository_glob list option \<Rightarrow> repository_glob list option \<Rightarrow> string list \<Rightarrow> bool \<Rightarrow> bool" where
  "paths_admitted incl ign paths complete \<longleftrightarrow>
     (case ign of None \<Rightarrow> True
      | Some globs \<Rightarrow> complete \<and> \<not> (\<exists>p \<in> set paths. \<exists>g \<in> set globs. glob_matches g p))
     \<and> (case incl of None \<Rightarrow> True
        | Some globs \<Rightarrow> \<exists>p \<in> set paths. \<exists>g \<in> set globs. glob_matches g p)"

definition event_paths :: "'n json \<Rightarrow> string list option" where
  "event_paths message =
     Option.bind (Option.bind (json_pointer message [''tool'', ''paths'']) json_as_array) recorded_paths"

lemma check_sound:
  "check_ignores m paths ign w = Inr left \<Longrightarrow> check_includes m paths incl left = Inr () \<Longrightarrow>
   paths_admitted incl ign paths (paths_complete m)"
  by (auto simp: check_ignores_def check_includes_def path_failure_def paths_admitted_def
      dest!: any_path_matches_sound split: option.splits if_splits prod.splits)

lemma evaluate_path_filters_cases:
  "incl \<noteq> None \<or> ign \<noteq> None \<Longrightarrow>
   is_ok (evaluate_path_filters incl ign m) \<longleftrightarrow>
     (\<exists>paths left. event_paths m = Some paths
        \<and> check_ignores m paths ign MAX_PATH_FILTER_WORK = Inr left
        \<and> check_includes m paths incl left = Inr ())"
  by (auto simp: evaluate_path_filters_def event_paths_def path_failure_def Let_def is_ok_iff
      split: option.splits)

text \<open>
  Path filters are safe: an event that passes them has known, valid paths; with a veto
  list the path set is complete and no veto pattern matches any path, and with an include
  list some include pattern matches some path. This holds whatever the work limit does.
\<close>

lemma path_filters_sound:
  assumes "evaluate_path_filters incl ign message = Inr ()"
    and "incl \<noteq> None \<or> ign \<noteq> None"
  shows "\<exists>paths. event_paths message = Some paths
           \<and> paths_admitted incl ign paths (paths_complete message)"
  using evaluate_path_filters_cases [OF assms(2), of message] assms(1) check_sound
  by (auto simp: is_ok_iff)

text \<open>
  C25. Path filters are complete within the work limit: when the patterns and paths of an
  event stay within the byte-product limit, an event with known, valid paths passes
  exactly when the include and veto conditions hold.
\<close>

theorem path_filters_exact:
  assumes "incl \<noteq> None \<or> ign \<noteq> None" "event_paths message = Some paths"
    and "glob_work (case ign of None \<Rightarrow> [] | Some globs \<Rightarrow> globs) paths
         + glob_work (case incl of None \<Rightarrow> [] | Some globs \<Rightarrow> globs) paths \<le> MAX_PATH_FILTER_WORK"
  shows "is_ok (evaluate_path_filters incl ign message) \<longleftrightarrow>
           paths_admitted incl ign paths (paths_complete message)"
proof
  show "paths_admitted incl ign paths (paths_complete message)"
    if "is_ok (evaluate_path_filters incl ign message)"
    using that evaluate_path_filters_cases [OF assms(1), of message] assms(2) check_sound by auto
next
  assume ok: "paths_admitted incl ign paths (paths_complete message)"
  have max: "MAX_PATH_FILTER_WORK \<le> usize_max"
    by (simp add: MAX_PATH_FILTER_WORK_def usize_max_def)
  obtain left where ig: "check_ignores message paths ign MAX_PATH_FILTER_WORK = Inr left"
    "left \<le> usize_max"
    "glob_work (case incl of None \<Rightarrow> [] | Some globs \<Rightarrow> globs) paths \<le> left"
  proof (cases ign)
    case None
    with assms(3) max that show thesis by (auto simp: check_ignores_def glob_work_def)
  next
    case (Some globs)
    with assms(3) obtain b left where run:
      "any_path_matches globs paths MAX_PATH_FILTER_WORK = Some (b, left)"
      "left \<le> MAX_PATH_FILTER_WORK" "MAX_PATH_FILTER_WORK - glob_work globs paths \<le> left"
      using any_path_matches_enough [OF _ max, of globs paths] by auto
    with ok Some any_path_matches_sound [OF run(1)] assms(3) max show thesis
      by (intro that [of left]) (auto simp: check_ignores_def paths_admitted_def)
  qed
  have "check_includes message paths incl left = Inr ()"
  proof (cases incl)
    case (Some globs)
    with ig obtain b rest where run: "any_path_matches globs paths left = Some (b, rest)"
      using any_path_matches_enough [of globs paths left]
      by (metis option.simps(5))
    with ok Some any_path_matches_sound [OF run] show ?thesis
      by (auto simp: check_includes_def paths_admitted_def)
  qed (simp add: check_includes_def)
  with ig(1) assms show "is_ok (evaluate_path_filters incl ign message)"
    by (auto simp: evaluate_path_filters_cases)
qed

theorem path_filters_exact_witness:
  "is_ok (evaluate_path_filters None (Some [RepositoryGlob ''a''])
      (JObject [(''tool'', JObject [(''paths'', JArray [JString ''b''])])] :: nat json)) \<longleftrightarrow>
   paths_admitted None (Some [RepositoryGlob ''a'']) [''b'']
      (paths_complete (JObject [(''tool'', JObject [(''paths'', JArray [JString ''b''])])] :: nat json))"
proof (rule path_filters_exact)
  show "event_paths (JObject [(''tool'', JObject [(''paths'', JArray [JString ''b''])])] :: nat json)
      = Some [''b'']"
    by code_simp
qed (simp_all add: glob_work_def MAX_PATH_FILTER_WORK_def)

lemma model_reason_None:
  "model_reason ms v = None \<longleftrightarrow>
     (\<exists>m \<in> set ms. json_get v ''model'' = Some (JString m) \<and> is_model_identifier m)"
  by (auto simp: model_reason_def bind_eq_Some_conv split: option.splits)

lemma mode_reason_None:
  "mode_reason f v = None \<longleftrightarrow> json_get v ''fast_mode'' = Some (JBool f)"
  by (auto simp: mode_reason_def bind_eq_Some_conv split: option.splits)

text \<open>
  Attribution filters accept exactly the events of the supplied scope whose recorded
  model is a valid identifier in the list and whose recorded mode is the expected one; a
  missing fact never passes a filter.
\<close>

lemma attribution_filters_exact:
  "is_ok (evaluate_attribution_filters models fast_mode scope v) \<longleftrightarrow>
     (case models of None \<Rightarrow> True
      | Some ms \<Rightarrow> \<exists>m \<in> set ms. json_get v ''model'' = Some (JString m) \<and> is_model_identifier m)
     \<and> (case fast_mode of None \<Rightarrow> True | Some f \<Rightarrow> json_get v ''fast_mode'' = Some (JBool f))"
proof -
  have "is_ok (evaluate_attribution_filters models fast_mode scope v) \<longleftrightarrow>
      Option.bind models (\<lambda>ms. model_reason ms v) = None
      \<and> Option.bind fast_mode (\<lambda>f. mode_reason f v) = None"
    by (auto simp: evaluate_attribution_filters_def split: option.splits)
  then show ?thesis
    by (cases models; cases fast_mode) (simp_all add: model_reason_None mode_reason_None)
qed

end
