(* ===== verification/Check_Types.thy ===== *)
theory Check_Types
  imports Expr_Syntax Filters
begin

text \<open>
  The data of compiled checks (\<open>compiler.rs\<close>, \<open>decision.rs\<close>) and of the runtime
  (\<open>domain.rs\<close>): triggers, input templates, decisions, status actions, observations and
  frozen candidates. A wrapper such as \<open>Generation(u64)\<close> is the number or text it wraps.
\<close>

section \<open>Compiled checks\<close>

datatype 'n condition =
    CondBoolean bool
  | CondExpression "'n expression"

datatype tool_category =
    Shell | Read | Search | Edit | Write | Delegate | Skill | Mcp | OtherTool

fun category_as_str :: "tool_category \<Rightarrow> string" where
  "category_as_str Shell = ''shell''"
| "category_as_str Read = ''read''"
| "category_as_str Search = ''search''"
| "category_as_str Edit = ''edit''"
| "category_as_str Write = ''write''"
| "category_as_str Delegate = ''delegate''"
| "category_as_str Skill = ''skill''"
| "category_as_str Mcp = ''mcp''"
| "category_as_str OtherTool = ''other''"

datatype tool_result_status = StatusCompleted | StatusError | StatusCancelled | StatusUnknown

datatype session_start_reason = StartNew | StartResumed | StartAttached

record rolling_window =
  window_size :: nat
  window_minimum :: nat

record event_filters =
  ef_tools :: "tool_category list option"
  ef_statuses :: "tool_result_status list option"
  ef_models :: "string list option"
  ef_fast_mode :: "bool option"
  ef_paths :: "repository_glob list option"
  ef_paths_ignore :: "repository_glob list option"
  ef_reasons :: "session_start_reason list option"

datatype trigger_family =
    Messages bool "event_filters option" "event_filters option" "event_filters option"
  | ResponseCycle event_filters
  | SessionFamily "event_filters option" "event_filters option"

record tool_result_trigger =
  family :: trigger_family
  tr_tools :: "tool_category list option"
  tr_statuses :: "tool_result_status list option"
  tr_models :: "string list option"
  tr_fast_mode :: "bool option"
  tr_paths :: "repository_glob list option"
  tr_paths_ignore :: "repository_glob list option"
  tr_window :: "rolling_window option"
  tr_cooldown :: nat

datatype 'n input_literal =
    InputNull | InputBoolean bool | InputNumber 'n | InputString string

datatype 'n template_part =
    PartLiteral string | PartExpression "'n expression"

datatype 'n input_template =
    TplLiteral "'n input_literal"
  | TplExpression "'n expression"
  | TplText "'n template_part list"
  | TplSequence "'n input_template list"
  | TplObject "(string \<times> 'n input_template) list"
  | TplMap "'n expression" string "'n condition option" "'n input_template"

datatype status_result = Failure | Success

datatype 'n status_result_template =
    ResultLiteral status_result
  | ResultExpression "'n expression"

record 'n status_action =
  act_condition :: "'n condition option"
  act_result :: "'n status_result_template"
  act_message :: "'n input_template option"

datatype question =
    Choice string "(string \<times> string) list"
  | Score string "string list"
  | Noul string

record named_question =
  q_name :: string
  q_question :: question

text \<open>\<open>'f\<close> stands for the fit rules, which no operation of these theories inspects.\<close>

record ('n, 'f) decision_block =
  block_name :: string
  block_input :: "'n input_template"
  block_fit :: "'f list"
  block_outputs :: "named_question list"

record ('n, 'f) compiled_check =
  check_name :: string
  check_description :: "string option"
  check_condition :: "'n condition option"
  check_trigger :: tool_result_trigger
  check_decisions :: "('n, 'f) decision_block list"
  check_actions :: "'n status_action list"

definition is_local :: "('n, 'f) compiled_check \<Rightarrow> bool" where
  "is_local check \<longleftrightarrow> check_decisions check = []"

section \<open>Runtime identities and observations\<close>

datatype run_scope = Live | Replay string

record activation_scope =
  environment :: string
  session_cwd :: string
  run :: run_scope

record activation_id =
  scope :: activation_scope
  definition_id :: string
  generation :: nat

record 'n message =
  message_id :: string
  message_value :: "'n json"

datatype evidence_dependency =
    DepMessage string string
  | DepMembershipThrough nat
  | DepContext string string
  | DepSourceEvidence string string
  | DepSessionActivity string nat

record 'n frozen_context =
  context_value :: "'n json"
  context_dependencies :: "evidence_dependency list"

datatype 'n observation_kind =
    UserMessage "'n message"
  | AssistantMessage "'n message"
  | ToolCall "'n message"
  | ToolResult "'n message" string string
  | TurnEnd "'n json"
  | SessionStart session_start_reason
  | SessionIdle string nat nat "int option"
  | OtherObservation

record 'n observation_draft =
  obs_branch :: string
  obs_native_order :: string
  obs_first_terminal :: "nat option"
  obs_first_eligible :: "nat option"
  obs_version :: string
  obs_kind :: "'n observation_kind"
  obs_context :: "'n frozen_context"
  obs_complete :: bool

record 'n observation = "'n observation_draft" +
  obs_position :: nat

definition commit_draft :: "'n observation_draft \<Rightarrow> nat \<Rightarrow> 'n observation" where
  "commit_draft draft position = observation_draft.extend draft \<lparr>obs_position = position\<rparr>"

record 'n frozen_candidate =
  cand_activation :: activation_id
  cand_branch :: string
  cand_trigger_position :: nat
  cand_messages :: "'n message list"
  cand_context :: "'n frozen_context"
  cand_dependencies :: "evidence_dependency list"
  cand_fingerprint :: string

end
