(* ===== verification/Preparation.thy ===== *)
theory Preparation
  imports Check_Types Eval_Laws
begin

text \<open>
  \<open>preparation.rs\<close>: trigger conditions and the preparation of decision inputs from
  templates, under the shared budget. Map aliases live in a mutable map that the code
  threads through the templates, so every step returns the map it leaves; after an error
  the caller drops it.
\<close>

section \<open>The code\<close>

datatype 'n preparation_outcome =
    PrepReady "'n json"
  | PrepUnavailable string
  | PrepFailed string
  | PrepResourceLimit string

datatype condition_outcome = CondMatched | CondFalse | CondUnavailable | CondFailed string

datatype 'n map_item = MapExcluded | MapValue "'n json" | MapUnavailable

definition reads_requests_membership :: "evaluation_trace \<Rightarrow> bool" where
  "reads_requests_membership trace \<longleftrightarrow>
     list_ex (\<lambda>d. dep_kind d = DependsMembership
       \<and> dep_path d = [PathProperty ''session'', PathProperty ''requests'']) trace"

definition selected_membership_is_available :: "evaluation_trace \<Rightarrow> 'n json \<Rightarrow> bool" where
  "selected_membership_is_available trace context \<longleftrightarrow>
     \<not> reads_requests_membership trace
     \<or> Option.bind (json_get context ''session'') (\<lambda>session. json_get session ''requests_complete'')
         = Some (JBool True)"

definition enforce_selected_membership ::
  "'n json \<Rightarrow> 'n evaluated_value \<Rightarrow> 'n evaluated_value" where
  "enforce_selected_membership context v =
     (if selected_membership_is_available (ev_trace v) context then v
      else v\<lparr>ev_value := Unavailable\<rparr>)"

definition evaluate_checked ::
  "'n json_lib \<Rightarrow> 'n expression \<Rightarrow> 'n json \<Rightarrow> 'n evaluation_bindings \<Rightarrow> nat
     \<Rightarrow> 'n evaluated_value evaluating" where
  "evaluate_checked L e context bindings depth =
     ev_bind (evaluate_expression_with_budget L e context bindings depth) (\<lambda>v.
       ev_return (enforce_selected_membership context v))"

definition evaluate_condition ::
  "'n json_lib \<Rightarrow> 'n condition \<Rightarrow> 'n json \<Rightarrow> 'n evaluation_bindings \<Rightarrow> nat
     \<Rightarrow> 'n evaluated_value evaluating" where
  "evaluate_condition L c context bindings depth =
     (case c of
        CondBoolean b \<Rightarrow> ev_bind (step depth) (\<lambda>_. evaluated_available (JBool b))
      | CondExpression e \<Rightarrow> evaluate_checked L e context bindings depth)"

definition evaluate_trigger_condition ::
  "'n json_lib \<Rightarrow> ('n, 'f) compiled_check \<Rightarrow> 'n json \<Rightarrow> condition_outcome" where
  "evaluate_trigger_condition L check context =
     (case check_condition check of
        None \<Rightarrow> CondMatched
      | Some c \<Rightarrow>
          (case fst (evaluate_condition L c context [] 1 (start_state default_budget)) of
             Inl e \<Rightarrow> CondFailed (error_message e)
           | Inr v \<Rightarrow>
               (case ev_value v of
                  Available w \<Rightarrow> if is_truthy L w then CondMatched else CondFalse
                | Unavailable \<Rightarrow> CondUnavailable)))"

fun input_literal_value :: "'n input_literal \<Rightarrow> 'n json" where
  "input_literal_value InputNull = JNull"
| "input_literal_value (InputBoolean b) = JBool b"
| "input_literal_value (InputNumber n) = JNumber n"
| "input_literal_value (InputString s) = JString s"

fun input_literal_cost :: "'n input_literal \<Rightarrow> nat" where
  "input_literal_cost (InputString text) = length text"
| "input_literal_cost InputNull = 4"
| "input_literal_cost (InputBoolean _) = 5"
| "input_literal_cost (InputNumber _) = 32"

definition with_trace ::
  "'n evaluation_value \<Rightarrow> evaluation_trace \<Rightarrow> 'n evaluated_value evaluating" where
  "with_trace v trace =
     ev_bind (evaluated_available (case v of Available w \<Rightarrow> w | Unavailable \<Rightarrow> JNull)) (\<lambda>e.
       ev_return (e\<lparr>ev_value := v, ev_trace := trace\<rparr>))"

definition invalid_template :: "string \<Rightarrow> evaluation_error" where
  "invalid_template message = \<lparr>error_code = RuntimeInvalidContext, error_message = message\<rparr>"

fun text_loop ::
  "'n json_lib \<Rightarrow> 'n json \<Rightarrow> 'n evaluation_bindings \<Rightarrow> nat \<Rightarrow> 'n template_part list \<Rightarrow> string
     \<Rightarrow> 'n evaluated_value \<Rightarrow> 'n evaluated_value evaluating" where
  "text_loop L context bindings depth [] text prepared =
     ev_return (prepared\<lparr>ev_value := Available (JString text)\<rparr>)"
| "text_loop L context bindings depth (part # parts) text prepared =
     ev_bind (step (depth + 1)) (\<lambda>_.
       case part of
         PartLiteral literal \<Rightarrow>
           ev_bind (append_text text literal) (\<lambda>text.
             text_loop L context bindings depth parts text prepared)
       | PartExpression e \<Rightarrow>
           ev_bind (evaluate_checked L e context bindings (depth + 1)) (\<lambda>v.
             (let prepared = merge_text_provenance prepared v in
              case ev_value v of
                Available w \<Rightarrow>
                  ev_bind (scalar_text L w) (\<lambda>t.
                    text_loop L context bindings depth parts (text @ t) prepared)
              | Unavailable \<Rightarrow> ev_return (prepared\<lparr>ev_value := Unavailable\<rparr>))))"

definition prepare_text ::
  "'n json_lib \<Rightarrow> 'n json \<Rightarrow> 'n evaluation_bindings \<Rightarrow> nat \<Rightarrow> 'n template_part list
     \<Rightarrow> 'n evaluated_value evaluating" where
  "prepare_text L context bindings depth parts =
     ev_bind (evaluated_available JNull) (\<lambda>prepared.
       text_loop L context bindings depth parts [] prepared)"

text \<open>A prepared template: its value, and the alias map it leaves.\<close>

type_synonym 'n preparing =
  "'n evaluation_bindings \<Rightarrow> ('n evaluated_value \<times> 'n evaluation_bindings) evaluating"

fun sequence_loop ::
  "'n preparing list \<Rightarrow> 'n json list \<Rightarrow> evaluation_trace \<Rightarrow> 'n preparing" where
  "sequence_loop [] values trace bindings =
     ev_bind (with_trace (Available (JArray values)) trace) (\<lambda>v. ev_return (v, bindings))"
| "sequence_loop (item # items) values trace bindings =
     ev_bind (item bindings) (\<lambda>(v, bindings).
       (let trace = trace_merge trace (ev_trace v) in
        case ev_value v of
          Available w \<Rightarrow> sequence_loop items (values @ [w]) trace bindings
        | Unavailable \<Rightarrow> ev_bind (with_trace Unavailable trace) (\<lambda>v. ev_return (v, bindings))))"

fun object_loop ::
  "(string \<times> 'n preparing) list \<Rightarrow> (string \<times> 'n json) list \<Rightarrow> evaluation_trace \<Rightarrow> 'n preparing" where
  "object_loop [] obj trace bindings =
     ev_bind (with_trace (Available (JObject obj)) trace) (\<lambda>v. ev_return (v, bindings))"
| "object_loop ((key, item) # items) obj trace bindings =
     ev_bind (reserve_generated_bytes (usize_saturating_add (length key) 4)) (\<lambda>_.
     ev_bind (item bindings) (\<lambda>(v, bindings).
       (let trace = trace_merge trace (ev_trace v) in
        case ev_value v of
          Available w \<Rightarrow> object_loop items (bt_insert key w obj) trace bindings
        | Unavailable \<Rightarrow> ev_bind (with_trace Unavailable trace) (\<lambda>v. ev_return (v, bindings)))))"

text \<open>\<open>prepare_map_item\<close>: the outcome, the extended trace and the alias map.\<close>

definition prepare_map_item ::
  "'n json_lib \<Rightarrow> 'n condition option \<Rightarrow> 'n preparing \<Rightarrow> 'n json \<Rightarrow> nat \<Rightarrow> evaluation_trace
     \<Rightarrow> 'n evaluation_bindings
     \<Rightarrow> ('n map_item \<times> evaluation_trace \<times> 'n evaluation_bindings) evaluating" where
  "prepare_map_item L c body context depth trace bindings =
     (let run = (\<lambda>trace.
            ev_bind (body bindings) (\<lambda>(v, bindings).
              ev_return (case ev_value v of Available w \<Rightarrow> MapValue w | Unavailable \<Rightarrow> MapUnavailable,
                         trace_merge trace (ev_trace v), bindings)))
      in case c of
           None \<Rightarrow> run trace
         | Some c \<Rightarrow>
             ev_bind (evaluate_condition L c context bindings depth) (\<lambda>v.
               (let trace = trace_merge trace (ev_trace v) in
                case ev_value v of
                  Unavailable \<Rightarrow> ev_return (MapUnavailable, trace, bindings)
                | Available w \<Rightarrow>
                    if \<not> is_truthy L w then ev_return (MapExcluded, trace, bindings)
                    else run trace)))"

fun map_loop ::
  "'n json_lib \<Rightarrow> 'n evaluated_value \<Rightarrow> string
     \<Rightarrow> (evaluation_trace \<Rightarrow> 'n evaluation_bindings
           \<Rightarrow> ('n map_item \<times> evaluation_trace \<times> 'n evaluation_bindings) evaluating)
     \<Rightarrow> nat list \<Rightarrow> 'n json list \<Rightarrow> evaluation_trace \<Rightarrow> 'n preparing" where
  "map_loop L collection alias item [] values trace bindings =
     ev_bind (with_trace (Available (JArray values)) trace) (\<lambda>v. ev_return (v, bindings))"
| "map_loop L collection alias item (index # indexes) values trace bindings =
     ev_bind (array_item collection index) (\<lambda>element.
     ev_bind (reserve_generated_bytes (length alias)) (\<lambda>_.
     ev_bind (item trace (bt_insert alias element bindings)) (\<lambda>(result, trace, bindings).
       (let bindings = bt_remove alias bindings in
        case result of
          MapExcluded \<Rightarrow> map_loop L collection alias item indexes values trace bindings
        | MapValue v \<Rightarrow>
            ev_bind (reserve_generated_bytes 1) (\<lambda>_.
              map_loop L collection alias item indexes (values @ [v]) trace bindings)
        | MapUnavailable \<Rightarrow>
            ev_bind (with_trace Unavailable trace) (\<lambda>v. ev_return (v, bindings))))))"

function prepare_template ::
  "'n json_lib \<Rightarrow> 'n json \<Rightarrow> 'n input_template \<Rightarrow> nat \<Rightarrow> 'n preparing" where
  "prepare_template L context (TplLiteral literal) depth bindings =
     ev_bind (step depth) (\<lambda>_.
     ev_bind (reserve_generated_bytes (input_literal_cost literal)) (\<lambda>_.
     ev_bind (evaluated_available (input_literal_value literal)) (\<lambda>v.
     ev_return (v, bindings))))"
| "prepare_template L context (TplExpression e) depth bindings =
     ev_bind (step depth) (\<lambda>_.
     ev_bind (evaluate_checked L e context bindings depth) (\<lambda>v. ev_return (v, bindings)))"
| "prepare_template L context (TplText parts) depth bindings =
     ev_bind (step depth) (\<lambda>_.
     ev_bind (prepare_text L context bindings depth parts) (\<lambda>v. ev_return (v, bindings)))"
| "prepare_template L context (TplSequence items) depth bindings =
     ev_bind (step depth) (\<lambda>_.
     ev_bind (visit_items (length items)) (\<lambda>_.
     ev_bind (reserve_generated_bytes (usize_saturating_add (length items) 2)) (\<lambda>_.
     sequence_loop (map (\<lambda>item. prepare_template L context item (depth + 1)) items) [] [] bindings)))"
| "prepare_template L context (TplObject items) depth bindings =
     ev_bind (step depth) (\<lambda>_.
     ev_bind (step depth) (\<lambda>_.
     ev_bind (visit_items (length items)) (\<lambda>_.
     ev_bind (reserve_generated_bytes 2) (\<lambda>_.
     object_loop (map (\<lambda>(key, item). (key, prepare_template L context item (depth + 1))) items)
       [] [] bindings))))"
| "prepare_template L context (TplMap collection alias c body) depth bindings =
     ev_bind (step depth) (\<lambda>_.
     ev_bind (evaluate_expression_with_budget L collection context bindings (depth + 1)) (\<lambda>coll.
       case ev_value coll of
         Unavailable \<Rightarrow> ev_return (coll, bindings)
       | Available (JArray items) \<Rightarrow>
           ev_bind (reserve_generated_bytes 2) (\<lambda>_.
             (let trace = metadata_membership_trace (ev_metadata coll) in
              if \<not> selected_membership_is_available trace context
              then ev_bind (with_trace Unavailable trace) (\<lambda>v. ev_return (v, bindings))
              else
                map_loop L coll alias
                  (prepare_map_item L c (prepare_template L context body (depth + 1)) context (depth + 1))
                  [0..<length items] [] trace bindings))
       | _ \<Rightarrow> ev_fail (invalid_template ''Map collection must be an array.'')))"
  by pat_completeness auto
termination
  by (relation "measure (\<lambda>(L, context, t, _). size t)")
    (auto simp: less_Suc_eq_le size_list_estimation'
      dest: size_list_estimation' [where f = "size_prod (\<lambda>_. 0) size", OF _ order_refl])

definition evaluate_decision_input_with_budget ::
  "'n json_lib \<Rightarrow> ('n, 'f) decision_block \<Rightarrow> 'n json \<Rightarrow> 'n evaluated_value evaluating" where
  "evaluate_decision_input_with_budget L decision context =
     ev_bind (prepare_template L context (block_input decision) 1 []) (\<lambda>(v, _).
       ev_return (enforce_selected_membership context v))"

definition prepare_decision_input_with_budget ::
  "'n json_lib \<Rightarrow> ('n, 'f) decision_block \<Rightarrow> 'n frozen_candidate \<Rightarrow> eval_state
     \<Rightarrow> 'n preparation_outcome \<times> eval_state" where
  "prepare_decision_input_with_budget L decision candidate s =
     (case evaluate_decision_input_with_budget L decision (context_value (cand_context candidate)) s of
        (Inr v, t) \<Rightarrow>
          (case ev_value v of
             Available w \<Rightarrow> (PrepReady w, t)
           | Unavailable \<Rightarrow>
               (PrepUnavailable ''Decision input depends on unavailable evidence.'', t))
      | (Inl e, t) \<Rightarrow>
          if error_code e = EvaluationLimitExceeded \<or> exhausted t
          then (PrepResourceLimit (error_message e), t)
          else (PrepFailed (error_message e), t))"

definition prepare_decision_input ::
  "'n json_lib \<Rightarrow> ('n, 'f) decision_block \<Rightarrow> 'n frozen_candidate \<Rightarrow> 'n preparation_outcome" where
  "prepare_decision_input L decision candidate =
     fst (prepare_decision_input_with_budget L decision candidate (start_state default_budget))"

section \<open>Preparation is metered\<close>

lemma metered_available [simp, ev_keeps]: "metered (evaluated_available v)"
  by (auto simp: evaluated_available_def intro!: metered_bind)

lemma metered_with_trace [simp, ev_keeps]: "metered (with_trace v t)"
  by (auto simp: with_trace_def intro!: metered_bind)

lemma metered_checked [simp, ev_keeps]: "metered (evaluate_checked L e c b d)"
  by (auto simp: evaluate_checked_def intro!: metered_bind metered_evaluate_expression)

lemma metered_condition [simp, ev_keeps]: "metered (evaluate_condition L cond c b d)"
  by (auto simp: evaluate_condition_def intro!: metered_bind split: condition.splits)

lemma metered_text_loop [simp, ev_keeps]: "metered (text_loop L c b d parts out v)"
  by (induction L c b d parts out v rule: text_loop.induct)
    (auto simp: Let_def intro!: metered_bind split: template_part.splits evaluation_value.splits)

lemma metered_sequence_loop:
  "(\<And>item b. item \<in> set items \<Longrightarrow> metered (item b)) \<Longrightarrow> metered (sequence_loop items vs t b)"
  by (induction items arbitrary: vs t b)
    (auto simp: Let_def intro!: metered_bind split: evaluation_value.splits)

lemma metered_object_loop:
  "(\<And>k item b. (k, item) \<in> set items \<Longrightarrow> metered (item b)) \<Longrightarrow> metered (object_loop items obj t b)"
proof (induction items arbitrary: obj t b)
  case (Cons p items)
  obtain k item where p: "p = (k, item)" by (cases p)
  have "metered (object_loop items obj t b)" for obj t b
    by (rule Cons.IH) (use Cons.prems in auto)
  moreover have "metered (item b)" for b using Cons.prems p by auto
  ultimately show ?case
    by (auto simp: p Let_def intro!: metered_bind split: evaluation_value.splits)
qed (auto intro!: metered_bind)

lemma metered_map_item:
  "(\<And>b. metered (body b)) \<Longrightarrow> metered (prepare_map_item L cond body c d t b)"
  by (auto simp: prepare_map_item_def Let_def intro!: metered_bind
      split: option.splits evaluation_value.splits)

lemma metered_map_loop:
  "(\<And>t b. metered (item t b)) \<Longrightarrow> metered (map_loop L coll alias item ns vs t b)"
  by (induction ns arbitrary: vs t b)
    (auto simp: Let_def intro!: metered_bind split: map_item.splits)

lemma metered_invalid_template [simp, ev_keeps]: "metered (ev_fail (invalid_template m))"
  by (rule metered_fail) (simp add: invalid_template_def)

lemma metered_prepare_template [simp, ev_keeps]: "metered (prepare_template L c t d b)"
proof (induction t arbitrary: d b)
  case (TplSequence items)
  then show ?case by (auto intro!: metered_bind metered_sequence_loop)
next
  case (TplObject items)
  have "metered (item b)"
    if "(k, item) \<in> set (map (\<lambda>(key, item). (key, prepare_template L c item (d + 1))) items)" for k item b
    using TplObject that by (fastforce simp: snds.simps)
  then show ?case by (auto intro!: metered_bind metered_object_loop simp del: set_map)
next
  case (TplMap e x cond body)
  have loop: "metered (map_loop L coll x
      (prepare_map_item L cond (prepare_template L c body (d + 1)) c (d + 1)) ns vs t b)" for coll ns vs t b
    using TplMap by (intro metered_map_loop metered_map_item)
  then show ?case
    by (auto simp: Let_def intro!: metered_bind metered_evaluate_expression
        split: evaluation_value.splits json.splits)
qed (auto simp: prepare_text_def intro!: metered_bind)

lemma metered_decision_input: "metered (evaluate_decision_input_with_budget L dec c)"
  by (auto simp: evaluate_decision_input_with_budget_def intro!: metered_bind)

text \<open>
  C33. Preparing a decision input reports \<open>ResourceLimit\<close> exactly when it exhausts the
  assessment's shared budget; every counter stays within its limit, and a budget left
  active can go on to pay for later work of the same assessment.
\<close>

theorem prepare_decision_input_budget:
  assumes "within_limits s" "\<not> exhausted s"
  shows "case prepare_decision_input_with_budget L dec cand s of (outcome, t) \<Rightarrow>
           within_limits t \<and> limits t = limits s \<and> steps s \<le> steps t
           \<and> (exhausted t \<longleftrightarrow> (\<exists>m. outcome = PrepResourceLimit m))"
proof -
  obtain r t where run: "evaluate_decision_input_with_budget L dec (context_value (cand_context cand)) s = (r, t)"
    by fastforce
  have "budget_extends s t" "outcome_agrees r t"
    using meteredD(1,2) [OF metered_decision_input, of s L dec "context_value (cand_context cand)"] run assms
    by auto
  with run assms show ?thesis
    by (auto simp: prepare_decision_input_with_budget_def budget_extends_def outcome_agrees_def
        split: sum.splits evaluation_value.splits)
qed

text \<open>A small candidate and decision for closed examples.\<close>

definition sample_candidate :: "nat json \<Rightarrow> nat frozen_candidate" where
  "sample_candidate c =
     \<lparr>cand_activation = \<lparr>scope = \<lparr>environment = ''e'', session_cwd = ''/w'', run = Live\<rparr>,
        definition_id = ''check'', generation = 1\<rparr>,
      cand_branch = ''main'', cand_trigger_position = 1, cand_messages = [],
      cand_context = \<lparr>context_value = c, context_dependencies = []\<rparr>, cand_dependencies = [],
      cand_fingerprint = ''f''\<rparr>"

definition sample_decision :: "nat input_template \<Rightarrow> (nat, unit) decision_block" where
  "sample_decision t = \<lparr>block_name = ''review'', block_input = t, block_fit = [], block_outputs = []\<rparr>"

theorem prepare_decision_input_budget_witness:
  "case prepare_decision_input_with_budget nat_lib (sample_decision (TplLiteral InputNull))
          (sample_candidate (JObject [])) (start_state default_budget) of (outcome, t) \<Rightarrow>
     within_limits t \<and> limits t = limits (start_state default_budget)
     \<and> steps (start_state default_budget) \<le> steps t
     \<and> (exhausted t \<longleftrightarrow> (\<exists>m. outcome = PrepResourceLimit m))"
  by (rule prepare_decision_input_budget)
    (simp_all add: within_limits_def start_state_def default_state_simps)

section \<open>Aliases and well-formed inputs\<close>

text \<open>The compiler admits a map only if its alias shadows no enclosing alias.\<close>

fun template_scoped :: "string set \<Rightarrow> 'n input_template \<Rightarrow> bool" where
  "template_scoped names (TplSequence items) = list_all (template_scoped names) items"
| "template_scoped names (TplObject items) = list_all (\<lambda>(k, t). template_scoped names t) items"
| "template_scoped names (TplMap e alias c body) =
     (alias \<notin> names \<and> template_scoped (insert alias names) body)"
| "template_scoped names _ = True"

lemma bt_remove_insert:
  assumes "bt_ok m" "k \<notin> fst ` set m"
  shows "bt_remove k (bt_insert k v m) = m"
  using assms
proof (induction m)
  case (Cons p m)
  obtain a b where p: "p = (a, b)" by (cases p)
  have above: "filter (\<lambda>q. fst q \<noteq> k) m = m"
    using Cons.prems by (auto simp: filter_id_conv)
  show ?case
    using Cons above by (auto simp: p bt_insert_Cons bt_remove_def bt_ok_Cons)
qed (simp add: bt_remove_def)

lemma value_ok_simps [simp]: "value_ok (Available j) = json_ok j" "value_ok Unavailable"
  by (simp_all add: value_ok_def)

lemma bindings_ok_insert:
  "bt_ok b \<Longrightarrow> bindings_ok b \<Longrightarrow> value_ok (ev_value v) \<Longrightarrow> bindings_ok (bt_insert k v b)"
  by (auto simp: bindings_ok_def list_all_iff set_bt_insert)

lemma value_ok_enforce: "value_ok (ev_value v) \<Longrightarrow> value_ok (ev_value (enforce_selected_membership c v))"
  by (auto simp: enforce_selected_membership_def)

lemma returns_evaluate_expression:
  assumes "json_ok c" "bindings_ok b"
  shows "returns (evaluate_expression_with_budget L e c b d) (\<lambda>v. value_ok (ev_value v))"
  unfolding evaluate_expression_with_budget_def
  by (rule returns_bind [OF evaluate_ok(1) [OF assms] returns_finish])

lemma returns_checked:
  assumes "json_ok c" "bindings_ok b"
  shows "returns (evaluate_checked L e c b d) (\<lambda>v. value_ok (ev_value v))"
  unfolding evaluate_checked_def
  by (rule returns_bind [OF returns_evaluate_expression [OF assms]]) (simp add: value_ok_enforce)

lemma returns_available: "returns (evaluated_available j) (\<lambda>v. ev_value v = Available j)"
  by (auto simp: evaluated_available_def intro!: returns_bind_any)

lemma returns_with_trace: "returns (with_trace v t) (\<lambda>w. ev_value w = v)"
  by (auto simp: with_trace_def intro!: returns_bind_any)

lemma returns_text_loop: "returns (text_loop L c b d parts out v) (\<lambda>w. value_ok (ev_value w))"
  by (induction L c b d parts out v rule: text_loop.induct)
    (auto simp: Let_def intro!: returns_bind_any
      split: template_part.splits evaluation_value.splits)

lemma returns_array_item:
  "value_ok (ev_value v) \<Longrightarrow> returns (array_item v i) (\<lambda>w. value_ok (ev_value w))"
  unfolding array_item_def
  by (rule returns_bind_any)
    (auto simp: Let_def evaluated_unavailable_def list_all_length
      intro!: returns_bind [OF returns_copy] split: evaluation_value.splits json.splits)

text \<open>A template that prepares well-formed values and leaves the alias map as it found it.\<close>

definition prepares_ok :: "'n evaluation_bindings \<Rightarrow> 'n preparing \<Rightarrow> bool" where
  "prepares_ok b p \<longleftrightarrow> returns (p b) (\<lambda>(v, b'). value_ok (ev_value v) \<and> b' = b)"

lemma prepares_finish:
  "value_ok v \<Longrightarrow>
   returns (ev_bind (with_trace v t) (\<lambda>v. ev_return (v, b))) (\<lambda>(v, b'). value_ok (ev_value v) \<and> b' = b)"
  by (rule returns_bind [OF returns_with_trace]) simp

lemma prepares_sequence_loop:
  assumes "\<And>p. p \<in> set items \<Longrightarrow> prepares_ok b p" "list_all json_ok vs"
  shows "prepares_ok b (sequence_loop items vs t)"
  using assms
proof (induction items arbitrary: vs t)
  case (Cons p items)
  have rest: "prepares_ok b (sequence_loop items (vs @ [w]) t)" if "json_ok w" for w t
    by (rule Cons.IH) (use Cons.prems that in auto)
  have "returns (p b) (\<lambda>(v, b'). value_ok (ev_value v) \<and> b' = b)"
    using Cons.prems by (simp add: prepares_ok_def)
  then show ?case
    unfolding prepares_ok_def sequence_loop.simps
    by (rule returns_bind)
      (use rest in \<open>auto simp: Let_def prepares_ok_def
        intro!: prepares_finish split: evaluation_value.splits\<close>)
qed (simp add: prepares_ok_def prepares_finish)

lemma prepares_object_loop:
  assumes "\<And>k p. (k, p) \<in> set items \<Longrightarrow> prepares_ok b p" "json_ok (JObject obj)"
  shows "prepares_ok b (object_loop items obj t)"
  using assms
proof (induction items arbitrary: obj t)
  case (Cons kp items)
  obtain k p where kp: "kp = (k, p)" by (cases kp)
  have rest: "prepares_ok b (object_loop items (bt_insert k w obj) t)" if "json_ok w" for w t
    by (rule Cons.IH) (use Cons.prems(1) in force, rule json_ok_insert [OF Cons.prems(2) that])
  have "returns (p b) (\<lambda>(v, b'). value_ok (ev_value v) \<and> b' = b)"
    using Cons.prems kp by (auto simp: prepares_ok_def)
  then show ?case
    unfolding prepares_ok_def kp object_loop.simps
    by (intro returns_bind_any [of _ _ "reserve_generated_bytes _"], elim returns_bind)
      (use rest in \<open>auto simp: Let_def prepares_ok_def
        intro!: prepares_finish split: evaluation_value.splits\<close>)
qed (simp add: prepares_ok_def prepares_finish)

lemma returns_condition:
  assumes "json_ok c" "bindings_ok b"
  shows "returns (evaluate_condition L cond c b d) (\<lambda>v. value_ok (ev_value v))"
  using assms
  by (auto simp: evaluate_condition_def intro!: returns_checked returns_bind_any
      intro: returns_mono [OF returns_available] split: condition.splits)

lemma returns_map_item:
  assumes "prepares_ok b body"
  shows "returns (prepare_map_item L cond body c d t b)
    (\<lambda>(r, t, b'). b' = b \<and> (case r of MapValue w \<Rightarrow> json_ok w | _ \<Rightarrow> True))"
proof -
  have run: "returns (ev_bind (body b) (\<lambda>(v, b).
      ev_return (case ev_value v of Available w \<Rightarrow> MapValue w | Unavailable \<Rightarrow> MapUnavailable,
                 trace_merge t (ev_trace v), b)))
    (\<lambda>(r, t, b'). b' = b \<and> (case r of MapValue w \<Rightarrow> json_ok w | _ \<Rightarrow> True))" for t
    by (rule returns_bind [OF assms [unfolded prepares_ok_def]])
      (auto split: evaluation_value.splits)
  show ?thesis
    unfolding prepare_map_item_def Let_def
    by (auto simp: run intro!: returns_bind_any [of _ _ "evaluate_condition _ _ _ _ _"]
        split: option.splits evaluation_value.splits)
qed

lemma prepares_map_loop:
  assumes item: "\<And>v t. value_ok (ev_value v) \<Longrightarrow>
      returns (item t (bt_insert k v b))
        (\<lambda>(r, t, b'). b' = bt_insert k v b \<and> (case r of MapValue w \<Rightarrow> json_ok w | _ \<Rightarrow> True))"
    and fresh: "bt_ok b" "k \<notin> fst ` set b"
    and "value_ok (ev_value coll)" "list_all json_ok vs"
  shows "prepares_ok b (map_loop L coll k item ns vs t)"
  using assms(5)
proof (induction ns arbitrary: vs t)
  case (Cons n ns)
  have rest: "returns (map_loop L coll k item ns vs t b) (\<lambda>(v, b'). value_ok (ev_value v) \<and> b' = b)"
    if "list_all json_ok vs" for vs t
    using Cons.IH [OF that] by (simp add: prepares_ok_def)
  have body: "returns (case r of
          MapExcluded \<Rightarrow> map_loop L coll k item ns vs t b0
        | MapValue v \<Rightarrow> ev_bind (reserve_generated_bytes 1) (\<lambda>_.
              map_loop L coll k item ns (vs @ [v]) t b0)
        | MapUnavailable \<Rightarrow> ev_bind (with_trace Unavailable t) (\<lambda>v. ev_return (v, b0)))
      (\<lambda>(v, b'). value_ok (ev_value v) \<and> b' = b)"
    if "case r of MapValue w \<Rightarrow> json_ok w | _ \<Rightarrow> True" "b0 = b" for r t b0
    using that Cons.prems
    by (auto intro!: rest prepares_finish returns_bind_any [of _ _ "reserve_generated_bytes _"]
        split: map_item.splits)
  show ?case
    unfolding prepares_ok_def map_loop.simps
    by (rule returns_bind [OF returns_array_item [OF assms(4)]], rule returns_bind_any,
        rule returns_bind [OF item])
      (auto simp: Let_def bt_remove_insert [OF fresh] intro!: body)
qed (simp add: prepares_ok_def prepares_finish)

lemma prepare_template_ok:
  assumes "json_ok c" "bt_ok b" "bindings_ok b" "template_scoped (fst ` set b) t"
  shows "prepares_ok b (prepare_template L c t d)"
  using assms(2-4)
proof (induction t arbitrary: d b)
  case (TplLiteral l)
  have "json_ok (input_literal_value l)" by (cases l) simp_all
  then show ?case
    by (auto simp: prepares_ok_def intro!: returns_bind_any [of _ _ "step _"]
        returns_bind_any [of _ _ "reserve_generated_bytes _"] returns_bind [OF returns_available])
next
  case (TplExpression e)
  then show ?case
    by (auto simp: prepares_ok_def assms(1) intro!: returns_bind_any [of _ _ "step _"]
        returns_bind [OF returns_checked])
next
  case (TplText parts)
  then show ?case
    by (auto simp: prepares_ok_def prepare_text_def intro!: returns_bind_any [of _ _ "step _"]
        returns_bind [OF returns_bind_any [OF returns_text_loop]])
next
  case (TplSequence items)
  then have "prepares_ok b (sequence_loop (map (\<lambda>item. prepare_template L c item (d + 1)) items) [] [])"
    by (intro prepares_sequence_loop) (auto simp: list_all_iff)
  then show ?case
    by (auto simp: prepares_ok_def intro!: returns_bind_any)
next
  case (TplObject items)
  have "prepares_ok b p"
    if "(k, p) \<in> set (map (\<lambda>(key, item). (key, prepare_template L c item (d + 1))) items)" for k p
    using TplObject that by (fastforce simp: snds.simps list_all_iff)
  then have "prepares_ok b (object_loop
      (map (\<lambda>(key, item). (key, prepare_template L c item (d + 1))) items) [] [])"
    by (intro prepares_object_loop) auto
  then show ?case
    by (auto simp: prepares_ok_def intro!: returns_bind_any)
next
  case (TplMap e k cond body)
  have body: "prepares_ok (bt_insert k v b) (prepare_template L c body d)"
    if "value_ok (ev_value v)" for v d
    using TplMap that
    by (intro TplMap.IH)
      (auto simp: set_bt_insert bt_ok_insert bindings_ok_insert elim!: rev_iffD1 [OF _ arg_cong [where f = "\<lambda>s. template_scoped s body"]])
  have loop: "returns (map_loop L coll k
      (prepare_map_item L cond (prepare_template L c body (d + 1)) c (d + 1)) ns [] t b)
      (\<lambda>(v, b'). value_ok (ev_value v) \<and> b' = b)" if "value_ok (ev_value coll)" for coll ns t
    unfolding prepares_ok_def [symmetric]
    by (rule prepares_map_loop) (use TplMap.prems that body in \<open>auto intro!: returns_map_item\<close>)
  show ?case
    unfolding prepares_ok_def prepare_template.simps
    by (rule returns_bind_any, rule returns_bind [OF returns_evaluate_expression])
      (use TplMap.prems assms(1) in \<open>auto simp: Let_def intro!: loop [simplified] prepares_finish
        returns_bind_any [of _ _ "reserve_generated_bytes _"]
        split: evaluation_value.splits json.splits\<close>)
qed

text \<open>
  A template whose map aliases shadow nothing (the compiler admits no other) leaves the
  shared alias map exactly as it was, and every value it prepares from a well-formed
  context is a well-formed JSON value.
\<close>

lemma prepare_template_restores_aliases:
  assumes "json_ok c" "bt_ok b" "bindings_ok b" "template_scoped (fst ` set b) t"
  shows "case prepare_template L c t d b s of
           (Inr (v, b'), _) \<Rightarrow> b' = b \<and> value_ok (ev_value v)
         | (Inl _, _) \<Rightarrow> True"
  using prepare_template_ok [OF assms, of L d]
  by (auto simp: prepares_ok_def dest: returnsD split: prod.splits sum.splits)

section \<open>Templates without expressions\<close>

fun literal_parts :: "'n template_part list \<Rightarrow> string option" where
  "literal_parts [] = Some []"
| "literal_parts (PartLiteral t # parts) = map_option ((@) t) (literal_parts parts)"
| "literal_parts (PartExpression _ # parts) = None"

text \<open>The JSON value an expression-free template denotes; later entries of an object win.\<close>

fun template_json :: "'n input_template \<Rightarrow> 'n json option" where
  "template_json (TplLiteral l) = Some (input_literal_value l)"
| "template_json (TplText parts) = map_option JString (literal_parts parts)"
| "template_json (TplSequence items) = map_option JArray (those (map template_json items))"
| "template_json (TplObject items) =
     map_option (\<lambda>vs. JObject (fold (\<lambda>(k, v). bt_insert k v) (zip (map fst items) vs) []))
       (those (map (\<lambda>(k, t). template_json t) items))"
| "template_json _ = None"

lemma yields_mono: "yields m P \<Longrightarrow> (\<And>x. P x \<Longrightarrow> Q x) \<Longrightarrow> yields m Q"
  by (auto simp: yields_def intro: returns_mono)

lemma yields_bind: "yields m P \<Longrightarrow> (\<And>x. P x \<Longrightarrow> yields (f x) Q) \<Longrightarrow> yields (ev_bind m f) Q"
  unfolding yields_def returns_def fails_def ev_bind_def
  by (auto split: prod.splits sum.splits) blast+

lemma yields_charge [simp]:
  "yields (step d) (\<lambda>_. True)" "yields (visit_items n) (\<lambda>_. True)"
  "yields (reserve_generated_bytes n) (\<lambda>_. True)"
  by (auto simp: yields_def fails_def is_limit_error_def charge_defs split: if_splits)

lemma yields_available:
  "yields (evaluated_available j) (\<lambda>v. ev_value v = Available j \<and> ev_trace v = [])"
  by (auto simp: yields_def returns_def fails_def evaluated_available_def metadata_generated_def ev_bind_def
      split: if_splits)

lemma yields_with_trace: "yields (with_trace v t) (\<lambda>w. ev_value w = v \<and> ev_trace w = t)"
  unfolding with_trace_def by (rule yields_bind [OF yields_available]) simp

lemma yields_text_loop:
  "literal_parts parts = Some u \<Longrightarrow>
   yields (text_loop L c b d parts out v) (\<lambda>w. ev_value w = Available (JString (out @ u)) \<and> ev_trace w = ev_trace v)"
proof (induction parts arbitrary: out u rule: literal_parts.induct)
  case (2 t parts)
  then obtain z where "literal_parts parts = Some z" "u = t @ z" by auto
  with 2(1) [of z "out @ t"] show ?case by (auto intro!: yields_step_then yields_append_then)
qed auto

text \<open>The template prepares to \<open>j\<close>, reads nothing and keeps the aliases.\<close>

definition prepares_to :: "'n preparing \<Rightarrow> 'n json \<Rightarrow> bool" where
  "prepares_to p j \<longleftrightarrow>
     (\<forall>b. yields (p b) (\<lambda>(v, b'). ev_value v = Available j \<and> ev_trace v = [] \<and> b' = b))"

lemma yields_done:
  "yields (ev_bind (with_trace (Available j) []) (\<lambda>v. ev_return (v, b)))
     (\<lambda>(v, b'). ev_value v = Available j \<and> ev_trace v = [] \<and> b' = b)"
  by (rule yields_bind [OF yields_with_trace]) simp

lemma prepares_to_sequence:
  "list_all2 prepares_to items vs \<Longrightarrow> prepares_to (sequence_loop items acc []) (JArray (acc @ vs))"
proof (induction items vs arbitrary: acc rule: list_all2_induct)
  case (Cons p items w vs)
  have rest: "yields (sequence_loop items (acc @ [w]) [] b)
      (\<lambda>(v, b'). ev_value v = Available (JArray (acc @ w # vs)) \<and> ev_trace v = [] \<and> b' = b)" for b
    using Cons.IH [of "acc @ [w]"] by (simp add: prepares_to_def)
  show ?case
    unfolding prepares_to_def sequence_loop.simps
    by (intro allI, rule yields_bind [OF Cons.hyps(1) [unfolded prepares_to_def, rule_format]])
      (auto simp: trace_merge_def intro!: rest)
qed (simp add: prepares_to_def yields_done)

lemma prepares_to_object:
  "list_all2 (\<lambda>(k, p) (k', w). k' = k \<and> prepares_to p w) items kvs \<Longrightarrow>
   prepares_to (object_loop items obj []) (JObject (fold (\<lambda>(k, v). bt_insert k v) kvs obj))"
proof (induction items kvs arbitrary: obj rule: list_all2_induct)
  case (Cons kp items kw kvs)
  obtain k p w where kp: "kp = (k, p)" "kw = (k, w)" and p: "prepares_to p w"
    using Cons.hyps by (cases kp; cases kw) auto
  have rest: "yields (object_loop items (bt_insert k w obj) [] b)
      (\<lambda>(v, b'). ev_value v = Available (JObject (fold (\<lambda>(k, v). bt_insert k v) kvs (bt_insert k w obj)))
        \<and> ev_trace v = [] \<and> b' = b)" for b
    using Cons.IH [of "bt_insert k w obj"] by (simp add: prepares_to_def)
  show ?case
    unfolding prepares_to_def object_loop.simps kp
    by (intro allI, rule yields_bind [OF yields_charge(3)],
        rule yields_bind [OF p [unfolded prepares_to_def, rule_format]])
      (auto simp: trace_merge_def intro!: rest)
qed (simp add: prepares_to_def yields_done)

lemma those_list_all2: "those (map f xs) = Some ys \<Longrightarrow> list_all2 (\<lambda>x y. f x = Some y) xs ys"
  by (induction xs arbitrary: ys) (auto split: option.splits)

lemma prepare_template_json:
  "template_json t = Some j \<Longrightarrow> prepares_to (prepare_template L c t d) j"
proof (induction t arbitrary: j d)
  case (TplLiteral l)
  then show ?case
    by (auto simp: prepares_to_def intro!: yields_bind [OF yields_charge(1)]
        yields_bind [OF yields_charge(3)] yields_bind [OF yields_available])
next
  case (TplText parts)
  then obtain u where u: "literal_parts parts = Some u" "j = JString u" by auto
  have "yields (prepare_text L c b d parts) (\<lambda>v. ev_value v = Available j \<and> ev_trace v = [])" for b
    unfolding prepare_text_def
    by (rule yields_bind [OF yields_available], rule yields_mono [OF yields_text_loop [OF u(1)]])
      (simp add: u)
  then have "yields (ev_bind (prepare_text L c b d parts) (\<lambda>v. ev_return (v, b)))
      (\<lambda>(v, b'). ev_value v = Available j \<and> ev_trace v = [] \<and> b' = b)" for b
    by (rule yields_bind) simp
  then show ?case
    by (auto simp: prepares_to_def intro!: yields_bind [OF yields_charge(1)])
next
  case (TplSequence items)
  then obtain vs where vs: "list_all2 (\<lambda>t v. template_json t = Some v) items vs" "j = JArray vs"
    by (auto dest: those_list_all2)
  then have "list_all2 prepares_to (map (\<lambda>item. prepare_template L c item (d + 1)) items) vs"
    using TplSequence.IH by (auto simp: list_all2_conv_all_nth)
  from prepares_to_sequence [OF this, of "[]"] vs show ?case
    by (auto simp: prepares_to_def intro!: yields_bind [OF yields_charge(1)]
        yields_bind [OF yields_charge(2)] yields_bind [OF yields_charge(3)])
next
  case (TplObject items)
  then obtain vs where those: "those (map (\<lambda>(k, t). template_json t) items) = Some vs"
    and j: "j = JObject (fold (\<lambda>(k, v). bt_insert k v) (zip (map fst items) vs) [])"
    by auto
  have vs: "list_all2 (\<lambda>p v. template_json (snd p) = Some v) items vs"
    using those_list_all2 [OF those] by (simp add: split_beta)
  have len: "length vs = length items" using vs by (simp add: list_all2_lengthD)
  have "prepares_to (prepare_template L c (snd (items ! i)) (d + 1)) (vs ! i)"
    if "i < length items" for i
  proof (rule TplObject.IH)
    show "items ! i \<in> set items" using that by simp
    show "snd (items ! i) \<in> Basic_BNFs.snds (items ! i)" by (cases "items ! i") simp
    show "template_json (snd (items ! i)) = Some (vs ! i)"
      using vs that by (simp add: list_all2_conv_all_nth)
  qed
  then have "list_all2 (\<lambda>(k, p) (k', w). k' = k \<and> prepares_to p w)
      (map (\<lambda>(key, item). (key, prepare_template L c item (d + 1))) items) (zip (map fst items) vs)"
    using len by (auto simp: list_all2_conv_all_nth split_beta)
  from prepares_to_object [OF this, of "[]"] j show ?case
    by (auto simp: prepares_to_def intro!: yields_bind [OF yields_charge(1)]
        yields_bind [OF yields_charge(2)] yields_bind [OF yields_charge(3)])
qed auto

text \<open>
  A template without expressions prepares to exactly the JSON value it spells (text parts
  joined, the last of two entries with one key winning), at any depth and in any context; it
  reads no evidence, and the only other outcome is the limit error.
\<close>

lemma prepare_literal_template:
  assumes "template_json t = Some j"
  shows "case prepare_template L c t d b s of
           (Inr (v, b'), _) \<Rightarrow> ev_value v = Available j \<and> ev_trace v = [] \<and> b' = b
         | (Inl e, _) \<Rightarrow> error_code e = EvaluationLimitExceeded"
  using prepare_template_json [OF assms, of L c d]
  by (auto simp: prepares_to_def yields_def is_limit_error_def dest: returnsD failsD dest!: spec [of _ b]
      split: prod.splits sum.splits)

section \<open>Partial request history\<close>

abbreviation requests_path :: "path_segment list" where
  "requests_path \<equiv> [PathProperty ''session'', PathProperty ''requests'']"

definition history_complete :: "'n json \<Rightarrow> bool" where
  "history_complete context \<longleftrightarrow>
     json_pointer context [''session'', ''requests_complete''] = Some (JBool True)"

lemma membership_available_iff:
  "selected_membership_is_available t c \<longleftrightarrow> \<not> reads_requests_membership t \<or> history_complete c"
  by (auto simp: selected_membership_is_available_def history_complete_def split: option.splits)

lemma metadata_requests:
  "metadata_child (metadata_frozen [PathProperty ''session'']) (PathProperty ''requests'') =
     metadata_frozen requests_path"
  by (simp add: metadata_child_def metadata_frozen_def)

lemma returns_requests_path:
  assumes "bt_get b ''session'' = None"
  shows "returns (evaluate_expression_with_budget L (Path requests_path) c b d)
    (\<lambda>v. case ev_value v of Available (JArray _) \<Rightarrow> ev_metadata v = metadata_frozen requests_path | _ \<Rightarrow> True)"
proof -
  have "returns (select L (path_root c b ''session'') (PathProperty ''requests''))
      (\<lambda>r. case rv_value r of Some w \<Rightarrow> rv_metadata r = metadata_frozen requests_path \<or> \<not> json_is_array (cow_ref w) | None \<Rightarrow> True)"
    using assms
    by (auto simp: select_def path_root_def Let_def metadata_requests runtime_unavailable_def
        runtime_owned_def json_is_array_def json_lookup_def intro!: returns_bind_any
        split: option.splits json.splits)
  then have "returns (evaluate L c b (Path requests_path) d)
      (\<lambda>r. case rv_value r of Some w \<Rightarrow> rv_metadata r = metadata_frozen requests_path \<or> \<not> json_is_array (cow_ref w) | None \<Rightarrow> True)"
    by (auto simp: eval_path_def intro!: returns_bind_any [of _ _ "step _"]
        returns_bind [OF returns_bind_any [of _ _ "step _"]])
  then show ?thesis
    unfolding evaluate_expression_with_budget_def
    by (rule returns_bind)
      (auto simp: runtime_finish_def Let_def json_is_array_def
        intro!: returns_bind [OF returns_copy] split: option.splits cow.splits json.splits)
qed

text \<open>
  C32. A map over \<open>session.requests\<close> never prepares a value from partial history: unless the
  context says \<open>requests_complete\<close> is \<open>true\<close>, its preparation is unavailable or fails, whatever
  the alias, condition and body of the map and whatever requests are known.
\<close>

theorem map_requests_needs_history:
  assumes "\<not> history_complete c" "bt_get b ''session'' = None"
  shows "case prepare_template L c (TplMap (Path requests_path) k cond body) d b s of
           (Inr (v, b'), _) \<Rightarrow> ev_value v = Unavailable \<and> b' = b
         | (Inl e, _) \<Rightarrow> True"
proof -
  have reads: "\<not> selected_membership_is_available
      (metadata_membership_trace (metadata_frozen requests_path)) c"
    using assms(1)
    by (simp add: membership_available_iff reads_requests_membership_def
        metadata_membership_trace_def metadata_frozen_def trace_merge_def trace_add_def)
  have "returns (prepare_template L c (TplMap (Path requests_path) k cond body) d b)
      (\<lambda>(v, b'). ev_value v = Unavailable \<and> b' = b)"
    unfolding prepare_template.simps
    by (rule returns_bind_any, rule returns_bind [OF returns_requests_path [OF assms(2)]])
      (auto simp: Let_def reads intro!: returns_bind_any [of _ _ "reserve_generated_bytes _"]
        returns_bind [OF returns_with_trace] split: evaluation_value.splits json.splits)
  then show ?thesis
    by (auto dest: returnsD split: prod.splits sum.splits)
qed

theorem map_requests_needs_history_witness:
  "case prepare_template nat_lib
          (JObject [(''session'', JObject [(''requests'', JArray [JNull])])])
          (TplMap (Path requests_path) ''r'' None (TplLiteral InputNull)) 1 []
          (start_state default_budget) of
     (Inr (v, b'), _) \<Rightarrow> ev_value v = Unavailable \<and> b' = []
   | (Inl e, _) \<Rightarrow> True"
  by (rule map_requests_needs_history)
    (simp_all add: history_complete_def json_get_def bt_get_def)

end
