(* ===== verification/Decision.thy ===== *)
theory Decision
  imports Check_Types "HOL-Library.Product_Lexorder" "HOL-Library.Word"
begin

text \<open>
  \<open>decision.rs\<close>: the declarations of decision blocks and questions, the requirements that
  a check puts on their answers, and the identity of a decision attempt. A contract error is
  its message.
\<close>

section \<open>The code\<close>

definition MAX_QUESTIONS_PER_DECISION :: nat where
  "MAX_QUESTIONS_PER_DECISION = 8"

datatype question_kind = KindChoice | KindScore | KindNoul

record question_requirements =
  req_decision :: string
  req_question :: string
  req_kind :: question_kind
  req_criteria_count :: nat
  req_probabilities :: bool
  req_confidence :: bool

record decision_attempt =
  attempt_decision :: string
  attempt_number :: nat

definition is_identifier :: "string \<Rightarrow> bool" where
  "is_identifier v =
     (case v of
        [] \<Rightarrow> False
      | c # rest \<Rightarrow>
          is_ascii_lowercase c
          \<and> list_all (\<lambda>c. is_ascii_lowercase c \<or> is_ascii_digit c \<or> c = CHR ''_'') rest)"

definition is_fixed_text :: "string \<Rightarrow> bool" where
  "is_fixed_text v \<longleftrightarrow> \<not> is_blank v \<and> \<not> contains_str v ''${{''"

fun question_kind_of :: "question \<Rightarrow> question_kind" where
  "question_kind_of (Choice _ _) = KindChoice"
| "question_kind_of (Score _ _) = KindScore"
| "question_kind_of (Noul _) = KindNoul"

fun criteria_count :: "question \<Rightarrow> nat" where
  "criteria_count (Choice _ criteria) = length criteria"
| "criteria_count (Score _ criteria) = length criteria"
| "criteria_count (Noul _) = 0"

text \<open>The closure of \<open>any\<close> over choice criteria, with the set of labels it fills.\<close>

fun any_bad_label :: "string set \<Rightarrow> (string \<times> string) list \<Rightarrow> bool" where
  "any_bad_label labels [] = False"
| "any_bad_label labels ((label, description) # criteria) =
     (if \<not> is_identifier label \<or> \<not> is_fixed_text description \<or> label \<in> labels then True
      else any_bad_label (insert label labels) criteria)"

definition question_validate :: "question \<Rightarrow> (string, unit) res" where
  "question_validate q =
     res_bind
       (case q of
          Choice text criteria \<Rightarrow>
            if length criteria < 2 \<or> any_bad_label {} criteria
            then Inl ''Choice requires at least two unique labels with fixed descriptions.''
            else Inr text
        | Score text criteria \<Rightarrow>
            if length criteria < 2 \<or> list_ex (\<lambda>t. \<not> is_fixed_text t) criteria
            then Inl ''Score requires at least two fixed criterion descriptions.''
            else Inr text
        | Noul text \<Rightarrow> Inr text)
       (\<lambda>text. if \<not> is_fixed_text text then Inl ''Question text must be nonblank and fixed.''
               else Inr ())"

fun validate_outputs :: "string set \<Rightarrow> named_question list \<Rightarrow> (string, unit) res" where
  "validate_outputs names [] = Inr ()"
| "validate_outputs names (q # qs) =
     (if \<not> is_identifier (q_name q) \<or> q_name q \<in> names
      then Inl ''Question names must be valid and unique.''
      else res_bind (question_validate (q_question q)) (\<lambda>_.
             validate_outputs (insert (q_name q) names) qs))"

definition block_validate :: "('n, 'f) decision_block \<Rightarrow> (string, unit) res" where
  "block_validate b =
     (if \<not> is_identifier (block_name b) then Inl ''Decision name must be a valid identifier.''
      else if block_outputs b = [] \<or> MAX_QUESTIONS_PER_DECISION < length (block_outputs b)
      then Inl ''Each decision requires one to eight questions.''
      else validate_outputs {} (block_outputs b))"

definition validate_for_question ::
  "question_requirements \<Rightarrow> string \<Rightarrow> named_question \<Rightarrow> (string, unit) res" where
  "validate_for_question r decision q =
     res_bind (question_validate (q_question q)) (\<lambda>_.
       if \<not> is_identifier decision \<or> \<not> is_identifier (q_name q) \<or> req_decision r \<noteq> decision
          \<or> req_question r \<noteq> q_name q \<or> req_kind r \<noteq> question_kind_of (q_question q)
          \<or> req_criteria_count r \<noteq> criteria_count (q_question q)
       then Inl ''Question requirements do not match the declaration.''
       else if req_kind r = KindNoul \<and> (req_probabilities r \<or> req_confidence r)
       then Inl ''Noul has no probability distribution or confidence detail.''
       else Inr ())"

definition requirements_new ::
  "string \<Rightarrow> named_question \<Rightarrow> bool \<Rightarrow> bool \<Rightarrow> (string, question_requirements) res" where
  "requirements_new decision q probabilities confidence =
     (let r = \<lparr>req_decision = decision, req_question = q_name q,
               req_kind = question_kind_of (q_question q),
               req_criteria_count = criteria_count (q_question q),
               req_probabilities = probabilities, req_confidence = confidence\<rparr>
      in res_bind (validate_for_question r decision q) (\<lambda>_. Inr r))"

fun declarations_loop :: "string set \<Rightarrow> ('n, 'f) decision_block list \<Rightarrow> (string, unit) res" where
  "declarations_loop names [] = Inr ()"
| "declarations_loop names (b # bs) =
     res_bind (block_validate b) (\<lambda>_.
       if block_name b \<in> names then Inl ''Decision names must be unique.''
       else declarations_loop (insert (block_name b) names) bs)"

definition validate_declarations :: "('n, 'f) decision_block list \<Rightarrow> (string, unit) res" where
  "validate_declarations declarations = declarations_loop {} declarations"

text \<open>The map from block and question names to questions that \<open>collect\<close> builds.\<close>

definition declared_questions ::
  "('n, 'f) decision_block list \<Rightarrow> ((string \<times> string) \<times> named_question) list" where
  "declared_questions declarations =
     concat (map (\<lambda>b. map (\<lambda>q. ((block_name b, q_name q), q)) (block_outputs b)) declarations)"

fun requirements_loop ::
  "(string \<times> string, named_question) bt \<Rightarrow> (string \<times> string) set \<Rightarrow> question_requirements list
     \<Rightarrow> (string, unit) res" where
  "requirements_loop expected names [] = Inr ()"
| "requirements_loop expected names (r # rs) =
     (if (req_decision r, req_question r) \<in> names then Inl ''Question requirements must be unique.''
      else
        (case bt_get expected (req_decision r, req_question r) of
           None \<Rightarrow> Inl ''Requirements contain an undeclared question.''
         | Some q \<Rightarrow>
             res_bind (validate_for_question r (req_decision r) q) (\<lambda>_.
               requirements_loop expected (insert (req_decision r, req_question r) names) rs)))"

definition validate_requirements ::
  "('n, 'f) decision_block list \<Rightarrow> question_requirements list \<Rightarrow> (string, unit) res" where
  "validate_requirements declarations requirements =
     res_bind (validate_declarations declarations) (\<lambda>_.
       (let expected = bt_collect (declared_questions declarations) in
        if length expected \<noteq> length requirements
        then Inl ''Requirements must match the exact declared question set.''
        else requirements_loop expected {} requirements))"

definition attempt_validate :: "decision_attempt \<Rightarrow> (string, unit) res" where
  "attempt_validate a =
     (if \<not> is_identifier (attempt_decision a) \<or> \<not> (1 \<le> attempt_number a \<and> attempt_number a \<le> 2)
      then Inl ''A decision attempt requires a valid name and number one or two.''
      else Inr ())"

definition attempt_new :: "string \<Rightarrow> nat \<Rightarrow> (string, decision_attempt) res" where
  "attempt_new decision number =
     (let a = \<lparr>attempt_decision = decision, attempt_number = number\<rparr>
      in res_bind (attempt_validate a) (\<lambda>_. Inr a))"

definition hex_digit :: "nat \<Rightarrow> char" where
  "hex_digit n = (if n < 10 then char_of (48 + n) else char_of (87 + n))"

definition hex_byte :: "8 word \<Rightarrow> string" where
  "hex_byte b = [hex_digit (unat b div 16), hex_digit (unat b mod 16)]"

definition attempt_id :: "8 word list \<Rightarrow> decision_attempt \<Rightarrow> string" where
  "attempt_id candidate a =
     ''burn-check-decision-v1:32:'' @ concat (map hex_byte candidate) @ '':''
     @ show_nat (length (attempt_decision a)) @ '':'' @ attempt_decision a @ '':1:''
     @ show_nat (attempt_number a)"

section \<open>What the validators accept\<close>

definition question_ok :: "question \<Rightarrow> bool" where
  "question_ok q \<longleftrightarrow>
     (case q of
        Choice text criteria \<Rightarrow>
          2 \<le> length criteria \<and> distinct (map fst criteria)
          \<and> list_all (\<lambda>(label, description). is_identifier label \<and> is_fixed_text description) criteria
          \<and> is_fixed_text text
      | Score text criteria \<Rightarrow>
          2 \<le> length criteria \<and> list_all is_fixed_text criteria \<and> is_fixed_text text
      | Noul text \<Rightarrow> is_fixed_text text)"

definition block_ok :: "('n, 'f) decision_block \<Rightarrow> bool" where
  "block_ok b \<longleftrightarrow>
     is_identifier (block_name b) \<and> 1 \<le> length (block_outputs b) \<and> length (block_outputs b) \<le> 8
     \<and> distinct (map q_name (block_outputs b))
     \<and> list_all (\<lambda>q. is_identifier (q_name q) \<and> question_ok (q_question q)) (block_outputs b)"

text \<open>The requirements fit a declared question.\<close>

definition requirement_fits :: "question_requirements \<Rightarrow> string \<Rightarrow> named_question \<Rightarrow> bool" where
  "requirement_fits r decision q \<longleftrightarrow>
     req_decision r = decision \<and> req_question r = q_name q
     \<and> req_kind r = question_kind_of (q_question q)
     \<and> req_criteria_count r = criteria_count (q_question q)
     \<and> (req_kind r = KindNoul \<longrightarrow> \<not> req_probabilities r \<and> \<not> req_confidence r)"

lemma any_bad_label_iff:
  "any_bad_label seen criteria \<longleftrightarrow>
     \<not> (distinct (map fst criteria) \<and> set (map fst criteria) \<inter> seen = {}
        \<and> list_all (\<lambda>(label, description). is_identifier label \<and> is_fixed_text description) criteria)"
  by (induction seen criteria rule: any_bad_label.induct) auto

lemma question_validate_iff: "question_validate q = Inr () \<longleftrightarrow> question_ok q"
  by (cases q) (auto simp: question_validate_def question_ok_def any_bad_label_iff list_ex_iff list_all_iff)

lemma validate_outputs_iff:
  "validate_outputs seen qs = Inr () \<longleftrightarrow>
     distinct (map q_name qs) \<and> set (map q_name qs) \<inter> seen = {}
     \<and> list_all (\<lambda>q. is_identifier (q_name q) \<and> question_ok (q_question q)) qs"
  by (induction seen qs rule: validate_outputs.induct) (auto simp: question_validate_iff)

lemma block_validate_iff: "block_validate b = Inr () \<longleftrightarrow> block_ok b"
  by (auto simp: block_validate_def block_ok_def validate_outputs_iff MAX_QUESTIONS_PER_DECISION_def
      Suc_le_eq)

lemma validate_for_question_iff:
  "validate_for_question r decision q = Inr () \<longleftrightarrow>
     question_ok (q_question q) \<and> is_identifier decision \<and> is_identifier (q_name q)
     \<and> requirement_fits r decision q"
  by (auto simp: validate_for_question_def requirement_fits_def question_validate_iff)

lemma declarations_loop_iff:
  "declarations_loop seen bs = Inr () \<longleftrightarrow>
     list_all block_ok bs \<and> distinct (map block_name bs) \<and> set (map block_name bs) \<inter> seen = {}"
  by (induction seen bs rule: declarations_loop.induct) (auto simp: block_validate_iff)

lemma validate_declarations_iff:
  "validate_declarations bs = Inr () \<longleftrightarrow> list_all block_ok bs \<and> distinct (map block_name bs)"
  by (simp add: validate_declarations_def declarations_loop_iff)

section \<open>Requirements cover the declared questions\<close>

abbreviation req_key :: "question_requirements \<Rightarrow> string \<times> string" where
  "req_key r \<equiv> (req_decision r, req_question r)"

lemma requirements_loop_iff:
  "requirements_loop expected seen rs = Inr () \<longleftrightarrow>
     distinct (map req_key rs) \<and> set (map req_key rs) \<inter> seen = {}
     \<and> list_all (\<lambda>r. \<exists>q. bt_get expected (req_key r) = Some q
          \<and> validate_for_question r (req_decision r) q = Inr ()) rs"
  by (induction expected seen rs rule: requirements_loop.induct) (auto split: option.splits)

lemma declared_questions_iff:
  "((d, n), q) \<in> set (declared_questions bs) \<longleftrightarrow>
     (\<exists>b \<in> set bs. block_name b = d \<and> q \<in> set (block_outputs b) \<and> q_name q = n)"
  by (auto simp: declared_questions_def)

lemma declared_keys: "b \<in> set bs \<Longrightarrow> q \<in> set (block_outputs b) \<Longrightarrow>
    (block_name b, q_name q) \<in> fst ` set (declared_questions bs)"
  by (force simp: declared_questions_def)

lemma distinct_declared:
  assumes "list_all block_ok bs" "distinct (map block_name bs)"
  shows "distinct (map fst (declared_questions bs))"
  using assms
proof (induction bs)
  case (Cons b bs)
  have "distinct (map (\<lambda>q. (block_name b, q_name q)) (block_outputs b))"
    using Cons.prems by (auto simp: block_ok_def distinct_map inj_on_def)
  moreover have "fst k \<noteq> block_name b" if "k \<in> fst ` set (declared_questions bs)" for k
    using Cons.prems that by (force simp: declared_questions_def)
  ultimately show ?case
    using Cons by (fastforce simp: declared_questions_def comp_def)
qed (simp add: declared_questions_def)

lemma distinct_covers:
  assumes "distinct xs" "set xs \<subseteq> A" "finite A"
  shows "set xs = A \<longleftrightarrow> card A = length xs"
  using distinct_card [OF assms(1)] card_subset_eq [OF assms(3,2)] by auto

lemma requirement_declared_iff:
  "(\<exists>q. (req_key r, q) \<in> set (declared_questions bs) \<and> requirement_fits r (req_decision r) q)
      \<longleftrightarrow> list_ex (\<lambda>b. list_ex (requirement_fits r (block_name b)) (block_outputs b)) bs"
proof
  assume "\<exists>q. (req_key r, q) \<in> set (declared_questions bs) \<and> requirement_fits r (req_decision r) q"
  then obtain b q where "b \<in> set bs" "q \<in> set (block_outputs b)" "requirement_fits r (block_name b) q"
    by (auto simp: declared_questions_iff)
  then show "list_ex (\<lambda>b. list_ex (requirement_fits r (block_name b)) (block_outputs b)) bs"
    unfolding list_ex_iff by blast
next
  assume "list_ex (\<lambda>b. list_ex (requirement_fits r (block_name b)) (block_outputs b)) bs"
  then obtain b q where bq: "b \<in> set bs" "q \<in> set (block_outputs b)"
    and fit: "requirement_fits r (block_name b) q"
    unfolding list_ex_iff by blast
  have "req_decision r = block_name b" "req_question r = q_name q"
    using fit by (simp_all add: requirement_fits_def)
  with bq fit show "\<exists>q. (req_key r, q) \<in> set (declared_questions bs) \<and> requirement_fits r (req_decision r) q"
    by (auto simp: declared_questions_iff)
qed

text \<open>
  \<open>validate_requirements\<close> accepts exactly the complete requirement sets: the declarations
  are valid with unique names, and the requirements name every declared question once and
  nothing else, each with the kind and the criteria count of its question and without
  details that a Noul question does not have.
\<close>

lemma validate_requirements_exact:
  "validate_requirements bs rs = Inr () \<longleftrightarrow>
     list_all block_ok bs \<and> distinct (map block_name bs) \<and> distinct (map req_key rs)
     \<and> set (map req_key rs) = {(block_name b, q_name q) | b q. b \<in> set bs \<and> q \<in> set (block_outputs b)}
     \<and> list_all (\<lambda>r. list_ex (\<lambda>b. list_ex (requirement_fits r (block_name b)) (block_outputs b)) bs) rs"
    (is "?accepts \<longleftrightarrow> ?valid \<and> ?names \<and> ?distinct \<and> ?covers \<and> ?fits")
proof (cases "?valid \<and> ?names")
  case False
  then show ?thesis
    using validate_declarations_iff [of bs]
    by (cases "validate_declarations bs") (auto simp: validate_requirements_def)
next
  case True
  let ?keys = "fst ` set (declared_questions bs)"
  have keys: "?keys = {(block_name b, q_name q) | b q. b \<in> set bs \<and> q \<in> set (block_outputs b)}"
    by (force simp: declared_questions_def)
  have get: "bt_get (bt_collect (declared_questions bs)) k = Some q \<longleftrightarrow> (k, q) \<in> set (declared_questions bs)" for k q
    using map_of_eq_Some_iff [of "rev (declared_questions bs)" k q] distinct_declared [of bs] True
    by (simp add: bt_get_collect rev_map [symmetric])
  have ok: "(req_key r, q) \<in> set (declared_questions bs) \<and> validate_for_question r (req_decision r) q = Inr ()
      \<longleftrightarrow> (req_key r, q) \<in> set (declared_questions bs) \<and> requirement_fits r (req_decision r) q" for r q
    using True
    by (auto simp: validate_for_question_iff declared_questions_iff list_all_iff block_ok_def)
  have loop: "?accepts \<longleftrightarrow> card ?keys = length rs \<and> ?distinct
      \<and> list_all (\<lambda>r. \<exists>q. (req_key r, q) \<in> set (declared_questions bs)
            \<and> requirement_fits r (req_decision r) q) rs"
    using True
    by (auto simp: ok validate_requirements_def validate_declarations_iff [THEN iffD2]
        length_bt_collect requirements_loop_iff get list_all_iff)
  have "?covers \<longleftrightarrow> card ?keys = length rs" if "?distinct" "?fits"
  proof -
    have "set (map req_key rs) \<subseteq> ?keys"
      using that(2) requirement_declared_iff [of _ bs] by (force simp: list_all_iff)
    then show ?thesis unfolding keys [symmetric] using distinct_covers [OF that(1)] by simp
  qed
  then show ?thesis unfolding loop requirement_declared_iff using True by auto
qed

section \<open>Attempt identities\<close>

lemma hex_digit_inject: "m < 16 \<Longrightarrow> n < 16 \<Longrightarrow> hex_digit m = hex_digit n \<longleftrightarrow> m = n"
  by (auto simp: hex_digit_def split: if_splits)

lemma hex_byte_inject: "hex_byte a = hex_byte b \<longleftrightarrow> a = b"
proof
  assume same: "hex_byte a = hex_byte b"
  have small: "unat (x :: 8 word) div 16 < 16" for x
    using unsigned_less [of x, where 'a = nat] by simp
  from same have "unat a div 16 = unat b div 16" "unat a mod 16 = unat b mod 16"
    by (auto simp: hex_byte_def hex_digit_inject small)
  then have "unat a = unat b" by (metis div_mult_mod_eq)
  then show "a = b" by (simp add: word_unat_eq_iff)
qed simp

lemma concat_fixed_inject:
  assumes "\<And>x. length (f x) = n" "\<And>x y. f x = f y \<Longrightarrow> x = y"
  shows "length xs = length ys \<Longrightarrow> concat (map f xs) = concat (map f ys) \<Longrightarrow> xs = ys"
  by (induction xs ys rule: list_induct2) (use assms in auto)

lemma digits_stop:
  assumes "list_all is_ascii_digit s" "list_all is_ascii_digit t"
    and "s @ CHR '':'' # u = t @ CHR '':'' # v"
  shows "s = t \<and> u = v"
proof -
  have stop: "takeWhile is_ascii_digit (w @ CHR '':'' # x) = w" if "list_all is_ascii_digit w" for w x
    using that by (subst takeWhile_append2) (auto simp: list_all_iff is_ascii_digit_def)
  from arg_cong [OF assms(3), of "takeWhile is_ascii_digit"] have "s = t"
    using stop [OF assms(1)] stop [OF assms(2)] by simp
  with assms(3) show ?thesis by simp
qed

text \<open>
  Attempt identities are unique: two attempts of 32-byte candidates have the same
  identity only if candidate, decision name and attempt number agree; no choice of names
  makes two identities collide.
\<close>

lemma attempt_id_unique:
  assumes "length c = 32" "length c' = 32"
  shows "attempt_id c a = attempt_id c' a' \<longleftrightarrow> c = c' \<and> a = a'"
proof
  let ?hex = "\<lambda>c. concat (map hex_byte c)"
  let ?rest = "\<lambda>a. show_nat (length (attempt_decision a)) @ CHR '':'' # (attempt_decision a @ '':1:''
      @ show_nat (attempt_number a))"
  assume "attempt_id c a = attempt_id c' a'"
  then have "?hex c @ CHR '':'' # ?rest a = ?hex c' @ CHR '':'' # ?rest a'"
    by (simp add: attempt_id_def)
  moreover have len: "length (?hex c) = 2 * length c" for c
    by (induction c) (simp_all add: hex_byte_def)
  ultimately have hex: "?hex c = ?hex c'" and rest: "?rest a = ?rest a'"
    using assms by (simp_all add: append_eq_append_conv)
  have "c = c'"
    by (rule concat_fixed_inject [where f = hex_byte and n = 2])
      (use hex assms hex_byte_inject in \<open>auto simp: hex_byte_def\<close>)
  moreover have "length (attempt_decision a) = length (attempt_decision a')"
    and "attempt_decision a @ '':1:'' @ show_nat (attempt_number a) =
         attempt_decision a' @ '':1:'' @ show_nat (attempt_number a')"
    using digits_stop [OF show_nat_digits show_nat_digits rest] by auto
  ultimately show "c = c' \<and> a = a'" by (simp add: append_eq_append_conv)
qed auto

end
