(* ===== verification/Float64.thy ===== *)
theory Float64
  imports Complex_Main Prelude
begin

text \<open>
  The part of \<open>f64\<close> that the crate computes with: finiteness, comparison and addition with
  round to nearest, ties to even. A finite number is a sign, a significand and a binary
  exponent; \<open>f64_ok\<close> says that a double holds it. The order and the sum are computed on
  integers, so closed instances evaluate.
\<close>

section \<open>Numbers\<close>

datatype f64 =
    NaN
  | Infinite bool
  | Finite (f64_negative: bool) (significand: nat) (exponent: int)

fun f64_ok :: "f64 \<Rightarrow> bool" where
  "f64_ok (Finite s m e) = (m < 2 ^ 53 \<and> -1074 \<le> e \<and> e \<le> 971)"
| "f64_ok _ = True"

fun is_finite :: "f64 \<Rightarrow> bool" where
  "is_finite (Finite _ _ _) = True"
| "is_finite _ = False"

definition signed :: "bool \<Rightarrow> nat \<Rightarrow> int" where
  "signed s m = (if s then - int m else int m)"

text \<open>The number that a finite double denotes.\<close>

definition f64_real :: "f64 \<Rightarrow> real" where
  "f64_real x =
     (case x of Finite s m e \<Rightarrow> of_int (signed s m) * 2 powi e | _ \<Rightarrow> 0)"

section \<open>Order\<close>

text \<open>Two significands at the smaller of their exponents.\<close>

definition align :: "f64 \<Rightarrow> f64 \<Rightarrow> (int \<times> int \<times> int) option" where
  "align x y =
     (case (x, y) of
        (Finite s m e, Finite t n f) \<Rightarrow>
          (let g = min e f
           in Some (signed s m * 2 ^ nat (e - g), signed t n * 2 ^ nat (f - g), g))
      | _ \<Rightarrow> None)"

definition f64_le :: "f64 \<Rightarrow> f64 \<Rightarrow> bool" where
  "f64_le x y =
     (case (x, y) of
        (NaN, _) \<Rightarrow> False
      | (_, NaN) \<Rightarrow> False
      | (Infinite s, Infinite t) \<Rightarrow> s \<or> \<not> t
      | (Infinite s, Finite _ _ _) \<Rightarrow> s
      | (Finite _ _ _, Infinite t) \<Rightarrow> \<not> t
      | (Finite _ _ _, Finite _ _ _) \<Rightarrow>
          (case align x y of Some (i, j, _) \<Rightarrow> i \<le> j | None \<Rightarrow> False))"

definition f64_lt :: "f64 \<Rightarrow> f64 \<Rightarrow> bool" where
  "f64_lt x y \<longleftrightarrow> x \<noteq> NaN \<and> y \<noteq> NaN \<and> \<not> f64_le y x"

section \<open>Addition\<close>

fun bit_length :: "nat \<Rightarrow> nat" where
  "bit_length n = (if n = 0 then 0 else Suc (bit_length (n div 2)))"

declare bit_length.simps [simp del]

text \<open>Nearest 53-bit significand of \<open>n \<sqdot> 2\<^sup>e\<close>, ties to even; overflow gives an infinity.\<close>

definition f64_round :: "bool \<Rightarrow> nat \<Rightarrow> int \<Rightarrow> f64" where
  "f64_round s n e =
     (let k = bit_length n - 53;
          q = n div 2 ^ k; r = n mod 2 ^ k;
          up = 2 ^ k < 2 * r \<or> 2 ^ k = 2 * r \<and> odd q;
          q' = (if up then q + 1 else q);
          (m, f) = (if q' = 2 ^ 53 then (2 ^ 52, e + int k + 1) else (q', e + int k))
      in if 971 < f then Infinite s else Finite s m f)"

definition f64_add :: "f64 \<Rightarrow> f64 \<Rightarrow> f64" where
  "f64_add x y =
     (case (x, y) of
        (NaN, _) \<Rightarrow> NaN
      | (_, NaN) \<Rightarrow> NaN
      | (Infinite s, Infinite t) \<Rightarrow> if s = t then Infinite s else NaN
      | (Infinite s, Finite _ _ _) \<Rightarrow> Infinite s
      | (Finite _ _ _, Infinite t) \<Rightarrow> Infinite t
      | (Finite s m e, Finite t n f) \<Rightarrow>
          (case align x y of
             None \<Rightarrow> NaN
           | Some (i, j, g) \<Rightarrow>
               if i + j = 0 then Finite (s \<and> t) 0 g else f64_round (i + j < 0) (nat \<bar>i + j\<bar>) g))"

fun f64_neg :: "f64 \<Rightarrow> f64" where
  "f64_neg NaN = NaN"
| "f64_neg (Infinite s) = Infinite (\<not> s)"
| "f64_neg (Finite s m e) = Finite (\<not> s) m e"

fun f64_abs :: "f64 \<Rightarrow> f64" where
  "f64_abs NaN = NaN"
| "f64_abs (Infinite s) = Infinite False"
| "f64_abs (Finite s m e) = Finite False m e"

definition f64_sub :: "f64 \<Rightarrow> f64 \<Rightarrow> f64" where
  "f64_sub x y = f64_add x (f64_neg y)"

definition f64_of_nat :: "nat \<Rightarrow> f64" where
  "f64_of_nat n = f64_round False n 0"

section \<open>Facts\<close>

lemma bit_length_bounds:
  assumes "0 < n"
  shows "2 ^ (bit_length n - 1) \<le> n" "n < 2 ^ bit_length n"
proof -
  have "2 ^ (bit_length n - 1) \<le> n \<and> n < 2 ^ bit_length n \<and> 0 < bit_length n"
    using assms
  proof (induction n rule: bit_length.induct)
    case (1 n)
    show ?case
    proof (cases "n div 2 = 0")
      case True
      with 1(2) have "n = 1" by auto
      then show ?thesis by (simp add: bit_length.simps)
    next
      case False
      let ?b = "bit_length (n div 2)"
      from 1 False have ih: "2 ^ (?b - 1) \<le> n div 2" "n div 2 < 2 ^ ?b" "0 < ?b" by auto
      have b: "bit_length n = Suc ?b" using 1(2) by (simp add: bit_length.simps [of n])
      have "(2 :: nat) ^ ?b = 2 * 2 ^ (?b - 1)" using ih(3) by (cases ?b) auto
      moreover have "2 * (n div 2) \<le> n" "n < 2 * (n div 2) + 2" by simp_all
      ultimately have "2 ^ ?b \<le> n" "n < 2 * 2 ^ ?b" using ih(1,2) by linarith+
      with b show ?thesis by simp
    qed
  qed
  then show "2 ^ (bit_length n - 1) \<le> n" "n < 2 ^ bit_length n" by auto
qed

text \<open>The rounded significand is within half a unit of its last place.\<close>

lemma round_half:
  fixes n k :: nat
  defines "q \<equiv> n div 2 ^ k" and "r \<equiv> n mod 2 ^ k"
  defines "q' \<equiv> (if 2 ^ k < 2 * r \<or> 2 ^ k = 2 * r \<and> odd q then q + 1 else q)"
  shows "2 * \<bar>int (q' * 2 ^ k) - int n\<bar> \<le> 2 ^ k"
proof -
  have n: "n = q * 2 ^ k + r" using div_mult_mod_eq [of n "2 ^ k"] by (simp add: q_def r_def)
  have r: "r < 2 ^ k" by (simp add: r_def)
  have ir: "int (2 ^ k) = 2 ^ k" by simp
  show ?thesis
  proof (cases "q' = q + 1")
    case True
    then have "int (2 ^ k) \<le> int (2 * r)" by (subst of_nat_le_iff) (auto simp: q'_def split: if_splits)
    moreover have "int (q' * 2 ^ k) - int n = int (2 ^ k) - int r"
      using True by (simp add: n algebra_simps)
    moreover have "int r < int (2 ^ k)" using r by (subst of_nat_less_iff)
    ultimately have "0 \<le> int (q' * 2 ^ k) - int n" "2 * (int (q' * 2 ^ k) - int n) \<le> int (2 ^ k)"
      by (simp_all only:) simp_all
    then show ?thesis by (simp add: abs_of_nonneg)
  next
    case False
    then have q: "q' = q" and low: "2 * r \<le> 2 ^ k" by (auto simp: q'_def split: if_splits)
    have "2 * \<bar>int (q' * 2 ^ k) - int n\<bar> = int (2 * r)" by (simp add: n q)
    also have "\<dots> \<le> int (2 ^ k)" using low by (subst of_nat_le_iff)
    finally show ?thesis by simp
  qed
qed

lemma powi_not_neg [simp]: "\<not> (2 :: real) powi e < 0"
  by (simp add: not_less)

lemma signed_simps [simp]: "signed False m = int m" "signed True m = - int m"
  by (simp_all add: signed_def)

lemma f64_real_Finite [simp]: "f64_real (Finite s m e) = of_int (signed s m) * 2 powi e"
  by (simp add: f64_real_def)

lemma powi_split: "g \<le> e \<Longrightarrow> (2 :: real) powi e = 2 ^ nat (e - g) * 2 powi g"
  by (metis add.commute diff_ge_0_iff_ge diff_add_cancel int_nat_eq power_int_add
      power_int_of_nat zero_neq_numeral)

lemma align_value:
  assumes "align x y = Some (i, j, g)"
  shows "f64_real x = of_int i * 2 powi g" "f64_real y = of_int j * 2 powi g"
  using assms
  by (auto simp: align_def Let_def powi_split [of "min _ _"] split: f64.splits prod.splits)

lemma align_finite: "is_finite x \<Longrightarrow> is_finite y \<Longrightarrow> align x y \<noteq> None"
  by (cases x; cases y) (auto simp: align_def Let_def)

text \<open>Comparison of finite doubles is comparison of the numbers they denote.\<close>

lemma f64_le_iff:
  assumes "is_finite x" "is_finite y"
  shows "f64_le x y \<longleftrightarrow> f64_real x \<le> f64_real y"
proof -
  obtain i j g where al: "align x y = Some (i, j, g)" using align_finite [OF assms] by auto
  have "f64_le x y \<longleftrightarrow> i \<le> j"
    using assms al by (cases x; cases y) (auto simp: f64_le_def)
  also have "\<dots> \<longleftrightarrow> f64_real x \<le> f64_real y"
    using align_value [OF al] by (simp add: mult_le_cancel_right)
  finally show ?thesis .
qed

lemma f64_lt_iff:
  "is_finite x \<Longrightarrow> is_finite y \<Longrightarrow> f64_lt x y \<longleftrightarrow> f64_real x < f64_real y"
  using f64_le_iff [of y x] by (cases x; cases y) (auto simp: f64_lt_def)

text \<open>Rounding keeps the sign and has a relative error of at most \<open>2\<^sup>-\<^sup>5\<^sup>3\<close>.\<close>

lemma round_unit:
  fixes n :: nat
  defines "k \<equiv> bit_length n - 53"
  shows "2 * \<bar>int m * 2 ^ k - int n\<bar> \<le> 2 ^ k \<Longrightarrow> k = 0 \<and> int m = int n \<or>
    \<bar>real m * 2 ^ k - real n\<bar> \<le> real n / 2 ^ 53"
proof -
  assume half: "2 * \<bar>int m * 2 ^ k - int n\<bar> \<le> 2 ^ k"
  show ?thesis
  proof (cases "k = 0")
    case True
    with half have "2 * \<bar>int m - int n\<bar> \<le> 1" by simp
    then have "int m = int n" by arith
    with True show ?thesis by simp
  next
    case False
    then have "0 < n" by (auto simp: k_def bit_length.simps [of 0] intro: gr0I)
    with False have "2 ^ (52 + k) \<le> n" using bit_length_bounds(1) [of n] by (simp add: k_def)
    then have "(2 :: real) ^ (52 + k) \<le> real n"
      by (metis of_nat_le_iff of_nat_numeral of_nat_power)
    then have "2 ^ k \<le> real n / 2 ^ 52" by (simp add: power_add field_simps)
    moreover have "2 * \<bar>real m * 2 ^ k - real n\<bar> \<le> 2 ^ k"
    proof -
      have "real_of_int (2 * \<bar>int m * 2 ^ k - int n\<bar>) \<le> real_of_int (2 ^ k)"
        using half by (simp only: of_int_le_iff)
      then show ?thesis by simp
    qed
    ultimately have "2 * \<bar>real m * 2 ^ k - real n\<bar> \<le> real n / 2 ^ 52" by linarith
    then show ?thesis by simp
  qed
qed

lemma f64_round_error:
  assumes "f64_round s n e = Finite t m f"
  shows "t = s" "\<bar>real m * 2 powi f - real n * 2 powi e\<bar> \<le> real n * 2 powi e / 2 ^ 53"
proof -
  let ?k = "bit_length n - 53"
  define q where "q = (if 2 ^ ?k < 2 * (n mod 2 ^ ?k)
      \<or> 2 ^ ?k = 2 * (n mod 2 ^ ?k) \<and> odd (n div 2 ^ ?k) then n div 2 ^ ?k + 1 else n div 2 ^ ?k)"
  have parts: "t = s" "(m, f) = (if q = 2 ^ 53 then (2 ^ 52, e + int ?k + 1) else (q, e + int ?k))"
    using assms unfolding f64_round_def q_def Let_def by (auto split: prod.splits if_splits)
  then have m: "real m * 2 powi f = real q * 2 ^ ?k * 2 powi e"
    by (auto simp: power_int_add power_int_1_right power_add split: if_splits)
  have "2 * \<bar>int q * 2 ^ ?k - int n\<bar> \<le> 2 ^ ?k"
    using round_half [where n = n and k = ?k] by (simp add: q_def)
  from round_unit [OF this] have "\<bar>real q * 2 ^ ?k - real n\<bar> \<le> real n / 2 ^ 53"
    by auto
  then have "\<bar>real q * 2 ^ ?k - real n\<bar> * 2 powi e \<le> real n / 2 ^ 53 * 2 powi e"
    by (rule mult_right_mono) simp
  then show "\<bar>real m * 2 powi f - real n * 2 powi e\<bar> \<le> real n * 2 powi e / 2 ^ 53"
    unfolding m left_diff_distrib [symmetric] abs_mult by simp
  show "t = s" by (rule parts)
qed

lemma abs_sign: "\<bar>M - \<bar>v\<bar>\<bar> \<le> c \<Longrightarrow> \<bar>(if v < 0 then - M else M) - v\<bar> \<le> (c :: real)"
  by auto

text \<open>A finite sum of doubles is the exact sum up to that relative error.\<close>

lemma f64_add_error:
  assumes "is_finite x" "is_finite y" "is_finite (f64_add x y)"
  shows "\<bar>f64_real (f64_add x y) - (f64_real x + f64_real y)\<bar> \<le> \<bar>f64_real x + f64_real y\<bar> / 2 ^ 53"
proof -
  obtain i j g where al: "align x y = Some (i, j, g)" using align_finite [OF assms(1,2)] by auto
  have sum: "f64_real x + f64_real y = of_int (i + j) * 2 powi g"
    using align_value [OF al] by (simp add: algebra_simps)
  show ?thesis
  proof (cases "i + j = 0")
    case True
    then have "f64_real (f64_add x y) = 0"
      using assms al by (cases x; cases y) (auto simp: f64_add_def signed_def)
    with True sum show ?thesis by simp
  next
    case False
    then have add: "f64_add x y = f64_round (i + j < 0) (nat \<bar>i + j\<bar>) g"
      using assms al by (cases x; cases y) (auto simp: f64_add_def)
    then obtain t m f where r: "f64_round (i + j < 0) (nat \<bar>i + j\<bar>) g = Finite t m f"
      using assms(3) by (cases "f64_round (i + j < 0) (nat \<bar>i + j\<bar>) g") auto
    let ?v = "of_int (i + j) * 2 powi g :: real"
    have mag: "real (nat \<bar>i + j\<bar>) * 2 powi g = \<bar>?v\<bar>" by (simp add: abs_mult)
    have sign: "i + j < 0 \<longleftrightarrow> ?v < 0"
      by (simp only: mult_less_0_iff) (simp add: not_less del: of_int_add)
    have "f64_real (Finite t m f) = (if ?v < 0 then - (real m * 2 powi f) else real m * 2 powi f)"
      using f64_round_error(1) [OF r] sign by (simp add: signed_def)
    with f64_round_error(2) [OF r] show ?thesis
      unfolding add r sum mag by (simp only:) (rule abs_sign)
  qed
qed

lemma f64_round_cases: "is_finite (f64_round s n e) \<or> (\<exists>t. f64_round s n e = Infinite t)"
  unfolding f64_round_def Let_def by (auto split: prod.split)

lemma f64_add_never_nan:
  assumes "is_finite x" "is_finite y"
  shows "is_finite (f64_add x y) \<or> (\<exists>t. f64_add x y = Infinite t)"
proof -
  obtain i j g where al: "align x y = Some (i, j, g)" using align_finite [OF assms] by auto
  obtain s m e t n f where "x = Finite s m e" "y = Finite t n f"
    using assms by (cases x; cases y) auto
  then have "f64_add x y = (if i + j = 0 then Finite (s \<and> t) 0 g else f64_round (i + j < 0) (nat \<bar>i + j\<bar>) g)"
    using al by (simp add: f64_add_def)
  then show ?thesis using f64_round_cases by auto
qed

lemma f64_add_infinite: "is_finite y \<Longrightarrow> f64_add (Infinite s) y = Infinite s"
  by (cases y) (auto simp: f64_add_def)

end
