(* ===== verification/Bounded_Json.thy ===== *)
theory Bounded_Json
  imports Json_Value Float64
begin

text \<open>
  \<open>bounded_json.rs\<close> and \<open>bounded_json/measure.rs\<close>: strict decoding of JSON and measuring of
  serialised values under limits on bytes, values and depth. What a Rust value hands to a
  \<open>Serializer\<close> is a \<open>serde_value\<close>, with one constructor per serialiser method (integers,
  characters and displayed text share theirs). What the crate calls of \<open>serde_json\<close> is a
  parameter: the document reader of \<open>json_lib\<close>, the chunks its writer produces, and the
  text of its errors.
\<close>

section \<open>The code\<close>

record json_limits =
  max_bytes :: nat
  max_nodes :: nat
  max_json_depth :: nat

record json_measurement =
  measured_bytes :: nat
  measured_nodes :: nat
  measured_depth :: nat

datatype bounded_json_error =
    BytesExceeded nat nat
  | NodesExceeded nat nat
  | DepthExceeded nat nat
  | DuplicateKey string
  | InvalidJson string
  | SerializationError string

fun bounded_error_text :: "bounded_json_error \<Rightarrow> string" where
  "bounded_error_text (BytesExceeded observed maximum) =
     ''JSON bytes '' @ show_nat observed @ '' exceed '' @ show_nat maximum @ ''.''"
| "bounded_error_text (NodesExceeded observed maximum) =
     ''JSON values '' @ show_nat observed @ '' exceed '' @ show_nat maximum @ ''.''"
| "bounded_error_text (DepthExceeded observed maximum) =
     ''JSON depth '' @ show_nat observed @ '' exceeds '' @ show_nat maximum @ ''.''"
| "bounded_error_text (DuplicateKey key) = ''Duplicate JSON key: '' @ key @ ''.''"
| "bounded_error_text (InvalidJson message) = message"
| "bounded_error_text (SerializationError message) = message"

record node_counter =
  nc_limits :: json_limits
  nc_nodes :: nat
  nc_depth :: nat

definition counter_new :: "json_limits \<Rightarrow> node_counter" where
  "counter_new lims = \<lparr>nc_limits = lims, nc_nodes = 0, nc_depth = 0\<rparr>"

definition charge :: "nat \<Rightarrow> (node_counter, bounded_json_error, unit) ev" where
  "charge depth c =
     (if max_json_depth (nc_limits c) < depth
      then (Inl (DepthExceeded depth (max_json_depth (nc_limits c))), c)
      else if max_nodes (nc_limits c) \<le> nc_nodes c
      then (Inl (NodesExceeded (usize_saturating_add (nc_nodes c) 1) (max_nodes (nc_limits c))), c)
      else (Inr (), c\<lparr>nc_nodes := nc_nodes c + 1, nc_depth := max (nc_depth c) depth\<rparr>))"

subsection \<open>Strict decoding\<close>

text \<open>
  A failing seed either records its error (\<open>Some\<close>) or leaves the error of the
  deserialiser (\<open>None\<close>).
\<close>

type_synonym 'a seeding = "(node_counter, bounded_json_error option, 'a) ev"

definition seed_charge :: "nat \<Rightarrow> unit seeding" where
  "seed_charge depth c =
     (case charge depth c of (Inl e, t) \<Rightarrow> (Inl (Some e), t) | (Inr u, t) \<Rightarrow> (Inr u, t))"

fun decode_seed :: "'n json_doc \<Rightarrow> nat \<Rightarrow> 'n json seeding" where
  "decode_seed doc depth =
     ev_bind (seed_charge depth) (\<lambda>_.
       case doc of
         DBad \<Rightarrow> ev_fail None
       | DNull \<Rightarrow> ev_return JNull
       | DBool b \<Rightarrow> ev_return (JBool b)
       | DNumber n \<Rightarrow> (case n of Some v \<Rightarrow> ev_return (JNumber v) | None \<Rightarrow> ev_fail None)
       | DString text \<Rightarrow> ev_return (JString text)
       | DSeq items ended \<Rightarrow>
           ev_bind (ev_fold (\<lambda>d vs. ev_bind (decode_seed d (depth + 1)) (\<lambda>v.
                      ev_return (vs @ [v]))) items []) (\<lambda>vs.
             if ended then ev_return (JArray vs) else ev_fail None)
       | DMap entries ended \<Rightarrow>
           ev_bind (ev_fold (\<lambda>(key, d) obj.
                      if bt_contains obj key then ev_fail (Some (DuplicateKey key))
                      else ev_bind (decode_seed d (depth + 1)) (\<lambda>v.
                             ev_return (bt_insert key v obj))) entries []) (\<lambda>obj.
             if ended then ev_return (JObject obj) else ev_fail None))"

declare decode_seed.simps [simp del]

text \<open>\<open>E\<close> gives the text of the deserialiser's error on a document.\<close>

definition decode_strict_json ::
  "'n json_lib \<Rightarrow> (string \<Rightarrow> string) \<Rightarrow> string \<Rightarrow> json_limits \<Rightarrow> (bounded_json_error, 'n json) res" where
  "decode_strict_json L E bytes lims =
     (if u64_max < length bytes then Inl (BytesExceeded u64_max (max_bytes lims))
      else if max_bytes lims < length bytes then Inl (BytesExceeded (length bytes) (max_bytes lims))
      else
        (case fst (decode_seed (fst (read_document L bytes)) 1 (counter_new lims)) of
           Inl (Some e) \<Rightarrow> Inl e
         | Inl None \<Rightarrow> Inl (InvalidJson (E bytes))
         | Inr v \<Rightarrow> if snd (read_document L bytes) then Inr v else Inl (InvalidJson (E bytes))))"

subsection \<open>Measuring\<close>

datatype 'n serde_value =
    SvBool bool
  | SvInteger 'n
  | SvFloat f64
  | SvStr string
  | SvBytes "nat list"
  | SvNone
  | SvSome "'n serde_value"
  | SvUnit
  | SvUnitStruct
  | SvUnitVariant string
  | SvNewtypeStruct "'n serde_value"
  | SvNewtypeVariant string "'n serde_value"
  | SvSeq "'n serde_value list"
  | SvTuple "'n serde_value list"
  | SvTupleStruct "'n serde_value list"
  | SvTupleVariant string "'n serde_value list"
  | SvMap "(string \<times> 'n serde_value) list"
  | SvStruct "(string \<times> 'n serde_value) list"
  | SvStructVariant string "(string \<times> 'n serde_value) list"

fun node_serialize :: "'n serde_value \<Rightarrow> nat \<Rightarrow> (node_counter, bounded_json_error, unit) ev" where
  "node_serialize (SvBool _) depth = charge depth"
| "node_serialize (SvInteger _) depth = charge depth"
| "node_serialize (SvFloat v) depth =
     (if \<not> is_finite v then ev_fail (SerializationError ''JSON numbers must be finite.'')
      else charge depth)"
| "node_serialize (SvStr _) depth = charge depth"
| "node_serialize (SvBytes bytes) depth =
     ev_bind (charge depth) (\<lambda>_. ev_fold (\<lambda>_ _. charge (depth + 1)) bytes ())"
| "node_serialize SvNone depth = charge depth"
| "node_serialize (SvSome v) depth = node_serialize v depth"
| "node_serialize SvUnit depth = charge depth"
| "node_serialize SvUnitStruct depth = charge depth"
| "node_serialize (SvUnitVariant _) depth = charge depth"
| "node_serialize (SvNewtypeStruct v) depth = node_serialize v depth"
| "node_serialize (SvNewtypeVariant _ v) depth =
     ev_bind (charge depth) (\<lambda>_. node_serialize v (depth + 1))"
| "node_serialize (SvSeq vs) depth =
     ev_bind (charge depth) (\<lambda>_. ev_fold (\<lambda>v _. node_serialize v (depth + 1)) vs ())"
| "node_serialize (SvTuple vs) depth =
     ev_bind (charge depth) (\<lambda>_. ev_fold (\<lambda>v _. node_serialize v (depth + 1)) vs ())"
| "node_serialize (SvTupleStruct vs) depth =
     ev_bind (charge depth) (\<lambda>_. ev_fold (\<lambda>v _. node_serialize v (depth + 1)) vs ())"
| "node_serialize (SvTupleVariant _ vs) depth =
     ev_bind (charge depth) (\<lambda>_. ev_bind (charge (depth + 1)) (\<lambda>_.
       ev_fold (\<lambda>v _. node_serialize v (depth + 2)) vs ()))"
| "node_serialize (SvMap entries) depth =
     ev_bind (charge depth) (\<lambda>_. ev_fold (\<lambda>(_, v) _. node_serialize v (depth + 1)) entries ())"
| "node_serialize (SvStruct entries) depth =
     ev_bind (charge depth) (\<lambda>_. ev_fold (\<lambda>(_, v) _. node_serialize v (depth + 1)) entries ())"
| "node_serialize (SvStructVariant _ entries) depth =
     ev_bind (charge depth) (\<lambda>_. ev_bind (charge (depth + 1)) (\<lambda>_.
       ev_fold (\<lambda>(_, v) _. node_serialize v (depth + 2)) entries ()))"

text \<open>
  \<open>ByteCounter\<close> under a writer that hands it \<open>chunks\<close>: the bytes seen, and whether the last
  write failed.
\<close>

fun count_chunks :: "nat \<Rightarrow> nat \<Rightarrow> string list \<Rightarrow> nat \<times> bool" where
  "count_chunks maximum observed [] = (observed, False)"
| "count_chunks maximum observed (chunk # chunks) =
     (let observed = u64_saturating_add observed (length chunk) in
      if maximum < observed then (observed, True) else count_chunks maximum observed chunks)"

text \<open>\<open>W\<close>: the chunks \<open>to_writer\<close> produces for a value, and its error if it stops early.\<close>

definition measure_json ::
  "('n serde_value \<Rightarrow> string list \<times> string option) \<Rightarrow> 'n serde_value \<Rightarrow> json_limits
     \<Rightarrow> (bounded_json_error, json_measurement) res" where
  "measure_json W v lims =
     (case node_serialize v 1 (counter_new lims) of
        (Inl e, _) \<Rightarrow> Inl e
      | (Inr _, counter) \<Rightarrow>
          (let (observed, failed) = count_chunks (max_bytes lims) 0 (fst (W v)) in
           if failed \<or> snd (W v) \<noteq> None
           then Inl (if max_bytes lims < observed
                     then BytesExceeded observed (max_bytes lims)
                     else SerializationError (case snd (W v) of Some m \<Rightarrow> m | None \<Rightarrow> []))
           else Inr \<lparr>measured_bytes = observed, measured_nodes = nc_nodes counter,
                     measured_depth = nc_depth counter\<rparr>))"

section \<open>Charging a tree of values\<close>

datatype shape = Shape "shape list"

fun shape_nodes :: "shape \<Rightarrow> nat" where
  "shape_nodes (Shape ts) = Suc (sum_list (map shape_nodes ts))"

fun shape_depth :: "shape \<Rightarrow> nat" where
  "shape_depth (Shape ts) = Suc (foldr max (map shape_depth ts) 0)"

fun charge_all :: "shape \<Rightarrow> nat \<Rightarrow> (node_counter, bounded_json_error, unit) ev" where
  "charge_all (Shape ts) depth =
     ev_bind (charge depth) (\<lambda>_. ev_fold (\<lambda>t _. charge_all t (depth + 1)) ts ())"

definition charged :: "nat \<Rightarrow> nat \<Rightarrow> node_counter \<Rightarrow> node_counter" where
  "charged n d c = c\<lparr>nc_nodes := nc_nodes c + n, nc_depth := max (nc_depth c) d\<rparr>"

definition has_room :: "nat \<Rightarrow> nat \<Rightarrow> node_counter \<Rightarrow> bool" where
  "has_room n d c \<longleftrightarrow> d \<le> max_json_depth (nc_limits c) \<and> nc_nodes c + n \<le> max_nodes (nc_limits c)"

text \<open>A counter that has just admitted a value at depth \<open>d\<close>.\<close>

definition admitted :: "nat \<Rightarrow> node_counter \<Rightarrow> bool" where
  "admitted d c \<longleftrightarrow> has_room 0 d c \<and> d \<le> nc_depth c"

lemma charge_iff: "charge d c = (Inr (), t) \<longleftrightarrow> has_room 1 d c \<and> t = charged 1 d c"
  by (auto simp: charge_def has_room_def charged_def)

lemma ev_bind_Inr_iff:
  "ev_bind m f c = (Inr y, t) \<longleftrightarrow> (\<exists>x u. m c = (Inr x, u) \<and> f x u = (Inr y, t))"
  by (auto simp: ev_bind_def split: prod.splits sum.splits)

lemma charged_limits [simp]: "nc_limits (charged n d c) = nc_limits c"
  by (simp add: charged_def)

lemma charged_charged [simp]: "charged n d (charged m e c) = charged (m + n) (max e d) c"
  by (simp add: charged_def)

lemma has_room_charged [simp]:
  "has_room n d (charged m e c) \<longleftrightarrow> has_room (m + n) d c"
  by (simp add: has_room_def charged_def add.assoc)

lemma has_room_max: "has_room n d c \<and> has_room (n + m) e c \<longleftrightarrow> has_room (n + m) (max d e) c"
  by (auto simp: has_room_def)

lemma charged_admitted: "admitted d c \<Longrightarrow> charged 0 d c = c"
  by (simp add: admitted_def charged_def max_absorb1)

lemma admitted_charged:
  "admitted d c \<Longrightarrow> has_room n e c \<Longrightarrow> admitted d (charged n e c)"
  by (auto simp: admitted_def charged_def has_room_def)

lemma charge_list:
  assumes "\<And>t c u. t \<in> set ts \<Longrightarrow> m t c = (Inr (), u) \<longleftrightarrow>
      has_room (shape_nodes t) (d + shape_depth t) c \<and> u = charged (shape_nodes t) (d + shape_depth t) c"
    and "admitted d c"
  shows "ev_fold (\<lambda>t _. m t) ts () c = (Inr (), u) \<longleftrightarrow>
      has_room (sum_list (map shape_nodes ts)) (d + foldr max (map shape_depth ts) 0) c
      \<and> u = charged (sum_list (map shape_nodes ts)) (d + foldr max (map shape_depth ts) 0) c"
  using assms
proof (induction ts arbitrary: c)
  case Nil
  then show ?case by (auto simp: charged_admitted admitted_def)
next
  case (Cons t ts)
  have rest: "ev_fold (\<lambda>t _. m t) ts () (charged n e c) = (Inr (), u) \<longleftrightarrow>
      has_room (n + sum_list (map shape_nodes ts)) (d + foldr max (map shape_depth ts) 0) c
      \<and> u = charged (n + sum_list (map shape_nodes ts)) (max e (d + foldr max (map shape_depth ts) 0)) c"
    if "has_room n e c" for n e
    using Cons.IH [of "charged n e c"] Cons.prems(1) admitted_charged [OF Cons.prems(2) that] by simp
  have head: "m t c = (Inr (), v) \<longleftrightarrow>
      has_room (shape_nodes t) (d + shape_depth t) c \<and> v = charged (shape_nodes t) (d + shape_depth t) c" for v
    using Cons.prems(1) by simp
  have "ev_fold (\<lambda>t _. m t) (t # ts) () c = (Inr (), u) \<longleftrightarrow>
      has_room (shape_nodes t) (d + shape_depth t) c
      \<and> ev_fold (\<lambda>t _. m t) ts () (charged (shape_nodes t) (d + shape_depth t) c) = (Inr (), u)"
    by (auto simp: ev_bind_Inr_iff head)
  then show ?case
    using rest by (auto simp: nat_add_max_right has_room_max [symmetric])
qed

lemma charge_all_iff:
  "charge_all t (Suc d) c = (Inr (), u) \<longleftrightarrow>
     has_room (shape_nodes t) (d + shape_depth t) c \<and> u = charged (shape_nodes t) (d + shape_depth t) c"
proof (induction t arbitrary: d c u)
  case (Shape ts)
  have list: "ev_fold (\<lambda>t _. charge_all t (Suc (Suc d))) ts () (charged 1 (Suc d) c) = (Inr (), u) \<longleftrightarrow>
      has_room (Suc (sum_list (map shape_nodes ts))) (Suc d + foldr max (map shape_depth ts) 0) c
      \<and> u = charged (Suc (sum_list (map shape_nodes ts))) (Suc d + foldr max (map shape_depth ts) 0) c"
    if room: "has_room 1 (Suc d) c"
  proof -
    have "admitted (Suc d) (charged 1 (Suc d) c)"
      using room by (simp add: admitted_def charged_def has_room_def)
    then show ?thesis
      using charge_list [where m = "\<lambda>t. charge_all t (Suc (Suc d))" and d = "Suc d" and ts = ts] Shape
      by (simp add: max_absorb2)
  qed
  show ?case
    using list by (auto simp: ev_bind_Inr_iff charge_iff has_room_def)
qed

section \<open>Decoding accepts exactly the bounded documents\<close>

fun doc_shape :: "'n json_doc \<Rightarrow> shape" where
  "doc_shape (DSeq items _) = Shape (map doc_shape items)"
| "doc_shape (DMap entries _) = Shape (map (\<lambda>(_, d). doc_shape d) entries)"
| "doc_shape _ = Shape []"

text \<open>The value of a document that is whole, finite and without duplicate keys.\<close>

fun doc_value :: "'n json_doc \<Rightarrow> 'n json option" where
  "doc_value DBad = None"
| "doc_value DNull = Some JNull"
| "doc_value (DBool b) = Some (JBool b)"
| "doc_value (DNumber n) = map_option JNumber n"
| "doc_value (DString s) = Some (JString s)"
| "doc_value (DSeq items ended) =
     (if ended then map_option JArray (those (map doc_value items)) else None)"
| "doc_value (DMap entries ended) =
     (if ended \<and> distinct (map fst entries)
      then map_option (\<lambda>vs. JObject (bt_collect (zip (map fst entries) vs)))
             (those (map (\<lambda>(_, d). doc_value d) entries))
      else None)"

lemma seed_charge_iff:
  "seed_charge d c = (Inr (), t) \<longleftrightarrow> charge d c = (Inr (), t)"
  by (auto simp: seed_charge_def split: prod.splits sum.splits)

fun fold_opt :: "('x \<Rightarrow> 'a \<Rightarrow> 'a option) \<Rightarrow> 'x list \<Rightarrow> 'a \<Rightarrow> 'a option" where
  "fold_opt f [] a = Some a"
| "fold_opt f (x # xs) a = Option.bind (f x a) (fold_opt f xs)"

text \<open>A loop that computes a value and charges one tree per element.\<close>

lemma decode_loop:
  assumes "\<And>x a c a' u. x \<in> set xs \<Longrightarrow>
      f x a c = (Inr a', u) \<longleftrightarrow> g x a = Some a' \<and> m (sh x) c = (Inr (), u)"
  shows "ev_fold f xs a c = (Inr a', u) \<longleftrightarrow>
      fold_opt g xs a = Some a' \<and> ev_fold (\<lambda>t _. m t) (map sh xs) () c = (Inr (), u)"
  using assms
proof (induction xs arbitrary: a c)
  case (Cons x xs)
  have "ev_fold f xs a c = (Inr a', u) \<longleftrightarrow>
      fold_opt g xs a = Some a' \<and> ev_fold (\<lambda>t _. m t) (map sh xs) () c = (Inr (), u)" for a c
    by (rule Cons.IH) (use Cons.prems in simp)
  then show ?case
    by (auto simp: ev_bind_Inr_iff Cons.prems bind_eq_Some_conv)
qed auto

lemma fold_opt_items:
  "fold_opt (\<lambda>d vs. map_option (\<lambda>v. vs @ [v]) (val d)) ds acc =
     map_option ((@) acc) (those (map val ds))"
  by (induction ds arbitrary: acc)
    (auto simp: comp_def option.map_comp intro!: option.map_cong0 split: option.splits)

lemma fold_opt_entries:
  "bt_ok obj \<Longrightarrow>
   fold_opt (\<lambda>(k, d) obj. if bt_contains obj k then None else map_option (\<lambda>v. bt_insert k v obj) (val d)) es obj =
     (if distinct (map fst es) \<and> fst ` set es \<inter> fst ` set obj = {}
      then map_option (\<lambda>vs. fold (\<lambda>(k, v). bt_insert k v) (zip (map fst es) vs) obj)
             (those (map (\<lambda>(k, d). val d) es))
      else None)"
proof (induction es arbitrary: obj)
  case (Cons e es)
  obtain k d where e: "e = (k, d)" by (cases e)
  have has: "bt_contains obj k \<longleftrightarrow> k \<in> fst ` set obj"
    by (simp add: bt_contains_def bt_keys)
  have keys: "fst ` set (bt_insert k v obj) = insert k (fst ` set obj)" for v
    using Cons.prems by (auto simp: set_bt_insert image_iff)
  show ?case
    using Cons.prems by (auto simp: e has keys Cons.IH bt_ok_insert option.map_comp comp_def split: option.splits)
qed (simp add: bt_contains_def)

lemma decode_seed_iff:
  "decode_seed doc d c = (Inr v, u) \<longleftrightarrow> doc_value doc = Some v \<and> charge_all (doc_shape doc) d c = (Inr (), u)"
proof (induction doc arbitrary: d c v u)
  case (DSeq items ended)
  have loop: "ev_fold (\<lambda>d' vs. ev_bind (decode_seed d' (d + 1)) (\<lambda>v. ev_return (vs @ [v]))) items [] c = (Inr vs, u) \<longleftrightarrow>
      those (map doc_value items) = Some vs
      \<and> ev_fold (\<lambda>t _. charge_all t (d + 1)) (map doc_shape items) () c = (Inr (), u)" for vs c u
    by (subst decode_loop [where g = "\<lambda>d vs. map_option (\<lambda>v. vs @ [v]) (doc_value d)" and sh = doc_shape
          and m = "\<lambda>t. charge_all t (d + 1)"])
      (auto simp: ev_bind_Inr_iff DSeq fold_opt_items)
  show ?case
    by (subst decode_seed.simps)
      (auto simp: ev_bind_Inr_iff seed_charge_iff loop [simplified])
next
  case (DMap entries ended)
  let ?f = "\<lambda>(k, d') obj. if bt_contains obj k then ev_fail (Some (DuplicateKey k))
       else ev_bind (decode_seed d' (d + 1)) (\<lambda>v. ev_return (bt_insert k v obj))"
  let ?g = "\<lambda>(k, d) obj. if bt_contains obj k then None
       else map_option (\<lambda>v. bt_insert k v obj) (doc_value d)"
  have body: "?f x a c = (Inr a', u) \<longleftrightarrow>
      ?g x a = Some a' \<and> charge_all ((\<lambda>(_, d). doc_shape d) x) (d + 1) c = (Inr (), u)"
    if "x \<in> set entries" for x a c a' u
    using DMap [of x "snd x"] that by (cases x) (auto simp: ev_bind_Inr_iff)
  have loop: "ev_fold ?f entries [] c = (Inr obj, u) \<longleftrightarrow>
      (distinct (map fst entries) \<and> (\<exists>vs. those (map (\<lambda>(_, d). doc_value d) entries) = Some vs
         \<and> obj = bt_collect (zip (map fst entries) vs)))
      \<and> ev_fold (\<lambda>t _. charge_all t (d + 1)) (map (\<lambda>(_, d). doc_shape d) entries) () c = (Inr (), u)" for obj c u
    by (subst decode_loop [where g = ?g and sh = "\<lambda>(_, d). doc_shape d" and m = "\<lambda>t. charge_all t (d + 1)", OF body])
      (auto simp: fold_opt_entries bt_collect_def)
  show ?case
    by (subst decode_seed.simps)
      (auto simp: ev_bind_Inr_iff seed_charge_iff loop [simplified])
qed (auto simp: decode_seed.simps ev_bind_Inr_iff seed_charge_iff split: option.splits)

lemma decode_accepts:
  "decode_strict_json L E bytes lims = Inr v \<longleftrightarrow>
     length bytes \<le> u64_max \<and> length bytes \<le> max_bytes lims \<and> snd (read_document L bytes)
     \<and> doc_value (fst (read_document L bytes)) = Some v
     \<and> shape_nodes (doc_shape (fst (read_document L bytes))) \<le> max_nodes lims
     \<and> shape_depth (doc_shape (fst (read_document L bytes))) \<le> max_json_depth lims"
proof -
  let ?doc = "fst (read_document L bytes)"
  have "fst (decode_seed ?doc 1 (counter_new lims)) = Inr v \<longleftrightarrow>
      (\<exists>u. decode_seed ?doc (Suc 0) (counter_new lims) = (Inr v, u))"
    by (cases "decode_seed ?doc 1 (counter_new lims)") auto
  also have "\<dots> \<longleftrightarrow> doc_value ?doc = Some v
      \<and> shape_nodes (doc_shape ?doc) \<le> max_nodes lims \<and> shape_depth (doc_shape ?doc) \<le> max_json_depth lims"
    by (auto simp: decode_seed_iff charge_all_iff has_room_def counter_new_def)
  finally show ?thesis
    by (auto simp: decode_strict_json_def split: sum.splits option.splits)
qed

text \<open>
  C17. Strict decoding accepts exactly the documents within its limits: a text of at most
  \<open>max_bytes\<close> bytes that is one whole JSON document without duplicate keys, with at most
  \<open>max_nodes\<close> values nested at most \<open>max_depth\<close> deep, and it returns the value of that document.
\<close>

theorem decode_strict_json_exact:
  "decode_strict_json L E bytes lims = Inr v \<longleftrightarrow>
     length bytes \<le> u64_max \<and> length bytes \<le> max_bytes lims \<and> snd (read_document L bytes)
     \<and> doc_value (fst (read_document L bytes)) = Some v
     \<and> shape_nodes (doc_shape (fst (read_document L bytes))) \<le> max_nodes lims
     \<and> shape_depth (doc_shape (fst (read_document L bytes))) \<le> max_json_depth lims"
  by (rule decode_accepts)

section \<open>Measuring counts the written document\<close>

text \<open>
  The document \<open>serde_json\<close> writes for a value: options and newtypes disappear, a unit is
  \<open>null\<close>, a unit variant its name, every other variant an object with its name as key.
\<close>

fun ser_doc :: "(f64 \<Rightarrow> 'n) \<Rightarrow> (nat \<Rightarrow> 'n) \<Rightarrow> 'n serde_value \<Rightarrow> 'n json_doc" where
  "ser_doc N I (SvBool b) = DBool b"
| "ser_doc N I (SvInteger n) = DNumber (Some n)"
| "ser_doc N I (SvFloat v) = DNumber (Some (N v))"
| "ser_doc N I (SvStr s) = DString s"
| "ser_doc N I (SvBytes bytes) = DSeq (map (\<lambda>b. DNumber (Some (I b))) bytes) True"
| "ser_doc N I SvNone = DNull"
| "ser_doc N I (SvSome v) = ser_doc N I v"
| "ser_doc N I SvUnit = DNull"
| "ser_doc N I SvUnitStruct = DNull"
| "ser_doc N I (SvUnitVariant name) = DString name"
| "ser_doc N I (SvNewtypeStruct v) = ser_doc N I v"
| "ser_doc N I (SvNewtypeVariant name v) = DMap [(name, ser_doc N I v)] True"
| "ser_doc N I (SvSeq vs) = DSeq (map (ser_doc N I) vs) True"
| "ser_doc N I (SvTuple vs) = DSeq (map (ser_doc N I) vs) True"
| "ser_doc N I (SvTupleStruct vs) = DSeq (map (ser_doc N I) vs) True"
| "ser_doc N I (SvTupleVariant name vs) = DMap [(name, DSeq (map (ser_doc N I) vs) True)] True"
| "ser_doc N I (SvMap entries) = DMap (map (\<lambda>(k, v). (k, ser_doc N I v)) entries) True"
| "ser_doc N I (SvStruct entries) = DMap (map (\<lambda>(k, v). (k, ser_doc N I v)) entries) True"
| "ser_doc N I (SvStructVariant name entries) =
     DMap [(name, DMap (map (\<lambda>(k, v). (k, ser_doc N I v)) entries) True)] True"

fun ser_finite :: "'n serde_value \<Rightarrow> bool" where
  "ser_finite (SvFloat v) = is_finite v"
| "ser_finite (SvSome v) = ser_finite v"
| "ser_finite (SvNewtypeStruct v) = ser_finite v"
| "ser_finite (SvNewtypeVariant _ v) = ser_finite v"
| "ser_finite (SvSeq vs) = list_all ser_finite vs"
| "ser_finite (SvTuple vs) = list_all ser_finite vs"
| "ser_finite (SvTupleStruct vs) = list_all ser_finite vs"
| "ser_finite (SvTupleVariant _ vs) = list_all ser_finite vs"
| "ser_finite (SvMap entries) = list_all (\<lambda>(_, v). ser_finite v) entries"
| "ser_finite (SvStruct entries) = list_all (\<lambda>(_, v). ser_finite v) entries"
| "ser_finite (SvStructVariant _ entries) = list_all (\<lambda>(_, v). ser_finite v) entries"
| "ser_finite _ = True"

lemma ev_fold_unit_map: "ev_fold (\<lambda>x _. m (f x)) xs () = ev_fold (\<lambda>t _. m t) (map f xs) ()"
  by (induction xs) (auto simp: fun_eq_iff ev_bind_def split: prod.splits sum.splits)

lemma fold_opt_guard:
  "fold_opt (\<lambda>x _. if P x then Some () else None) xs () = (if list_all P xs then Some () else None)"
  by (induction xs) auto

text \<open>The loops over items and over fields serialise their elements in turn.\<close>

lemma serialize_loop:
  assumes "\<And>x c u. x \<in> set xs \<Longrightarrow>
      s x c = (Inr (), u) \<longleftrightarrow> P x \<and> charge_all (sh x) d c = (Inr (), u)"
  shows "ev_fold (\<lambda>x _. s x) xs () c = (Inr (), u) \<longleftrightarrow>
      list_all P xs \<and> ev_fold (\<lambda>t _. charge_all t d) (map sh xs) () c = (Inr (), u)"
  using decode_loop [where f = "\<lambda>x _. s x" and g = "\<lambda>x _. if P x then Some () else None"
      and m = "\<lambda>t. charge_all t d" and sh = sh and xs = xs and a = "()" and a' = "()" and c = c and u = u] assms
  by (auto simp: fold_opt_guard split: if_splits)

lemma serialize_items:
  assumes "\<And>v d c u. v \<in> set vs \<Longrightarrow> node_serialize v d c = (Inr (), u) \<longleftrightarrow>
      ser_finite v \<and> charge_all (doc_shape (ser_doc N I v)) d c = (Inr (), u)"
  shows "ev_fold (\<lambda>v _. node_serialize v d) vs () c = (Inr (), u) \<longleftrightarrow>
      list_all ser_finite vs
      \<and> ev_fold (\<lambda>t _. charge_all t d) (map (\<lambda>v. doc_shape (ser_doc N I v)) vs) () c = (Inr (), u)"
  by (rule serialize_loop) (rule assms)

lemma serialize_fields:
  assumes "\<And>e v d c u. e \<in> set es \<Longrightarrow> v \<in> Basic_BNFs.snds e \<Longrightarrow> node_serialize v d c = (Inr (), u) \<longleftrightarrow>
      ser_finite v \<and> charge_all (doc_shape (ser_doc N I v)) d c = (Inr (), u)"
  shows "ev_fold (\<lambda>(_, v) _. node_serialize v d) es () c = (Inr (), u) \<longleftrightarrow>
      list_all (\<lambda>(_, v). ser_finite v) es
      \<and> ev_fold (\<lambda>t _. charge_all t d) (map (\<lambda>e. doc_shape (ser_doc N I (snd e))) es) () c = (Inr (), u)"
  unfolding case_prod_unfold by (rule serialize_loop) (rule assms, simp_all add: snds.simps)

lemma node_serialize_iff:
  "node_serialize v d c = (Inr (), u) \<longleftrightarrow>
     ser_finite v \<and> charge_all (doc_shape (ser_doc N I v)) d c = (Inr (), u)"
proof (induction v arbitrary: d c u)
  case (SvBytes bytes)
  have "ev_fold (\<lambda>_ _. charge (Suc d)) bytes () c = (Inr (), u) \<longleftrightarrow>
      list_all (\<lambda>_. True) bytes
      \<and> ev_fold (\<lambda>t _. charge_all t (Suc d)) (map (\<lambda>_. Shape []) bytes) () c = (Inr (), u)" for c u
    by (rule serialize_loop) (auto simp: ev_bind_Inr_iff)
  then show ?case by (simp add: ev_bind_Inr_iff comp_def list_all_iff)
next
  case (SvSeq vs)
  note loop = serialize_items [OF SvSeq]
  show ?case by (auto simp: ev_bind_Inr_iff comp_def loop)
next
  case (SvTuple vs)
  note loop = serialize_items [OF SvTuple]
  show ?case by (auto simp: ev_bind_Inr_iff comp_def loop)
next
  case (SvTupleStruct vs)
  note loop = serialize_items [OF SvTupleStruct]
  show ?case by (auto simp: ev_bind_Inr_iff comp_def loop)
next
  case (SvTupleVariant name vs)
  note loop = serialize_items [OF SvTupleVariant]
  show ?case by (auto simp: ev_bind_Inr_iff comp_def loop)
next
  case (SvMap entries)
  note loop = serialize_fields [OF SvMap]
  show ?case by (auto simp: ev_bind_Inr_iff comp_def split_beta loop)
next
  case (SvStruct entries)
  note loop = serialize_fields [OF SvStruct]
  show ?case by (auto simp: ev_bind_Inr_iff comp_def split_beta loop)
next
  case (SvStructVariant name entries)
  note loop = serialize_fields [OF SvStructVariant]
  show ?case by (auto simp: ev_bind_Inr_iff comp_def split_beta loop)
qed (auto simp: ev_bind_Inr_iff)

lemma count_chunks_iff:
  "observed \<le> maximum \<Longrightarrow> observed \<le> u64_max \<Longrightarrow>
   count_chunks maximum observed chunks = (n, False) \<longleftrightarrow>
     min (observed + length (concat chunks)) u64_max \<le> maximum
     \<and> n = min (observed + length (concat chunks)) u64_max"
proof (induction chunks arbitrary: observed)
  case (Cons chunk chunks)
  let ?o = "min (observed + length chunk) u64_max"
  have total: "min (?o + length (concat chunks)) u64_max =
      min (observed + length (concat (chunk # chunks))) u64_max"
    by (simp add: min_def)
  have low: "?o \<le> min (observed + length (concat (chunk # chunks))) u64_max"
    by (simp add: min_def)
  show ?case
  proof (cases "maximum < ?o")
    case True
    then show ?thesis using low by (auto simp: Let_def u64_saturating_add_def)
  next
    case False
    then have "count_chunks maximum observed (chunk # chunks) = count_chunks maximum ?o chunks"
      by (simp only: count_chunks.simps u64_saturating_add_def Let_def if_False)
    moreover have "?o \<le> maximum" "?o \<le> u64_max" using False by linarith+
    ultimately show ?thesis using Cons.IH [of ?o] total by (simp only:)
  qed
qed auto

lemma measure_accepts:
  "measure_json W v lims = Inr m \<longleftrightarrow>
     ser_finite v \<and> snd (W v) = None
     \<and> min (length (concat (fst (W v)))) u64_max \<le> max_bytes lims
     \<and> shape_nodes (doc_shape (ser_doc N I v)) \<le> max_nodes lims
     \<and> shape_depth (doc_shape (ser_doc N I v)) \<le> max_json_depth lims
     \<and> m = \<lparr>measured_bytes = min (length (concat (fst (W v)))) u64_max,
            measured_nodes = shape_nodes (doc_shape (ser_doc N I v)),
            measured_depth = shape_depth (doc_shape (ser_doc N I v))\<rparr>"
proof -
  let ?t = "doc_shape (ser_doc N I v)"
  have nodes: "node_serialize v 1 (counter_new lims) = (Inr (), u) \<longleftrightarrow>
      ser_finite v \<and> shape_nodes ?t \<le> max_nodes lims \<and> shape_depth ?t \<le> max_json_depth lims
      \<and> u = \<lparr>nc_limits = lims, nc_nodes = shape_nodes ?t, nc_depth = shape_depth ?t\<rparr>" for u
    using node_serialize_iff [of v "Suc 0" "counter_new lims" u N I]
    by (auto simp: charge_all_iff has_room_def charged_def counter_new_def)
  have "measure_json W v lims = Inr m \<longleftrightarrow>
      (\<exists>u n. node_serialize v 1 (counter_new lims) = (Inr (), u)
        \<and> count_chunks (max_bytes lims) 0 (fst (W v)) = (n, False) \<and> snd (W v) = None
        \<and> m = \<lparr>measured_bytes = n, measured_nodes = nc_nodes u, measured_depth = nc_depth u\<rparr>)"
    by (auto simp: measure_json_def split: prod.splits sum.splits if_splits)
  then show ?thesis
    unfolding nodes by (auto simp: count_chunks_iff)
qed

text \<open>
  C28. Measuring agrees with the document that is written: \<open>measure_json\<close> succeeds exactly when
  all numbers are finite, the writer succeeds and bytes, values and depth of the written
  document are within the limits, and it then reports exactly these three numbers
  (bytes saturate at the largest \<open>u64\<close>).
\<close>

theorem measure_json_exact:
  "measure_json W v lims = Inr m \<longleftrightarrow>
     ser_finite v \<and> snd (W v) = None
     \<and> min (length (concat (fst (W v)))) u64_max \<le> max_bytes lims
     \<and> shape_nodes (doc_shape (ser_doc N I v)) \<le> max_nodes lims
     \<and> shape_depth (doc_shape (ser_doc N I v)) \<le> max_json_depth lims
     \<and> m = \<lparr>measured_bytes = min (length (concat (fst (W v)))) u64_max,
            measured_nodes = shape_nodes (doc_shape (ser_doc N I v)),
            measured_depth = shape_depth (doc_shape (ser_doc N I v))\<rparr>"
  by (rule measure_accepts)

text \<open>Every object of a value names its fields apart.\<close>

fun ser_keys_distinct :: "'n serde_value \<Rightarrow> bool" where
  "ser_keys_distinct (SvSome v) = ser_keys_distinct v"
| "ser_keys_distinct (SvNewtypeStruct v) = ser_keys_distinct v"
| "ser_keys_distinct (SvNewtypeVariant _ v) = ser_keys_distinct v"
| "ser_keys_distinct (SvSeq vs) = list_all ser_keys_distinct vs"
| "ser_keys_distinct (SvTuple vs) = list_all ser_keys_distinct vs"
| "ser_keys_distinct (SvTupleStruct vs) = list_all ser_keys_distinct vs"
| "ser_keys_distinct (SvTupleVariant _ vs) = list_all ser_keys_distinct vs"
| "ser_keys_distinct (SvMap es) = (distinct (map fst es) \<and> list_all (\<lambda>(_, v). ser_keys_distinct v) es)"
| "ser_keys_distinct (SvStruct es) = (distinct (map fst es) \<and> list_all (\<lambda>(_, v). ser_keys_distinct v) es)"
| "ser_keys_distinct (SvStructVariant _ es) =
     (distinct (map fst es) \<and> list_all (\<lambda>(_, v). ser_keys_distinct v) es)"
| "ser_keys_distinct _ = True"

lemma those_total: "(\<And>x. x \<in> set xs \<Longrightarrow> f x \<noteq> None) \<Longrightarrow> those (map f xs) \<noteq> None"
  by (induction xs) (auto split: option.splits)

lemma those_items: "(\<And>v. v \<in> set vs \<Longrightarrow> doc_value (ser_doc N I v) \<noteq> None) \<Longrightarrow>
    \<exists>ws. those (map (\<lambda>v. doc_value (ser_doc N I v)) vs) = Some ws"
  using those_total [of vs "\<lambda>v. doc_value (ser_doc N I v)"] by auto

lemma those_fields:
  "(\<And>e v. e \<in> set es \<Longrightarrow> v \<in> Basic_BNFs.snds e \<Longrightarrow> ser_keys_distinct v \<Longrightarrow> doc_value (ser_doc N I v) \<noteq> None) \<Longrightarrow>
   list_all (\<lambda>(_, v). ser_keys_distinct v) es \<Longrightarrow>
    \<exists>ws. those (map (\<lambda>e. doc_value (ser_doc N I (snd e))) es) = Some ws"
  using those_total [of es "\<lambda>e. doc_value (ser_doc N I (snd e))"]
  by (force simp: list_all_iff snds.simps)

lemma ser_doc_value: "ser_keys_distinct v \<Longrightarrow> doc_value (ser_doc N I v) \<noteq> None"
proof (induction v)
  case (SvBytes bytes)
  then show ?case using those_total [of bytes "\<lambda>b. Some (JNumber (I b))"] by (simp add: comp_def)
next
  case (SvMap es)
  then have "\<exists>ws. those (map (\<lambda>e. doc_value (ser_doc N I (snd e))) es) = Some ws"
    by (intro those_fields) auto
  with SvMap.prems show ?case by (auto simp: comp_def split_beta)
next
  case (SvStruct es)
  then have "\<exists>ws. those (map (\<lambda>e. doc_value (ser_doc N I (snd e))) es) = Some ws"
    by (intro those_fields) auto
  with SvStruct.prems show ?case by (auto simp: comp_def split_beta)
next
  case (SvStructVariant name es)
  then have "\<exists>ws. those (map (\<lambda>e. doc_value (ser_doc N I (snd e))) es) = Some ws"
    by (intro those_fields) auto
  with SvStructVariant.prems show ?case by (auto simp: comp_def split_beta)
next
  case (SvSeq vs)
  then show ?case using those_items [of vs N I] by (auto simp: comp_def list_all_iff)
next
  case (SvTuple vs)
  then show ?case using those_items [of vs N I] by (auto simp: comp_def list_all_iff)
next
  case (SvTupleStruct vs)
  then show ?case using those_items [of vs N I] by (auto simp: comp_def list_all_iff)
next
  case (SvTupleVariant name vs)
  then show ?case using those_items [of vs N I] by (auto simp: comp_def list_all_iff)
qed auto

text \<open>
  C29. What passes \<open>measure_json\<close> is readable again under the same limits: if the document
  reader reads the written text as the document that was written (the round trip of
  \<open>serde_json\<close>), strict decoding of a measured value's text succeeds with the value of that
  document.
\<close>

theorem measured_then_decoded:
  assumes "measure_json W v lims = Inr m" "ser_keys_distinct v"
    and "length (concat (fst (W v))) \<le> u64_max"
    and "read_document L (concat (fst (W v))) = (ser_doc N I v, True)"
  shows "decode_strict_json L E (concat (fst (W v))) lims = Inr (the (doc_value (ser_doc N I v)))"
proof -
  have "doc_value (ser_doc N I v) \<noteq> None" by (rule ser_doc_value [OF assms(2)])
  then show ?thesis
    using assms by (auto simp: decode_accepts measure_accepts [of _ _ _ _ N I])
qed

theorem measured_then_decoded_witness:
  "decode_strict_json (nat_lib\<lparr>read_document := \<lambda>_. (ser_doc (\<lambda>_. 0) id (SvSeq [SvUnit]), True)\<rparr>)
     id (concat (fst ([''[null]''], None :: string option)))
     \<lparr>max_bytes = 10, max_nodes = 2, max_json_depth = 2\<rparr> =
   Inr (the (doc_value (ser_doc (\<lambda>_. 0 :: nat) id (SvSeq [SvUnit]))))"
proof -
  have "measure_json (\<lambda>_ :: nat serde_value. ([''[null]''], None)) (SvSeq [SvUnit])
      \<lparr>max_bytes = 10, max_nodes = 2, max_json_depth = 2\<rparr> =
    Inr \<lparr>measured_bytes = 6, measured_nodes = 2, measured_depth = 2\<rparr>"
    by (simp add: measure_json_def counter_new_def charge_def ev_bind_def u64_saturating_add_def
        u64_max_def)
  from measured_then_decoded [OF this, where N = "\<lambda>_. 0" and I = id and E = id
      and L = "nat_lib\<lparr>read_document := \<lambda>_. (ser_doc (\<lambda>_. 0) id (SvSeq [SvUnit]), True)\<rparr>"]
  show ?thesis by (simp add: u64_max_def)
qed

end
