(* ===== verification/Results.thy ===== *)
theory Results
  imports Decision Bounded_Json "HOL-Library.Option_ord" "HOL-Library.Multiset"
begin

text \<open>
  \<open>results.rs\<close>: the answers of a model to a check's questions, the constructors that bind
  them to the declarations, and the checks on a saved assessment. A result error is its
  message. \<open>W\<close> is the writer of \<open>serde_json\<close> and \<open>I\<close> its conversion of integers; the
  derived \<open>Serialize\<close> implementations are written out.
\<close>

section \<open>Data\<close>

definition RESULT_VERSION :: nat where
  "RESULT_VERSION = 1"

definition MAX_RESULT_BYTES :: nat where
  "MAX_RESULT_BYTES = 512 * 1024"

text \<open>\<open>fit::MAX_FIT_INPUT_DEPTH\<close>.\<close>

definition MAX_FIT_INPUT_DEPTH :: nat where
  "MAX_FIT_INPUT_DEPTH = 64"

definition RESULT_LIMITS :: json_limits where
  "RESULT_LIMITS =
     \<lparr>max_bytes = MAX_RESULT_BYTES, max_nodes = 65536, max_json_depth = MAX_FIT_INPUT_DEPTH\<rparr>"

text \<open>The double nearest to \<open>0.02\<close>.\<close>

definition PROBABILITY_SUM_TOLERANCE :: f64 where
  "PROBABILITY_SUM_TOLERANCE = Finite False 5764607523034235 (-58)"

record choice_result =
  choice_output :: string
  choice_probabilities :: "(string, f64) bt option"
  choice_confidence :: "f64 option"

record score_result =
  score_output :: f64
  score_probabilities :: "f64 list option"
  score_confidence :: "f64 option"

record noul_result =
  noul_output :: f64

datatype question_result =
    ChoiceAnswer choice_result
  | ScoreAnswer score_result
  | NoulAnswer noul_result

record named_answer =
  answer_name :: string
  answer_result :: question_result

record decision_result =
  result_decision :: string
  result_answers :: "named_answer list"
  result_attempts :: nat

record evaluated_assessment =
  assessed_version :: nat
  assessed_decisions :: "decision_result list"
  assessed_attempts :: nat

section \<open>Validation\<close>

abbreviation f64_zero :: f64 where "f64_zero \<equiv> Finite False 0 0"
abbreviation f64_one :: f64 where "f64_one \<equiv> Finite False 1 0"

definition validate_probability :: "f64 \<Rightarrow> (string, unit) res" where
  "validate_probability v =
     (if \<not> is_finite v \<or> \<not> (f64_le f64_zero v \<and> f64_le v f64_one)
      then Inl ''Probabilities and confidence must be finite values from zero to one.''
      else Inr ())"

definition validate_confidence :: "f64 option \<Rightarrow> (string, unit) res" where
  "validate_confidence confidence =
     (case confidence of None \<Rightarrow> Inr () | Some v \<Rightarrow> validate_probability v)"

fun sum_probabilities :: "f64 \<Rightarrow> f64 list \<Rightarrow> (string, f64) res" where
  "sum_probabilities subtotal [] = Inr subtotal"
| "sum_probabilities subtotal (p # ps) =
     res_bind (validate_probability p) (\<lambda>_. sum_probabilities (f64_add subtotal p) ps)"

definition validate_distribution :: "f64 list \<Rightarrow> (string, unit) res" where
  "validate_distribution ps =
     res_bind (sum_probabilities f64_zero ps) (\<lambda>subtotal.
       if f64_lt PROBABILITY_SUM_TOLERANCE (f64_abs (f64_sub subtotal f64_one))
       then Inl ''Probability sum must differ from one by no more than 0.02 under f64 arithmetic.''
       else Inr ())"

definition choice_validate :: "choice_result \<Rightarrow> question \<Rightarrow> (string, unit) res" where
  "choice_validate r q =
     res_bind (question_validate q) (\<lambda>_.
       case q of
         Choice _ criteria \<Rightarrow>
           if \<not> list_ex (\<lambda>(label, _). label = choice_output r) criteria
           then Inl ''Choice output is not a declared label.''
           else
             res_bind
               (case choice_probabilities r of
                  None \<Rightarrow> Inr ()
                | Some ps \<Rightarrow>
                    if length ps \<noteq> length criteria
                       \<or> list_ex (\<lambda>(label, _). \<not> bt_contains ps label) criteria
                    then Inl ''Choice probabilities must match the exact declared labels.''
                    else validate_distribution (map snd ps))
               (\<lambda>_. validate_confidence (choice_confidence r))
       | _ \<Rightarrow> Inl ''Choice result requires a Choice declaration.'')"

definition choice_new ::
  "question \<Rightarrow> string \<Rightarrow> (string, f64) bt option \<Rightarrow> f64 option \<Rightarrow> (string, choice_result) res" where
  "choice_new q out probabilities confidence =
     (let r = \<lparr>choice_output = out, choice_probabilities = probabilities,
               choice_confidence = confidence\<rparr>
      in res_bind (choice_validate r q) (\<lambda>_. Inr r))"

definition score_validate :: "score_result \<Rightarrow> question \<Rightarrow> (string, unit) res" where
  "score_validate r q =
     res_bind (question_validate q) (\<lambda>_.
       case q of
         Score _ criteria \<Rightarrow>
           if \<not> is_finite (score_output r)
              \<or> \<not> (f64_le f64_zero (score_output r)
                   \<and> f64_le (score_output r) (f64_of_nat (length criteria - 1)))
           then Inl ''Score output must be finite and within the declared criterion range.''
           else
             res_bind
               (case score_probabilities r of
                  None \<Rightarrow> Inr ()
                | Some ps \<Rightarrow>
                    if length ps \<noteq> length criteria
                    then Inl ''Score probabilities must match the declared criterion count.''
                    else validate_distribution ps)
               (\<lambda>_. validate_confidence (score_confidence r))
       | _ \<Rightarrow> Inl ''Score result requires a Score declaration.'')"

definition score_new ::
  "question \<Rightarrow> f64 \<Rightarrow> f64 list option \<Rightarrow> f64 option \<Rightarrow> (string, score_result) res" where
  "score_new q out probabilities confidence =
     (let r = \<lparr>score_output = out, score_probabilities = probabilities,
               score_confidence = confidence\<rparr>
      in res_bind (score_validate r q) (\<lambda>_. Inr r))"

definition noul_new :: "f64 \<Rightarrow> (string, noul_result) res" where
  "noul_new out = res_bind (validate_probability out) (\<lambda>_. Inr \<lparr>noul_output = out\<rparr>)"

definition question_result_validate ::
  "question_result \<Rightarrow> question \<Rightarrow> question_requirements \<Rightarrow> (string, unit) res" where
  "question_result_validate result q required =
     res_bind
       (case (result, q) of
          (ChoiceAnswer r, Choice _ _) \<Rightarrow>
            res_bind (choice_validate r q) (\<lambda>_.
              Inr (choice_probabilities r \<noteq> None, choice_confidence r \<noteq> None))
        | (ScoreAnswer r, Score _ _) \<Rightarrow>
            res_bind (score_validate r q) (\<lambda>_.
              Inr (score_probabilities r \<noteq> None, score_confidence r \<noteq> None))
        | (NoulAnswer r, Noul _) \<Rightarrow>
            res_bind (validate_probability (noul_output r)) (\<lambda>_. Inr (False, False))
        | _ \<Rightarrow> Inl ''Result type does not match the declared question.'')
       (\<lambda>(probabilities, confidence).
          if req_probabilities required \<and> \<not> probabilities \<or> req_confidence required \<and> \<not> confidence
          then Inl ''Result is missing required probability or confidence details.''
          else Inr ())"

definition answer_new :: "string \<Rightarrow> question_result \<Rightarrow> (string, named_answer) res" where
  "answer_new name result =
     (if \<not> is_identifier name then Inl ''Answer name must be a valid identifier.''
      else Inr \<lparr>answer_name = name, answer_result = result\<rparr>)"

fun check_required ::
  "('n, 'f) decision_block \<Rightarrow> string set \<Rightarrow> question_requirements list \<Rightarrow> (string, unit) res" where
  "check_required declaration names [] = Inr ()"
| "check_required declaration names (r # rs) =
     (if req_question r \<in> names then Inl ''Question requirements must be unique.''
      else
        (case find (\<lambda>q. q_name q = req_question r) (block_outputs declaration) of
           None \<Rightarrow> Inl ''Requirements contain an undeclared question.''
         | Some q \<Rightarrow>
             res_bind (validate_for_question r (block_name declaration) q) (\<lambda>_.
               check_required declaration (insert (req_question r) names) rs)))"

fun check_answers ::
  "('n, 'f) decision_block \<Rightarrow> question_requirements list \<Rightarrow> string set \<Rightarrow> named_answer list
     \<Rightarrow> (string, unit) res" where
  "check_answers declaration required names [] = Inr ()"
| "check_answers declaration required names (a # as) =
     (if answer_name a \<in> names then Inl ''Answer names must be unique.''
      else
        (case find (\<lambda>q. q_name q = answer_name a) (block_outputs declaration) of
           None \<Rightarrow> Inl ''Answer contains an undeclared question.''
         | Some q \<Rightarrow>
             (case find (\<lambda>r. req_question r = answer_name a) required of
                None \<Rightarrow> Inl ''Answer requirements are missing.''
              | Some r \<Rightarrow>
                  res_bind (question_result_validate (answer_result a) (q_question q) r) (\<lambda>_.
                    check_answers declaration required (insert (answer_name a) names) as))))"

definition validate_answers ::
  "('n, 'f) decision_block \<Rightarrow> question_requirements list \<Rightarrow> named_answer list \<Rightarrow> nat
     \<Rightarrow> (string, unit) res" where
  "validate_answers declaration requirements answers attempts =
     res_bind (block_validate declaration) (\<lambda>_.
       if \<not> (1 \<le> attempts \<and> attempts \<le> 2) then Inl ''Decision attempts must be one or two.''
       else if length answers \<noteq> length (block_outputs declaration)
       then Inl ''Answers must match the exact declared question set.''
       else
         (let required = filter (\<lambda>r. req_decision r = block_name declaration) requirements in
          if length required \<noteq> length (block_outputs declaration)
          then Inl ''Requirements must match the exact declared question set.''
          else res_bind (check_required declaration {} required) (\<lambda>_.
                 check_answers declaration required {} answers)))"

section \<open>Serialisation and size\<close>

definition optional_field :: "string \<Rightarrow> 'n serde_value option \<Rightarrow> (string \<times> 'n serde_value) list" where
  "optional_field name v = (case v of None \<Rightarrow> [] | Some x \<Rightarrow> [(name, SvSome x)])"

fun question_result_serde :: "question_result \<Rightarrow> 'n serde_value" where
  "question_result_serde (ChoiceAnswer r) =
     SvStruct ([(''type'', SvStr ''choice''), (''output'', SvStr (choice_output r))]
       @ optional_field ''probabilities''
           (map_option (\<lambda>ps. SvMap (map (\<lambda>(k, v). (k, SvFloat v)) ps)) (choice_probabilities r))
       @ optional_field ''confidence'' (map_option SvFloat (choice_confidence r)))"
| "question_result_serde (ScoreAnswer r) =
     SvStruct ([(''type'', SvStr ''score''), (''output'', SvFloat (score_output r))]
       @ optional_field ''probabilities'' (map_option (\<lambda>ps. SvSeq (map SvFloat ps)) (score_probabilities r))
       @ optional_field ''confidence'' (map_option SvFloat (score_confidence r)))"
| "question_result_serde (NoulAnswer r) =
     SvStruct [(''type'', SvStr ''noul''), (''output'', SvFloat (noul_output r))]"

definition answer_serde :: "named_answer \<Rightarrow> 'n serde_value" where
  "answer_serde a =
     SvStruct [(''name'', SvStr (answer_name a)), (''result'', question_result_serde (answer_result a))]"

definition decision_serde :: "(nat \<Rightarrow> 'n) \<Rightarrow> decision_result \<Rightarrow> 'n serde_value" where
  "decision_serde I r =
     SvStruct [(''decision'', SvStr (result_decision r)),
       (''answers'', SvSeq (map answer_serde (result_answers r))),
       (''attempts'', SvInteger (I (result_attempts r)))]"

definition assessment_serde :: "(nat \<Rightarrow> 'n) \<Rightarrow> evaluated_assessment \<Rightarrow> 'n serde_value" where
  "assessment_serde I a =
     SvStruct [(''version'', SvInteger (I (assessed_version a))),
       (''decisions'', SvSeq (map (decision_serde I) (assessed_decisions a))),
       (''attempts'', SvInteger (I (assessed_attempts a)))]"

fun total_attempts_loop :: "nat \<Rightarrow> decision_result list \<Rightarrow> (string, nat) res" where
  "total_attempts_loop subtotal [] = Inr subtotal"
| "total_attempts_loop subtotal (d # ds) =
     (if u64_max < subtotal + result_attempts d then Inl ''Assessment attempt total overflowed.''
      else total_attempts_loop (subtotal + result_attempts d) ds)"

definition total_attempts :: "decision_result list \<Rightarrow> (string, nat) res" where
  "total_attempts ds = total_attempts_loop 0 ds"

type_synonym 'n writer = "'n serde_value \<Rightarrow> string list \<times> string option"

definition measure_results ::
  "'n writer \<Rightarrow> (nat \<Rightarrow> 'n) \<Rightarrow> evaluated_assessment \<Rightarrow> (string, json_measurement) res" where
  "measure_results W I a =
     res_map_err bounded_error_text (measure_json W (assessment_serde I a) RESULT_LIMITS)"

definition measure_decision_results_with_next ::
  "'n writer \<Rightarrow> (nat \<Rightarrow> 'n) \<Rightarrow> decision_result list \<Rightarrow> decision_result
     \<Rightarrow> (string, json_measurement) res" where
  "measure_decision_results_with_next W I results next_result =
     (if list_ex (\<lambda>r. result_decision r = result_decision next_result) results
      then Inl ''Decision results must be unique.''
      else
        res_bind (total_attempts results) (\<lambda>subtotal.
          if u64_max < subtotal + result_attempts next_result
          then Inl ''Assessment attempt total overflowed.''
          else
            res_map_err bounded_error_text
              (measure_json W
                (assessment_serde I \<lparr>assessed_version = RESULT_VERSION,
                   assessed_decisions = results @ [next_result],
                   assessed_attempts = subtotal + result_attempts next_result\<rparr>) RESULT_LIMITS)))"

section \<open>Decision results and assessments\<close>

fun position_of :: "('a \<Rightarrow> bool) \<Rightarrow> 'a list \<Rightarrow> nat option" where
  "position_of P [] = None"
| "position_of P (x # xs) = (if P x then Some 0 else map_option Suc (position_of P xs))"

definition decision_new ::
  "'n writer \<Rightarrow> (nat \<Rightarrow> 'n) \<Rightarrow> ('n, 'f) decision_block \<Rightarrow> question_requirements list
     \<Rightarrow> named_answer list \<Rightarrow> nat \<Rightarrow> (string, decision_result) res" where
  "decision_new W I declaration requirements answers attempts =
     res_bind (validate_answers declaration requirements answers attempts) (\<lambda>_.
       (let result = \<lparr>result_decision = block_name declaration,
              result_answers = sort_key
                (\<lambda>a. position_of (\<lambda>q. q_name q = answer_name a) (block_outputs declaration)) answers,
              result_attempts = attempts\<rparr>
        in res_bind (measure_decision_results_with_next W I [] result) (\<lambda>_. Inr result)))"

definition validate_for_declaration ::
  "'n writer \<Rightarrow> (nat \<Rightarrow> 'n) \<Rightarrow> decision_result \<Rightarrow> ('n, 'f) decision_block
     \<Rightarrow> question_requirements list \<Rightarrow> (string, unit) res" where
  "validate_for_declaration W I r declaration requirements =
     (if result_decision r \<noteq> block_name declaration
      then Inl ''Decision result does not match the declared block.''
      else
        res_bind (validate_answers declaration requirements (result_answers r) (result_attempts r)) (\<lambda>_.
          if list_ex (\<lambda>(a, q). answer_name a \<noteq> q_name q)
               (zip (result_answers r) (block_outputs declaration))
          then Inl ''Answers must follow declared question order.''
          else res_bind (measure_decision_results_with_next W I [] r) (\<lambda>_. Inr ())))"

fun admit_decisions ::
  "'n writer \<Rightarrow> (nat \<Rightarrow> 'n) \<Rightarrow> ('n, 'f) decision_block list \<Rightarrow> question_requirements list
     \<Rightarrow> (string, nat) bt \<Rightarrow> string set \<Rightarrow> decision_result list \<Rightarrow> (string, unit) res" where
  "admit_decisions W I declarations requirements indices names [] = Inr ()"
| "admit_decisions W I declarations requirements indices names (d # ds) =
     (if result_decision d \<in> names then Inl ''Decision results must be unique.''
      else
        (case bt_get indices (result_decision d) of
           None \<Rightarrow> Inl ''Results contain an undeclared decision.''
         | Some index \<Rightarrow>
             res_bind (validate_for_declaration W I d (declarations ! index) requirements) (\<lambda>_.
               admit_decisions W I declarations requirements indices
                 (insert (result_decision d) names) ds)))"

definition declaration_indices :: "('n, 'f) decision_block list \<Rightarrow> (string, nat) bt" where
  "declaration_indices declarations =
     bt_collect (map (\<lambda>(index, b). (block_name b, index)) (List.enumerate 0 declarations))"

definition assessment_new ::
  "'n writer \<Rightarrow> (nat \<Rightarrow> 'n) \<Rightarrow> ('n, 'f) decision_block list \<Rightarrow> question_requirements list
     \<Rightarrow> decision_result list \<Rightarrow> (string, evaluated_assessment) res" where
  "assessment_new W I declarations requirements decisions =
     res_bind (validate_requirements declarations requirements) (\<lambda>_.
       if length decisions \<noteq> length declarations
       then Inl ''Results must match the exact declared decision set.''
       else
         (let indices = declaration_indices declarations in
          res_bind (admit_decisions W I declarations requirements indices {} decisions) (\<lambda>_.
          res_bind (total_attempts decisions) (\<lambda>attempts.
            (let result = \<lparr>assessed_version = RESULT_VERSION,
                   assessed_decisions = sort_key (\<lambda>d. bt_get indices (result_decision d)) decisions,
                   assessed_attempts = attempts\<rparr>
             in res_bind (measure_results W I result) (\<lambda>_. Inr result))))))"

definition assessment_local :: evaluated_assessment where
  "assessment_local =
     \<lparr>assessed_version = RESULT_VERSION, assessed_decisions = [], assessed_attempts = 0\<rparr>"

fun check_declared ::
  "'n writer \<Rightarrow> (nat \<Rightarrow> 'n) \<Rightarrow> question_requirements list
     \<Rightarrow> (decision_result \<times> ('n, 'f) decision_block) list \<Rightarrow> (string, unit) res" where
  "check_declared W I requirements [] = Inr ()"
| "check_declared W I requirements ((r, b) # ps) =
     res_bind (validate_for_declaration W I r b requirements) (\<lambda>_.
       check_declared W I requirements ps)"

definition validate_for_declarations ::
  "'n writer \<Rightarrow> (nat \<Rightarrow> 'n) \<Rightarrow> evaluated_assessment \<Rightarrow> ('n, 'f) decision_block list
     \<Rightarrow> question_requirements list \<Rightarrow> (string, unit) res" where
  "validate_for_declarations W I a declarations requirements =
     res_bind (validate_requirements declarations requirements) (\<lambda>_.
       if assessed_version a \<noteq> RESULT_VERSION then Inl ''Saved result version is unsupported.''
       else if length (assessed_decisions a) \<noteq> length declarations
       then Inl ''Results must match the exact declared decision set.''
       else
         res_bind (check_declared W I requirements (zip (assessed_decisions a) declarations)) (\<lambda>_.
         res_bind (total_attempts (assessed_decisions a)) (\<lambda>subtotal.
           if assessed_attempts a \<noteq> subtotal
           then Inl ''Assessment attempt total does not match its decision results.''
           else res_bind (measure_results W I a) (\<lambda>_. Inr ()))))"

section \<open>Probability sums\<close>

lemma validate_probability_iff:
  "validate_probability v = Inr () \<longleftrightarrow> is_finite v \<and> 0 \<le> f64_real v \<and> f64_real v \<le> 1"
  using f64_le_iff [of f64_zero v] f64_le_iff [of v f64_one]
  by (auto simp: validate_probability_def)

lemma sum_probabilities_infinite:
  "sum_probabilities (Infinite s) ps = Inr r \<Longrightarrow> r = Infinite s"
  by (induction ps) (auto simp: validate_probability_iff f64_add_infinite)

lemma sum_probabilities_finite:
  assumes "sum_probabilities s (p # ps) = Inr r" "is_finite s" "is_finite r"
  shows "is_finite (f64_add s p)"
proof -
  have p: "is_finite p" and rest: "sum_probabilities (f64_add s p) ps = Inr r"
    using assms(1) by (auto simp: validate_probability_iff)
  from f64_add_never_nan [OF assms(2) p] show ?thesis
    using rest assms(3) by (auto dest!: sum_probabilities_infinite)
qed

text \<open>The computed sum of probabilities has a relative error of at most \<open>(1 + 2\<^sup>-\<^sup>5\<^sup>3)\<^sup>n - 1\<close>.\<close>

abbreviation half_ulp :: real where "half_ulp \<equiv> 1 / 2 ^ 53"

lemma sum_step:
  fixes s' :: real
  assumes "\<bar>s' - t\<bar> \<le> u * t" "\<bar>r - (s' + R)\<bar> \<le> ((1 + u) ^ n - 1) * (s' + R)"
    and "0 \<le> t" "0 \<le> R" "0 \<le> u"
  shows "\<bar>r - (t + R)\<bar> \<le> ((1 + u) ^ Suc n - 1) * (t + R)"
proof -
  have grow: "0 \<le> (1 + u) ^ n - 1" using assms(5) by (simp add: one_le_power)
  have up: "s' + R \<le> (1 + u) * (t + R)"
    using assms(1) mult_nonneg_nonneg [OF assms(4,5)] by (simp add: abs_le_iff algebra_simps)
  have "\<bar>r - (t + R)\<bar> \<le> \<bar>r - (s' + R)\<bar> + \<bar>s' - t\<bar>" by linarith
  also have "\<dots> \<le> ((1 + u) ^ n - 1) * (s' + R) + u * t" using assms by linarith
  also have "\<dots> \<le> ((1 + u) ^ n - 1) * ((1 + u) * (t + R)) + u * (t + R)"
    using mult_left_mono [OF up grow] mult_left_mono [of t "t + R" u] assms by linarith
  also have "\<dots> = ((1 + u) ^ Suc n - 1) * (t + R)" by (simp add: algebra_simps)
  finally show ?thesis .
qed

lemma sum_probabilities_error:
  assumes "sum_probabilities s ps = Inr r" "is_finite s" "is_finite r" "0 \<le> f64_real s"
  shows "\<bar>f64_real r - (f64_real s + sum_list (map f64_real ps))\<bar>
       \<le> ((1 + half_ulp) ^ length ps - 1) * (f64_real s + sum_list (map f64_real ps))
     \<and> list_all (\<lambda>p. is_finite p \<and> 0 \<le> f64_real p \<and> f64_real p \<le> 1) ps"
  using assms
proof (induction ps arbitrary: s)
  case (Cons p ps)
  let ?t = "f64_real s + f64_real p"
  have p: "is_finite p" "0 \<le> f64_real p" "f64_real p \<le> 1"
    and rest: "sum_probabilities (f64_add s p) ps = Inr r"
    using Cons.prems(1) by (auto simp: validate_probability_iff)
  have fin: "is_finite (f64_add s p)"
    using sum_probabilities_finite Cons.prems by blast
  have step: "\<bar>f64_real (f64_add s p) - ?t\<bar> \<le> half_ulp * ?t"
    using f64_add_error [OF Cons.prems(2) p(1) fin] Cons.prems(4) p by simp
  then have "\<bar>f64_real (f64_add s p) - ?t\<bar> \<le> ?t"
    using mult_right_mono [of half_ulp 1 ?t] Cons.prems(4) p by (simp del: power_divide)
  then have low: "0 \<le> f64_real (f64_add s p)" by linarith
  note ih = Cons.IH [OF rest fin Cons.prems(3) low]
  have pos: "0 \<le> sum_list (map f64_real ps)"
    using ih by (intro sum_list_nonneg) (auto simp: list_all_iff)
  have "\<bar>f64_real r - (?t + sum_list (map f64_real ps))\<bar>
      \<le> ((1 + half_ulp) ^ Suc (length ps) - 1) * (?t + sum_list (map f64_real ps))"
    by (rule sum_step [OF step]) (use ih pos p Cons.prems(4) in auto)
  with ih p show ?case by (simp add: add.assoc)
qed simp

lemma sum_probabilities_finite_or:
  "sum_probabilities s ps = Inr r \<Longrightarrow> is_finite s \<Longrightarrow> is_finite r \<or> (\<exists>t. r = Infinite t)"
proof (induction ps arbitrary: s)
  case (Cons p ps)
  then have p: "is_finite p" and rest: "sum_probabilities (f64_add s p) ps = Inr r"
    by (auto simp: validate_probability_iff)
  from f64_add_never_nan [OF Cons.prems(2) p] show ?case
    using Cons.IH [OF rest] rest sum_probabilities_infinite by metis
qed simp

lemma distribution_sum_cases:
  assumes "validate_distribution ps = Inr ()"
  obtains r where "sum_probabilities f64_zero ps = Inr r" "is_finite r"
    "\<bar>f64_real r - 1\<bar> * (1 - half_ulp) \<le> f64_real PROBABILITY_SUM_TOLERANCE"
proof -
  let ?tol = PROBABILITY_SUM_TOLERANCE
  obtain r where sum: "sum_probabilities f64_zero ps = Inr r"
    and low: "\<not> f64_lt ?tol (f64_abs (f64_sub r f64_one))"
    using assms by (auto simp: validate_distribution_def split: if_splits)
  have neg: "f64_neg f64_one = Finite True 1 0" by simp
  have tol: "is_finite ?tol" "?tol \<noteq> NaN" by (simp_all add: PROBABILITY_SUM_TOLERANCE_def)
  have inf: "f64_lt ?tol (Infinite False)"
    by (simp add: f64_lt_def f64_le_def PROBABILITY_SUM_TOLERANCE_def)
  have fin: "is_finite r"
    using sum_probabilities_finite_or [OF sum] low inf
    by (auto simp: f64_sub_def neg f64_add_infinite)
  have diff: "is_finite (f64_add r (Finite True 1 0))"
    using f64_add_never_nan [OF fin, of "Finite True 1 0"] low inf by (auto simp: f64_sub_def neg)
  have abs: "is_finite (f64_abs x)" "f64_real (f64_abs x) = \<bar>f64_real x\<bar>" if "is_finite x" for x
    using that by (cases x; auto simp: abs_mult signed_def)+
  have "\<bar>f64_real (f64_add r (Finite True 1 0))\<bar> \<le> f64_real ?tol"
    using low f64_lt_iff [OF tol(1) abs(1) [OF diff]] abs(2) [OF diff] by (simp add: f64_sub_def neg)
  moreover have "\<bar>f64_real (f64_add r (Finite True 1 0)) - (f64_real r - 1)\<bar> \<le> \<bar>f64_real r - 1\<bar> / 2 ^ 53"
    using f64_add_error [OF fin _ diff] by simp
  moreover have "\<bar>f64_real r - 1\<bar> * (1 - half_ulp) = \<bar>f64_real r - 1\<bar> - \<bar>f64_real r - 1\<bar> / 2 ^ 53"
    by (simp only: right_diff_distrib) simp
  ultimately have "\<bar>f64_real r - 1\<bar> * (1 - half_ulp) \<le> f64_real ?tol" by linarith
  with sum fin show ?thesis by (rule that)
qed

lemma power_half_ulp: "n \<le> 65536 \<Longrightarrow> (1 + half_ulp) ^ n - 1 \<le> 1 / 2 ^ 36"
proof -
  assume n: "n \<le> 65536"
  have "1 + real n * - half_ulp \<le> (1 + - half_ulp) ^ n" by (rule Bernoulli_inequality) simp
  moreover have "real n * half_ulp \<le> 1 / 2 ^ 37" using n by simp
  ultimately have low: "1 - 1 / 2 ^ 37 \<le> (1 - half_ulp) ^ n" by simp
  have "(1 + half_ulp) ^ n * (1 - half_ulp) ^ n = ((1 + half_ulp) * (1 - half_ulp)) ^ n"
    by (rule power_mult_distrib [symmetric])
  also have "\<dots> \<le> 1" by (rule power_le_one) simp_all
  finally have "(1 + half_ulp) ^ n * (1 - half_ulp) ^ n \<le> 1" .
  moreover have "(1 + half_ulp) ^ n * (1 - 1 / 2 ^ 37) \<le> (1 + half_ulp) ^ n * (1 - half_ulp) ^ n"
    by (rule mult_left_mono [OF low]) simp
  ultimately have "(1 + half_ulp) ^ n * (1 - 1 / 2 ^ 37) \<le> 1" by linarith
  then show ?thesis by simp
qed

lemma tolerance_real: "f64_real PROBABILITY_SUM_TOLERANCE = 5764607523034235 / 288230376151711744"
  by (simp add: PROBABILITY_SUM_TOLERANCE_def power_int_def power_one_over)

text \<open>
  C37. A distribution that passes validation consists of finite probabilities between zero
  and one whose exact sum differs from one by at most \<open>0.0201\<close>: the rounding of the
  floating-point sum adds less than \<open>0.0001\<close> to the tolerance for any number of criteria
  that fits a result document.
\<close>

theorem distribution_sum_bound:
  assumes "validate_distribution ps = Inr ()" "length ps \<le> 65536"
  shows "\<bar>sum_list (map f64_real ps) - 1\<bar> \<le> 201 / 10000
    \<and> list_all (\<lambda>p. is_finite p \<and> 0 \<le> f64_real p \<and> f64_real p \<le> 1) ps"
proof -
  obtain r where sum: "sum_probabilities f64_zero ps = Inr r" and r: "is_finite r"
    and near: "\<bar>f64_real r - 1\<bar> * (1 - half_ulp) \<le> f64_real PROBABILITY_SUM_TOLERANCE"
    by (rule distribution_sum_cases [OF assms(1)])
  let ?X = "sum_list (map f64_real ps)"
  note error = sum_probabilities_error [OF sum _ r]
  have each: "list_all (\<lambda>p. is_finite p \<and> 0 \<le> f64_real p \<and> f64_real p \<le> 1) ps"
    using error by simp
  have pos: "0 \<le> ?X" using each by (intro sum_list_nonneg) (auto simp: list_all_iff)
  have "\<bar>f64_real r - ?X\<bar> \<le> ((1 + half_ulp) ^ length ps - 1) * ?X" using error by simp
  also have "\<dots> \<le> 1 / 2 ^ 36 * ?X" by (rule mult_right_mono [OF power_half_ulp [OF assms(2)] pos])
  finally have "\<bar>f64_real r - ?X\<bar> \<le> ?X / 68719476736" by simp
  moreover have "\<bar>f64_real r - 1\<bar> \<le> 2001 / 100000"
    using near tolerance_real by simp
  ultimately have "\<bar>?X - 1\<bar> \<le> 201 / 10000" using pos by linarith
  with each show ?thesis by simp
qed

theorem distribution_sum_bound_witness:
  "\<bar>sum_list (map f64_real [f64_one]) - 1\<bar> \<le> 201 / 10000
    \<and> list_all (\<lambda>p. is_finite p \<and> 0 \<le> f64_real p \<and> f64_real p \<le> 1) [f64_one]"
proof (rule distribution_sum_bound)
  show "validate_distribution [f64_one] = Inr ()"
    by (simp add: validate_distribution_def validate_probability_def f64_le_def f64_lt_def f64_add_def
        f64_sub_def align_def f64_round_def bit_length.simps Let_def PROBABILITY_SUM_TOLERANCE_def)
qed simp

section \<open>Constructors produce canonical results\<close>

text \<open>Sorting by distinct positions \<open>0, \<dots>, n - 1\<close> puts position \<open>i\<close> at index \<open>i\<close>.\<close>

lemma sort_key_positions:
  fixes f :: "'a \<Rightarrow> nat option"
  assumes "distinct (map f xs)" "\<And>x. x \<in> set xs \<Longrightarrow> \<exists>i < length xs. f x = Some i"
  shows "map f (sort_key f xs) = map Some [0..<length xs]"
proof (rule sorted_distinct_set_unique)
  have "f ` set xs \<subseteq> Some ` {0..<length xs}" using assms(2) by fastforce
  moreover have "card (f ` set xs) = length xs" using distinct_card [OF assms(1)] by simp
  ultimately have "f ` set xs = Some ` {0..<length xs}"
    using card_subset_eq [of "Some ` {0..<length xs}" "f ` set xs"] by (simp add: card_image)
  then show "set (map f (sort_key f xs)) = set (map Some [0..<length xs])" by simp
  show "sorted (map f (sort_key f xs))" by simp
  show "distinct (map f (sort_key f xs))"
    using assms(1) by (metis distinct_card card_distinct length_map length_sort list.set_map set_sort)
  show "sorted (map Some [0..<length xs])" by (simp add: sorted_iff_nth_mono)
  show "distinct (map Some [0..<length xs])" by (simp add: distinct_map)
qed

lemma sort_key_nth:
  fixes f :: "'a \<Rightarrow> nat option"
  assumes "distinct (map f xs)" "\<And>x. x \<in> set xs \<Longrightarrow> \<exists>i < length xs. f x = Some i" "i < length xs"
  shows "sort_key f xs ! i \<in> set xs" "f (sort_key f xs ! i) = Some i"
proof -
  have "map f (sort_key f xs) ! i = map Some [0..<length xs] ! i"
    using sort_key_positions [OF assms(1,2)] by simp
  with assms(3) show "f (sort_key f xs ! i) = Some i" by simp
  show "sort_key f xs ! i \<in> set xs" using assms(3) by (metis length_sort nth_mem set_sort)
qed

lemma position_of_Some:
  "position_of P xs = Some i \<Longrightarrow> i < length xs \<and> P (xs ! i)"
  by (induction xs arbitrary: i) (auto split: if_splits)

lemma position_of_find: "find P xs = Some x \<Longrightarrow> \<exists>i < length xs. position_of P xs = Some i"
  by (induction xs) (auto split: if_splits)

lemma check_answers_iff:
  "check_answers b rs seen as = Inr () \<longleftrightarrow>
     distinct (map answer_name as) \<and> set (map answer_name as) \<inter> seen = {}
     \<and> list_all (\<lambda>a. \<exists>q r. find (\<lambda>q. q_name q = answer_name a) (block_outputs b) = Some q
          \<and> find (\<lambda>r. req_question r = answer_name a) rs = Some r
          \<and> question_result_validate (answer_result a) (q_question q) r = Inr ()) as"
  by (induction b rs seen as rule: check_answers.induct) (auto split: option.splits)

lemma validate_answers_perm:
  assumes "mset as = mset as'"
  shows "validate_answers b rs as n = Inr () \<longleftrightarrow> validate_answers b rs as' n = Inr ()"
proof -
  have "distinct (map answer_name as) = distinct (map answer_name as')"
    by (metis assms mset_eq_imp_distinct_iff mset_map)
  moreover have "set as = set as'" using assms by (metis set_mset_mset)
  moreover have "length as = length as'" using assms by (metis size_mset)
  ultimately show ?thesis
    by (auto simp: validate_answers_def Let_def check_answers_iff list_all_iff)
qed

lemma validate_answersD:
  assumes "validate_answers b rs as n = Inr ()"
  shows "length as = length (block_outputs b)" "distinct (map answer_name as)"
    "\<And>a. a \<in> set as \<Longrightarrow>
       \<exists>i < length as. position_of (\<lambda>q. q_name q = answer_name a) (block_outputs b) = Some i"
proof -
  have ok: "length as = length (block_outputs b)" "check_answers b
      (filter (\<lambda>r. req_decision r = block_name b) rs) {} as = Inr ()"
    using assms by (auto simp: validate_answers_def Let_def split: if_splits)
  then show "length as = length (block_outputs b)" "distinct (map answer_name as)"
    by (auto simp: check_answers_iff)
  show "\<exists>i < length as. position_of (\<lambda>q. q_name q = answer_name a) (block_outputs b) = Some i"
    if "a \<in> set as" for a
    using ok that position_of_find by (fastforce simp: check_answers_iff list_all_iff)
qed

text \<open>The answers of a valid block in declared order.\<close>

lemma sorted_answer_names:
  assumes "validate_answers b rs as n = Inr ()"
  shows "map answer_name (sort_key (\<lambda>a. position_of (\<lambda>q. q_name q = answer_name a) (block_outputs b)) as) =
    map q_name (block_outputs b)"
proof -
  let ?f = "\<lambda>a. position_of (\<lambda>q. q_name q = answer_name a) (block_outputs b)"
  note ok = validate_answersD [OF assms]
  have name: "q_name (block_outputs b ! i) = answer_name a" if "?f a = Some i" for a i
    using position_of_Some [OF that] by simp
  have "inj_on ?f (set as)"
  proof (rule inj_onI)
    fix x y assume xy: "x \<in> set as" "y \<in> set as" "?f x = ?f y"
    then have "answer_name x = answer_name y" using ok(3) name by metis
    with ok(2) xy show "x = y" by (meson distinct_map inj_onD)
  qed
  then have "distinct (map ?f as)" using ok(2) by (simp add: distinct_map)
  note nth = sort_key_nth [OF this ok(3)]
  show ?thesis
    by (rule nth_equalityI) (simp_all add: ok(1) name [OF nth(2)])
qed

lemma decision_new_validates:
  assumes "decision_new W I b rs as n = Inr r"
  shows "validate_for_declaration W I r b rs = Inr ()" "mset (result_answers r) = mset as"
proof -
  let ?s = "sort_key (\<lambda>a. position_of (\<lambda>q. q_name q = answer_name a) (block_outputs b)) as"
  have valid: "validate_answers b rs as n = Inr ()"
    and r: "r = \<lparr>result_decision = block_name b, result_answers = ?s, result_attempts = n\<rparr>"
    and fits: "\<exists>m. measure_decision_results_with_next W I [] r = Inr m"
    using assms by (auto simp: decision_new_def Let_def)
  show "mset (result_answers r) = mset as" by (simp add: r)
  have names: "map answer_name ?s = map q_name (block_outputs b)" by (rule sorted_answer_names [OF valid])
  have "\<not> list_ex (\<lambda>(a, q). answer_name a \<noteq> q_name q) (zip ?s (block_outputs b))"
    using names by (auto simp: list_ex_iff in_set_zip) (metis length_map nth_map)
  moreover have "validate_answers b rs ?s n = Inr ()"
    by (subst validate_answers_perm [of _ as]) (simp_all add: valid)
  ultimately show "validate_for_declaration W I r b rs = Inr ()"
    using fits by (auto simp: validate_for_declaration_def r)
qed

lemma declaration_indices_get:
  assumes "distinct (map block_name bs)"
  shows "bt_get (declaration_indices bs) name = Some i \<longleftrightarrow> i < length bs \<and> block_name (bs ! i) = name"
proof -
  let ?es = "map (\<lambda>(index, b). (block_name b, index)) (List.enumerate 0 bs)"
  have names: "map fst ?es = map block_name bs"
    by (rule nth_equalityI) (simp_all add: nth_enumerate_eq)
  have "map_of (rev ?es) name = Some i \<longleftrightarrow> (name, i) \<in> set ?es"
    using map_of_eq_Some_iff [of "rev ?es" name i] assms names
    by (simp only: rev_map [symmetric] distinct_rev set_rev)
  also have "\<dots> \<longleftrightarrow> i < length bs \<and> block_name (bs ! i) = name"
    by (auto simp: in_set_enumerate_eq image_iff intro!: bexI [of _ "(i, bs ! i)"])
  finally show ?thesis by (simp add: declaration_indices_def bt_get_collect)
qed

lemma admit_decisions_iff:
  "admit_decisions W I bs rs indices seen ds = Inr () \<longleftrightarrow>
     distinct (map result_decision ds) \<and> set (map result_decision ds) \<inter> seen = {}
     \<and> list_all (\<lambda>d. \<exists>i. bt_get indices (result_decision d) = Some i
          \<and> validate_for_declaration W I d (bs ! i) rs = Inr ()) ds"
  by (induction W I bs rs indices seen ds rule: admit_decisions.induct) (auto split: option.splits)

lemma check_declared_iff:
  "check_declared W I rs ps = Inr () \<longleftrightarrow>
     list_all (\<lambda>(r, b). validate_for_declaration W I r b rs = Inr ()) ps"
  by (induction W I rs ps rule: check_declared.induct) auto

lemma total_attempts_iff:
  "total_attempts_loop n ds = Inr m \<longleftrightarrow>
     (n + sum_list (map result_attempts ds) \<le> u64_max \<or> ds = []) \<and> m = n + sum_list (map result_attempts ds)"
  by (induction n ds rule: total_attempts_loop.induct) (auto simp: add.assoc)

lemma total_attempts_perm:
  assumes "mset ds = mset ds'"
  shows "total_attempts ds = Inr m \<longleftrightarrow> total_attempts ds' = Inr m"
proof -
  have "sum_list (map result_attempts ds) = sum_list (map result_attempts ds')"
    by (metis assms mset_map sum_mset_sum_list)
  moreover have "ds = [] \<longleftrightarrow> ds' = []" using assms by (metis mset_zero_iff)
  ultimately show ?thesis unfolding total_attempts_def total_attempts_iff by simp
qed

lemma validate_for_declarationD:
  assumes "validate_for_declaration W I r b rs = Inr ()"
  shows "result_decision r = block_name b"
    "map answer_name (result_answers r) = map q_name (block_outputs b)"
proof -
  have valid: "validate_answers b rs (result_answers r) (result_attempts r) = Inr ()"
    and order: "\<not> list_ex (\<lambda>(a, q). answer_name a \<noteq> q_name q) (zip (result_answers r) (block_outputs b))"
    and name: "result_decision r = block_name b"
    using assms by (auto simp: validate_for_declaration_def split: if_splits)
  show "result_decision r = block_name b" by (rule name)
  note len = validate_answersD(1) [OF valid]
  show "map answer_name (result_answers r) = map q_name (block_outputs b)"
    by (rule nth_equalityI) (use len order in \<open>auto simp: list_ex_iff in_set_zip\<close>)
qed

lemma sorted_decisions:
  assumes check: "admit_decisions W I bs rs (declaration_indices bs) {} ds = Inr ()"
    and len: "length ds = length bs" and names: "distinct (map block_name bs)" and i: "i < length bs"
  shows "validate_for_declaration W I
      (sort_key (\<lambda>d. bt_get (declaration_indices bs) (result_decision d)) ds ! i) (bs ! i) rs = Inr ()"
proof -
  let ?f = "\<lambda>d. bt_get (declaration_indices bs) (result_decision d)"
  have distinct: "distinct (map result_decision ds)"
    and each: "\<And>d. d \<in> set ds \<Longrightarrow> \<exists>i. ?f d = Some i \<and> validate_for_declaration W I d (bs ! i) rs = Inr ()"
    using check by (auto simp: admit_decisions_iff list_all_iff)
  have index: "\<exists>i < length ds. ?f d = Some i" if "d \<in> set ds" for d
    using each [OF that] len by (auto simp: declaration_indices_get [OF names])
  have "inj_on ?f (set ds)"
  proof (rule inj_onI)
    fix x y assume xy: "x \<in> set ds" "y \<in> set ds" "?f x = ?f y"
    then have "result_decision x = result_decision y"
      using index declaration_indices_get [OF names] by metis
    with distinct xy show "x = y" by (meson distinct_map inj_onD)
  qed
  then have "distinct (map ?f ds)" using distinct by (simp add: distinct_map)
  moreover have "i < length ds" using i len by simp
  ultimately have "sort_key ?f ds ! i \<in> set ds" "?f (sort_key ?f ds ! i) = Some i"
    using sort_key_nth [of ?f ds i] index by simp_all
  with each [of "sort_key ?f ds ! i"] show ?thesis by auto
qed

lemma assessment_new_validates:
  assumes "assessment_new W I bs rs ds = Inr a"
  shows "validate_for_declarations W I a bs rs = Inr ()
    \<and> mset (assessed_decisions a) = mset ds
    \<and> list_all2 (\<lambda>r b. result_decision r = block_name b
         \<and> map answer_name (result_answers r) = map q_name (block_outputs b)) (assessed_decisions a) bs"
proof -
  let ?s = "sort_key (\<lambda>d. bt_get (declaration_indices bs) (result_decision d)) ds"
  obtain n where reqs: "validate_requirements bs rs = Inr ()" and len: "length ds = length bs"
    and check: "admit_decisions W I bs rs (declaration_indices bs) {} ds = Inr ()"
    and n: "total_attempts ds = Inr n"
    and a: "a = \<lparr>assessed_version = RESULT_VERSION, assessed_decisions = ?s, assessed_attempts = n\<rparr>"
    and size: "\<exists>m. measure_results W I a = Inr m"
    using assms by (auto simp: assessment_new_def Let_def split: if_splits)
  have names: "distinct (map block_name bs)"
    using reqs validate_declarations_iff [of bs] by (auto simp: validate_requirements_def)
  note each = sorted_decisions [OF check len names]
  have "list_all2 (\<lambda>r b. validate_for_declaration W I r b rs = Inr ()) ?s bs"
    using each len by (simp add: list_all2_conv_all_nth)
  then have "check_declared W I rs (zip ?s bs) = Inr ()"
    by (simp add: check_declared_iff list_all2_iff list_all_iff)
  moreover have "total_attempts ?s = Inr n"
    using total_attempts_perm [of ?s ds n] n by simp
  ultimately have "validate_for_declarations W I a bs rs = Inr ()"
    using reqs len size by (auto simp: validate_for_declarations_def a)
  moreover have "list_all2 (\<lambda>r b. result_decision r = block_name b
         \<and> map answer_name (result_answers r) = map q_name (block_outputs b)) ?s bs"
    using each len validate_for_declarationD by (fastforce simp: list_all2_conv_all_nth)
  ultimately show ?thesis by (simp add: a)
qed

text \<open>
  C36. What \<open>EvaluatedAssessment::new\<close> builds passes the check on saved assessments: it holds
  exactly the given decision results, one per declared block and in declared order, each
  with one answer per declared question in declared order, and
  \<open>validate_for_declarations\<close> accepts it.
\<close>

theorem assessment_new_canonical:
  assumes "assessment_new W I bs rs ds = Inr a"
  shows "validate_for_declarations W I a bs rs = Inr ()
    \<and> mset (assessed_decisions a) = mset ds
    \<and> list_all2 (\<lambda>r b. result_decision r = block_name b
         \<and> map answer_name (result_answers r) = map q_name (block_outputs b)) (assessed_decisions a) bs"
  using assms by (rule assessment_new_validates)

text \<open>One block with one Noul question, for closed examples.\<close>

definition sample_question :: named_question where
  "sample_question = \<lparr>q_name = ''ok'', q_question = Noul ''Is it ok?''\<rparr>"

definition sample_block :: "(nat, unit) decision_block" where
  "sample_block = \<lparr>block_name = ''review'', block_input = TplLiteral InputNull, block_fit = [],
     block_outputs = [sample_question]\<rparr>"

definition sample_requirements :: question_requirements where
  "sample_requirements = \<lparr>req_decision = ''review'', req_question = ''ok'', req_kind = KindNoul,
     req_criteria_count = 0, req_probabilities = False, req_confidence = False\<rparr>"

definition sample_result :: decision_result where
  "sample_result = \<lparr>result_decision = ''review'',
     result_answers = [\<lparr>answer_name = ''ok'', answer_result = NoulAnswer \<lparr>noul_output = f64_one\<rparr>\<rparr>],
     result_attempts = 1\<rparr>"

lemma sample_names: "is_identifier ''review''" "is_identifier ''ok''" "is_fixed_text ''Is it ok?''"
  by code_simp+

lemma sample_assessment:
  "assessment_new (\<lambda>_. ([], None)) id [sample_block] [sample_requirements] [sample_result] =
     Inr \<lparr>assessed_version = 1, assessed_decisions = [sample_result], assessed_attempts = 1\<rparr>"
  by (simp add: assessment_new_def validate_requirements_def validate_declarations_def block_validate_def
      sample_block_def sample_question_def sample_requirements_def sample_result_def sample_names
      MAX_QUESTIONS_PER_DECISION_def question_validate_def declared_questions_def bt_collect_def
      bt_get_def validate_for_question_def declaration_indices_def validate_for_declaration_def
      validate_answers_def question_result_validate_def validate_probability_def f64_le_def align_def
      measure_decision_results_with_next_def total_attempts_def u64_max_def measure_json_def
      assessment_serde_def decision_serde_def answer_serde_def RESULT_LIMITS_def RESULT_VERSION_def
      counter_new_def charge_def ev_bind_def MAX_FIT_INPUT_DEPTH_def MAX_RESULT_BYTES_def measure_results_def Let_def)

theorem assessment_new_canonical_witness:
  "validate_for_declarations (\<lambda>_. ([], None)) id
       \<lparr>assessed_version = 1, assessed_decisions = [sample_result], assessed_attempts = 1\<rparr>
       [sample_block] [sample_requirements] = Inr ()
    \<and> mset [sample_result] = mset [sample_result]
    \<and> list_all2 (\<lambda>r b. result_decision r = block_name b
         \<and> map answer_name (result_answers r) = map q_name (block_outputs b)) [sample_result] [sample_block]"
  using assessment_new_canonical [OF sample_assessment] by simp

end
