(* ===== verification/Actions.thy ===== *)
theory Actions
  imports Preparation Results
begin

text \<open>
  \<open>actions.rs\<close>: planning of the status actions of an assessment. All actions read one frozen
  context, to which the model's answers are added under \<open>decisions\<close>; they share the
  assessment's budget and one trace. \<open>F\<close> stands for \<open>Number::from_f64\<close>, which has no result
  for an infinite number or a NaN; the \<open>expect\<close> on its result is the outcome
  \<open>PlanningPanic\<close>.
\<close>

section \<open>The code\<close>

datatype planning_failure =
    PlanningError diagnostic_code string
  | PlanningPanic

datatype action_outcome_kind =
    Applied status_result "string option"
  | SkippedConditionFalse
  | SkippedConditionUnavailable
  | SkippedInputUnavailable
  | ActionFailed evaluation_error

record action_outcome =
  outcome_index :: nat
  outcome_kind :: action_outcome_kind

record action_plan =
  plan_status :: "status_result option"
  plan_outcomes :: "action_outcome list"

definition invalid_action_input :: "string \<Rightarrow> evaluation_error" where
  "invalid_action_input message = \<lparr>error_code = RuntimeInvalidContext, error_message = message\<rparr>"

text \<open>A step of one action: it uses the budget and adds to the trace, also before an error.\<close>

type_synonym 'a planning = "(eval_state \<times> evaluation_trace, evaluation_error, 'a) ev"

definition on_budget :: "'a evaluating \<Rightarrow> 'a planning" where
  "on_budget m st = (case m (fst st) of (r, s) \<Rightarrow> (r, (s, snd st)))"

definition merge_trace :: "evaluation_trace \<Rightarrow> unit planning" where
  "merge_trace t st = (Inr (), (fst st, trace_merge (snd st) t))"

definition action_result ::
  "'n json_lib \<Rightarrow> 'n status_result_template \<Rightarrow> 'n json \<Rightarrow> status_result option planning" where
  "action_result L template context =
     (case template of
        ResultLiteral result \<Rightarrow> ev_return (Some result)
      | ResultExpression e \<Rightarrow>
          ev_bind (on_budget (evaluate_checked L e context [] 1)) (\<lambda>v.
          ev_bind (merge_trace (ev_trace v)) (\<lambda>_.
            case ev_value v of
              Unavailable \<Rightarrow> ev_return None
            | Available w \<Rightarrow>
                if w = JString ''success'' then ev_return (Some Success)
                else if w = JString ''failure'' then ev_return (Some Failure)
                else ev_fail (invalid_action_input
                       ''Status result must be exactly `success` or `failure`.''))))"

definition action_message ::
  "'n json_lib \<Rightarrow> 'n input_template \<Rightarrow> 'n json \<Rightarrow> string option planning" where
  "action_message L template context =
     ev_bind (on_budget (prepare_template L context template 1 [])) (\<lambda>(v, _).
     ev_bind (merge_trace (ev_trace v)) (\<lambda>_.
       case ev_value v of
         Unavailable \<Rightarrow> ev_return None
       | Available (JString message) \<Rightarrow>
           if \<not> is_blank message then ev_return (Some message)
           else ev_fail (invalid_action_input ''Status message must be a nonblank string.'')
       | _ \<Rightarrow> ev_fail (invalid_action_input ''Status message must be a nonblank string.'')))"

definition action_body ::
  "'n json_lib \<Rightarrow> 'n status_action \<Rightarrow> 'n json \<Rightarrow> action_outcome_kind planning" where
  "action_body L action context =
     ev_bind (action_result L (act_result action) context) (\<lambda>result.
       case result of
         None \<Rightarrow> ev_return SkippedInputUnavailable
       | Some result \<Rightarrow>
           (case act_message action of
              None \<Rightarrow> ev_return (Applied result None)
            | Some template \<Rightarrow>
                ev_bind (action_message L template context) (\<lambda>message.
                  case message of
                    None \<Rightarrow> ev_return SkippedInputUnavailable
                  | Some text \<Rightarrow> ev_return (Applied result (Some text)))))"

definition plan_action ::
  "'n json_lib \<Rightarrow> 'n status_action \<Rightarrow> 'n json \<Rightarrow> action_outcome_kind planning" where
  "plan_action L action context =
     ev_bind (on_budget (step 1)) (\<lambda>_.
       case act_condition action of
         None \<Rightarrow> action_body L action context
       | Some c \<Rightarrow>
           ev_bind (on_budget (evaluate_condition L c context [] 1)) (\<lambda>v.
           ev_bind (merge_trace (ev_trace v)) (\<lambda>_.
             case ev_value v of
               Unavailable \<Rightarrow> ev_return SkippedConditionUnavailable
             | Available w \<Rightarrow>
                 if \<not> is_truthy L w then ev_return SkippedConditionFalse
                 else action_body L action context)))"

definition finite_number :: "(f64 \<Rightarrow> 'n option) \<Rightarrow> f64 \<Rightarrow> (planning_failure, 'n json) res" where
  "finite_number F v = (case F v of Some n \<Rightarrow> Inr (JNumber n) | None \<Rightarrow> Inl PlanningPanic)"

definition confidence_entry ::
  "(f64 \<Rightarrow> 'n option) \<Rightarrow> f64 option \<Rightarrow> (planning_failure, (string \<times> 'n json) list) res" where
  "confidence_entry F confidence =
     (case confidence of
        None \<Rightarrow> Inr []
      | Some v \<Rightarrow> res_bind (finite_number F v) (\<lambda>n. Inr [(''confidence'', n)]))"

text \<open>The details and the output of one answer.\<close>

fun answer_values ::
  "(f64 \<Rightarrow> 'n option) \<Rightarrow> question_result
     \<Rightarrow> (planning_failure, (string \<times> 'n json) list \<times> 'n json) res" where
  "answer_values F (ChoiceAnswer r) =
     res_bind
       (case choice_probabilities r of
          None \<Rightarrow> Inr []
        | Some ps \<Rightarrow>
            res_bind (res_map (\<lambda>(label, v). res_bind (finite_number F v) (\<lambda>n. Inr (label, n))) ps)
              (\<lambda>entries. Inr [(''probabilities'', JObject (bt_collect entries))])) (\<lambda>probabilities.
     res_bind (confidence_entry F (choice_confidence r)) (\<lambda>confidence.
       Inr (bt_collect (probabilities @ confidence), JString (choice_output r))))"
| "answer_values F (ScoreAnswer r) =
     res_bind
       (case score_probabilities r of
          None \<Rightarrow> Inr []
        | Some ps \<Rightarrow>
            res_bind (res_map (finite_number F) ps)
              (\<lambda>items. Inr [(''probabilities'', JArray items)])) (\<lambda>probabilities.
     res_bind (confidence_entry F (score_confidence r)) (\<lambda>confidence.
     res_bind (finite_number F (score_output r)) (\<lambda>out.
       Inr (bt_collect (probabilities @ confidence), out))))"
| "answer_values F (NoulAnswer r) =
     res_bind (finite_number F (noul_output r)) (\<lambda>out. Inr ([], out))"

definition decision_value ::
  "(f64 \<Rightarrow> 'n option) \<Rightarrow> decision_result \<Rightarrow> (planning_failure, string \<times> 'n json) res" where
  "decision_value F d =
     res_bind (res_map (\<lambda>a. res_bind (answer_values F (answer_result a)) (\<lambda>(details, out).
                 Inr (answer_name a, details, out))) (result_answers d)) (\<lambda>answers.
       Inr (result_decision d,
            JObject (bt_collect
              [(''outputs'', JObject (bt_collect (map (\<lambda>(name, _, out). (name, out)) answers))),
               (''details'', JObject (bt_collect (map (\<lambda>(name, details, _). (name, JObject details)) answers)))])))"

definition context_with_assessment ::
  "(f64 \<Rightarrow> 'n option) \<Rightarrow> 'n json \<Rightarrow> evaluated_assessment \<Rightarrow> (planning_failure, 'n json) res" where
  "context_with_assessment F frozen_context assessed =
     (case frozen_context of
        JObject context \<Rightarrow>
          if bt_contains context ''decisions''
          then Inl (PlanningError RuntimeInvalidContext
                 ''Frozen context must not contain a `decisions` root.'')
          else if assessed_decisions assessed = [] then Inr (JObject context)
          else
            res_bind (res_map (decision_value F) (assessed_decisions assessed)) (\<lambda>decisions.
              Inr (JObject (bt_insert ''decisions'' (JObject (bt_collect decisions)) context)))
      | _ \<Rightarrow> Inl (PlanningError RuntimeInvalidContext
               ''Frozen expression context must be a JSON object.''))"

fun plan_loop ::
  "'n json_lib \<Rightarrow> 'n json \<Rightarrow> nat \<Rightarrow> 'n status_action list \<Rightarrow> status_result option
     \<Rightarrow> action_outcome list
     \<Rightarrow> (eval_state \<times> evaluation_trace, planning_failure, action_plan) ev" where
  "plan_loop L context index [] status outcomes st =
     (Inr \<lparr>plan_status = status, plan_outcomes = outcomes\<rparr>, st)"
| "plan_loop L context index (action # actions) status outcomes st =
     (case plan_action L action context st of
        (Inl e, st) \<Rightarrow>
          if error_code e = EvaluationLimitExceeded \<or> exhausted (fst st)
          then (Inl (PlanningError EvaluationLimitExceeded (error_message e)), st)
          else plan_loop L context (index + 1) actions status
                 (outcomes @ [\<lparr>outcome_index = index, outcome_kind = ActionFailed e\<rparr>]) st
      | (Inr outcome, st) \<Rightarrow>
          plan_loop L context (index + 1) actions
            (case outcome of Applied result _ \<Rightarrow> Some result | _ \<Rightarrow> status)
            (outcomes @ [\<lparr>outcome_index = index, outcome_kind = outcome\<rparr>]) st)"

definition plan_status_actions_traced ::
  "(f64 \<Rightarrow> 'n option) \<Rightarrow> 'n json_lib \<Rightarrow> 'n status_action list \<Rightarrow> 'n json \<Rightarrow> evaluated_assessment
     \<Rightarrow> status_result option
     \<Rightarrow> (eval_state, planning_failure, action_plan \<times> evaluation_trace) ev" where
  "plan_status_actions_traced F L actions frozen_context assessed prior_status s =
     (case step 1 s of
        (Inl e, t) \<Rightarrow> (Inl (PlanningError (error_code e) (error_message e)), t)
      | (Inr _, t) \<Rightarrow>
          (case context_with_assessment F frozen_context assessed of
             Inl e \<Rightarrow> (Inl e, t)
           | Inr context \<Rightarrow>
               (case plan_loop L context 0 actions prior_status [] (t, []) of
                  (Inl e, (u, _)) \<Rightarrow> (Inl e, u)
                | (Inr plan, (u, trace)) \<Rightarrow> (Inr (plan, trace), u))))"

definition plan_status_actions_with_budget ::
  "(f64 \<Rightarrow> 'n option) \<Rightarrow> 'n json_lib \<Rightarrow> 'n status_action list \<Rightarrow> 'n json \<Rightarrow> evaluated_assessment
     \<Rightarrow> status_result option \<Rightarrow> (eval_state, planning_failure, action_plan) ev" where
  "plan_status_actions_with_budget F L actions frozen_context assessed prior_status =
     ev_bind (plan_status_actions_traced F L actions frozen_context assessed prior_status) (\<lambda>(plan, _).
       ev_return plan)"

definition plan_status_actions ::
  "(f64 \<Rightarrow> 'n option) \<Rightarrow> 'n json_lib \<Rightarrow> 'n status_action list \<Rightarrow> 'n json \<Rightarrow> evaluated_assessment
     \<Rightarrow> status_result option \<Rightarrow> (planning_failure, action_plan) res" where
  "plan_status_actions F L actions frozen_context assessed prior_status =
     fst (plan_status_actions_with_budget F L actions frozen_context assessed prior_status
            (start_state default_budget))"

section \<open>The plan\<close>

text \<open>The status that a list of outcomes leaves: its last write, or the one before.\<close>

fun final_status :: "status_result option \<Rightarrow> action_outcome_kind list \<Rightarrow> status_result option" where
  "final_status prior [] = prior"
| "final_status prior (Applied result m # ks) = final_status (Some result) ks"
| "final_status prior (k # ks) = final_status prior ks"

lemma final_status_Cons:
  "final_status prior (k # ks) =
     final_status (case k of Applied result _ \<Rightarrow> Some result | _ \<Rightarrow> prior) ks"
  by (cases k) simp_all

text \<open>The outcomes of a list of actions run in turn, as long as no limit stops them.\<close>

fun action_runs ::
  "'n json_lib \<Rightarrow> 'n json \<Rightarrow> 'n status_action list \<Rightarrow> eval_state \<times> evaluation_trace
     \<Rightarrow> action_outcome_kind list" where
  "action_runs L context [] st = []"
| "action_runs L context (a # as) st =
     (case plan_action L a context st of (r, st') \<Rightarrow>
        (case r of Inl e \<Rightarrow> ActionFailed e | Inr k \<Rightarrow> k) # action_runs L context as st')"

lemma plan_loop_outcomes:
  assumes "plan_loop L c i actions status outs st = (Inr plan, st')"
  shows "plan_outcomes plan = outs @
      map (\<lambda>(j, k). \<lparr>outcome_index = j, outcome_kind = k\<rparr>) (List.enumerate i (action_runs L c actions st))
    \<and> plan_status plan = final_status status (action_runs L c actions st)"
  using assms
proof (induction L c i actions status outs st rule: plan_loop.induct)
  case (2 L c i a as status outs st)
  obtain r u where run: "plan_action L a c st = (r, u)" by (cases "plan_action L a c st")
  show ?case
  proof (cases r)
    case (Inl e)
    then show ?thesis using 2(1) 2(3) run by (auto split: if_splits)
  next
    case (Inr k)
    then show ?thesis
      using 2(2) 2(3) run by (cases k) (auto simp: final_status_Cons)
  qed
qed auto

lemma length_action_runs [simp]: "length (action_runs L c as st) = length as"
  by (induction as arbitrary: st) (auto split: prod.splits)


section \<open>Planning under the budget\<close>

definition budgeted :: "'a planning \<Rightarrow> bool" where
  "budgeted m \<longleftrightarrow>
     (\<forall>s t. budget_extends s (fst (snd (m (s, t))))
        \<and> (\<not> exhausted s \<longrightarrow> outcome_agrees (fst (m (s, t))) (fst (snd (m (s, t))))))"

lemma budgeted_return [simp]: "budgeted (ev_return x)"
  by (simp add: budgeted_def outcome_agrees_def budget_order.refl)

lemma budgeted_Pair [simp]: "budgeted (Pair (Inr x))"
  by (simp add: budgeted_def outcome_agrees_def budget_order.refl)

lemma budgeted_fail [simp]: "budgeted (ev_fail (invalid_action_input m))"
  by (simp add: budgeted_def outcome_agrees_def budget_order.refl invalid_action_input_def)

lemma budgeted_merge [simp]: "budgeted (merge_trace t)"
  by (simp add: budgeted_def merge_trace_def outcome_agrees_def budget_order.refl)

lemma budgeted_on_budget: "metered m \<Longrightarrow> budgeted (on_budget m)"
  using meteredD(1,2) [of m] by (auto simp: budgeted_def on_budget_def split: prod.splits)
    (metis fst_conv snd_conv)+

lemma budgeted_bind:
  assumes "budgeted m" "\<And>x. budgeted (f x)"
  shows "budgeted (ev_bind m f)"
  unfolding budgeted_def
proof (intro allI conjI impI)
  fix s t
  obtain r s1 t1 where m: "m (s, t) = (r, (s1, t1))" by (metis prod.exhaust)
  have m1: "budget_extends s s1" "\<not> exhausted s \<Longrightarrow> outcome_agrees r s1"
    using assms(1) m unfolding budgeted_def by (metis fst_conv snd_conv)+
  have f1: "budget_extends s1 (fst (snd (f x (s1, t1))))"
    "\<not> exhausted s1 \<Longrightarrow> outcome_agrees (fst (f x (s1, t1))) (fst (snd (f x (s1, t1))))" for x
    using assms(2) unfolding budgeted_def by blast+
  show "budget_extends s (fst (snd (ev_bind m f (s, t))))"
    using m m1(1) f1(1) by (cases r) (auto simp: ev_bind_def intro: budget_order.trans)
  assume "\<not> exhausted s"
  then show "outcome_agrees (fst (ev_bind m f (s, t))) (fst (snd (ev_bind m f (s, t))))"
    using m m1(2) f1(2) by (cases r) (auto simp: ev_bind_def outcome_agrees_def)
qed

lemma budgeted_plan_action: "budgeted (plan_action L a c)"
proof -
  have "budgeted (action_result L t c)" for t
    by (auto simp: action_result_def intro!: budgeted_bind budgeted_on_budget
        split: status_result_template.splits evaluation_value.splits)
  moreover have "budgeted (action_message L t c)" for t
    by (auto simp: action_message_def intro!: budgeted_bind budgeted_on_budget
        split: evaluation_value.splits json.splits)
  ultimately have "budgeted (action_body L a c)"
    by (auto simp: action_body_def intro!: budgeted_bind split: option.splits)
  then show ?thesis
    by (auto simp: plan_action_def intro!: budgeted_bind budgeted_on_budget
        split: option.splits evaluation_value.splits)
qed

lemma plan_loop_budget:
  assumes "\<not> exhausted (fst st)" "plan_loop L c i as status outs st = (r, st')"
  shows "budget_extends (fst st) (fst st')
    \<and> (case r of Inr _ \<Rightarrow> \<not> exhausted (fst st')
       | Inl e \<Rightarrow> exhausted (fst st') \<and> (\<exists>m. e = PlanningError EvaluationLimitExceeded m))"
  using assms
proof (induction as arbitrary: i status outs st)
  case Nil
  then show ?case by (auto simp: budget_order.refl)
next
  case (Cons a as)
  obtain k u where run: "plan_action L a c st = (k, u)" by (cases "plan_action L a c st")
  have act: "budget_extends (fst st) (fst u)" "outcome_agrees k (fst u)"
    using budgeted_plan_action [of L a c] Cons.prems(1) run unfolding budgeted_def
    by (metis fst_conv prod.collapse snd_conv)+
  show ?case
  proof (cases "exhausted (fst u)")
    case True
    then obtain e where "k = Inl e" "error_code e = EvaluationLimitExceeded"
      using act(2) by (cases k) (auto simp: outcome_agrees_def)
    then show ?thesis using Cons.prems(2) run act(1) True by auto
  next
    case False
    then have "k = Inl e \<Longrightarrow> error_code e \<noteq> EvaluationLimitExceeded" for e
      using act(2) by (auto simp: outcome_agrees_def)
    with Cons.prems(2) run False obtain i' status' outs' where
      "plan_loop L c i' as status' outs' u = (r, st')" by (cases k) auto
    from Cons.IH [OF False this] show ?thesis using act(1) budget_order.trans by blast
  qed
qed

lemma res_map_panic:
  "res_map f xs = Inl (PlanningError code m) \<Longrightarrow> \<exists>x \<in> set xs. f x = Inl (PlanningError code m)"
  by (rule res_map_Inl)

lemma finite_number_errors [simp]: "finite_number F v \<noteq> Inl (PlanningError code m)"
  by (simp add: finite_number_def split: option.splits)

lemma res_bind_Inl: "res_bind m f = Inl e \<longleftrightarrow> m = Inl e \<or> (\<exists>x. m = Inr x \<and> f x = Inl e)"
  by (cases m) auto

lemma answer_values_errors: "answer_values F q \<noteq> Inl (PlanningError code m)"
  by (cases q)
    (auto simp: res_bind_Inl confidence_entry_def split: option.splits prod.splits dest!: res_map_Inl)

lemma context_errors:
  "context_with_assessment F c a = Inl (PlanningError code m) \<Longrightarrow> code = RuntimeInvalidContext"
  by (auto simp: context_with_assessment_def decision_value_def res_bind_Inl answer_values_errors
      split: json.splits if_splits prod.splits dest!: res_map_Inl)

text \<open>
  C34. Planning stays within the assessment's budget and reports the limit code exactly when
  it exhausts it; in that case there is no plan, so no earlier write of the list can be
  accepted.
\<close>

theorem plan_within_budget:
  assumes "within_limits s" "\<not> exhausted s"
  shows "case plan_status_actions_traced F L actions c assessed prior s of (r, t) \<Rightarrow>
     within_limits t \<and> limits t = limits s
     \<and> (exhausted t \<longleftrightarrow> (\<exists>m. r = Inl (PlanningError EvaluationLimitExceeded m)))"
proof -
  obtain k u where start: "step 1 s = (k, u)" by fastforce
  have step: "budget_extends s u" "outcome_agrees k u"
    using meteredD(1,2) [OF metered_step [of 1], of s] start assms(2) by auto
  show ?thesis
  proof (cases k)
    case (Inl e)
    then have "exhausted u \<longleftrightarrow> error_code e = EvaluationLimitExceeded"
      using step(2) by (simp add: outcome_agrees_def)
    then show ?thesis
      using start step(1) Inl assms(1) by (auto simp: plan_status_actions_traced_def budget_extends_def)
  next
    case (Inr x)
    then have active: "\<not> exhausted u" using step(2) by (simp add: outcome_agrees_def)
    show ?thesis
    proof (cases "context_with_assessment F c assessed")
      case (Inl e)
      then show ?thesis
        using start step(1) Inr active assms(1) context_errors [of F c assessed]
        by (auto simp: plan_status_actions_traced_def budget_extends_def)
    next
      case (Inr j)
      obtain r v t where loop: "plan_loop L j 0 actions prior [] (u, []) = (r, (v, t))"
        by (metis prod.exhaust)
      have "budget_extends s v"
        using plan_loop_budget [OF _ loop] active step(1) budget_order.trans by fastforce
      then show ?thesis
        using plan_loop_budget [OF _ loop] active start \<open>k = Inr x\<close> Inr loop assms(1)
        by (auto simp: plan_status_actions_traced_def budget_extends_def split: sum.splits)
    qed
  qed
qed

theorem plan_within_budget_witness:
  "case plan_status_actions_traced (\<lambda>_. None) nat_lib [] (JObject []) assessment_local None
          (start_state default_budget) of (r, t) \<Rightarrow>
     within_limits t \<and> limits t = limits (start_state default_budget)
     \<and> (exhausted t \<longleftrightarrow> (\<exists>m. r = Inl (PlanningError EvaluationLimitExceeded m)))"
  by (rule plan_within_budget) (simp_all add: within_limits_def start_state_def default_state_simps)

section \<open>Validated assessments\<close>

text \<open>The conversion of finite numbers, \<open>Number::from_f64\<close>, fails on no finite value.\<close>

definition converts_finite :: "(f64 \<Rightarrow> 'n option) \<Rightarrow> bool" where
  "converts_finite F \<longleftrightarrow> (\<forall>v. is_finite v \<longrightarrow> F v \<noteq> None)"

lemma finite_number_ok:
  "converts_finite F \<Longrightarrow> is_finite v \<Longrightarrow> finite_number F v \<noteq> Inl e"
  by (auto simp: converts_finite_def finite_number_def split: option.splits)

lemma confidence_entry_ok:
  "converts_finite F \<Longrightarrow> pred_option is_finite conf \<Longrightarrow> confidence_entry F conf \<noteq> Inl e"
  by (cases conf) (auto simp: confidence_entry_def res_bind_Inl finite_number_ok)

lemma answer_values_ok:
  assumes "converts_finite F" "ser_finite (question_result_serde q)"
  shows "answer_values F q \<noteq> Inl e"
proof (cases q)
  case (ChoiceAnswer r)
  have "pred_option is_finite (choice_confidence r)"
    and "list_all is_finite (map snd (case choice_probabilities r of None \<Rightarrow> [] | Some ps \<Rightarrow> ps))"
    using assms(2) ChoiceAnswer
    by (cases "choice_confidence r"; cases "choice_probabilities r";
        auto simp: optional_field_def list_all_iff)+
  then show ?thesis
    using assms(1) ChoiceAnswer finite_number_ok
    by (fastforce simp: res_bind_Inl confidence_entry_ok list_all_iff split: option.splits dest!: res_map_Inl)
next
  case (ScoreAnswer r)
  have "pred_option is_finite (score_confidence r)" "is_finite (score_output r)"
    and "list_all is_finite (case score_probabilities r of None \<Rightarrow> [] | Some ps \<Rightarrow> ps)"
    using assms(2) ScoreAnswer
    by (cases "score_confidence r"; cases "score_probabilities r";
        auto simp: optional_field_def list_all_iff)+
  then show ?thesis
    using assms(1) ScoreAnswer finite_number_ok
    by (fastforce simp: res_bind_Inl confidence_entry_ok list_all_iff split: option.splits dest!: res_map_Inl)
qed (use assms finite_number_ok in \<open>auto simp: res_bind_Inl\<close>)

lemma context_no_panic:
  assumes "converts_finite F" "ser_finite (assessment_serde I a)"
  shows "context_with_assessment F c a \<noteq> Inl PlanningPanic"
proof -
  have "decision_value F d \<noteq> Inl e" if "d \<in> set (assessed_decisions a)" for d e
    using that assms answer_values_ok
    by (fastforce simp: decision_value_def res_bind_Inl assessment_serde_def decision_serde_def
        answer_serde_def list_all_iff dest!: res_map_Inl)
  then show ?thesis
    by (auto simp: context_with_assessment_def res_bind_Inl split: json.splits dest!: res_map_Inl)
qed

lemma plan_loop_no_panic: "fst (plan_loop L c i actions status outs st) \<noteq> Inl PlanningPanic"
  by (induction L c i actions status outs st rule: plan_loop.induct) (auto split: prod.splits sum.splits)

text \<open>
  Planning on a validated assessment does not panic: \<open>validate_for_declarations\<close> admits
  only finite numbers, so the \<open>expect\<close> in \<open>finite_number\<close> succeeds for every probability,
  confidence and score that the plan exposes to its actions.
\<close>

lemma validated_plan_no_panic:
  assumes "validate_for_declarations W I a bs rs = Inr ()" "converts_finite F"
  shows "fst (plan_status_actions_traced F L actions c a prior s) \<noteq> Inl PlanningPanic"
proof -
  obtain m where "measure_json W (assessment_serde I a) RESULT_LIMITS = Inr m"
    using assms(1)
    by (auto simp: validate_for_declarations_def measure_results_def split: if_splits)
  then have "ser_finite (assessment_serde I a)" using measure_accepts by blast
  then have "context_with_assessment F c a \<noteq> Inl PlanningPanic"
    by (rule context_no_panic [OF assms(2)])
  then show ?thesis
    using plan_loop_no_panic [of L _ 0 actions prior "[]"]
    by (auto simp: plan_status_actions_traced_def split: prod.splits sum.splits) (metis fst_conv)
qed

end
