(* ===== verification/Paths.thy ===== *)
theory Paths
  imports Prelude
begin

text \<open>
  The part of \<open>std::path\<close> that discovery and the definition lifecycle use, on a Unix host. A
  path is its text; paths are compared by their components, so repeated and trailing
  separators and inner \<open>.\<close> components do not distinguish two paths.
\<close>

datatype path_component = RootDir | CurDir | ParentDir | NormalDir string

fun component_key :: "path_component \<Rightarrow> nat \<times> string" where
  "component_key RootDir = (0, [])"
| "component_key CurDir = (1, [])"
| "component_key ParentDir = (2, [])"
| "component_key (NormalDir name) = (3, name)"

lemma component_key_inject [simp]: "component_key a = component_key b \<longleftrightarrow> a = b"
  by (cases a; cases b) simp_all

text \<open>The derived order of \<open>Component\<close>: first the variant, then the name.\<close>

instantiation path_component :: linorder
begin

definition less_eq_path_component :: "path_component \<Rightarrow> path_component \<Rightarrow> bool" where
  "a \<le> b \<longleftrightarrow>
     (fst (component_key a) < fst (component_key b)
      \<or> fst (component_key a) = fst (component_key b) \<and> snd (component_key a) \<le> snd (component_key b))"

definition less_path_component :: "path_component \<Rightarrow> path_component \<Rightarrow> bool" where
  "a < b \<longleftrightarrow>
     (fst (component_key a) < fst (component_key b)
      \<or> fst (component_key a) = fst (component_key b) \<and> snd (component_key a) < snd (component_key b))"

instance
proof
  fix a b c :: path_component
  show "a < b \<longleftrightarrow> a \<le> b \<and> \<not> b \<le> a"
    by (auto simp: less_path_component_def less_eq_path_component_def)
  show "a \<le> a" by (simp add: less_eq_path_component_def)
  show "a \<le> b \<Longrightarrow> b \<le> c \<Longrightarrow> a \<le> c" by (auto simp: less_eq_path_component_def)
  show "a \<le> b \<Longrightarrow> b \<le> a \<Longrightarrow> a = b"
    by (subst component_key_inject [symmetric]) (auto simp: less_eq_path_component_def prod_eq_iff)
  show "a \<le> b \<or> b \<le> a" by (auto simp: less_eq_path_component_def)
qed

end

section \<open>Components\<close>

fun segment_component :: "string \<Rightarrow> path_component list" where
  "segment_component s =
     (if s = [] \<or> s = ''.'' then [] else if s = ''..'' then [ParentDir] else [NormalDir s])"

definition path_components :: "string \<Rightarrow> path_component list" where
  "path_components p =
     (let segments = split_on (CHR ''/'') p in
      (if p \<noteq> [] \<and> hd p = CHR ''/'' then [RootDir]
       else if hd segments = ''.'' then [CurDir] else [])
      @ concat (map segment_component segments))"

text \<open>\<open>PartialEq\<close> on paths, on lists of paths and on optional paths.\<close>

definition same_path :: "string \<Rightarrow> string \<Rightarrow> bool" where
  "same_path p q \<longleftrightarrow> path_components p = path_components q"

definition same_paths :: "string list \<Rightarrow> string list \<Rightarrow> bool" where
  "same_paths ps qs \<longleftrightarrow> map path_components ps = map path_components qs"

definition same_root :: "string option \<Rightarrow> string option \<Rightarrow> bool" where
  "same_root r r' \<longleftrightarrow> map_option path_components r = map_option path_components r'"

lemma same_path_simps [simp]: "same_path p p" "same_paths ps ps" "same_root r r"
  by (simp_all add: same_path_def same_paths_def same_root_def)

text \<open>\<open>parent\<close>, as the components of the parent path.\<close>

definition path_parent :: "string \<Rightarrow> path_component list option" where
  "path_parent p =
     (let cs = path_components p in
      if cs = [] \<or> last cs = RootDir then None else Some (butlast cs))"

definition file_name :: "string \<Rightarrow> string option" where
  "file_name p =
     (let cs = path_components p in
      if cs = [] then None else (case last cs of NormalDir name \<Rightarrow> Some name | _ \<Rightarrow> None))"

text \<open>
  The split of a file name at its last dot: a name without a dot, or with only a leading
  one, is all stem.
\<close>

definition rsplit_dot :: "string \<Rightarrow> string option \<times> string option" where
  "rsplit_dot name =
     (if CHR ''.'' \<notin> set name then (Some name, None)
      else
        (let after = rev (takeWhile (\<lambda>c. c \<noteq> CHR ''.'') (rev name));
             before = take (length name - length after - 1) name
         in if before = [] then (Some name, None) else (Some before, Some after)))"

definition file_stem :: "string \<Rightarrow> string option" where
  "file_stem p = Option.bind (file_name p) (\<lambda>name. fst (rsplit_dot name))"

definition path_extension :: "string \<Rightarrow> string option" where
  "path_extension p = Option.bind (file_name p) (\<lambda>name. snd (rsplit_dot name))"

definition path_join :: "string \<Rightarrow> string \<Rightarrow> string" where
  "path_join base p =
     (if p \<noteq> [] \<and> hd p = CHR ''/'' then p
      else if base \<noteq> [] \<and> last base \<noteq> CHR ''/'' then base @ ''/'' @ p
      else base @ p)"

lemma file_name_cong: "same_path p q \<Longrightarrow> file_name p = file_name q"
  by (simp add: file_name_def same_path_def)

lemma path_parts_cong:
  assumes "same_path p q"
  shows "file_stem p = file_stem q" "path_extension p = path_extension q" "path_parent p = path_parent q"
  using assms file_name_cong [OF assms]
  by (simp_all add: file_stem_def path_extension_def path_parent_def same_path_def)

end
