(* ===== verification/Discovery.thy ===== *)
theory Discovery
  imports Paths Diagnostics Check_Types "HOL-Library.Product_Lexorder" "HOL-Library.Multiset"
begin

text \<open>
  \<open>discovery.rs\<close>: the pure resolution of check files. Files directly under a configured
  directory are compiled and grouped by scope and identity; a group becomes one effective
  definition, and project definitions replace global ones. The compiler and the SHA-256
  digest are parameters.
\<close>

section \<open>The code\<close>

record discovery_config =
  global_checks_directory :: "string option"
  project_root :: "string option"

record check_file =
  file_path :: string
  file_content :: "(diagnostic, string) res"
  file_enabled :: bool

datatype definition_scope = GlobalScope | ProjectScope

instantiation definition_scope :: linorder
begin

definition less_eq_definition_scope :: "definition_scope \<Rightarrow> definition_scope \<Rightarrow> bool" where
  "a \<le> b \<longleftrightarrow> a = GlobalScope \<or> b = ProjectScope"

definition less_definition_scope :: "definition_scope \<Rightarrow> definition_scope \<Rightarrow> bool" where
  "a < b \<longleftrightarrow> a = GlobalScope \<and> b = ProjectScope"

instance
  by standard
    (auto simp: less_eq_definition_scope_def less_definition_scope_def intro: definition_scope.exhaust)

end

datatype ('n, 'f) definition_state =
    Ready "('n, 'f) compiled_check"
  | Invalid "diagnostic list"
  | Paused "diagnostic list"

record ('n, 'f) effective_definition =
  def_id :: string
  def_scope :: definition_scope
  def_source_paths :: "string list"
  def_revision :: string
  def_state :: "('n, 'f) definition_state"

record ('n, 'f) discovery_result =
  definitions :: "('n, 'f) effective_definition list"
  diagnostics :: "diagnostic list"

record ('n, 'f) parsed_candidate =
  pc_file :: check_file
  pc_result :: "(diagnostic list, ('n, 'f) compiled_check) res"

type_synonym ('n, 'f) compiler = "string \<Rightarrow> (diagnostic list, ('n, 'f) compiled_check) res"

definition is_immediate_yaml_child :: "string \<Rightarrow> string \<Rightarrow> bool" where
  "is_immediate_yaml_child directory path \<longleftrightarrow>
     path_parent path = Some (path_components directory)
     \<and> (path_extension path = Some ''yml'' \<or> path_extension path = Some ''yaml'')"

definition check_id :: "string \<Rightarrow> string option" where
  "check_id path =
     (case file_stem path of
        None \<Rightarrow> None
      | Some stem \<Rightarrow>
          (case stem of
             [] \<Rightarrow> None
           | b # bs \<Rightarrow>
               if \<not> is_ascii_lowercase b then None
               else if \<not> list_all (\<lambda>c. is_ascii_lowercase c \<or> is_ascii_digit c \<or> c = CHR ''-'') bs
               then None
               else Some stem))"

definition content_revision ::
  "(string \<Rightarrow> string) \<Rightarrow> ('n, 'f) parsed_candidate list \<Rightarrow> string" where
  "content_revision sha256 candidates =
     sha256 (concat (map (\<lambda>c.
       (case file_content (pc_file c) of
          Inr content \<Rightarrow> content
        | Inl e \<Rightarrow> [CHR 0xFF] @ code_as_str (diag_code e) @ diag_message e) @ [CHR 0x00]) candidates))"

fun scope_label :: "definition_scope \<Rightarrow> string" where
  "scope_label GlobalScope = ''global''"
| "scope_label ProjectScope = ''project''"

text \<open>A scope group in path order, as a definition and the diagnostics it adds.\<close>

definition resolve_scope_group ::
  "(string \<Rightarrow> string) \<Rightarrow> string \<Rightarrow> definition_scope \<Rightarrow> ('n, 'f) parsed_candidate list
     \<Rightarrow> ('n, 'f) effective_definition \<times> diagnostic list" where
  "resolve_scope_group sha256 ident sc unsorted =
     (let candidates = sort_key (\<lambda>c. path_components (file_path (pc_file c))) unsorted;
          source_paths = map (\<lambda>c. file_path (pc_file c)) candidates;
          revision = content_revision sha256 candidates;
          result = (\<lambda>state. \<lparr>def_id = ident, def_scope = sc, def_source_paths = source_paths,
                             def_revision = revision, def_state = state\<rparr>)
      in if length candidates > 1
         then
           (let duplicate = diagnostic_new DiscoveryDuplicateId
                  (''Multiple '' @ scope_label sc @ '' files define check ID `'' @ ident @ ''`.'')
            in (result (Invalid [duplicate]), map (with_source_path duplicate) source_paths))
         else
           (let candidate = last candidates;
                path = file_path (pc_file candidate);
                errors = (case pc_result candidate of Inr _ \<Rightarrow> [] | Inl es \<Rightarrow> map (\<lambda>e. with_source_path e path) es)
            in if \<not> file_enabled (pc_file candidate)
               then (result (Paused errors),
                     errors @ [with_source_path
                       (diagnostic_new DiscoveryPaused (''Selected check `'' @ ident @ ''` is paused.'')) path])
               else
                 (case pc_result candidate of
                    Inr compiled \<Rightarrow> (result (Ready compiled), [])
                  | Inl _ \<Rightarrow> (result (Invalid errors), errors))))"

definition project_directory :: "discovery_config \<Rightarrow> string option" where
  "project_directory config =
     map_option (\<lambda>root. path_join (path_join root ''.antiburn'') ''checks'') (project_root config)"

definition file_scope :: "discovery_config \<Rightarrow> check_file \<Rightarrow> definition_scope option" where
  "file_scope config file =
     (if (case global_checks_directory config of
            None \<Rightarrow> False | Some d \<Rightarrow> is_immediate_yaml_child d (file_path file))
      then Some GlobalScope
      else if (case project_directory config of
                 None \<Rightarrow> False | Some d \<Rightarrow> is_immediate_yaml_child d (file_path file))
      then Some ProjectScope
      else None)"

definition parse_candidate :: "('n, 'f) compiler \<Rightarrow> check_file \<Rightarrow> ('n, 'f) parsed_candidate" where
  "parse_candidate compile file =
     \<lparr>pc_file = file,
      pc_result =
        (case file_content file of
           Inr content \<Rightarrow> res_map_err (map (\<lambda>e. with_source_path e (file_path file))) (compile content)
         | Inl e \<Rightarrow> Inl [with_source_path e (file_path file)])\<rparr>"

type_synonym ('n, 'f) groups = "(definition_scope \<times> string, ('n, 'f) parsed_candidate list) bt"

definition group_push ::
  "definition_scope \<times> string \<Rightarrow> ('n, 'f) parsed_candidate \<Rightarrow> ('n, 'f) groups \<Rightarrow> ('n, 'f) groups" where
  "group_push key candidate groups =
     bt_insert key ((case bt_get groups key of None \<Rightarrow> [] | Some cs \<Rightarrow> cs) @ [candidate]) groups"

definition group_file ::
  "('n, 'f) compiler \<Rightarrow> discovery_config \<Rightarrow> check_file
     \<Rightarrow> ('n, 'f) groups \<times> diagnostic list \<Rightarrow> ('n, 'f) groups \<times> diagnostic list" where
  "group_file compile config file st =
     (case st of (groups, ds) \<Rightarrow>
        (case file_scope config file of
           None \<Rightarrow> (groups, ds)
         | Some sc \<Rightarrow>
             (case check_id (file_path file) of
                None \<Rightarrow>
                  (groups, ds @ [with_source_path
                     (diagnostic_new DiscoveryInvalidId ''Check filename stem must match [a-z][a-z0-9-]*.'')
                     (file_path file)])
              | Some ident \<Rightarrow> (group_push (sc, ident) (parse_candidate compile file) groups, ds))))"

type_synonym ('n, 'f) resolved = "(string, ('n, 'f) effective_definition) bt"

definition resolve_entry ::
  "(string \<Rightarrow> string) \<Rightarrow> (definition_scope \<times> string) \<times> ('n, 'f) parsed_candidate list
     \<Rightarrow> ('n, 'f) resolved \<times> ('n, 'f) resolved \<times> diagnostic list
     \<Rightarrow> ('n, 'f) resolved \<times> ('n, 'f) resolved \<times> diagnostic list" where
  "resolve_entry sha256 entry st =
     (case (entry, st) of (((sc, ident), candidates), (globals, projects, ds)) \<Rightarrow>
        (case resolve_scope_group sha256 ident sc candidates of (d, new) \<Rightarrow>
           (case sc of
              GlobalScope \<Rightarrow> (bt_insert ident d globals, projects, ds @ new)
            | ProjectScope \<Rightarrow> (globals, bt_insert ident d projects, ds @ new))))"

definition shadow_diagnostics :: "('n, 'f) resolved \<Rightarrow> ('n, 'f) resolved \<Rightarrow> diagnostic list" where
  "shadow_diagnostics globals projects =
     concat (map (\<lambda>ident.
       case bt_get globals ident of
         None \<Rightarrow> []
       | Some shadowed \<Rightarrow>
           map (with_source_path (diagnostic_new DiscoveryShadowed
                 (''Global check `'' @ ident @ ''` is shadowed by a project definition.'')))
             (def_source_paths shadowed)) (map fst projects))"

definition discover_definitions ::
  "('n, 'f) compiler \<Rightarrow> (string \<Rightarrow> string) \<Rightarrow> discovery_config \<Rightarrow> check_file list
     \<Rightarrow> ('n, 'f) discovery_result" where
  "discover_definitions compile sha256 config files =
     (case fold (group_file compile config) files ([], []) of (groups, ds) \<Rightarrow>
        (case fold (resolve_entry sha256) groups ([], [], ds) of (globals, projects, ds) \<Rightarrow>
           \<lparr>definitions = map snd (fold (\<lambda>(k, v). bt_insert k v) projects globals),
            diagnostics = ds @ shadow_diagnostics globals projects\<rparr>))"

section \<open>Groups of files\<close>

text \<open>
  The specification: the files of one scope and identity, and the definition that is
  effective for an identity.
\<close>

definition files_of ::
  "discovery_config \<Rightarrow> check_file list \<Rightarrow> definition_scope \<Rightarrow> string \<Rightarrow> check_file list" where
  "files_of config files sc ident =
     filter (\<lambda>f. file_scope config f = Some sc \<and> check_id (file_path f) = Some ident) files"

definition group_definition ::
  "('n, 'f) compiler \<Rightarrow> (string \<Rightarrow> string) \<Rightarrow> definition_scope \<Rightarrow> string \<Rightarrow> check_file list
     \<Rightarrow> ('n, 'f) effective_definition" where
  "group_definition compile sha256 sc ident files =
     fst (resolve_scope_group sha256 ident sc (map (parse_candidate compile) files))"

definition effective ::
  "('n, 'f) compiler \<Rightarrow> (string \<Rightarrow> string) \<Rightarrow> discovery_config \<Rightarrow> check_file list
     \<Rightarrow> string \<Rightarrow> ('n, 'f) effective_definition option" where
  "effective compile sha256 config files ident =
     (let projects = files_of config files ProjectScope ident;
          globals = files_of config files GlobalScope ident
      in if projects \<noteq> [] then Some (group_definition compile sha256 ProjectScope ident projects)
         else if globals \<noteq> [] then Some (group_definition compile sha256 GlobalScope ident globals)
         else None)"

lemma group_definition_fields [simp]:
  "def_id (group_definition compile sha256 sc ident files) = ident"
  "def_scope (group_definition compile sha256 sc ident files) = sc"
  by (auto simp: group_definition_def resolve_scope_group_def Let_def split: sum.splits)

text \<open>The list a map holds at a key, with the absent list empty as \<open>or_default\<close> has it.\<close>

definition listed :: "('k, 'v list) bt \<Rightarrow> 'k \<Rightarrow> 'v list" where
  "listed m k = (case bt_get m k of None \<Rightarrow> [] | Some vs \<Rightarrow> vs)"

lemma group_files:
  assumes "bt_ok m" "\<forall>k. bt_get m k \<noteq> Some []"
  shows "bt_ok (fst (fold (group_file compile config) files (m, ds)))
    \<and> (\<forall>k. bt_get (fst (fold (group_file compile config) files (m, ds))) k \<noteq> Some [])
    \<and> (\<forall>sc ident. listed (fst (fold (group_file compile config) files (m, ds))) (sc, ident) =
          listed m (sc, ident) @ map (parse_candidate compile) (files_of config files sc ident))"
  using assms
proof (induction files arbitrary: m ds)
  case (Cons f fs)
  obtain n es where step: "group_file compile config f (m, ds) = (n, es)" by fastforce
  have "bt_ok n" "\<forall>k. bt_get n k \<noteq> Some []"
    "listed n (sc, ident) =
       listed m (sc, ident) @ map (parse_candidate compile) (files_of config [f] sc ident)" for sc ident
    using step Cons.prems
    by (auto simp: group_file_def group_push_def bt.invar_store bt.lookup_store listed_def files_of_def
        split: option.splits if_splits)
  then show ?case using Cons.IH [of n es] step by (simp add: files_of_def)
qed (simp add: files_of_def)

lemma resolve_entry_simps [simp]:
  "resolve_entry sha256 ((GlobalScope, i), cs) (globals, projects, ds) =
     (bt_insert i (fst (resolve_scope_group sha256 i GlobalScope cs)) globals, projects,
      ds @ snd (resolve_scope_group sha256 i GlobalScope cs))"
  "resolve_entry sha256 ((ProjectScope, i), cs) (globals, projects, ds) =
     (globals, bt_insert i (fst (resolve_scope_group sha256 i ProjectScope cs)) projects,
      ds @ snd (resolve_scope_group sha256 i ProjectScope cs))"
  by (simp_all add: resolve_entry_def split_beta)

lemma resolve_entries:
  assumes "bt_ok globals" "bt_ok projects"
    and "fold (resolve_entry sha256) entries (globals, projects, ds) = (globals', projects', ds')"
  shows "bt_ok globals' \<and> bt_ok projects'
    \<and> bt_get globals' = bt_get globals ++
        (\<lambda>i. map_option (\<lambda>cs. fst (resolve_scope_group sha256 i GlobalScope cs)) (map_of (rev entries) (GlobalScope, i)))
    \<and> bt_get projects' = bt_get projects ++
        (\<lambda>i. map_option (\<lambda>cs. fst (resolve_scope_group sha256 i ProjectScope cs)) (map_of (rev entries) (ProjectScope, i)))"
  using assms
proof (induction entries arbitrary: globals projects ds)
  case (Cons e es)
  obtain sc ident cs where e: "e = ((sc, ident), cs)" by (metis prod.exhaust)
  then show ?case
  proof (cases sc)
    case GlobalScope
    then show ?thesis
      using Cons.IH [of "bt_insert ident (fst (resolve_scope_group sha256 ident GlobalScope cs)) globals"
          projects] Cons.prems
      by (auto simp: e bt.invar_store bt.lookup_store fun_eq_iff map_add_def split: option.splits)
  next
    case ProjectScope
    then show ?thesis
      using Cons.IH [of globals
          "bt_insert ident (fst (resolve_scope_group sha256 ident ProjectScope cs)) projects"] Cons.prems
      by (auto simp: e bt.invar_store bt.lookup_store fun_eq_iff map_add_def split: option.splits)
  qed
qed auto

lemma bt_get_rev: "bt_ok m \<Longrightarrow> map_of (rev m) = bt_get m"
  using bt_ok_distinct [of m] by (intro ext) (metis bt_get_def distinct_rev map_of_inject_set rev_map set_rev)

lemma bt_unique:
  assumes "bt_ok m" "bt_ok n" "bt_get m = bt_get n"
  shows "m = n"
proof -
  have "set (map fst m) = set (map fst n)" using assms(3) by (simp add: bt_keys)
  then have "map fst m = map fst n" using assms(1,2) by (simp add: bt_ok_def strict_sorted_equal)
  moreover have "snd p = the (bt_get k (fst p))" if "bt_ok k" "p \<in> set k" for k :: "('a, 'b) bt" and p
    using that bt_get_iff [of k "fst p" "snd p"] by simp
  then have "map snd k = map (\<lambda>i. the (bt_get k i)) (map fst k)" if "bt_ok k" for k :: "('a, 'b) bt"
    using that by simp
  ultimately show ?thesis using assms by (metis zip_map_fst_snd)
qed

lemma discovered:
  defines "m \<equiv> \<lambda>r. map (\<lambda>d. (def_id d, d)) (definitions r)"
  shows "bt_ok (m (discover_definitions compile sha256 config files))
    \<and> bt_get (m (discover_definitions compile sha256 config files)) = effective compile sha256 config files"
proof -
  obtain g ds where g: "fold (group_file compile config) files ([], []) = (g, ds)" by fastforce
  obtain globals projects ds' where r: "fold (resolve_entry sha256) g ([], [], ds) = (globals, projects, ds')"
    by (metis prod.exhaust)
  let ?all = "fold (\<lambda>(k, v). bt_insert k v) projects globals"
  have groups: "bt_ok g" "bt_get g (sc, ident) \<noteq> Some []"
    "listed g (sc, ident) = map (parse_candidate compile) (files_of config files sc ident)" for sc ident
    using group_files [of "[]" compile config files "[]"] by (auto simp: g bt_get_def listed_def)
  have get: "bt_get g (sc, ident) =
      (let fs = files_of config files sc ident in
       if fs = [] then None else Some (map (parse_candidate compile) fs))" for sc ident
    using groups(2) [of sc ident] groups(3) [of sc ident] by (auto simp: listed_def Let_def split: option.splits)
  have ok: "bt_ok globals" "bt_ok projects"
    and maps: "bt_get globals = (\<lambda>i. map_option (\<lambda>cs. fst (resolve_scope_group sha256 i GlobalScope cs))
        (bt_get g (GlobalScope, i)))"
      "bt_get projects = (\<lambda>i. map_option (\<lambda>cs. fst (resolve_scope_group sha256 i ProjectScope cs))
        (bt_get g (ProjectScope, i)))"
    using resolve_entries [OF _ _ r] by (auto simp: bt_get_rev groups(1) bt_get_def [of "[]"] map_add_def fun_eq_iff split: option.splits)
  have all: "bt_ok ?all" "bt_get ?all = effective compile sha256 config files"
    using ok maps
    by (auto simp: bt_ok_fold bt_get_fold bt_get_rev get effective_def group_definition_def Let_def
        fun_eq_iff split: option.splits)
  have "def_id d = i" if "(i, d) \<in> set ?all" for i d
    using that bt_get_iff [OF all(1), of i d] by (auto simp: all(2) effective_def Let_def split: if_splits)
  then have "map (\<lambda>d. (def_id d, d)) (map snd ?all) = ?all" by (auto intro!: map_idI)
  then show ?thesis using all by (simp add: m_def discover_definitions_def g r comp_def)
qed

text \<open>
  C19. Discovery yields one effective definition per identity, in identity order: the
  definition of the project files with that identity if there are any, valid or not, and
  otherwise that of the global files.
\<close>

theorem discover_definitions_effective:
  "sorted_wrt (<) (map def_id (definitions (discover_definitions compile sha256 config files)))
   \<and> map_of (map (\<lambda>d. (def_id d, d)) (definitions (discover_definitions compile sha256 config files)))
       = effective compile sha256 config files"
  using discovered [of compile sha256 config files]
  by (simp add: bt_ok_def bt_get_def [abs_def] comp_def)

lemma group_ready:
  assumes "fs \<noteq> []"
  shows "def_state (group_definition compile sha256 sc ident fs) = Ready check \<longleftrightarrow>
      (\<exists>file content. fs = [file] \<and> file_enabled file \<and> file_content file = Inr content
         \<and> compile content = Inr check)"
proof (cases "length fs > 1")
  case True
  then show ?thesis by (auto simp: group_definition_def resolve_scope_group_def Let_def)
next
  case False
  then obtain f where "fs = [f]" using assms by (cases fs) auto
  then show ?thesis
    by (auto simp: group_definition_def resolve_scope_group_def Let_def parse_candidate_def res_map_err_def
        split: sum.splits)
qed

text \<open>One enabled file of the deciding scope compiles to the check.\<close>

definition sole_source ::
  "('n, 'f) compiler \<Rightarrow> discovery_config \<Rightarrow> check_file list \<Rightarrow> string
     \<Rightarrow> ('n, 'f) compiled_check \<Rightarrow> bool" where
  "sole_source compile config files ident check \<longleftrightarrow>
     (\<exists>file content.
        (files_of config files ProjectScope ident = [file]
         \<or> files_of config files ProjectScope ident = [] \<and> files_of config files GlobalScope ident = [file])
        \<and> file_enabled file \<and> file_content file = Inr content \<and> compile content = Inr check)"

lemma effective_ready:
  "(\<exists>d. effective compile sha256 config files ident = Some d \<and> def_state d = Ready check) \<longleftrightarrow>
   sole_source compile config files ident check"
  using group_ready [of "files_of config files ProjectScope ident" compile sha256 ProjectScope ident check]
    group_ready [of "files_of config files GlobalScope ident" compile sha256 GlobalScope ident check]
  by (auto simp: effective_def sole_source_def Let_def split: if_splits)

lemma effective_listed:
  "effective compile sha256 config files ident = Some d \<longleftrightarrow>
     d \<in> set (definitions (discover_definitions compile sha256 config files)) \<and> def_id d = ident"
  using discovered [of compile sha256 config files]
    bt_get_iff [of "map (\<lambda>d. (def_id d, d)) (definitions (discover_definitions compile sha256 config files))"]
  by (fastforce simp: image_iff)

lemma find_effective:
  "List.find (\<lambda>d. def_id d = ident) (definitions (discover_definitions compile sha256 config files)) =
     effective compile sha256 config files ident"
proof -
  have "List.find (\<lambda>d. def_id d = ident) ds = bt_get (map (\<lambda>d. (def_id d, d)) ds) ident"
    for ds :: "('a, 'b) effective_definition list"
    by (induction ds) (simp_all add: bt_get_def)
  then show ?thesis using discovered [of compile sha256 config files] by simp
qed

text \<open>
  A check is ready exactly when one enabled file with its identity compiles: a single
  project file, or a single global file that no project file shadows. A second file with
  the identity in the deciding scope, a read failure and a pause all prevent it.
\<close>

lemma ready_definition_exact:
  "(\<exists>d \<in> set (definitions (discover_definitions compile sha256 config files)).
      def_id d = ident \<and> def_state d = Ready check) \<longleftrightarrow>
   (\<exists>file content.
      (files_of config files ProjectScope ident = [file]
       \<or> files_of config files ProjectScope ident = [] \<and> files_of config files GlobalScope ident = [file])
      \<and> file_enabled file \<and> file_content file = Inr content \<and> compile content = Inr check)"
  using effective_ready [of compile sha256 config files ident check] effective_listed
  unfolding sole_source_def by blast

text \<open>Sorting forgets the order of a list whose keys are distinct.\<close>

lemma sort_key_perm:
  assumes "mset xs = mset ys" "distinct (map f xs)"
  shows "sort_key f xs = sort_key f ys"
proof (rule properties_for_sort_key)
  have "mset (map f (sort_key f ys)) = mset (map f xs)" using assms(1) by simp
  then have perm_distinct: "distinct (map f (sort_key f ys))" using assms(2) mset_eq_imp_distinct_iff by blast
  have "distinct (map f zs) \<Longrightarrow> x \<in> set zs \<Longrightarrow> filter (\<lambda>y. f x = f y) zs = [x]" for x zs
    by (induction zs) (auto simp: filter_empty_conv image_iff)
  moreover have "distinct (map f (sort_key f ys))" "set (sort_key f ys) = set xs"
    using perm_distinct mset_eq_setD [OF assms(1)] by simp_all
  ultimately show "filter (\<lambda>y. f k = f y) (sort_key f ys) = filter (\<lambda>y. f k = f y) xs"
    if "k \<in> set (sort_key f ys)" for k
    using assms(2) that by simp
qed (simp_all add: assms)

text \<open>
  The definitions do not depend on the order in which the files are listed: two listings
  of the same files, with distinct paths, resolve to the same definitions, revisions and
  source paths included.
\<close>

lemma discovery_order_independent:
  assumes "mset files = mset files'" "distinct (map (\<lambda>f. path_components (file_path f)) files)"
  shows "definitions (discover_definitions compile sha256 config files) =
         definitions (discover_definitions compile sha256 config files')"
proof -
  have "effective compile sha256 config files ident = effective compile sha256 config files' ident" for ident
  proof -
    have sel: "mset (files_of config files sc ident) = mset (files_of config files' sc ident)" for sc
      using assms(1) by (simp add: files_of_def mset_filter)
    have "distinct (map (\<lambda>f. path_components (file_path f)) (files_of config files sc ident))" for sc
      using assms(2) by (auto simp: files_of_def distinct_map intro: inj_on_subset)
    then have "group_definition compile sha256 sc ident (files_of config files sc ident) =
        group_definition compile sha256 sc ident (files_of config files' sc ident)" for sc
      using sort_key_perm [of "map (parse_candidate compile) (files_of config files sc ident)"
          "map (parse_candidate compile) (files_of config files' sc ident)"
          "\<lambda>c. path_components (file_path (pc_file c))"] sel
      by (simp add: group_definition_def resolve_scope_group_def comp_def parse_candidate_def Let_def)
    moreover have "files_of config files sc ident = [] \<longleftrightarrow> files_of config files' sc ident = []" for sc
      using sel [of sc] by (metis mset_zero_iff)
    ultimately show ?thesis by (simp add: effective_def Let_def)
  qed
  then have "map (\<lambda>d. (def_id d, d)) (definitions (discover_definitions compile sha256 config files)) =
      map (\<lambda>d. (def_id d, d)) (definitions (discover_definitions compile sha256 config files'))"
    using discovered [of compile sha256 config files] discovered [of compile sha256 config files']
    by (intro bt_unique) auto
  then show ?thesis by (metis (no_types, lifting) map_idI map_map comp_def snd_conv list.map_comp)
qed

definition sample_config :: discovery_config where
  "sample_config = \<lparr>global_checks_directory = Some ''/g'', project_root = Some ''/p''\<rparr>"

definition sample_files :: "check_file list" where
  "sample_files =
     [\<lparr>file_path = ''/g/a.yml'', file_content = Inr ''x'', file_enabled = True\<rparr>,
      \<lparr>file_path = ''/p/.antiburn/checks/a.yaml'', file_content = Inr ''y'', file_enabled = False\<rparr>]"

end
