(* ===== verification/Lifecycle.thy ===== *)
theory Lifecycle
  imports Discovery
begin

text \<open>
  \<open>definition_lifecycle.rs\<close>: the reconciliation of a discovered definition with the state
  that was effective before, and the generations that bind runtime work to one activation.
  A generation is a \<open>u64\<close>; it saturates.
\<close>

section \<open>The code\<close>

record ('n, 'f) effective_activation =
  act_id :: activation_id
  act_revision :: string
  act_scope :: definition_scope
  act_source_paths :: "string list"
  act_project_root :: "string option"
  act_compiled :: "('n, 'f) compiled_check"
  act_bootstrap_position :: nat
  act_bootstrap_publication :: nat

datatype inactive_kind = InactiveInvalid | InactivePaused

record inactive_state =
  in_revision :: string
  in_project_root :: "string option"
  in_generation :: nat
  in_scope :: definition_scope
  in_source_paths :: "string list"
  in_kind :: inactive_kind

datatype ('n, 'f) lifecycle_state =
    Active "('n, 'f) effective_activation"
  | Uncompiled nat
  | Inactive inactive_state
  | Removed nat

text \<open>\<open>Deactivated\<close> carries the fields of the inactive state it leads to.\<close>

datatype ('n, 'f) lifecycle_transition =
    Unchanged "('n, 'f) effective_activation"
  | Activated "('n, 'f) effective_activation"
  | Deactivated inactive_state
  | RemovedTransition nat
  | UnchangedInactive

fun state_generation :: "('n, 'f) lifecycle_state \<Rightarrow> nat" where
  "state_generation (Active a) = generation (act_id a)"
| "state_generation (Inactive i) = in_generation i"
| "state_generation (Removed g) = g"
| "state_generation (Uncompiled g) = g"

definition next_generation :: "('n, 'f) lifecycle_state \<Rightarrow> nat" where
  "next_generation previous = min (state_generation previous + 1) u64_max"

text \<open>One reconciliation request: the discovered definition and the bindings of the host.\<close>

record ('n, 'f) reconciliation =
  rc_definition :: "('n, 'f) effective_definition option"
  rc_project_root :: "string option"
  rc_scope :: activation_scope
  rc_bootstrap_head :: nat
  rc_bootstrap_publication :: nat

definition inactive_unchanged ::
  "('n, 'f) lifecycle_state \<Rightarrow> ('n, 'f) effective_definition \<Rightarrow> string option \<Rightarrow> inactive_kind \<Rightarrow> bool" where
  "inactive_unchanged previous d root reason \<longleftrightarrow>
     (case previous of
        Inactive i \<Rightarrow>
          in_revision i = def_revision d \<and> same_root (in_project_root i) root
          \<and> in_scope i = def_scope d \<and> same_paths (in_source_paths i) (def_source_paths d)
          \<and> in_kind i = reason
      | _ \<Rightarrow> False)"

definition active_unchanged ::
  "('n, 'f) lifecycle_state \<Rightarrow> ('n, 'f) effective_definition \<Rightarrow> string option \<Rightarrow> activation_scope
     \<Rightarrow> ('n, 'f) effective_activation option" where
  "active_unchanged previous d root binding =
     (case previous of
        Active a \<Rightarrow>
          if scope (act_id a) = binding \<and> act_revision a = def_revision d
             \<and> same_root (act_project_root a) root \<and> act_scope a = def_scope d
             \<and> same_paths (act_source_paths a) (def_source_paths d)
          then Some a else None
      | _ \<Rightarrow> None)"

definition deactivate ::
  "('n, 'f) lifecycle_state \<Rightarrow> ('n, 'f) effective_definition \<Rightarrow> string option \<Rightarrow> inactive_kind
     \<Rightarrow> ('n, 'f) lifecycle_transition" where
  "deactivate previous d root reason =
     (if inactive_unchanged previous d root reason then UnchangedInactive
      else Deactivated
        \<lparr>in_revision = def_revision d, in_project_root = root, in_generation = next_generation previous,
         in_scope = def_scope d, in_source_paths = def_source_paths d, in_kind = reason\<rparr>)"

definition reconcile_scoped ::
  "('n, 'f) lifecycle_state \<Rightarrow> ('n, 'f) reconciliation \<Rightarrow> ('n, 'f) lifecycle_transition" where
  "reconcile_scoped previous r =
     (case rc_definition r of
        None \<Rightarrow>
          (case previous of
             Removed g \<Rightarrow> RemovedTransition g
           | _ \<Rightarrow> RemovedTransition (next_generation previous))
      | Some d \<Rightarrow>
          (case def_state d of
             Invalid _ \<Rightarrow> deactivate previous d (rc_project_root r) InactiveInvalid
           | Paused _ \<Rightarrow> deactivate previous d (rc_project_root r) InactivePaused
           | Ready compiled \<Rightarrow>
               (case active_unchanged previous d (rc_project_root r) (rc_scope r) of
                  Some a \<Rightarrow> Unchanged a
                | None \<Rightarrow> Activated
                    \<lparr>act_id = \<lparr>scope = rc_scope r, definition_id = def_id d,
                               generation = next_generation previous\<rparr>,
                     act_revision = def_revision d, act_scope = def_scope d,
                     act_source_paths = def_source_paths d, act_project_root = rc_project_root r,
                     act_compiled = compiled, act_bootstrap_position = rc_bootstrap_head r,
                     act_bootstrap_publication = rc_bootstrap_publication r\<rparr>)))"

definition default_scope :: activation_scope where
  "default_scope = \<lparr>environment = [], session_cwd = [], run = Live\<rparr>"

definition reconcile ::
  "('n, 'f) lifecycle_state \<Rightarrow> ('n, 'f) effective_definition option \<Rightarrow> string option \<Rightarrow> nat
     \<Rightarrow> ('n, 'f) lifecycle_transition" where
  "reconcile previous d root bootstrap_head =
     reconcile_scoped previous
       \<lparr>rc_definition = d, rc_project_root = root, rc_scope = default_scope,
        rc_bootstrap_head = bootstrap_head, rc_bootstrap_publication = 0\<rparr>"

fun apply_transition ::
  "('n, 'f) lifecycle_state \<Rightarrow> ('n, 'f) lifecycle_transition \<Rightarrow> ('n, 'f) lifecycle_state" where
  "apply_transition s (Unchanged a) = Active a"
| "apply_transition s (Activated a) = Active a"
| "apply_transition s UnchangedInactive = s"
| "apply_transition s (Deactivated i) = Inactive i"
| "apply_transition s (RemovedTransition g) = Removed g"

section \<open>Runs of the lifecycle\<close>

text \<open>
  A run reconciles any sequence of discovered definitions. \<open>fresh_runs\<close> is the contract of
  numbered instances: a step never lowers the number, and an instance that appears or
  changes gets a number above every earlier one.
\<close>

inductive lifecycle_step ::
  "('n, 'f) lifecycle_state \<Rightarrow> ('n, 'f) lifecycle_state \<Rightarrow> bool" where
  reconciled: "lifecycle_step s (apply_transition s (reconcile_scoped s r))"

inductive_cases lifecycle_stepE: "lifecycle_step s t"

locale fresh_runs =
  fixes advance :: "'s \<Rightarrow> 's \<Rightarrow> bool"
    and number :: "'s \<Rightarrow> nat"
    and instance_of :: "'s \<Rightarrow> 'a option"
    and bound :: nat
  assumes number_mono: "advance s t \<Longrightarrow> number s \<le> number t"
    and number_fresh: "advance s t \<Longrightarrow> instance_of t \<noteq> None \<Longrightarrow> instance_of t \<noteq> instance_of s
      \<Longrightarrow> number s < bound \<Longrightarrow> number s < number t"
begin

lemma run_mono: "advance\<^sup>*\<^sup>* s t \<Longrightarrow> number s \<le> number t"
  by (induction rule: rtranclp_induct) (auto dest: number_mono)

lemma run_unique:
  assumes "advance\<^sup>*\<^sup>* s t" "instance_of s = Some a" "instance_of t = Some b"
    and "number s = number t" "number s < bound"
  shows "a = b"
  using assms
proof (induction arbitrary: b rule: rtranclp_induct)
  case (step u t)
  have le: "number s \<le> number u" "number u \<le> number t"
    using step.hyps run_mono number_mono by auto
  then have "instance_of t = instance_of u"
    using number_fresh [OF step.hyps(2)] step.prems by fastforce
  then show ?case using step le by auto
qed simp

lemma run_reappears:
  assumes "advance\<^sup>*\<^sup>* u t" "instance_of u = None" "instance_of t \<noteq> None" "number u < bound"
  shows "number u < number t"
  using assms
proof (induction rule: rtranclp_induct)
  case (step v t)
  have le: "number u \<le> number v" "number v \<le> number t"
    using step.hyps run_mono number_mono by auto
  show ?case
  proof (cases "instance_of v")
    case None
    then show ?thesis using number_fresh [OF step.hyps(2)] step.prems le by fastforce
  next
    case (Some a)
    then show ?thesis using step.IH step.prems le by simp
  qed
qed simp

text \<open>Once a run has left an instance, every later instance has a greater number.\<close>

lemma run_revoked:
  assumes "advance\<^sup>*\<^sup>* s u" "instance_of s = Some a" "instance_of u \<noteq> Some a"
    and "advance\<^sup>*\<^sup>* u t" "instance_of t \<noteq> None" "number s < bound"
  shows "number s < number t"
proof (cases "number u = number s")
  case True
  then have "instance_of u = None" using run_unique [OF assms(1,2)] assms(3,6) by (cases "instance_of u") auto
  then show ?thesis using run_reappears [OF assms(4) _ assms(5)] True assms(6) by simp
next
  case False
  then show ?thesis using run_mono [OF assms(1)] run_mono [OF assms(4)] by simp
qed

end

fun live :: "('n, 'f) lifecycle_state \<Rightarrow> ('n, 'f) effective_activation option" where
  "live (Active a) = Some a"
| "live _ = None"

lemma step_generation:
  fixes s :: "('n, 'f) lifecycle_state"
  assumes "lifecycle_step s t"
  shows "min (state_generation s) u64_max \<le> state_generation t"
    and "live t \<noteq> None \<Longrightarrow> live t \<noteq> live s \<Longrightarrow> state_generation s < u64_max
      \<Longrightarrow> state_generation s < state_generation t"
  using assms
  by (auto elim!: lifecycle_stepE simp: reconcile_scoped_def next_generation_def deactivate_def
      active_unchanged_def inactive_unchanged_def
      split: option.splits definition_state.splits lifecycle_state.splits if_splits)

interpretation lifecycle: fresh_runs lifecycle_step "\<lambda>s. min (state_generation s) u64_max" live u64_max
proof
  fix s t :: "('n, 'f) lifecycle_state"
  assume step: "lifecycle_step s t"
  show "min (state_generation s) u64_max \<le> min (state_generation t) u64_max"
    using step_generation(1) [OF step] by simp
  show "min (state_generation s) u64_max < min (state_generation t) u64_max"
    if "live t \<noteq> None" "live t \<noteq> live s" "min (state_generation s) u64_max < u64_max"
    using step_generation(2) [OF step that(1,2)] that(3) by auto
qed

text \<open>
  C20. A revoked activation never regains its generation: once a run of reconciliations has
  left an activation, by an edit, a pause, a removal or another binding, every later
  activation has a greater generation, up to the saturation of \<open>u64\<close>. Work bound to the
  old generation cannot be taken for work of a later one.
\<close>

theorem revoked_generation:
  assumes "lifecycle_step\<^sup>*\<^sup>* (Active a) u" "u \<noteq> Active a" "lifecycle_step\<^sup>*\<^sup>* u (Active b)"
    and "generation (act_id a) < u64_max"
  shows "generation (act_id a) < generation (act_id b)"
proof -
  have "live u \<noteq> Some a" using assms(2) by (cases u) auto
  then show ?thesis
    using lifecycle.run_revoked [of "Active a" u a "Active b"] assms by (auto simp: min_def split: if_splits)
qed

text \<open>A check that is active, removed and installed again.\<close>

definition sample_check :: "(nat, unit) compiled_check" where
  "sample_check =
     \<lparr>check_name = ''Retry'', check_description = None, check_condition = None,
      check_trigger = \<lparr>family = Messages False None None None, tr_tools = None, tr_statuses = None,
        tr_models = None, tr_fast_mode = None, tr_paths = None, tr_paths_ignore = None,
        tr_window = None, tr_cooldown = 0\<rparr>,
      check_decisions = [], check_actions = []\<rparr>"

definition sample_activation :: "nat \<Rightarrow> (nat, unit) effective_activation" where
  "sample_activation g =
     \<lparr>act_id = \<lparr>scope = default_scope, definition_id = ''retry'', generation = g\<rparr>,
      act_revision = ''r'', act_scope = GlobalScope, act_source_paths = [''/g/retry.yml''],
      act_project_root = None, act_compiled = sample_check, act_bootstrap_position = 0,
      act_bootstrap_publication = 0\<rparr>"

definition sample_request :: "bool \<Rightarrow> (nat, unit) reconciliation" where
  "sample_request installed =
     \<lparr>rc_definition =
        (if installed
         then Some \<lparr>def_id = ''retry'', def_scope = GlobalScope, def_source_paths = [''/g/retry.yml''],
                def_revision = ''r'', def_state = Ready sample_check\<rparr>
         else None),
      rc_project_root = None, rc_scope = default_scope, rc_bootstrap_head = 0,
      rc_bootstrap_publication = 0\<rparr>"

lemma sample_steps:
  "lifecycle_step (Active (sample_activation 5)) (Removed 6)"
  "lifecycle_step (Removed 6) (Active (sample_activation 7))"
  using reconciled [of "Active (sample_activation 5)" "sample_request False"]
    reconciled [of "Removed 6" "sample_request True"]
  by (simp_all add: sample_request_def sample_activation_def reconcile_scoped_def next_generation_def
      active_unchanged_def u64_max_def)

theorem revoked_generation_witness:
  "lifecycle_step (Active (sample_activation 5)) (Removed 6)
   \<and> lifecycle_step (Removed 6) (Active (sample_activation 7))
   \<and> generation (act_id (sample_activation 5)) < generation (act_id (sample_activation 7))"
  using revoked_generation [of "sample_activation 5" "Removed 6" "sample_activation 7"] sample_steps
  by (simp add: sample_activation_def u64_max_def r_into_rtranclp)

lemma reconciled_live:
  "live (apply_transition s (reconcile_scoped s r)) \<noteq> None \<longleftrightarrow>
     (\<exists>d check. rc_definition r = Some d \<and> def_state d = Ready check)"
  by (auto simp: reconcile_scoped_def deactivate_def active_unchanged_def inactive_unchanged_def
      split: option.splits definition_state.splits lifecycle_state.splits if_splits)

text \<open>
  Reconciliation is idempotent: reconciling the same definition and bindings again, at
  any later source position, changes nothing, so an unchanged activation keeps its
  generation and its bootstrap boundary.
\<close>

lemma reconcile_idempotent:
  "let t = apply_transition s (reconcile_scoped s r) in
   apply_transition t (reconcile_scoped t
     (r\<lparr>rc_bootstrap_head := head, rc_bootstrap_publication := publication\<rparr>)) = t"
  by (auto simp: Let_def reconcile_scoped_def deactivate_def active_unchanged_def inactive_unchanged_def
      split: option.splits definition_state.splits lifecycle_state.splits if_splits)

text \<open>
  Reconciliation follows the discovered definition in one step: a ready definition is
  active with its revision, scope, paths and bindings, and every other outcome of discovery
  leaves no activation.
\<close>

lemma reconcile_follows_definition:
  "case rc_definition r of
     None \<Rightarrow> live (apply_transition s (reconcile_scoped s r)) = None
   | Some d \<Rightarrow>
       (case def_state d of
          Ready _ \<Rightarrow>
            (\<exists>a. apply_transition s (reconcile_scoped s r) = Active a
               \<and> scope (act_id a) = rc_scope r \<and> act_revision a = def_revision d
               \<and> same_root (act_project_root a) (rc_project_root r) \<and> act_scope a = def_scope d
               \<and> same_paths (act_source_paths a) (def_source_paths d))
        | _ \<Rightarrow> live (apply_transition s (reconcile_scoped s r)) = None)"
  by (auto simp: reconcile_scoped_def deactivate_def active_unchanged_def inactive_unchanged_def
      split: option.splits definition_state.splits lifecycle_state.splits if_splits)

end
