(* ===== verification/Inventories.thy ===== *)
theory Inventories
  imports Preparation
begin

text \<open>
  \<open>context.rs\<close> and \<open>compiler/inventories.rs\<close>: recorded requester attribution, the inventories
  of instructions and skills that a host captures, how they are merged into a frozen
  context, and the analysis that decides whether a check reads them. The analysis is shown
  sound for trigger conditions: a condition it clears has the same outcome with and without
  the captured inventories.
\<close>

section \<open>Attribution and inventories\<close>

record observed_attribution =
  attr_model :: "string option"
  attr_fast_mode :: "bool option"

definition uniform_attribution :: "observed_attribution list \<Rightarrow> bool \<Rightarrow> observed_attribution" where
  "uniform_attribution requests complete_set =
     (case requests of
        [] \<Rightarrow> \<lparr>attr_model = None, attr_fast_mode = None\<rparr>
      | first # _ \<Rightarrow>
          if \<not> complete_set then \<lparr>attr_model = None, attr_fast_mode = None\<rparr>
          else
            \<lparr>attr_model =
               (case attr_model first of
                  None \<Rightarrow> None
                | Some model \<Rightarrow>
                    if is_model_identifier model \<and> list_all (\<lambda>r. attr_model r = Some model) requests
                    then Some model else None),
             attr_fast_mode =
               (case attr_fast_mode first of
                  None \<Rightarrow> None
                | Some mode \<Rightarrow>
                    if list_all (\<lambda>r. attr_fast_mode r = Some mode) requests then Some mode else None)\<rparr>)"

record instruction_scope =
  instr_root :: "string option"
  instr_globs :: "string list"

record instruction_record =
  instr_path :: string
  instr_content :: string
  instr_scope :: instruction_scope
  instr_observed_at :: string

record skill_record =
  skill_name :: string
  skill_description :: string
  skill_path :: string

record inventory_snapshot =
  inv_instructions :: "instruction_record list option"
  inv_instructions_complete :: bool
  inv_instructions_limits :: "string list"
  inv_skills :: "skill_record list option"
  inv_skills_complete :: bool
  inv_skills_limits :: "string list"
  inv_snapshot_revision :: "string option"

record current_inventories =
  inv_global :: inventory_snapshot
  inv_repo :: inventory_snapshot

text \<open>\<open>serde_json::to_value\<close> of a snapshot: absent optional fields are skipped.\<close>

definition instruction_json :: "instruction_record \<Rightarrow> 'n json" where
  "instruction_json r =
     JObject (bt_collect
       [(''path'', JString (instr_path r)), (''content'', JString (instr_content r)),
        (''scope'', JObject (bt_collect
           [(''root'', (case instr_root (instr_scope r) of None \<Rightarrow> JNull | Some p \<Rightarrow> JString p)),
            (''globs'', JArray (map JString (instr_globs (instr_scope r))))])),
        (''observed_at'', JString (instr_observed_at r))])"

definition skill_json :: "skill_record \<Rightarrow> 'n json" where
  "skill_json r =
     JObject (bt_collect
       [(''name'', JString (skill_name r)), (''description'', JString (skill_description r)),
        (''path'', JString (skill_path r))])"

definition snapshot_fields :: "inventory_snapshot \<Rightarrow> (string \<times> 'n json) list" where
  "snapshot_fields s =
     bt_collect
       ((case inv_instructions s of None \<Rightarrow> []
         | Some rs \<Rightarrow> [(''instructions'', JArray (map instruction_json rs))])
        @ [(''instructions_complete'', JBool (inv_instructions_complete s)),
           (''instructions_limits'', JArray (map JString (inv_instructions_limits s)))]
        @ (case inv_skills s of None \<Rightarrow> [] | Some rs \<Rightarrow> [(''skills'', JArray (map skill_json rs))])
        @ [(''skills_complete'', JBool (inv_skills_complete s)),
           (''skills_limits'', JArray (map JString (inv_skills_limits s)))]
        @ (case inv_snapshot_revision s of None \<Rightarrow> []
           | Some r \<Rightarrow> [(''snapshot_revision'', JString r)]))"

definition inventory_fields :: "string list" where
  "inventory_fields =
     [''instructions'', ''instructions_complete'', ''instructions_limits'', ''skills'',
      ''skills_complete'', ''skills_limits'', ''snapshot_revision'']"

text \<open>
  One scope of \<open>merge_into\<close>: the stale fields are removed and those of the snapshot added.
  \<open>None\<close> is the panic on a root or a scope that is not an object.
\<close>

definition merge_scope :: "string \<Rightarrow> inventory_snapshot \<Rightarrow> 'n json \<Rightarrow> 'n json option" where
  "merge_scope name snapshot context =
     (case context of
        JObject roots \<Rightarrow>
          (case (case bt_get roots name of None \<Rightarrow> JObject [] | Some v \<Rightarrow> v) of
             JObject fs \<Rightarrow>
               Some (JObject (bt_insert name
                 (JObject (fold (\<lambda>(k, v). bt_insert k v) (snapshot_fields snapshot)
                    (fold bt_remove inventory_fields fs))) roots))
           | _ \<Rightarrow> None)
      | _ \<Rightarrow> None)"

definition merge_into :: "current_inventories \<Rightarrow> 'n json \<Rightarrow> 'n json option" where
  "merge_into inventories context =
     Option.bind (merge_scope ''global'' (inv_global inventories) context)
       (merge_scope ''repo'' (inv_repo inventories))"

section \<open>Which checks read inventories\<close>

record current_inventory_demand =
  demand_condition :: bool
  demand_candidate :: bool

datatype scope_member = MemberWhole | MemberNamed string | MemberUnknown

fun scope_path :: "'n expression \<Rightarrow> string list \<Rightarrow> (string \<times> scope_member) option" where
  "scope_path (Path (PathProperty origin # rest)) aliases =
     (if origin \<in> set aliases \<or> origin \<notin> {''global'', ''repo''} then None
      else Some (origin,
        (case rest of
           PathProperty name # _ \<Rightarrow> MemberNamed name
         | [] \<Rightarrow> MemberWhole
         | _ \<Rightarrow> MemberUnknown)))"
| "scope_path (Access base segments) aliases =
     (case scope_path base aliases of
        None \<Rightarrow> None
      | Some (origin, member) \<Rightarrow>
          if member \<noteq> MemberWhole then Some (origin, member)
          else Some (origin,
            (case segments of
               AProperty name # _ \<Rightarrow> MemberNamed name
             | ADynamic (Literal (LString name)) # _ \<Rightarrow> MemberNamed name
             | _ \<Rightarrow> MemberUnknown)))"
| "scope_path _ aliases = None"

definition member_reads :: "string \<times> scope_member \<Rightarrow> bool" where
  "member_reads p \<longleftrightarrow> fst p = ''global'' \<or> snd p \<noteq> MemberNamed ''root''"

fun expression_reads :: "'n expression \<Rightarrow> string list \<Rightarrow> bool"
  and segment_reads :: "'n access_segment \<Rightarrow> string list \<Rightarrow> bool"
  and access_keys_read :: "'n expression \<Rightarrow> string list \<Rightarrow> bool" where
  "expression_reads (Path path) aliases =
     (case scope_path (Path path :: 'n expression) aliases of None \<Rightarrow> False | Some p \<Rightarrow> member_reads p)"
| "expression_reads (Access base segments) aliases =
     (case scope_path (Access base segments) aliases of
        Some p \<Rightarrow>
          access_keys_read base aliases \<or> list_ex (\<lambda>s. segment_reads s aliases) segments \<or> member_reads p
      | None \<Rightarrow> expression_reads base aliases \<or> list_ex (\<lambda>s. segment_reads s aliases) segments)"
| "expression_reads (Literal _) aliases = False"
| "expression_reads (Call _ arguments) aliases = list_ex (\<lambda>e. expression_reads e aliases) arguments"
| "expression_reads (Not e) aliases = expression_reads e aliases"
| "expression_reads (Binary _ l r) aliases = (expression_reads l aliases \<or> expression_reads r aliases)"
| "segment_reads (ADynamic e) aliases = expression_reads e aliases"
| "segment_reads _ aliases = False"
| "access_keys_read (Access base segments) aliases =
     (access_keys_read base aliases \<or> list_ex (\<lambda>s. segment_reads s aliases) segments)"
| "access_keys_read _ aliases = False"

fun condition_reads :: "'n condition option \<Rightarrow> string list \<Rightarrow> bool" where
  "condition_reads (Some (CondExpression e)) aliases = expression_reads e aliases"
| "condition_reads _ aliases = False"

fun part_reads :: "'n template_part \<Rightarrow> string list \<Rightarrow> bool" where
  "part_reads (PartExpression e) aliases = expression_reads e aliases"
| "part_reads (PartLiteral _) aliases = False"

fun template_reads :: "'n input_template \<Rightarrow> string list \<Rightarrow> bool" where
  "template_reads (TplLiteral _) aliases = False"
| "template_reads (TplExpression e) aliases = expression_reads e aliases"
| "template_reads (TplText parts) aliases = list_ex (\<lambda>p. part_reads p aliases) parts"
| "template_reads (TplSequence items) aliases = list_ex (\<lambda>t. template_reads t aliases) items"
| "template_reads (TplObject items) aliases = list_ex (\<lambda>(_, t). template_reads t aliases) items"
| "template_reads (TplMap collection alias_name condition value) aliases =
     (expression_reads collection aliases
      \<or> condition_reads condition (alias_name # aliases) \<or> template_reads value (alias_name # aliases))"

definition action_reads :: "'n status_action \<Rightarrow> bool" where
  "action_reads action \<longleftrightarrow>
     condition_reads (act_condition action) []
     \<or> (case act_result action of ResultExpression e \<Rightarrow> expression_reads e [] | ResultLiteral _ \<Rightarrow> False)
     \<or> (case act_message action of Some t \<Rightarrow> template_reads t [] | None \<Rightarrow> False)"

definition inspect :: "('n, 'f) compiled_check \<Rightarrow> current_inventory_demand" where
  "inspect check =
     \<lparr>demand_condition = condition_reads (check_condition check) [],
      demand_candidate = list_ex (\<lambda>d. template_reads (block_input d) []) (check_decisions check)
        \<or> list_ex action_reads (check_actions check)\<rparr>"

section \<open>A cleared expression does not read inventories\<close>

text \<open>
  Two contexts agree beside their inventories when they differ at most in \<open>global\<close> and in
  the fields of \<open>repo\<close> other than \<open>root\<close>.
\<close>

definition same_repo_root :: "'n json \<Rightarrow> 'n json \<Rightarrow> bool" where
  "same_repo_root c c' \<longleftrightarrow>
     (case (json_get c ''repo'', json_get c' ''repo'') of
        (Some (JObject fs), Some (JObject fs')) \<Rightarrow> bt_get fs ''root'' = bt_get fs' ''root''
      | _ \<Rightarrow> False)"

definition agree_beside_inventories :: "'n json \<Rightarrow> 'n json \<Rightarrow> bool" where
  "agree_beside_inventories c c' \<longleftrightarrow>
     same_repo_root c c' \<and> (\<forall>r. r \<notin> {''global'', ''repo''} \<longrightarrow> json_get c r = json_get c' r)"

definition repo_value :: "'n json \<Rightarrow> 'n runtime_value" where
  "repo_value c =
     \<lparr>rv_value = map_option Borrowed (json_get c ''repo''),
      rv_metadata = metadata_frozen [PathProperty ''repo'']\<rparr>"

lemma select_repo_root:
  assumes "same_repo_root c c'"
  shows "select L (with_metadata f (repo_value c)) (PathProperty ''root'') =
         select L (with_metadata f (repo_value c')) (PathProperty ''root'')"
    and "select L (repo_value c) (PathProperty ''root'') = select L (repo_value c') (PathProperty ''root'')"
  using assms
  by (auto simp: same_repo_root_def select_def repo_value_def with_metadata_def json_lookup_def
      json_is_array_def Let_def split: option.splits json.splits)

lemma repo_value_present: "same_repo_root c c' \<Longrightarrow> rv_value (repo_value c) \<noteq> None \<and> rv_value (repo_value c') \<noteq> None"
  by (auto simp: same_repo_root_def repo_value_def split: option.splits json.splits)

lemma path_root_repo: "bt_get b ''repo'' = None \<Longrightarrow> path_root c b ''repo'' = repo_value c"
  by (simp add: path_root_def repo_value_def)

lemma path_cleared:
  fixes c c' :: "'n json"
  assumes agree: "agree_beside_inventories c c'" and bound: "set aliases \<subseteq> {r. bt_get b r \<noteq> None}"
    and "\<not> expression_reads (Path path :: 'n expression) aliases"
  shows "eval_path L c b path d = eval_path L c' b path d"
proof (cases "\<exists>r rest. path = PathProperty r # rest")
  case False
  then show ?thesis by (auto simp: eval_path_def split: list.splits path_segment.splits)
next
  case True
  then obtain r rest where path: "path = PathProperty r # rest" by blast
  show ?thesis
  proof (cases "bt_get b r = None \<and> r \<in> {''global'', ''repo''}")
    case False
    have "json_get c r = json_get c' r" if "bt_get b r = None"
      using agree False that unfolding agree_beside_inventories_def by blast
    then have "path_root c b r = path_root c' b r"
      by (cases "bt_get b r") (simp_all add: path_root_def)
    then show ?thesis by (simp add: path eval_path_def)
  next
    case True
    then have "r = ''repo''" "\<exists>rest'. rest = PathProperty ''root'' # rest'"
      using assms(3) bound
      by (auto simp: path member_reads_def split: if_splits list.splits path_segment.splits)
    then show ?thesis
      using True select_repo_root(2) [of c c' L] agree [unfolded agree_beside_inventories_def, THEN conjunct1]
      by (auto simp: path eval_path_def path_root_repo)
  qed
qed

text \<open>An access whose base is the whole scope starts at the root of the repository.\<close>

lemma access_repo_root:
  assumes "same_repo_root c c'" "scope_path (Access (Path [PathProperty ''repo'']) segs) aliases = Some (''repo'', MemberNamed ''root'')"
    and rest: "\<And>d n v. access L c b (tl segs) d n v = access L c' b (tl segs) d n v"
  shows "access L c b segs d 0 (repo_value c) = access L c' b segs d 0 (repo_value c')"
proof -
  obtain v v' where present: "rv_value (repo_value c) = Some v" "rv_value (repo_value c') = Some v'"
    using repo_value_present [OF assms(1)] by blast
  have rest': "access L c b (tl segs) = access L c' b (tl segs)" using rest by (intro ext) simp
  consider rs where "segs = AProperty ''root'' # rs"
    | rs where "segs = ADynamic (Literal (LString ''root'')) # rs"
    using assms(2)
    by (auto split: if_splits list.splits access_segment.splits expression.splits expression_literal.splits)
  then show ?thesis
  proof cases
    case (1 rs)
    then show ?thesis
      using rest' present select_repo_root(2) [OF assms(1), of L] by simp
  next
    case (2 rs)
    have trace: "runtime_trace (with_metadata f (repo_value c)) = runtime_trace (with_metadata f (repo_value c'))" for f
      by (simp add: runtime_trace_def with_metadata_def repo_value_def)
    show ?thesis
      using 2 rest' present select_repo_root(1) [OF assms(1), of L]
      by (intro ext) (auto simp: Let_def trace ev_bind_def runtime_owned_def selector_path_def
          split: prod.splits sum.splits)
  qed
qed

lemma scope_base_cleared:
  "scope_path base aliases = Some p \<Longrightarrow> \<not> member_reads p \<Longrightarrow> \<not> access_keys_read base aliases
     \<Longrightarrow> \<not> expression_reads base aliases"
  by (cases base) simp_all

lemma scope_origin: "scope_path e aliases = Some p \<Longrightarrow> fst p = ''global'' \<or> fst p = ''repo''"
  by (induction e aliases arbitrary: p rule: scope_path.induct)
    (auto split: if_splits option.splits prod.splits)

lemma scope_whole:
  "scope_path base aliases = Some (origin, MemberWhole) \<Longrightarrow> base = Path [PathProperty origin]"
  by (cases "(base, aliases)" rule: scope_path.cases)
    (auto split: if_splits list.splits path_segment.splits option.splits access_segment.splits
      expression.splits expression_literal.splits)

lemma evaluate_cleared:
  assumes "agree_beside_inventories c c'" "set aliases \<subseteq> {r. bt_get b r \<noteq> None}"
  shows "\<not> expression_reads e aliases \<Longrightarrow> evaluate L c b e d = evaluate L c' b e d"
    and "seg = ADynamic e' \<Longrightarrow> \<not> segment_reads seg aliases \<Longrightarrow>
      evaluate L c b e' d = evaluate L c' b e' d"
proof (induction e and seg arbitrary: d and e' d)
  case (Path path)
  then show ?case using path_cleared [OF assms] by simp
next
  case (Access base segs)
  have segs: "\<not> segment_reads s aliases" if "s \<in> set segs" for s
    using Access.prems that by (auto simp: list_ex_iff split: option.splits)
  have dyn: "evaluate L c b e d = evaluate L c' b e d" if "ADynamic e \<in> set segs" for e d
    using Access.IH(2) [OF that refl segs [OF that]] .
  have access: "access L c b ss d n v = access L c' b ss d n v" if "set ss \<subseteq> set segs" for ss d n v
    by (rule access_same) (use dyn that in blast)
  show ?case
  proof (cases "bt_get b ''repo'' = None \<and> scope_path base aliases = Some (''repo'', MemberWhole)")
    case True
    then have base: "base = Path [PathProperty ''repo'']" using scope_whole by blast
    have "scope_path (Access base segs) aliases = Some (''repo'', MemberNamed ''root'')"
      using Access.prems True by (auto simp: member_reads_def split: if_splits option.splits)
    moreover have "set (tl segs) \<subseteq> set segs" by (cases segs) auto
    ultimately have "access L c b segs d 0 (repo_value c) = access L c' b segs d 0 (repo_value c')" for d
      using access_repo_root [OF assms(1) [unfolded agree_beside_inventories_def, THEN conjunct1]] access base
      by blast
    then show ?thesis
      using True by (simp add: base eval_path_def path_root_repo ev_bind_def fun_eq_iff split: prod.splits sum.splits)
  next
    case False
    have "evaluate L c b base d = evaluate L c' b base d" for d
    proof (cases "scope_path base aliases = Some (''repo'', MemberWhole)")
      case True
      then show ?thesis using False scope_whole [OF True] by (auto simp: eval_path_def path_root_def)
    next
      case no_whole: False
      have "\<not> expression_reads base aliases"
      proof (cases "scope_path base aliases")
        case None
        then show ?thesis using Access.prems by simp
      next
        case (Some p)
        then show ?thesis
          using Access.prems scope_base_cleared [OF Some] scope_origin [OF Some] no_whole
          by (cases p) (auto simp: member_reads_def split: if_splits)
      qed
      then show ?thesis by (rule Access.IH(1))
    qed
    then show ?thesis
      using access [OF subset_refl] by (simp add: ev_bind_def fun_eq_iff split: prod.splits sum.splits)
  qed
next
  case (Call f args)
  have "eval_arguments L c b args d t vals = eval_arguments L c' b args d t vals" for d t vals
    by (rule eval_arguments_same) (use Call in \<open>auto simp: list_ex_iff\<close>)
  then show ?case by (simp only: evaluate.simps)
next
  case (Not e)
  then have "evaluate L c b e = evaluate L c' b e" by (intro ext) simp
  then show ?case by (simp only: evaluate.simps)
next
  case (Binary op l r)
  then have "evaluate L c b l = evaluate L c' b l" "evaluate L c b r = evaluate L c' b r"
    by (intro ext; simp)+
  then show ?case by (simp only: evaluate.simps)
qed simp_all

section \<open>Captured inventories and trigger conditions\<close>

lemma snapshot_fields_root: "map_of (rev (snapshot_fields s)) ''root'' = None"
proof -
  have "''root'' \<notin> fst ` set (snapshot_fields s)"
    unfolding snapshot_fields_def keys_bt_collect by (auto split: option.splits)
  then show ?thesis by (simp add: map_of_eq_None_iff)
qed

lemma bt_ok_removes: "bt_ok m \<Longrightarrow> bt_ok (fold bt_remove ks m)"
  by (induction ks arbitrary: m) (simp_all add: bt_ok_remove)

lemma bt_get_removes: "bt_get (fold bt_remove ks m) j = (if j \<in> set ks then None else bt_get m j)"
  by (induction ks arbitrary: m) (auto simp: bt_get_remove)

lemma merge_scope_get:
  assumes "merge_scope name snapshot (JObject roots) = Some c" "bt_ok roots"
  shows "\<exists>fs roots'. c = JObject roots' \<and> bt_ok roots'
    \<and> (case bt_get roots name of None \<Rightarrow> JObject [] | Some v \<Rightarrow> v) = JObject fs
    \<and> (\<forall>r. bt_get roots' r =
          (if r = name
           then Some (JObject (fold (\<lambda>(k, v). bt_insert k v) (snapshot_fields snapshot)
                    (fold bt_remove inventory_fields fs)))
           else bt_get roots r))"
  using assms by (auto simp: merge_scope_def bt.invar_store bt.lookup_store split: json.splits option.splits)

lemma merge_agrees:
  assumes "merge_into inventories c = Some c'" "json_ok c" "json_get c ''repo'' \<noteq> None"
  shows "agree_beside_inventories c c'"
proof -
  obtain roots where c: "c = JObject roots" "bt_ok roots"
    using assms(1,2) by (cases c) (auto simp: merge_into_def merge_scope_def)
  obtain m where m: "merge_scope ''global'' (inv_global inventories) (JObject roots) = Some m"
    and c': "merge_scope ''repo'' (inv_repo inventories) m = Some c'"
    using assms(1) by (auto simp: merge_into_def c Option.bind_eq_Some_conv)
  obtain roots1 where roots1: "m = JObject roots1" "bt_ok roots1"
    "\<And>r. r \<noteq> ''global'' \<Longrightarrow> bt_get roots1 r = bt_get roots r"
    using merge_scope_get [OF m c(2)] by auto
  obtain fs roots2 where roots2: "c' = JObject roots2"
    "bt_get roots1 ''repo'' = Some (JObject fs)"
    "bt_get roots2 ''repo'' = Some (JObject (fold (\<lambda>(k, v). bt_insert k v)
        (snapshot_fields (inv_repo inventories)) (fold bt_remove inventory_fields fs)))"
    "\<And>r. r \<noteq> ''repo'' \<Longrightarrow> bt_get roots2 r = bt_get roots1 r"
    using merge_scope_get [OF c' [unfolded roots1(1)] roots1(2)] assms(3)
    by (auto simp: c json_get_def roots1(3))
  have repo: "bt_get roots ''repo'' = Some (JObject fs)" using roots2(2) roots1(3) by simp
  then have "json_ok (JObject fs)"
    using json_get_ok [OF assms(2), of "''repo''"] by (simp add: c json_get_def)
  then have "bt_ok (fold bt_remove inventory_fields fs)" by (simp add: bt_ok_removes)
  then have "bt_get (fold (\<lambda>(k, v). bt_insert k v) (snapshot_fields (inv_repo inventories))
        (fold bt_remove inventory_fields fs)) ''root'' = bt_get fs ''root''"
    by (simp add: bt_get_fold snapshot_fields_root bt_get_remove inventory_fields_def)
  then have "same_repo_root c c'"
    by (simp add: same_repo_root_def c roots2 repo json_get_def)
  then show ?thesis
    using roots1(3) roots2(4) by (auto simp: agree_beside_inventories_def c roots2(1) json_get_def)
qed

text \<open>
  C23. The inventory analysis is sound for trigger conditions: when \<open>inspect\<close> reports that
  the condition does not read inventories, merging captured inventories into the frozen
  context does not change its outcome, errors and exhausted limits included. Selection may
  therefore skip the capture.
\<close>

theorem inventory_demand_sound:
  assumes "\<not> demand_condition (inspect check)" "merge_into inventories c = Some c'"
    and "json_ok c" "json_get c ''repo'' \<noteq> None"
  shows "evaluate_trigger_condition L check c' = evaluate_trigger_condition L check c"
proof -
  note agree = merge_agrees [OF assms(2-4)]
  have checked: "evaluate_checked L e c [] 1 = evaluate_checked L e c' [] 1"
    if "\<not> expression_reads e []" for e
  proof -
    have "evaluate L c [] e d = evaluate L c' [] e d" for d
      by (rule evaluate_cleared(1) [OF agree _ that]) simp
    moreover have "json_get c ''session'' = json_get c' ''session''"
      using agree unfolding agree_beside_inventories_def by simp
    ultimately show ?thesis
      by (simp add: evaluate_checked_def evaluate_expression_with_budget_def enforce_selected_membership_def
          selected_membership_is_available_def)
  qed
  show ?thesis
  proof (cases "check_condition check")
    case (Some condition)
    then show ?thesis
      using assms(1) checked
      by (cases condition) (simp_all add: evaluate_trigger_condition_def evaluate_condition_def inspect_def)
  qed (simp add: evaluate_trigger_condition_def)
qed

definition empty_snapshot :: inventory_snapshot where
  "empty_snapshot =
     \<lparr>inv_instructions = None, inv_instructions_complete = False, inv_instructions_limits = [],
      inv_skills = None, inv_skills_complete = False, inv_skills_limits = [], inv_snapshot_revision = None\<rparr>"

definition sample_roots :: "nat json" where
  "sample_roots = JObject [(''repo'', JObject [(''root'', JString ''/p''), (''skills'', JNull)])]"

definition sample_merged :: "nat json" where
  "sample_merged =
     (case merge_into \<lparr>inv_global = empty_snapshot, inv_repo = empty_snapshot\<rparr> sample_roots of
        Some c \<Rightarrow> c | None \<Rightarrow> JNull)"

definition root_check :: "(nat, unit) compiled_check" where
  "root_check =
     \<lparr>check_name = [], check_description = None,
      check_condition = Some (CondExpression (Path [PathProperty ''repo'', PathProperty ''root''])),
      check_trigger = \<lparr>family = Messages False None None None, tr_tools = None, tr_statuses = None,
        tr_models = None, tr_fast_mode = None, tr_paths = None, tr_paths_ignore = None,
        tr_window = None, tr_cooldown = 0\<rparr>,
      check_decisions = [], check_actions = []\<rparr>"

theorem inventory_demand_sound_witness:
  "sample_merged \<noteq> sample_roots
   \<and> evaluate_trigger_condition nat_lib root_check sample_merged =
       evaluate_trigger_condition nat_lib root_check sample_roots"
proof
  show "sample_merged \<noteq> sample_roots" by code_simp
  show "evaluate_trigger_condition nat_lib root_check sample_merged =
       evaluate_trigger_condition nat_lib root_check sample_roots"
  proof (rule inventory_demand_sound)
    show "merge_into \<lparr>inv_global = empty_snapshot, inv_repo = empty_snapshot\<rparr> sample_roots = Some sample_merged"
      by code_simp
  qed (code_simp)+
qed

end
