(* ===== verification/Selection.thy ===== *)
theory Selection
  imports Inventories Lifecycle
begin

text \<open>
  \<open>selection.rs\<close>: the selector of one activation. It filters normalised observations, keeps
  a bounded rolling window per branch and the source identities it has seen, applies
  corrections and removals, and freezes candidates.

  A selector is mutated in place, so an operation returns its result with the new state. A
  capture of current inventories happens at most once in an operation; its outcome is an
  argument. \<open>SelectionPanic\<close> is an \<open>expect\<close> of the code that fails.
\<close>

section \<open>State\<close>

definition MAX_WINDOW_MESSAGES :: nat where
  "MAX_WINDOW_MESSAGES = 40"

definition MAX_SEEN_RESULTS_PER_BRANCH :: nat where
  "MAX_SEEN_RESULTS_PER_BRANCH = 4096"

record 'n selected_message =
  sm_version :: string
  sm_native_order :: string
  sm_message :: "'n message"
  sm_complete :: bool

record 'n branch_selection =
  br_results :: "'n selected_message list"
  br_coverage_complete :: bool
  br_identity_limit_reached :: bool
  br_last_filter_diagnostic :: "filter_diagnostic option"

definition branch_default :: "'n branch_selection" where
  "branch_default = \<lparr>br_results = [], br_coverage_complete = True, br_identity_limit_reached = False,
     br_last_filter_diagnostic = None\<rparr>"

datatype result_membership =
    MemUnknown | MemHistorical | MemExcluded | MemSelected | MemRetired | MemRemoved

record seen_result =
  seen_terminal :: bool
  seen_revision :: nat
  seen_version :: string
  seen_native_order :: string
  seen_membership :: result_membership

record 'n selection_state =
  sel_branches :: "(string, 'n branch_selection) bt"
  sel_seen :: "(string \<times> string, seen_result) bt"

datatype 'n selection_outcome =
    Updated
  | Filtered
  | FilterRejected filter_diagnostic
  | ConditionFiltered condition_outcome
  | Incomplete
  | WindowInvalidated
  | Candidate "'n frozen_candidate"

datatype 'e selection_failure =
    CaptureFailed 'e
  | SelectionPanic

text \<open>What the code calls of \<open>sha2\<close> and of the serialiser of \<open>serde_json\<close>.\<close>

record 'n digest_lib =
  sha256 :: "string \<Rightarrow> string"
  activation_bytes :: "activation_id \<Rightarrow> string"
  values_bytes :: "'n json list \<Rightarrow> string"
  value_bytes :: "'n json \<Rightarrow> string"

section \<open>Fingerprints\<close>

text \<open>The derived order of dependencies: the variant, then its fields.\<close>

fun dependency_key :: "evidence_dependency \<Rightarrow> nat \<times> string \<times> string \<times> nat" where
  "dependency_key (DepMessage i v) = (0, i, v, 0)"
| "dependency_key (DepMembershipThrough p) = (1, [], [], p)"
| "dependency_key (DepContext i v) = (2, i, v, 0)"
| "dependency_key (DepSourceEvidence i v) = (3, i, v, 0)"
| "dependency_key (DepSessionActivity e r) = (4, e, [], r)"

lemma dependency_key_inject [simp]: "dependency_key a = dependency_key b \<longleftrightarrow> a = b"
  by (cases a; cases b) auto

instantiation evidence_dependency :: linorder
begin

definition less_eq_evidence_dependency :: "evidence_dependency \<Rightarrow> evidence_dependency \<Rightarrow> bool" where
  "a \<le> b \<longleftrightarrow> dependency_key a \<le> dependency_key b"

definition less_evidence_dependency :: "evidence_dependency \<Rightarrow> evidence_dependency \<Rightarrow> bool" where
  "a < b \<longleftrightarrow> dependency_key a < dependency_key b"

instance
  by standard
    (auto simp: less_eq_evidence_dependency_def less_evidence_dependency_def simp flip: dependency_key_inject)

end

definition be64 :: "nat \<Rightarrow> string" where
  "be64 n = map (\<lambda>i. char_of (n div 256 ^ i mod 256)) [7, 6, 5, 4, 3, 2, 1, 0]"

definition string_bytes :: "string \<Rightarrow> string" where
  "string_bytes s = be64 (length s) @ s"

fun dependency_bytes :: "evidence_dependency \<Rightarrow> string" where
  "dependency_bytes (DepMessage i v) = CHR 0x00 # string_bytes i @ string_bytes v"
| "dependency_bytes (DepMembershipThrough p) = CHR 0x01 # be64 p"
| "dependency_bytes (DepContext i v) = CHR 0x02 # string_bytes i @ string_bytes v"
| "dependency_bytes (DepSourceEvidence i v) = CHR 0x03 # string_bytes i @ string_bytes v"
| "dependency_bytes (DepSessionActivity e r) = CHR 0x04 # string_bytes e @ be64 r"

definition fingerprint_bytes ::
  "'n digest_lib \<Rightarrow> activation_id \<Rightarrow> string \<Rightarrow> nat \<Rightarrow> 'n message list \<Rightarrow> 'n frozen_context
     \<Rightarrow> evidence_dependency list \<Rightarrow> string" where
  "fingerprint_bytes D activation branch trigger messages context dependencies =
     activation_bytes D activation @ string_bytes branch @ be64 trigger
     @ values_bytes D (map message_value messages) @ value_bytes D (context_value context)
     @ concat (map dependency_bytes dependencies)"

definition candidate_fingerprint ::
  "'n digest_lib \<Rightarrow> activation_id \<Rightarrow> string \<Rightarrow> nat \<Rightarrow> 'n message list \<Rightarrow> 'n frozen_context
     \<Rightarrow> evidence_dependency list \<Rightarrow> string" where
  "candidate_fingerprint D activation branch trigger messages context dependencies =
     sha256 D (fingerprint_bytes D activation branch trigger messages context dependencies)"

definition freeze_candidate ::
  "'n digest_lib \<Rightarrow> activation_id \<Rightarrow> 'n observation \<Rightarrow> 'n message list \<Rightarrow> 'n frozen_context
     \<Rightarrow> evidence_dependency list \<Rightarrow> 'n selection_outcome" where
  "freeze_candidate D activation observation messages context dependencies =
     Candidate
       \<lparr>cand_activation = activation, cand_branch = obs_branch observation,
        cand_trigger_position = obs_position observation, cand_messages = messages,
        cand_context = context, cand_dependencies = dependencies,
        cand_fingerprint = candidate_fingerprint D activation (obs_branch observation)
          (obs_position observation) messages context dependencies\<rparr>"

section \<open>Filters and contexts\<close>

definition is_historical :: "('n, 'f) effective_activation \<Rightarrow> 'n observation \<Rightarrow> bool" where
  "is_historical activation observation \<longleftrightarrow>
     obs_position observation \<le> act_bootstrap_position activation
     \<or> (case obs_kind observation of
          ToolResult _ _ _ \<Rightarrow>
            (case obs_first_terminal observation of
               None \<Rightarrow> False | Some cursor \<Rightarrow> cursor \<le> act_bootstrap_publication activation)
        | _ \<Rightarrow>
            (case obs_first_eligible observation of
               None \<Rightarrow> True | Some cursor \<Rightarrow> cursor \<le> act_bootstrap_publication activation))"

definition observation_message :: "'n observation \<Rightarrow> 'n message option" where
  "observation_message observation =
     (case obs_kind observation of
        UserMessage m \<Rightarrow> Some m
      | AssistantMessage m \<Rightarrow> Some m
      | ToolCall m \<Rightarrow> Some m
      | ToolResult m _ _ \<Rightarrow> Some m
      | _ \<Rightarrow> None)"

definition trigger_roots :: "'n observation \<Rightarrow> (string \<times> 'n json) list \<Rightarrow> (string \<times> 'n json) list" where
  "trigger_roots observation roots =
     (case observation_message observation of
        Some m \<Rightarrow> bt_remove ''turn'' (bt_insert ''message'' (message_value m) roots)
      | None \<Rightarrow>
          (case obs_kind observation of
             TurnEnd turn \<Rightarrow> bt_insert ''turn'' turn (bt_remove ''message'' roots)
           | _ \<Rightarrow> bt_remove ''turn'' (bt_remove ''message'' roots)))"

definition trigger_context :: "'n observation \<Rightarrow> bool \<Rightarrow> 'n frozen_context option" where
  "trigger_context observation coverage_complete =
     (case context_value (obs_context observation) of
        JObject roots \<Rightarrow>
          (let roots = bt_remove ''window'' (trigger_roots observation roots);
               roots = (case bt_get roots ''session'' of
                  Some (JObject session) \<Rightarrow>
                    bt_insert ''session''
                      (JObject (bt_insert ''source_coverage''
                        (JString (if coverage_complete then ''complete'' else ''partial'')) session)) roots
                | _ \<Rightarrow> roots)
           in Some ((obs_context observation)\<lparr>context_value := JObject roots\<rparr>))
      | _ \<Rightarrow> None)"

definition parse_category :: "string \<Rightarrow> tool_category option" where
  "parse_category v =
     (if v = ''shell'' then Some Shell else if v = ''read'' then Some Read
      else if v = ''search'' then Some Search else if v = ''edit'' then Some Edit
      else if v = ''write'' then Some Write else if v = ''delegate'' then Some Delegate
      else if v = ''skill'' then Some Skill else if v = ''mcp'' then Some Mcp
      else if v = ''other'' then Some OtherTool else None)"

definition parse_status :: "string \<Rightarrow> tool_result_status option" where
  "parse_status v =
     (if v = ''completed'' then Some StatusCompleted else if v = ''error'' then Some StatusError
      else if v = ''cancelled'' then Some StatusCancelled
      else if v = ''unknown'' then Some StatusUnknown else None)"

definition matches_filters ::
  "('n, 'f) compiled_check \<Rightarrow> tool_category option \<Rightarrow> tool_result_status \<Rightarrow> bool" where
  "matches_filters check category status \<longleftrightarrow>
     (case tr_tools (check_trigger check) of
        None \<Rightarrow> True
      | Some tools \<Rightarrow> (case category of None \<Rightarrow> False | Some c \<Rightarrow> c \<in> set tools))
     \<and> (case tr_statuses (check_trigger check) of
          None \<Rightarrow> True | Some statuses \<Rightarrow> status \<in> set statuses)"

definition evaluate_message_filters ::
  "('n, 'f) compiled_check \<Rightarrow> 'n json \<Rightarrow> (filter_diagnostic, unit) res" where
  "evaluate_message_filters check message =
     (let t = check_trigger check in
      res_bind (evaluate_attribution_filters (tr_models t) (tr_fast_mode t) ScopeMessage message) (\<lambda>_.
        evaluate_path_filters (tr_paths t) (tr_paths_ignore t) message))"

definition evaluate_scoped_filters ::
  "event_filters \<Rightarrow> attribution_scope \<Rightarrow> 'n json \<Rightarrow> (filter_diagnostic, unit) res" where
  "evaluate_scoped_filters filters sc v =
     evaluate_attribution_filters (ef_models filters) (ef_fast_mode filters) sc v"

definition slot_filters ::
  "event_filters \<Rightarrow> 'n json \<Rightarrow> (filter_diagnostic, bool) res" where
  "slot_filters filters message =
     (if (case ef_tools filters of
            None \<Rightarrow> False
          | Some tools \<Rightarrow>
              \<not> (case Option.bind (json_as_str (json_index (json_index message ''tool'') ''category''))
                      parse_category of
                   None \<Rightarrow> False | Some c \<Rightarrow> c \<in> set tools))
      then Inr False
      else
        res_bind (evaluate_scoped_filters filters ScopeMessage message) (\<lambda>_.
        res_bind (evaluate_path_filters (ef_paths filters) (ef_paths_ignore filters) message) (\<lambda>_.
          Inr True)))"

definition evaluate_event_filters ::
  "('n, 'f) compiled_check \<Rightarrow> 'n observation \<Rightarrow> (filter_diagnostic, bool) res" where
  "evaluate_event_filters check observation =
     (case (family (check_trigger check), obs_kind observation) of
        (Messages True _ _ _, ToolResult m category status) \<Rightarrow>
          if \<not> (case parse_status status of
                  None \<Rightarrow> False | Some st \<Rightarrow> matches_filters check (parse_category category) st)
          then Inr False
          else res_bind (evaluate_message_filters check (message_value m)) (\<lambda>_. Inr True)
      | (Messages _ (Some filters) _ _, UserMessage m) \<Rightarrow> slot_filters filters (message_value m)
      | (Messages _ _ (Some filters) _, AssistantMessage m) \<Rightarrow> slot_filters filters (message_value m)
      | (Messages _ _ _ (Some filters), ToolCall m) \<Rightarrow> slot_filters filters (message_value m)
      | (ResponseCycle filters, TurnEnd turn) \<Rightarrow>
          if (case ef_statuses filters of
                None \<Rightarrow> False
              | Some statuses \<Rightarrow>
                  \<not> (case Option.bind (json_as_str (json_index turn ''status'')) parse_status of
                       None \<Rightarrow> False | Some st \<Rightarrow> st \<in> set statuses))
          then Inr False
          else res_bind (evaluate_scoped_filters filters ScopeTurn turn) (\<lambda>_. Inr True)
      | (SessionFamily (Some filters) _, SessionStart reason) \<Rightarrow>
          if (case ef_reasons filters of None \<Rightarrow> False | Some reasons \<Rightarrow> reason \<notin> set reasons)
          then Inr False
          else
            res_bind (evaluate_scoped_filters filters ScopeSession
                (json_index (context_value (obs_context observation)) ''session'')) (\<lambda>_. Inr True)
      | (SessionFamily _ (Some filters), SessionIdle _ _ _ _) \<Rightarrow>
          res_bind (evaluate_scoped_filters filters ScopeSession
              (json_index (context_value (obs_context observation)) ''session'')) (\<lambda>_. Inr True)
      | _ \<Rightarrow> Inr False)"

section \<open>Operations on the state\<close>

definition branch_of :: "'n selection_state \<Rightarrow> string \<Rightarrow> 'n branch_selection" where
  "branch_of s b = (case bt_get (sel_branches s) b of None \<Rightarrow> branch_default | Some br \<Rightarrow> br)"

text \<open>\<open>entry(b).or_default()\<close>, changed by \<open>f\<close>.\<close>

definition update_branch ::
  "string \<Rightarrow> ('n branch_selection \<Rightarrow> 'n branch_selection) \<Rightarrow> 'n selection_state \<Rightarrow> 'n selection_state" where
  "update_branch b f s = s\<lparr>sel_branches := bt_insert b (f (branch_of s b)) (sel_branches s)\<rparr>"

type_synonym ('n, 'e, 'a) selecting = "('n selection_state, 'e selection_failure, 'a) ev"

definition set_membership :: "string \<times> string \<Rightarrow> result_membership \<Rightarrow> ('n, 'e, unit) selecting" where
  "set_membership key membership s =
     (if bt_get (sel_seen s) key = None then (Inl SelectionPanic, s)
      else (Inr (), s\<lparr>sel_seen := bt_adjust key (\<lambda>r. r\<lparr>seen_membership := membership\<rparr>) (sel_seen s)\<rparr>))"

definition accepts_update :: "'n selection_state \<Rightarrow> string \<Rightarrow> string \<Rightarrow> nat \<Rightarrow> string \<Rightarrow> bool" where
  "accepts_update s branch identity revision version \<longleftrightarrow>
     (case bt_get (sel_seen s) (branch, identity) of
        None \<Rightarrow> True
      | Some seen \<Rightarrow>
          seen_revision seen < revision
          \<or> revision = seen_revision seen \<and> seen_membership seen \<noteq> MemRemoved
             \<and> version \<noteq> seen_version seen)"

definition is_normalized_duplicate :: "'n selection_state \<Rightarrow> string \<Rightarrow> string \<Rightarrow> nat \<Rightarrow> string \<Rightarrow> bool" where
  "is_normalized_duplicate s branch identity revision version \<longleftrightarrow>
     (case bt_get (sel_seen s) (branch, identity) of
        None \<Rightarrow> False
      | Some seen \<Rightarrow>
          revision = seen_revision seen \<and> seen_membership seen \<noteq> MemRemoved
          \<and> version = seen_version seen)"

definition identity_count :: "'n selection_state \<Rightarrow> string \<Rightarrow> nat" where
  "identity_count s branch =
     length (takeWhile (\<lambda>((b, _), _). b = branch) (dropWhile (\<lambda>(k, _). k < (branch, [])) (sel_seen s)))"

definition mark_identity_limit :: "string \<Rightarrow> 'n selection_state \<Rightarrow> 'n selection_state" where
  "mark_identity_limit branch =
     update_branch branch (\<lambda>br. br\<lparr>br_identity_limit_reached := True, br_coverage_complete := False\<rparr>)"

definition discard_result :: "string \<Rightarrow> string \<Rightarrow> 'n selection_state \<Rightarrow> 'n selection_state" where
  "discard_result branch identity s =
     s\<lparr>sel_branches := bt_adjust branch
         (\<lambda>br. br\<lparr>br_results := filter (\<lambda>m. message_id (sm_message m) \<noteq> identity) (br_results br)\<rparr>)
         (sel_branches s)\<rparr>"

definition mark_coverage_gap :: "string \<Rightarrow> 'n selection_state \<Rightarrow> 'n selection_state" where
  "mark_coverage_gap branch = update_branch branch (\<lambda>br. br\<lparr>br_coverage_complete := False\<rparr>)"

definition retire_seen :: "seen_result \<Rightarrow> seen_result" where
  "retire_seen seen =
     (if seen_terminal seen \<and> seen_membership seen \<noteq> MemHistorical \<and> seen_membership seen \<noteq> MemRemoved
      then seen\<lparr>seen_membership := MemRetired\<rparr> else seen)"

text \<open>\<open>range_mut((branch, ""))\<close> up to the first entry of another branch.\<close>

definition retire_entries ::
  "string \<Rightarrow> (string \<times> string, seen_result) bt \<Rightarrow> (string \<times> string, seen_result) bt" where
  "retire_entries branch m =
     (let before = takeWhile (\<lambda>(k, _). k < (branch, [])) m;
          after = dropWhile (\<lambda>(k, _). k < (branch, [])) m;
          own = takeWhile (\<lambda>((b, _), _). b = branch) after;
          others = dropWhile (\<lambda>((b, _), _). b = branch) after
      in before @ map (\<lambda>(k, seen). (k, retire_seen seen)) own @ others)"

definition retire_window :: "string \<Rightarrow> 'n selection_state \<Rightarrow> 'n selection_state" where
  "retire_window branch s =
     \<lparr>sel_branches = bt_adjust branch (\<lambda>br. br\<lparr>br_results := []\<rparr>) (sel_branches s),
      sel_seen = retire_entries branch (sel_seen s)\<rparr>"

definition reset_segment :: "string \<Rightarrow> 'n selection_state \<Rightarrow> 'n selection_state" where
  "reset_segment branch s = mark_coverage_gap branch (retire_window branch s)"

definition restore_coverage :: "string \<Rightarrow> 'n selection_state \<Rightarrow> 'n selection_state" where
  "restore_coverage branch s =
     update_branch branch (\<lambda>br. br\<lparr>br_coverage_complete := True\<rparr>) (retire_window branch s)"

definition removed_seen :: "nat \<Rightarrow> seen_result \<Rightarrow> seen_result" where
  "removed_seen revision seen =
     seen\<lparr>seen_terminal := True, seen_revision := revision,
          seen_version := ''removed:'' @ show_nat revision, seen_membership := MemRemoved\<rparr>"

definition remove_result ::
  "string \<Rightarrow> string \<Rightarrow> nat \<Rightarrow> 'n selection_state \<Rightarrow> bool \<times> 'n selection_state" where
  "remove_result branch identity revision s =
     (let key = (branch, identity); seen = bt_get (sel_seen s) key in
      if (case seen of
            None \<Rightarrow> False
          | Some r \<Rightarrow> revision < seen_revision r
              \<or> revision = seen_revision r \<and> seen_membership r = MemRemoved)
      then (False, s)
      else if seen = None \<and> MAX_SEEN_RESULTS_PER_BRANCH \<le> identity_count s branch
      then (True, discard_result branch identity (mark_identity_limit branch s))
      else
        (let r = (case seen of
                    Some r \<Rightarrow> r
                  | None \<Rightarrow> \<lparr>seen_terminal = True, seen_revision = revision,
                      seen_version = ''removed:'' @ show_nat revision, seen_native_order = [],
                      seen_membership = MemRemoved\<rparr>)
         in (True, discard_result branch identity
               (s\<lparr>sel_seen := bt_insert key (removed_seen revision r) (sel_seen s)\<rparr>))))"

section \<open>Applying an observation\<close>

type_synonym 'e capture = "('e, current_inventories option) res"

definition capture_into ::
  "'e capture \<Rightarrow> 'n frozen_context \<Rightarrow> ('n, 'e, 'n frozen_context) selecting" where
  "capture_into capture context s =
     (case capture of
        Inl e \<Rightarrow> (Inl (CaptureFailed e), s)
      | Inr None \<Rightarrow> (Inr context, s)
      | Inr (Some inventories) \<Rightarrow>
          (case merge_into inventories (context_value context) of
             None \<Rightarrow> (Inl SelectionPanic, s)
           | Some v \<Rightarrow> (Inr (context\<lparr>context_value := v\<rparr>), s)))"

definition rolling_config :: "('n, 'f) compiled_check \<Rightarrow> rolling_window" where
  "rolling_config check =
     (case tr_window (check_trigger check) of
        None \<Rightarrow> \<lparr>window_size = 1, window_minimum = 1\<rparr> | Some w \<Rightarrow> w)"

text \<open>The loop that pops the oldest messages off a window and retires their identities.\<close>

fun trim_window ::
  "nat \<Rightarrow> string \<Rightarrow> 'n selected_message list \<Rightarrow> (string \<times> string, seen_result) bt
     \<Rightarrow> 'n selected_message list \<times> (string \<times> string, seen_result) bt" where
  "trim_window capacity branch [] seen = ([], seen)"
| "trim_window capacity branch (m # ms) seen =
     (if capacity < length (m # ms)
      then trim_window capacity branch ms
             (bt_adjust (branch, message_id (sm_message m)) (\<lambda>r. r\<lparr>seen_membership := MemRetired\<rparr>) seen)
      else (m # ms, seen))"

definition push_message ::
  "('n, 'f) compiled_check \<Rightarrow> 'n observation \<Rightarrow> 'n message \<Rightarrow> 'n selection_state \<Rightarrow> 'n selection_state" where
  "push_message check observation message s =
     (let branch = obs_branch observation; br = branch_of s branch;
          capacity = min (window_size (rolling_config check)) MAX_WINDOW_MESSAGES;
          pushed = br_results br @ [\<lparr>sm_version = obs_version observation,
              sm_native_order = obs_native_order observation, sm_message = message,
              sm_complete = obs_complete observation\<rparr>]
      in case trim_window capacity branch pushed (sel_seen s) of (results, seen) \<Rightarrow>
           \<lparr>sel_branches = bt_insert branch (br\<lparr>br_results := results\<rparr>) (sel_branches s), sel_seen = seen\<rparr>)"

definition window_dependencies ::
  "'n selected_message list \<Rightarrow> 'n observation \<Rightarrow> evidence_dependency list" where
  "window_dependencies results observation =
     remdups_adj (sort (map (\<lambda>m. DepMessage (message_id (sm_message m)) (sm_version m)) results
       @ context_dependencies (obs_context observation) @ [DepMembershipThrough (obs_position observation)]))"

definition window_context ::
  "('n, 'f) compiled_check \<Rightarrow> 'n message list \<Rightarrow> 'n frozen_context
     \<Rightarrow> ('n, 'e, 'n frozen_context) selecting" where
  "window_context check messages context s =
     (case context_value context of
        JObject roots \<Rightarrow>
          (Inr (if tr_window (check_trigger check) = None then context
                else context\<lparr>context_value := JObject (bt_insert ''window''
                  (JObject [(''messages'', JArray (map message_value messages))]) roots)\<rparr>), s)
      | _ \<Rightarrow> (Inl SelectionPanic, s))"

text \<open>The end of an applied event: a message enters its window, another event freezes alone.\<close>

definition freeze_event ::
  "'n digest_lib \<Rightarrow> 'e capture \<Rightarrow> ('n, 'f) effective_activation \<Rightarrow> 'n observation
     \<Rightarrow> 'n frozen_context \<Rightarrow> ('n, 'e, 'n selection_outcome) selecting" where
  "freeze_event D capture activation observation context =
     (let demand = inspect (act_compiled activation) in
      ev_bind (if demand_candidate demand \<and> \<not> demand_condition demand
               then capture_into capture context else ev_return context) (\<lambda>context.
        ev_return (freeze_candidate D (act_id activation) observation [] context
          (remdups_adj (sort (context_dependencies context))))))"

definition finish_window ::
  "'n digest_lib \<Rightarrow> 'e capture \<Rightarrow> ('n, 'f) effective_activation \<Rightarrow> 'n observation
     \<Rightarrow> 'n frozen_context \<Rightarrow> 'n selected_message list \<Rightarrow> ('n, 'e, 'n selection_outcome) selecting" where
  "finish_window D capture activation observation context results =
     (let check = act_compiled activation; demand = inspect check in
      ev_bind (if demand_candidate demand \<and> \<not> demand_condition demand
               then capture_into capture context else ev_return context) (\<lambda>context.
      ev_bind (window_context check (map sm_message results) context) (\<lambda>context.
        ev_return (freeze_candidate D (act_id activation) observation (map sm_message results)
          context (window_dependencies results observation)))))"

definition freeze_window ::
  "'n digest_lib \<Rightarrow> 'e capture \<Rightarrow> ('n, 'f) effective_activation \<Rightarrow> 'n observation
     \<Rightarrow> 'n frozen_context \<Rightarrow> 'n message \<Rightarrow> ('n, 'e, 'n selection_outcome) selecting" where
  "freeze_window D capture activation observation context message s =
     (let s = push_message (act_compiled activation) observation message s;
          results = br_results (branch_of s (obs_branch observation))
      in if length results < window_minimum (rolling_config (act_compiled activation))
         then (Inr Updated, s)
         else finish_window D capture activation observation context results s)"

definition apply_with_inventories ::
  "'n json_lib \<Rightarrow> 'n digest_lib \<Rightarrow> 'e capture \<Rightarrow> ('n, 'f) effective_activation \<Rightarrow> 'n observation
     \<Rightarrow> ('n, 'e, 'n selection_outcome) selecting" where
  "apply_with_inventories L D capture activation observation s =
     (let check = act_compiled activation; branch = obs_branch observation in
      if obs_kind observation = OtherObservation then (Inr Updated, s)
      else if is_historical activation observation then (Inr Updated, s)
      else
        (case evaluate_event_filters check observation of
           Inl diagnostic \<Rightarrow>
             (Inr (FilterRejected diagnostic),
              update_branch branch (\<lambda>br. br\<lparr>br_last_filter_diagnostic := Some diagnostic\<rparr>) s)
         | Inr False \<Rightarrow> (Inr Filtered, s)
         | Inr True \<Rightarrow>
             (let s = update_branch branch (\<lambda>br. br\<lparr>br_last_filter_diagnostic := None\<rparr>) s in
              case trigger_context observation (br_coverage_complete (branch_of s branch)) of
                None \<Rightarrow> (Inr Incomplete, s)
              | Some context \<Rightarrow>
                  ev_bind (if demand_condition (inspect check) then capture_into capture context
                           else ev_return context) (\<lambda>context.
                    let condition = evaluate_trigger_condition L check (context_value context) in
                    if condition \<noteq> CondMatched then ev_return (ConditionFiltered condition)
                    else
                      (case observation_message observation of
                         None \<Rightarrow> freeze_event D capture activation observation context
                       | Some message \<Rightarrow> freeze_window D capture activation observation context message)) s)))"

definition apply_observation ::
  "'n json_lib \<Rightarrow> 'n digest_lib \<Rightarrow> ('n, 'f) effective_activation \<Rightarrow> 'n observation
     \<Rightarrow> ('n, unit, 'n selection_outcome) selecting" where
  "apply_observation L D activation observation =
     apply_with_inventories L D (Inr None) activation observation"

section \<open>Published events and corrections\<close>

definition correction_matches ::
  "'n json_lib \<Rightarrow> 'e capture \<Rightarrow> ('n, 'f) effective_activation \<Rightarrow> 'n observation \<Rightarrow> bool \<Rightarrow> bool
     \<Rightarrow> ('n, 'e, bool) selecting" where
  "correction_matches L capture activation observation filters_match coverage_complete =
     (if \<not> filters_match then ev_return False
      else
        (case trigger_context observation coverage_complete of
           None \<Rightarrow> ev_return False
         | Some context \<Rightarrow>
             ev_bind (if demand_condition (inspect (act_compiled activation))
                      then capture_into capture context else ev_return context) (\<lambda>context.
               ev_return (evaluate_trigger_condition L (act_compiled activation) (context_value context)
                 = CondMatched))))"

text \<open>The first selected message with the identity takes the corrected payload.\<close>

fun replace_selected ::
  "string \<Rightarrow> 'n observation \<Rightarrow> 'n message \<Rightarrow> 'n selected_message list \<Rightarrow> 'n selected_message list" where
  "replace_selected identity observation message [] = []"
| "replace_selected identity observation message (m # ms) =
     (if message_id (sm_message m) = identity
      then m\<lparr>sm_version := obs_version observation, sm_message := message,
             sm_complete := obs_complete observation\<rparr> # ms
      else m # replace_selected identity observation message ms)"

definition correct_selected ::
  "string \<times> string \<Rightarrow> 'n observation \<Rightarrow> ('n, 'e, 'n selection_outcome) selecting" where
  "correct_selected key observation s =
     (case observation_message observation of
        None \<Rightarrow> (Inl SelectionPanic, s)
      | Some message \<Rightarrow>
          (case bt_get (sel_branches s) (obs_branch observation) of
             None \<Rightarrow> (Inl SelectionPanic, s)
           | Some br \<Rightarrow>
               if \<not> list_ex (\<lambda>m. message_id (sm_message m) = snd key) (br_results br)
               then (Inl SelectionPanic, s)
               else
                 ev_bind (set_membership key MemSelected) (\<lambda>_. ev_return Updated)
                   (s\<lparr>sel_branches := bt_insert (obs_branch observation)
                       (br\<lparr>br_results := replace_selected (snd key) observation message (br_results br)\<rparr>)
                       (sel_branches s)\<rparr>)))"

definition ev_update :: "('s \<Rightarrow> 's) \<Rightarrow> ('s, 'e, unit) ev" where
  "ev_update f s = (Inr (), f s)"

text \<open>What a correction does once it is known whether the new payload matches.\<close>

definition settle_correction ::
  "string \<times> string \<Rightarrow> seen_result \<Rightarrow> 'n observation \<Rightarrow> filter_diagnostic option \<Rightarrow> bool \<Rightarrow> bool
     \<Rightarrow> ('n, 'e, 'n selection_outcome) selecting" where
  "settle_correction key previous observation diagnostic selected matches =
     (let branch = obs_branch observation in
      if \<not> matches
      then
        ev_bind (ev_update (discard_result branch (snd key))) (\<lambda>_.
        ev_bind (set_membership key MemExcluded) (\<lambda>_.
          ev_return (case diagnostic of None \<Rightarrow> Updated | Some d \<Rightarrow> FilterRejected d)))
      else if seen_membership previous = MemUnknown \<and> \<not> selected
      then
        ev_bind (set_membership key MemRetired) (\<lambda>_.
        ev_bind (ev_update (mark_coverage_gap branch)) (\<lambda>_.
          ev_return WindowInvalidated))
      else if seen_native_order previous \<noteq> obs_native_order observation \<or> \<not> selected
      then
        ev_bind (ev_update (\<lambda>s. update_branch branch (\<lambda>br. br\<lparr>br_coverage_complete := False\<rparr>)
          (retire_window branch s))) (\<lambda>_.
        ev_bind (set_membership key MemRetired) (\<lambda>_.
          ev_return WindowInvalidated))
      else correct_selected key observation)"

definition apply_correction ::
  "'n json_lib \<Rightarrow> 'e capture \<Rightarrow> ('n, 'f) effective_activation \<Rightarrow> string \<times> string \<Rightarrow> seen_result
     \<Rightarrow> 'n observation \<Rightarrow> ('n, 'e, 'n selection_outcome) selecting" where
  "apply_correction L capture activation key previous observation s =
     (let branch = obs_branch observation in
      if seen_membership previous \<in> {MemHistorical, MemRetired, MemRemoved} then (Inr Updated, s)
      else
        (let selected = (case bt_get (sel_branches s) branch of
               None \<Rightarrow> False
             | Some br \<Rightarrow> list_ex (\<lambda>m. message_id (sm_message m) = snd key) (br_results br));
             coverage_complete = br_coverage_complete (branch_of s branch);
             filter_result = evaluate_event_filters (act_compiled activation) observation;
             diagnostic = (case filter_result of Inl d \<Rightarrow> Some d | Inr _ \<Rightarrow> None)
         in ev_bind (correction_matches L capture activation observation (filter_result = Inr True)
               coverage_complete) (settle_correction key previous observation diagnostic selected)
             (update_branch branch (\<lambda>br. br\<lparr>br_last_filter_diagnostic := diagnostic\<rparr>) s)))"

definition recorded_seen :: "nat \<Rightarrow> 'n observation \<Rightarrow> seen_result option \<Rightarrow> seen_result" where
  "recorded_seen revision observation previous =
     \<lparr>seen_terminal = (obs_kind observation \<noteq> OtherObservation
        \<or> (case previous of None \<Rightarrow> False | Some seen \<Rightarrow> seen_terminal seen)),
      seen_revision = revision, seen_version = obs_version observation,
      seen_native_order = obs_native_order observation,
      seen_membership = (case previous of
         None \<Rightarrow> MemUnknown
       | Some seen \<Rightarrow> if seen_membership seen = MemRemoved then MemRetired else seen_membership seen)\<rparr>"

definition is_message_family :: "trigger_family \<Rightarrow> bool" where
  "is_message_family fam \<longleftrightarrow> (case fam of Messages _ _ _ _ \<Rightarrow> True | _ \<Rightarrow> False)"

definition outcome_membership :: "'n selection_outcome \<Rightarrow> result_membership" where
  "outcome_membership out =
     (case out of Candidate _ \<Rightarrow> MemSelected | Updated \<Rightarrow> MemSelected | _ \<Rightarrow> MemExcluded)"

text \<open>The event after its revision is recorded; \<open>previous\<close> is the record before.\<close>

definition apply_recorded ::
  "'n json_lib \<Rightarrow> 'n digest_lib \<Rightarrow> 'e capture \<Rightarrow> ('n, 'f) effective_activation \<Rightarrow> string
     \<Rightarrow> seen_result option \<Rightarrow> 'n observation \<Rightarrow> ('n, 'e, 'n selection_outcome) selecting" where
  "apply_recorded L D capture activation identity previous observation =
     (let branch = obs_branch observation; key = (branch, identity);
          terminal = (obs_kind observation \<noteq> OtherObservation)
      in
        if terminal \<and> is_historical activation observation
        then
          ev_bind (ev_update (discard_result branch identity)) (\<lambda>_.
          ev_bind (set_membership key MemHistorical) (\<lambda>_. ev_return Updated))
        else if (case previous of None \<Rightarrow> True | Some seen \<Rightarrow> \<not> seen_terminal seen)
        then
          if \<not> terminal then ev_return Updated
          else
            ev_bind (apply_with_inventories L D capture activation observation) (\<lambda>out.
            ev_bind (set_membership key (outcome_membership out)) (\<lambda>_. ev_return out))
        else
          (case previous of
             None \<Rightarrow> ev_fail SelectionPanic
           | Some seen \<Rightarrow>
               if \<not> is_message_family (family (check_trigger (act_compiled activation)))
               then ev_bind (set_membership key MemRetired) (\<lambda>_. ev_return Updated)
               else apply_correction L capture activation key seen observation))"

definition apply_published_with_inventories ::
  "'n json_lib \<Rightarrow> 'n digest_lib \<Rightarrow> 'e capture \<Rightarrow> ('n, 'f) effective_activation \<Rightarrow> string \<Rightarrow> nat
     \<Rightarrow> 'n observation \<Rightarrow> ('n, 'e, 'n selection_outcome) selecting" where
  "apply_published_with_inventories L D capture activation identity revision observation s =
     (let branch = obs_branch observation; key = (branch, identity);
          previous = bt_get (sel_seen s) key
      in
        if previous = None
           \<and> (case bt_get (sel_branches s) branch of
                None \<Rightarrow> False | Some br \<Rightarrow> br_identity_limit_reached br)
        then (Inr Updated, s)
        else if \<not> accepts_update s branch identity revision (obs_version observation) then (Inr Updated, s)
        else if previous = None \<and> MAX_SEEN_RESULTS_PER_BRANCH \<le> identity_count s branch
        then (Inr Updated, mark_identity_limit branch s)
        else
          apply_recorded L D capture activation identity previous observation
            (s\<lparr>sel_seen := bt_insert key (recorded_seen revision observation previous) (sel_seen s)\<rparr>))"

definition apply_published ::
  "'n json_lib \<Rightarrow> 'n digest_lib \<Rightarrow> ('n, 'f) effective_activation \<Rightarrow> string \<Rightarrow> nat \<Rightarrow> 'n observation
     \<Rightarrow> ('n, unit, 'n selection_outcome) selecting" where
  "apply_published L D activation identity revision observation =
     apply_published_with_inventories L D (Inr None) activation identity revision observation"

end
