(* ===== verification/Selection_Laws.thy ===== *)
theory Selection_Laws
  imports Selection
begin

text \<open>
  What the selector guarantees: the bounds on its windows and identities, that an identity
  triggers at most once, what a candidate holds, and how it treats replayed, stale and
  removed events.
\<close>

section \<open>The invariant\<close>

text \<open>
  Both maps are ordered, every window has at most forty messages, and a branch has at most
  4096 identities. A step keeps this and forgets no identity: terminal identities stay
  terminal and revisions never decrease.
\<close>

definition identities :: "'n selection_state \<Rightarrow> string \<Rightarrow> string set" where
  "identities s b = {i. bt_get (sel_seen s) (b, i) \<noteq> None}"

definition sel_ok :: "'n selection_state \<Rightarrow> bool" where
  "sel_ok s \<longleftrightarrow>
     bt_ok (sel_branches s) \<and> bt_ok (sel_seen s)
     \<and> (\<forall>b br. bt_get (sel_branches s) b = Some br \<longrightarrow> length (br_results br) \<le> MAX_WINDOW_MESSAGES)
     \<and> (\<forall>b. card (identities s b) \<le> MAX_SEEN_RESULTS_PER_BRANCH)"

definition seen_le :: "(string \<times> string, seen_result) bt \<Rightarrow> (string \<times> string, seen_result) bt \<Rightarrow> bool" where
  "seen_le m m' \<longleftrightarrow>
     (\<forall>k r. bt_get m k = Some r \<longrightarrow>
        (\<exists>r'. bt_get m' k = Some r' \<and> (seen_terminal r \<longrightarrow> seen_terminal r')
           \<and> seen_revision r \<le> seen_revision r'))"

definition sel_extends :: "'n selection_state \<Rightarrow> 'n selection_state \<Rightarrow> bool" where
  "sel_extends s t \<longleftrightarrow> (sel_ok s \<longrightarrow> sel_ok t \<and> seen_le (sel_seen s) (sel_seen t))"

lemma seen_le_refl [simp]: "seen_le m m"
  by (simp add: seen_le_def)

lemma seen_le_trans: "seen_le m n \<Longrightarrow> seen_le n k \<Longrightarrow> seen_le m k"
  unfolding seen_le_def by (meson le_trans)

interpretation sel: state_relation sel_extends
  by unfold_locales (auto simp: sel_extends_def intro: seen_le_trans)

lemma keeps_update: "(\<And>s. R s (f s)) \<Longrightarrow> keeps R (ev_update f)"
  by (simp add: keeps_def ev_update_def)

text \<open>Changes of the entries of the seen map that keep its keys.\<close>

lemma seen_adjust:
  assumes "\<And>r. (seen_terminal r \<longrightarrow> seen_terminal (f r)) \<and> seen_revision r \<le> seen_revision (f r)"
  shows "seen_le m (bt_adjust k f m)"
  using assms by (auto simp: seen_le_def bt_get_adjust)

lemma same_keys_get:
  assumes "map fst m = map fst n"
  shows "bt_get m k = None \<longleftrightarrow> bt_get n k = None"
  using arg_cong [OF assms, of set] by (simp add: bt_get_def map_of_eq_None_iff)

lemma sel_ok_seen:
  assumes "sel_ok s" "map fst m = map fst (sel_seen s)" "sel_branches t = sel_branches s" "sel_seen t = m"
  shows "sel_ok t"
  using assms same_keys_get [OF assms(2)] by (simp add: sel_ok_def identities_def bt_ok_def)

lemma branch_bound:
  "sel_ok s \<Longrightarrow> length (br_results (branch_of s b)) \<le> MAX_WINDOW_MESSAGES"
  by (auto simp: sel_ok_def branch_of_def branch_default_def split: option.splits)

lemma sel_ok_insert_branch:
  assumes "sel_ok s" "length (br_results br) \<le> MAX_WINDOW_MESSAGES"
  shows "sel_ok (s\<lparr>sel_branches := bt_insert b br (sel_branches s)\<rparr>)"
  using assms by (auto simp: sel_ok_def identities_def bt.invar_store bt.lookup_store)

lemma extends_update_branch:
  assumes "\<And>br. br_results (f br) = br_results br"
  shows "sel_extends s (update_branch b f s)"
  using branch_bound [of s b] assms
  by (auto simp: sel_extends_def update_branch_def intro!: sel_ok_insert_branch)

lemma keeps_set_membership: "keeps sel_extends (set_membership key membership)"
  unfolding keeps_def
proof
  fix s
  show "sel_extends s (snd (set_membership key membership s))"
    using sel_ok_seen [of s "bt_adjust key (\<lambda>r. r\<lparr>seen_membership := membership\<rparr>) (sel_seen s)"]
    by (auto simp: set_membership_def sel_extends_def intro!: seen_adjust)
qed

lemma extends_discard: "sel_extends s (discard_result b i s)"
  by (auto simp: sel_extends_def discard_result_def sel_ok_def identities_def bt_ok_adjust bt_get_adjust
      intro!: le_trans [OF length_filter_le])

lemma retire_entries_split:
  obtains xs ys zs where "m = xs @ ys @ zs"
    "retire_entries b m = xs @ map (\<lambda>(k, seen). (k, retire_seen seen)) ys @ zs"
proof
  show "m = takeWhile (\<lambda>(k, _). k < (b, [])) m
      @ takeWhile (\<lambda>((b', _), _). b' = b) (dropWhile (\<lambda>(k, _). k < (b, [])) m)
      @ dropWhile (\<lambda>((b', _), _). b' = b) (dropWhile (\<lambda>(k, _). k < (b, [])) m)" by simp
qed (simp add: retire_entries_def Let_def)

lemma retire_keys [simp]: "map fst (retire_entries b m) = map fst m"
  by (rule retire_entries_split [of m b]) (simp add: comp_def split_beta)

lemma retire_le: "seen_le m (retire_entries b m)"
proof (rule retire_entries_split [of m b])
  fix xs ys zs
  let ?f = "\<lambda>(k, seen). (k, retire_seen seen)"
  assume "m = xs @ ys @ zs" "retire_entries b m = xs @ map ?f ys @ zs"
  moreover have "map_of (map ?f ys) k = map_option retire_seen (map_of ys k)" for k
    by (simp add: map_of_map)
  ultimately show ?thesis
    by (auto simp: seen_le_def bt_get_def map_add_def retire_seen_def split: option.splits)
qed

lemma extends_retire: "sel_extends s (retire_window b s)"
proof -
  have "bt_ok (sel_seen s) \<Longrightarrow> bt_ok (retire_entries b (sel_seen s))" by (simp add: bt_ok_def)
  then have "sel_ok (retire_window b s)" if "sel_ok s"
    using that same_keys_get [OF retire_keys]
    by (auto simp: sel_ok_def identities_def retire_window_def bt_ok_adjust bt_get_adjust)
  then show ?thesis using retire_le by (simp add: sel_extends_def retire_window_def)
qed

section \<open>Identities of a branch\<close>

lemma pair_above: "(b, []) \<le> (k :: string \<times> string) \<longleftrightarrow> b \<le> fst k"
  by (cases k) (auto simp: less_eq_prod_def)

lemma own_run:
  fixes m :: "(string \<times> string, 'v) bt"
  assumes "bt_ok m" "list_all (\<lambda>(k, _). b \<le> fst k) m"
  shows "takeWhile (\<lambda>((b', _), _). b' = b) m = filter (\<lambda>(k, _). fst k = b) m"
  using assms
proof (induction m)
  case (Cons e m)
  obtain b' i v where e: "e = ((b', i), v)" by (metis prod.exhaust)
  show ?case
  proof (cases "b' = b")
    case True
    then show ?thesis using Cons by (auto simp: e bt_ok_Cons)
  next
    case False
    then have "b < b'" using Cons.prems(2) by (auto simp: e)
    then have "filter (\<lambda>(k, _). fst k = b) m = []"
      using Cons.prems(1) by (auto simp: e bt_ok_Cons filter_empty_conv less_prod_def)
    then show ?thesis using False by (simp add: e)
  qed
qed simp

lemma own_entries:
  fixes m :: "(string \<times> string, 'v) bt"
  assumes "bt_ok m"
  shows "takeWhile (\<lambda>((b', _), _). b' = b) (dropWhile (\<lambda>(k, _). k < (b, [])) m) =
         filter (\<lambda>(k, _). fst k = b) m"
  using assms
proof (induction m)
  case (Cons e m)
  obtain k v where e: "e = (k, v)" by fastforce
  show ?case
  proof (cases "k < (b, [])")
    case True
    then have "fst k \<noteq> b" using pair_above [of b k] by auto
    then show ?thesis using Cons True by (auto simp: e bt_ok_Cons)
  next
    case False
    then have "b \<le> fst k" by (simp add: not_less pair_above)
    moreover have "fst k \<le> fst (fst p)" if "p \<in> set m" for p
      using Cons.prems that by (auto simp: e bt_ok_Cons less_prod_def)
    ultimately have "list_all (\<lambda>(k, _). b \<le> fst k) (e # m)"
      by (fastforce simp: e list_all_iff intro: order_trans)
    then show ?thesis using own_run [OF Cons.prems] False by (simp add: e)
  qed
qed simp

lemma identity_count_card:
  assumes "bt_ok (sel_seen s)"
  shows "identity_count s b = card (identities s b)"
proof -
  let ?own = "filter (\<lambda>(k, _). fst k = b) (sel_seen s)"
  have "distinct (map fst ?own)" using bt_ok_distinct [OF bt_ok_filter [OF assms]] .
  then have "length ?own = card (fst ` set ?own)" using distinct_card by fastforce
  also have "fst ` set ?own = Pair b ` identities s b"
    by (auto simp: identities_def bt_get_iff [OF assms] image_iff)
  also have "card (Pair b ` identities s b) = card (identities s b)" by (simp add: card_image inj_on_def)
  finally show ?thesis by (simp add: identity_count_def own_entries [OF assms])
qed

lemma finite_identities: "finite (identities s b)"
proof -
  have "Pair b ` identities s b \<subseteq> fst ` set (sel_seen s)"
    by (auto simp: identities_def bt_get_def dest!: map_of_SomeD intro: rev_image_eqI)
  then show ?thesis by (metis finite_imageD finite_imageI finite_set finite_subset inj_on_def prod.inject)
qed

lemma sel_ok_record:
  assumes "sel_ok s" "bt_get (sel_seen s) (b, i) \<noteq> None \<or> identity_count s b < MAX_SEEN_RESULTS_PER_BRANCH"
  shows "sel_ok (s\<lparr>sel_seen := bt_insert (b, i) r (sel_seen s)\<rparr>)"
proof -
  have ok: "bt_ok (sel_seen s)" using assms(1) by (simp add: sel_ok_def)
  have ids: "identities (s\<lparr>sel_seen := bt_insert (b, i) r (sel_seen s)\<rparr>) b' =
      (if b' = b then insert i (identities s b) else identities s b')" for b'
    by (auto simp: identities_def bt.lookup_store ok)
  have "card (insert i (identities s b)) \<le> MAX_SEEN_RESULTS_PER_BRANCH"
  proof (cases "i \<in> identities s b")
    case True
    then show ?thesis using assms(1) by (simp add: insert_absorb sel_ok_def)
  next
    case False
    then show ?thesis
      using assms finite_identities [of s b] by (simp add: identity_count_card [OF ok] identities_def)
  qed
  then show ?thesis using assms(1) by (simp add: sel_ok_def ids bt.invar_store)
qed

section \<open>Every operation keeps the invariant\<close>

lemma trim_window_facts:
  assumes "trim_window c b ms seen = (ms', seen')"
  shows "ms' = drop (length ms - c) ms \<and> map fst seen' = map fst seen \<and> seen_le seen seen'"
  using assms
proof (induction c b ms seen rule: trim_window.induct)
  case (2 c b m ms seen)
  show ?case
  proof (cases "c < length (m # ms)")
    case True
    then have "ms' = drop (length ms - c) ms" "map fst seen' = map fst seen"
      "seen_le (bt_adjust (b, message_id (sm_message m)) (\<lambda>r. r\<lparr>seen_membership := MemRetired\<rparr>) seen) seen'"
      using 2 by (auto simp del: map_eq_conv)
    moreover have "seen_le seen (bt_adjust (b, message_id (sm_message m))
        (\<lambda>r. r\<lparr>seen_membership := MemRetired\<rparr>) seen)"
      by (rule seen_adjust) simp
    ultimately show ?thesis using True seen_le_trans by (auto simp: Suc_diff_le)
  next
    case False
    then show ?thesis using 2 by auto
  qed
qed auto

lemma extends_push: "sel_extends s (push_message check observation message s)"
proof -
  let ?b = "obs_branch observation"
  let ?c = "min (window_size (rolling_config check)) MAX_WINDOW_MESSAGES"
  obtain ms' seen' where trim: "trim_window ?c ?b (br_results (branch_of s ?b) @
      [\<lparr>sm_version = obs_version observation, sm_native_order = obs_native_order observation,
        sm_message = message, sm_complete = obs_complete observation\<rparr>]) (sel_seen s) = (ms', seen')"
    by fastforce
  note facts = trim_window_facts [OF trim]
  let ?s = "\<lparr>sel_branches = sel_branches s, sel_seen = seen'\<rparr>"
  have "length ms' \<le> MAX_WINDOW_MESSAGES" using facts by auto
  moreover have "sel_ok ?s" if "sel_ok s" by (rule sel_ok_seen [OF that]) (use facts in auto)
  ultimately have "sel_ok (?s\<lparr>sel_branches := bt_insert ?b ((branch_of s ?b)\<lparr>br_results := ms'\<rparr>) (sel_branches ?s)\<rparr>)"
    if "sel_ok s" using that by (intro sel_ok_insert_branch) auto
  then show ?thesis using facts trim by (simp add: sel_extends_def push_message_def Let_def)
qed

lemma keepsD: "keeps R m \<Longrightarrow> R s (snd (m s))"
  by (simp add: keeps_def)

lemma keeps_unchanged: "(\<And>s. snd (m s) = s) \<Longrightarrow> keeps sel_extends m"
  by (simp add: keeps_def sel.refl)

lemma capture_unchanged [simp]: "snd (capture_into capture context s) = s"
  by (simp add: capture_into_def split: sum.splits option.splits)

lemma window_context_unchanged [simp]: "snd (window_context check messages context s) = s"
  by (simp add: window_context_def split: json.splits)

lemmas keeps_capture = keeps_unchanged [OF capture_unchanged]

lemmas keeps_window_context = keeps_unchanged [OF window_context_unchanged]

lemma keeps_captured: "keeps sel_extends (if P then capture_into capture context else ev_return context)"
  by (simp add: keeps_capture sel.keeps_return)

lemma extends_then: "sel_extends s t \<Longrightarrow> keeps sel_extends m \<Longrightarrow> sel_extends s (snd (m t))"
  by (erule sel.trans) (rule keepsD)

lemma keeps_freeze_event: "keeps sel_extends (freeze_event D capture activation observation context)"
  unfolding freeze_event_def Let_def by (rule sel.keeps_bind [OF keeps_captured sel.keeps_return])

lemma keeps_finish_window: "keeps sel_extends (finish_window D capture activation observation context results)"
  unfolding finish_window_def Let_def
  by (rule sel.keeps_bind [OF keeps_captured sel.keeps_bind [OF keeps_window_context sel.keeps_return]])

lemma keeps_freeze_window: "keeps sel_extends (freeze_window D capture activation observation context message)"
  unfolding keeps_def freeze_window_def Let_def
  by (auto intro: extends_push extends_then [OF extends_push keeps_finish_window])

lemma keeps_apply:
  fixes L :: "'a json_lib"
  shows "keeps sel_extends (apply_with_inventories L D capture activation observation)"
  unfolding keeps_def
proof
  fix s :: "'a selection_state"
  let ?b = "obs_branch observation"
  have upd: "sel_extends s (update_branch ?b (\<lambda>br. br\<lparr>br_last_filter_diagnostic := d\<rparr>) s)" for d
    by (rule extends_update_branch) simp
  have rest: "keeps sel_extends (ev_bind (if demand_condition (inspect (act_compiled activation))
      then capture_into capture ctx else ev_return ctx) (\<lambda>context.
        let condition = evaluate_trigger_condition L (act_compiled activation) (context_value context) in
        if condition \<noteq> CondMatched then ev_return (ConditionFiltered condition)
        else
          (case observation_message observation of
             None \<Rightarrow> freeze_event D capture activation observation context
           | Some message \<Rightarrow> freeze_window D capture activation observation context message)))" for ctx
    by (rule sel.keeps_bind [OF keeps_captured])
      (auto simp: Let_def keeps_freeze_event keeps_freeze_window sel.keeps_return simp del: ev_return_apply
        split: option.splits)
  show "sel_extends s (snd (apply_with_inventories L D capture activation observation s))"
    using upd extends_then [OF upd rest]
    by (auto simp: apply_with_inventories_def Let_def sel.refl simp del: ev_return_apply
        split: sum.splits bool.splits option.splits)
qed

lemma replace_selected_length [simp]:
  "length (replace_selected identity observation message ms) = length ms"
  by (induction ms) simp_all

lemma keeps_correct_selected: "keeps sel_extends (correct_selected key observation)"
  unfolding keeps_def
proof
  fix s
  have "sel_extends s (s\<lparr>sel_branches := bt_insert b (br\<lparr>br_results :=
      replace_selected i observation message (br_results br)\<rparr>) (sel_branches s)\<rparr>)"
    if "bt_get (sel_branches s) b = Some br" for b br i message
    using that sel_ok_insert_branch [of s "br\<lparr>br_results := replace_selected i observation message (br_results br)\<rparr>" b]
    by (auto simp: sel_extends_def sel_ok_def)
  then show "sel_extends s (snd (correct_selected key observation s))"
    by (auto simp: correct_selected_def sel.refl simp del: ev_return_apply split: option.splits
        intro!: extends_then sel.keeps_bind keeps_set_membership sel.keeps_return)
qed

lemma extends_gap: "sel_extends s (mark_coverage_gap b s)"
  unfolding mark_coverage_gap_def by (rule extends_update_branch) simp

lemma extends_limit: "sel_extends s (mark_identity_limit b s)"
  unfolding mark_identity_limit_def by (rule extends_update_branch) simp

lemma extends_uncover:
  "sel_extends s (update_branch b (\<lambda>br. br\<lparr>br_coverage_complete := c\<rparr>) (retire_window b s))"
  by (rule sel.trans [OF extends_retire extends_update_branch]) simp

lemma keeps_correction_matches:
  "keeps sel_extends (correction_matches L capture activation observation filters_match coverage)"
  by (cases filters_match; cases "trigger_context observation coverage")
    (simp_all add: correction_matches_def sel.keeps_bind [OF keeps_captured sel.keeps_return]
      sel.keeps_return del: if_split)

lemma keeps_discard: "keeps sel_extends (ev_update (discard_result b i))"
  by (rule keeps_update) (rule extends_discard)

lemma keeps_settle: "keeps sel_extends (settle_correction key previous observation diagnostic selected matches)"
proof -
  have "keeps sel_extends (ev_update (mark_coverage_gap b))"
    and "keeps sel_extends (ev_update (\<lambda>s. update_branch b (\<lambda>br. br\<lparr>br_coverage_complete := False\<rparr>)
          (retire_window b s)))" for b
    by (rule keeps_update, rule extends_gap, rule keeps_update, rule extends_uncover)
  then show ?thesis
    unfolding settle_correction_def Let_def
    by (auto intro!: sel.keeps_bind keeps_discard keeps_set_membership keeps_correct_selected sel.keeps_return
        simp del: ev_return_apply)
qed

lemma keeps_correction:
  "keeps sel_extends (apply_correction L capture activation key previous observation)"
proof -
  have upd: "sel_extends s (update_branch b (\<lambda>br. br\<lparr>br_last_filter_diagnostic := d\<rparr>) s)" for s b d
    by (rule extends_update_branch) simp
  have "sel_extends s (snd (ev_bind (correction_matches L capture activation observation fm cov)
      (settle_correction key previous observation d sel)
      (update_branch b (\<lambda>br. br\<lparr>br_last_filter_diagnostic := d\<rparr>) s)))" for s fm cov d sel b
    by (rule extends_then [OF upd sel.keeps_bind [OF keeps_correction_matches keeps_settle]])
  then show ?thesis by (simp add: keeps_def apply_correction_def Let_def sel.refl)
qed

lemma extends_record:
  assumes "accepts_update s (obs_branch observation) i revision (obs_version observation)"
    and "\<not> (bt_get (sel_seen s) (obs_branch observation, i) = None
        \<and> MAX_SEEN_RESULTS_PER_BRANCH \<le> identity_count s (obs_branch observation))"
  shows "sel_extends s (s\<lparr>sel_seen := bt_insert (obs_branch observation, i)
    (recorded_seen revision observation (bt_get (sel_seen s) (obs_branch observation, i))) (sel_seen s)\<rparr>)"
proof -
  let ?k = "(obs_branch observation, i)"
  have "seen_le (sel_seen s) (bt_insert ?k (recorded_seen revision observation (bt_get (sel_seen s) ?k)) (sel_seen s))"
    if "bt_ok (sel_seen s)"
    using assms(1) that
    by (auto simp: seen_le_def bt.lookup_store recorded_seen_def accepts_update_def split: option.splits)
  then show ?thesis
    using assms(2) sel_ok_record [of s "obs_branch observation" i] by (auto simp: sel_extends_def sel_ok_def)
qed

lemma keeps_recorded:
  "keeps sel_extends (apply_recorded L D capture activation identity previous observation)"
proof -
  have first: "keeps sel_extends (ev_bind (apply_with_inventories L D capture activation observation) (\<lambda>out.
      ev_bind (set_membership key (outcome_membership out)) (\<lambda>_. ev_return out)))" for key
    by (rule sel.keeps_bind [OF keeps_apply sel.keeps_bind [OF keeps_set_membership sel.keeps_return]])
  have old: "keeps sel_extends (ev_bind (ev_update (discard_result b identity)) (\<lambda>_.
      ev_bind (set_membership key MemHistorical) (\<lambda>_. ev_return Updated)))" for b key
    by (rule sel.keeps_bind [OF keeps_discard sel.keeps_bind [OF keeps_set_membership sel.keeps_return]])
  have retire: "keeps sel_extends (ev_bind (set_membership key MemRetired) (\<lambda>_. ev_return Updated))" for key
    by (rule sel.keeps_bind [OF keeps_set_membership sel.keeps_return])
  show ?thesis
    by (simp add: apply_recorded_def Let_def first old retire keeps_correction sel.keeps_return sel.keeps_fail
        split: option.split)
qed

lemma keeps_published:
  "keeps sel_extends (apply_published_with_inventories L D capture activation identity revision observation)"
  unfolding keeps_def apply_published_with_inventories_def Let_def
  by (auto simp del: not_None_eq intro: sel.refl extends_limit extends_then [OF extends_record keeps_recorded])

lemma extends_remove: "sel_extends s (snd (remove_result b i revision s))"
proof -
  let ?k = "(b, i)"
  have "sel_extends s (s\<lparr>sel_seen := bt_insert ?k (removed_seen revision r) (sel_seen s)\<rparr>)"
    if "bt_get (sel_seen s) ?k = Some r \<and> seen_revision r \<le> revision
      \<or> bt_get (sel_seen s) ?k = None \<and> identity_count s b < MAX_SEEN_RESULTS_PER_BRANCH" for r
    using that sel_ok_record [of s b i]
    by (auto simp: sel_extends_def sel_ok_def seen_le_def bt.lookup_store removed_seen_def)
  then show ?thesis
    by (auto simp: remove_result_def Let_def sel.refl not_le
        intro!: sel.trans [OF _ extends_discard] extends_limit split: option.splits)
qed

section \<open>Runs of the selector\<close>

text \<open>
  The operations that the engine applies to the selector of an activation. An error of a
  capture is a text here; the state does not depend on it.
\<close>

inductive selection_step ::
  "'n json_lib \<Rightarrow> 'n digest_lib \<Rightarrow> ('n, 'f) effective_activation
     \<Rightarrow> 'n selection_state \<Rightarrow> 'n selection_state \<Rightarrow> bool"
  for L :: "'n json_lib" and D :: "'n digest_lib" and activation :: "('n, 'f) effective_activation" where
  published: "selection_step L D activation s
    (snd (apply_published_with_inventories L D (capture :: string capture) activation identity revision
       observation s))"
| removed: "selection_step L D activation s (snd (remove_result branch identity revision s))"
| gap: "selection_step L D activation s (mark_coverage_gap branch s)"
| segment: "selection_step L D activation s (reset_segment branch s)"
| restored: "selection_step L D activation s (restore_coverage branch s)"

lemma step_extends: "selection_step L D activation s t \<Longrightarrow> sel_extends s t"
  by (induction rule: selection_step.induct)
    (auto simp: reset_segment_def restore_coverage_def mark_coverage_gap_def
      intro: keepsD [OF keeps_published] extends_remove extends_uncover extends_gap [unfolded mark_coverage_gap_def])

lemma run_extends: "(selection_step L D activation)\<^sup>*\<^sup>* s t \<Longrightarrow> sel_extends s t"
  by (induction rule: rtranclp_induct) (auto intro: sel.refl sel.trans step_extends)

definition initial_selection :: "'n selection_state" where
  "initial_selection = \<lparr>sel_branches = [], sel_seen = []\<rparr>"

lemma initial_ok: "sel_ok initial_selection"
  by (simp add: sel_ok_def initial_selection_def bt_get_def identities_def)

lemma reachable_ok: "(selection_step L D activation)\<^sup>*\<^sup>* initial_selection s \<Longrightarrow> sel_ok s"
  using run_extends [of L D activation initial_selection s] initial_ok by (auto simp: sel_extends_def)

text \<open>
  C38. The selector is bounded: whatever it is fed, no window holds more than forty messages
  and no branch more than 4096 identities.
\<close>

theorem selection_bounded:
  assumes "(selection_step L D activation)\<^sup>*\<^sup>* initial_selection s"
  shows "list_all (\<lambda>(_, br). length (br_results br) \<le> MAX_WINDOW_MESSAGES) (sel_branches s)
    \<and> identity_count s branch \<le> MAX_SEEN_RESULTS_PER_BRANCH"
proof -
  have ok: "sel_ok s" by (rule reachable_ok [OF assms])
  then have "bt_ok (sel_branches s)" "bt_ok (sel_seen s)" by (simp_all add: sel_ok_def)
  with ok show ?thesis
    by (auto simp: list_all_iff sel_ok_def identity_count_card bt_get_iff)
qed

definition sample_digest :: "nat digest_lib" where
  "sample_digest = \<lparr>sha256 = (\<lambda>s. s), activation_bytes = (\<lambda>_. ''{}''), values_bytes = (\<lambda>_. ''[]''),
     value_bytes = (\<lambda>_. ''{}'')\<rparr>"

theorem selection_bounded_witness:
  "list_all (\<lambda>(_, br). length (br_results br) \<le> MAX_WINDOW_MESSAGES)
       (sel_branches (mark_coverage_gap ''main'' (initial_selection :: nat selection_state)))
   \<and> identity_count (mark_coverage_gap ''main'' (initial_selection :: nat selection_state)) ''main''
       \<le> MAX_SEEN_RESULTS_PER_BRANCH"
  by (rule selection_bounded [of nat_lib sample_digest "sample_activation 1"])
    (rule r_into_rtranclp, rule gap)

section \<open>An identity triggers once\<close>

definition no_candidate :: "'n selection_outcome \<Rightarrow> bool" where
  "no_candidate out \<longleftrightarrow> (case out of Candidate _ \<Rightarrow> False | _ \<Rightarrow> True)"

lemma no_candidate_simps [simp]:
  "no_candidate Updated" "no_candidate WindowInvalidated" "no_candidate (FilterRejected d)"
  "\<not> no_candidate (Candidate c)"
  by (simp_all add: no_candidate_def)

lemma correct_selected_no_candidate: "returns (correct_selected key observation) no_candidate"
  by (auto simp: returns_def correct_selected_def ev_bind_def set_membership_def
      split: option.splits if_splits)

lemma settle_no_candidate:
  "returns (settle_correction key previous observation diagnostic selected matches) no_candidate"
  by (auto simp: settle_correction_def Let_def
      intro!: returns_bind_any correct_selected_no_candidate split: option.split)

lemma correction_no_candidate:
  "returns (apply_correction L capture activation key previous observation) no_candidate"
  using returnsD [OF returns_bind_any [OF settle_no_candidate]]
  by (auto simp: returns_def apply_correction_def Let_def split: if_splits)

lemma recorded_no_candidate:
  assumes "seen_terminal r"
  shows "returns (apply_recorded L D capture activation identity (Some r) observation) no_candidate"
  using assms
  by (auto simp: apply_recorded_def Let_def correction_no_candidate intro!: returns_bind_any)

definition settled :: "string \<times> string \<Rightarrow> 'n selection_state \<Rightarrow> bool" where
  "settled key s \<longleftrightarrow> (case bt_get (sel_seen s) key of None \<Rightarrow> False | Some r \<Rightarrow> seen_terminal r)"

lemma settled_extends: "sel_ok s \<Longrightarrow> sel_extends s t \<Longrightarrow> settled key s \<Longrightarrow> settled key t"
  by (cases key; cases "bt_get (sel_seen s) key") (fastforce simp: sel_extends_def settled_def seen_le_def)+

lemma settled_no_candidate:
  assumes "settled (obs_branch observation, identity) s"
    and "apply_published_with_inventories L D capture activation identity revision observation s = (Inr out, t)"
  shows "no_candidate out"
proof -
  obtain r where r: "bt_get (sel_seen s) (obs_branch observation, identity) = Some r" "seen_terminal r"
    using assms(1) by (auto simp: settled_def split: option.splits)
  then show ?thesis
    using assms(2) returnsD [OF recorded_no_candidate [OF r(2)]]
    by (auto simp: apply_published_with_inventories_def Let_def split: if_splits)
qed

lemma candidate_settles:
  assumes "sel_ok s"
    and "apply_published_with_inventories L D capture activation identity revision observation s = (Inr out, t)"
    and "\<not> no_candidate out"
  shows "settled (obs_branch observation, identity) t"
proof -
  let ?k = "(obs_branch observation, identity)"
  let ?p = "bt_get (sel_seen s) ?k"
  let ?s = "s\<lparr>sel_seen := bt_insert ?k (recorded_seen revision observation ?p) (sel_seen s)\<rparr>"
  have run: "apply_recorded L D capture activation identity ?p observation ?s = (Inr out, t)"
    and rec: "accepts_update s (obs_branch observation) identity revision (obs_version observation)"
      "\<not> (?p = None \<and> MAX_SEEN_RESULTS_PER_BRANCH \<le> identity_count s (obs_branch observation))"
    using assms(2,3) by (auto simp: apply_published_with_inventories_def Let_def split: if_splits)
  have ok: "sel_ok ?s" using extends_record [OF rec] assms(1) by (simp add: sel_extends_def)
  have "obs_kind observation \<noteq> OtherObservation"
  proof
    assume other: "obs_kind observation = OtherObservation"
    show False
    proof (cases "case ?p of None \<Rightarrow> True | Some seen \<Rightarrow> \<not> seen_terminal seen")
      case True
      then show False using run other assms(3) by (simp add: apply_recorded_def Let_def)
    next
      case False
      then obtain r where "?p = Some r" "seen_terminal r" by (auto split: option.splits)
      then show False using run returnsD [OF recorded_no_candidate] assms(3) by metis
    qed
  qed
  then have "settled ?k ?s"
    using assms(1) by (simp add: settled_def bt.lookup_store recorded_seen_def sel_ok_def)
  moreover have "sel_extends ?s t" using keepsD [OF keeps_recorded] run by (metis snd_conv)
  ultimately show ?thesis using settled_extends [OF ok] by blast
qed

text \<open>
  C7. A source identity triggers at most once: after a published event has frozen a candidate,
  no later event with the same branch and identity freezes another, whatever corrections,
  removals, gaps, resets and other events the selector has processed in between.
\<close>

theorem trigger_once:
  assumes "(selection_step L D activation)\<^sup>*\<^sup>* initial_selection s"
    and "apply_published_with_inventories L D capture activation identity revision observation s
      = (Inr (Candidate c), t)"
    and "(selection_step L D activation)\<^sup>*\<^sup>* t u" "obs_branch observation' = obs_branch observation"
  shows "fst (apply_published_with_inventories L D capture' activation identity revision' observation' u)
    \<noteq> Inr (Candidate c')"
proof
  assume "fst (apply_published_with_inventories L D capture' activation identity revision' observation' u)
    = Inr (Candidate c')"
  then obtain v where again: "apply_published_with_inventories L D capture' activation identity revision'
      observation' u = (Inr (Candidate c'), v)" by (metis prod.collapse)
  have ok: "sel_ok s" by (rule reachable_ok [OF assms(1)])
  then have "sel_ok t" "settled (obs_branch observation, identity) t"
    using keepsD [OF keeps_published, of s L D capture activation identity revision observation]
      candidate_settles [OF ok assms(2)] assms(2) by (simp_all add: sel_extends_def)
  then have "settled (obs_branch observation', identity) u"
    using settled_extends run_extends [OF assms(3)] assms(4) by metis
  then show False using settled_no_candidate [OF _ again] by simp
qed

text \<open>A check on user messages, and the first two events of a session.\<close>

definition no_filters :: event_filters where
  "no_filters = \<lparr>ef_tools = None, ef_statuses = None, ef_models = None, ef_fast_mode = None,
     ef_paths = None, ef_paths_ignore = None, ef_reasons = None\<rparr>"

definition message_activation :: "(nat, unit) effective_activation" where
  "message_activation =
     (sample_activation 1)\<lparr>act_compiled :=
        sample_check\<lparr>check_trigger := (check_trigger sample_check)
          \<lparr>family := Messages False (Some no_filters) None None\<rparr>\<rparr>\<rparr>"

definition message_event :: "nat \<Rightarrow> nat observation" where
  "message_event n =
     \<lparr>obs_branch = ''main'', obs_native_order = ''1'', obs_first_terminal = None,
      obs_first_eligible = Some 1, obs_version = show_nat n,
      obs_kind = UserMessage \<lparr>message_id = ''m'', message_value = JObject []\<rparr>,
      obs_context = \<lparr>context_value = JObject [], context_dependencies = []\<rparr>,
      obs_complete = True, obs_position = n\<rparr>"

lemmas event_simps =
  apply_published_with_inventories_def apply_recorded_def recorded_seen_def accepts_update_def
  identity_count_def apply_with_inventories_def freeze_window_def finish_window_def push_message_def
  rolling_config_def capture_into_def window_context_def freeze_candidate_def set_membership_def
  outcome_membership_def update_branch_def branch_of_def branch_default_def evaluate_event_filters_def
  slot_filters_def evaluate_scoped_filters_def evaluate_attribution_filters_def evaluate_path_filters_def
  trigger_context_def trigger_roots_def observation_message_def is_historical_def
  evaluate_trigger_condition_def inspect_def is_message_family_def initial_selection_def
  MAX_SEEN_RESULTS_PER_BRANCH_def MAX_WINDOW_MESSAGES_def

lemmas sample_simps =
  message_activation_def message_event_def sample_activation_def sample_check_def no_filters_def

lemma message_event_candidate:
  "\<exists>c t. apply_published_with_inventories nat_lib sample_digest (Inr None :: string capture)
     message_activation ''m'' 1 (message_event 1) initial_selection = (Inr (Candidate c), t)"
  by (simp add: event_simps sample_simps bt_get_def bt_insert_def bt_remove_def bt_adjust_def ev_bind_def Let_def)

theorem trigger_once_witness:
  "\<exists>c t. apply_published_with_inventories nat_lib sample_digest (Inr None :: string capture)
       message_activation ''m'' 1 (message_event 1) initial_selection = (Inr (Candidate c), t)
     \<and> (\<forall>c'. fst (apply_published_with_inventories nat_lib sample_digest (Inr None :: string capture)
          message_activation ''m'' 2 (message_event 2) t) \<noteq> Inr (Candidate c'))"
proof -
  obtain c t where first: "apply_published_with_inventories nat_lib sample_digest (Inr None :: string capture)
      message_activation ''m'' 1 (message_event 1) initial_selection = (Inr (Candidate c), t)"
    using message_event_candidate by blast
  then show ?thesis
    using trigger_once [OF rtranclp.rtrancl_refl first rtranclp.rtrancl_refl, of "message_event 2"]
    by (auto simp: message_event_def)
qed

end
