(* ===== verification/Progress.thy ===== *)
theory Progress
  imports Results
begin

text \<open>
  The saved attempts of a candidate (\<open>check_store.rs\<close>): a decision is dispatched at most
  twice, the second time only after a failure that is known to be safe.
  \<open>validate_decision_progress\<close> binds the durable rows to the declared decisions and computes
  what the engine does next. A store error is its message.
\<close>

section \<open>The code\<close>

datatype attempt_outcome =
    DispatchIntent
  | AttemptSafeTransient
  | AttemptUnknown
  | AttemptPermanent
  | AttemptAnswer decision_result

record saved_attempt =
  row_attempt :: decision_attempt
  row_outcome :: attempt_outcome

type_synonym decision_progress = "saved_attempt list"

datatype progress_terminal = UnresolvedIntent | TerminalUnknown | TerminalPermanent | AttemptsExhausted

datatype progress_state =
    ProgressNext decision_attempt nat
  | ProgressComplete evaluated_assessment
  | ProgressTerminal progress_terminal

record validated_progress =
  vp_attempts :: nat
  vp_state :: progress_state

definition invalid_progress :: string where
  "invalid_progress = ''invalid saved decision progress''"

type_synonym attempt_rows = "(string \<times> nat, attempt_outcome) bt"

definition row_key :: "saved_attempt \<Rightarrow> string \<times> nat" where
  "row_key row = (attempt_decision (row_attempt row), attempt_number (row_attempt row))"

fun collect_rows ::
  "('n, 'f) decision_block list \<Rightarrow> attempt_rows \<Rightarrow> decision_progress \<Rightarrow> (string, attempt_rows) res" where
  "collect_rows declarations rows [] = Inr rows"
| "collect_rows declarations rows (row # rest) =
     (if attempt_validate (row_attempt row) \<noteq> Inr () then Inl invalid_progress
      else if \<not> list_ex (\<lambda>b. block_name b = attempt_decision (row_attempt row)) declarations
        \<or> bt_contains rows (row_key row)
      then Inl invalid_progress
      else collect_rows declarations (bt_insert (row_key row) (row_outcome row) rows) rest)"

text \<open>The attempt that counts for a block, from the outcomes of its first and second attempt.\<close>

fun current_attempt ::
  "attempt_outcome option \<Rightarrow> attempt_outcome option \<Rightarrow> (string, nat \<times> attempt_outcome option) res" where
  "current_attempt None None = Inr (1, None)"
| "current_attempt None (Some _) = Inl invalid_progress"
| "current_attempt (Some AttemptSafeTransient) second = Inr (2, second)"
| "current_attempt (Some first) None = Inr (1, Some first)"
| "current_attempt (Some _) (Some _) = Inl invalid_progress"

fun attempt_terminal :: "attempt_outcome \<Rightarrow> progress_terminal option" where
  "attempt_terminal DispatchIntent = Some UnresolvedIntent"
| "attempt_terminal AttemptUnknown = Some TerminalUnknown"
| "attempt_terminal AttemptPermanent = Some TerminalPermanent"
| "attempt_terminal AttemptSafeTransient = Some AttemptsExhausted"
| "attempt_terminal (AttemptAnswer _) = None"

text \<open>What one block contributes: its answer, or the state of the whole progress.\<close>

definition block_progress ::
  "'n writer \<Rightarrow> (nat \<Rightarrow> 'n) \<Rightarrow> question_requirements list \<Rightarrow> ('n, 'f) decision_block \<Rightarrow> nat
     \<Rightarrow> attempt_outcome option \<Rightarrow> attempt_outcome option \<Rightarrow> (string, progress_state + decision_result) res" where
  "block_progress W I requirements block remaining first second =
     res_bind (current_attempt first second) (\<lambda>(number, outcome).
       (case outcome of
          None \<Rightarrow>
            res_bind (res_map_err (\<lambda>_. invalid_progress) (attempt_new (block_name block) number)) (\<lambda>a.
              Inr (Inl (ProgressNext a remaining)))
        | Some result \<Rightarrow>
            (case attempt_terminal result of
               Some t \<Rightarrow> Inr (Inl (ProgressTerminal t))
             | None \<Rightarrow>
                 (case result of
                    AttemptAnswer answer \<Rightarrow>
                      if validate_for_declaration W I answer block requirements \<noteq> Inr ()
                         \<or> result_attempts answer \<noteq> number
                      then Inl invalid_progress
                      else Inr (Inr answer)
                  | _ \<Rightarrow> Inl invalid_progress))))"

text \<open>
  The loop over the declarations. \<open>declarations.len() - index\<close> is the number of blocks from
  the current one; \<open>state\<close> is set by the first block that is not answered.
\<close>

fun progress_loop ::
  "'n writer \<Rightarrow> (nat \<Rightarrow> 'n) \<Rightarrow> question_requirements list \<Rightarrow> ('n, 'f) decision_block list
     \<Rightarrow> attempt_rows \<Rightarrow> decision_result list \<Rightarrow> progress_state option
     \<Rightarrow> (string, attempt_rows \<times> decision_result list \<times> progress_state option) res" where
  "progress_loop W I requirements [] rows answers state = Inr (rows, answers, state)"
| "progress_loop W I requirements (block # blocks) rows answers state =
     (let first = bt_get rows (block_name block, 1);
          second = bt_get (bt_remove (block_name block, 1) rows) (block_name block, 2);
          rest = bt_remove (block_name block, 2) (bt_remove (block_name block, 1) rows)
      in case state of
           Some _ \<Rightarrow>
             if first \<noteq> None \<or> second \<noteq> None then Inl invalid_progress
             else progress_loop W I requirements blocks rest answers state
         | None \<Rightarrow>
             res_bind (block_progress W I requirements block (length (block # blocks)) first second) (\<lambda>r.
               (case r of
                  Inl st \<Rightarrow> progress_loop W I requirements blocks rest answers (Some st)
                | Inr answer \<Rightarrow> progress_loop W I requirements blocks rest (answers @ [answer]) None)))"

definition validate_decision_progress ::
  "'n writer \<Rightarrow> (nat \<Rightarrow> 'n) \<Rightarrow> ('n, 'f) decision_block list \<Rightarrow> question_requirements list
     \<Rightarrow> decision_progress \<Rightarrow> (string, validated_progress) res" where
  "validate_decision_progress W I declarations requirements progress =
     (if validate_requirements declarations requirements \<noteq> Inr () then Inl invalid_progress
      else
        res_bind (collect_rows declarations [] progress) (\<lambda>rows.
        res_bind (progress_loop W I requirements declarations rows [] None) (\<lambda>(rest, answers, state).
          if rest \<noteq> [] then Inl invalid_progress
          else
            (case measure_json W
                (assessment_serde I \<lparr>assessed_version = RESULT_VERSION, assessed_decisions = answers,
                   assessed_attempts = length rows\<rparr>) RESULT_LIMITS of
               Inl _ \<Rightarrow> Inl invalid_progress
             | Inr _ \<Rightarrow>
                 (case state of
                    Some st \<Rightarrow> Inr \<lparr>vp_attempts = length rows, vp_state = st\<rparr>
                  | None \<Rightarrow>
                      res_bind (res_map_err (\<lambda>_. invalid_progress)
                          (assessment_new W I declarations requirements answers)) (\<lambda>evaluated.
                        if assessed_attempts evaluated \<noteq> length rows then Inl invalid_progress
                        else Inr \<lparr>vp_attempts = length rows, vp_state = ProgressComplete evaluated\<rparr>))))))"

section \<open>What validated progress says\<close>

text \<open>
  \<open>rows\<close> gives the outcome of an attempt. A block is settled by its first attempt, or by its
  second when the first failed safely.
\<close>

definition settled_by ::
  "(string \<times> nat \<Rightarrow> attempt_outcome option) \<Rightarrow> ('n, 'f) decision_block \<Rightarrow> nat \<Rightarrow> attempt_outcome \<Rightarrow> bool" where
  "settled_by rows b number out \<longleftrightarrow>
     number = 1 \<and> rows (block_name b, 1) = Some out \<and> out \<noteq> AttemptSafeTransient \<and> rows (block_name b, 2) = None
     \<or> number = 2 \<and> rows (block_name b, 1) = Some AttemptSafeTransient \<and> rows (block_name b, 2) = Some out"

definition untouched :: "(string \<times> nat \<Rightarrow> attempt_outcome option) \<Rightarrow> ('n, 'f) decision_block \<Rightarrow> bool" where
  "untouched rows b \<longleftrightarrow> rows (block_name b, 1) = None \<and> rows (block_name b, 2) = None"

definition answered_by ::
  "'n writer \<Rightarrow> (nat \<Rightarrow> 'n) \<Rightarrow> question_requirements list \<Rightarrow> (string \<times> nat \<Rightarrow> attempt_outcome option)
     \<Rightarrow> ('n, 'f) decision_block \<Rightarrow> decision_result \<Rightarrow> bool" where
  "answered_by W I requirements rows b answer \<longleftrightarrow>
     settled_by rows b (result_attempts answer) (AttemptAnswer answer)
     \<and> validate_for_declaration W I answer b requirements = Inr ()"

fun open_block ::
  "(string \<times> nat \<Rightarrow> attempt_outcome option) \<Rightarrow> ('n, 'f) decision_block \<Rightarrow> nat \<Rightarrow> progress_state \<Rightarrow> bool" where
  "open_block rows b remaining (ProgressNext a unfinished) \<longleftrightarrow>
     unfinished = remaining \<and> attempt_decision a = block_name b \<and> rows (block_name b, 2) = None
     \<and> (attempt_number a = 1 \<and> rows (block_name b, 1) = None
        \<or> attempt_number a = 2 \<and> rows (block_name b, 1) = Some AttemptSafeTransient)"
| "open_block rows b remaining (ProgressTerminal t) \<longleftrightarrow>
     (\<exists>number out. settled_by rows b number out \<and> attempt_terminal out = Some t)"
| "open_block rows b remaining (ProgressComplete _) \<longleftrightarrow> False"

text \<open>A prefix of the blocks is answered, one block is open, and the rest are untouched.\<close>

definition position_spec ::
  "'n writer \<Rightarrow> (nat \<Rightarrow> 'n) \<Rightarrow> question_requirements list \<Rightarrow> (string \<times> nat \<Rightarrow> attempt_outcome option)
     \<Rightarrow> ('n, 'f) decision_block list \<Rightarrow> decision_result list \<Rightarrow> progress_state option \<Rightarrow> bool" where
  "position_spec W I requirements rows blocks answers state \<longleftrightarrow>
     (\<exists>before after. blocks = before @ after
        \<and> list_all2 (answered_by W I requirements rows) before answers
        \<and> (case after of
             [] \<Rightarrow> state = None
           | b # later \<Rightarrow>
               (\<exists>s. state = Some s \<and> open_block rows b (length after) s) \<and> (\<forall>c \<in> set later. untouched rows c)))"

definition rows_of :: "decision_progress \<Rightarrow> string \<times> nat \<Rightarrow> attempt_outcome option" where
  "rows_of progress = map_of (map (\<lambda>r. (row_key r, row_outcome r)) progress)"

lemma current_attempt_cases:
  "current_attempt first second = Inr (number, result) \<longleftrightarrow>
     (case first of
        None \<Rightarrow> second = None \<and> number = 1 \<and> result = None
      | Some AttemptSafeTransient \<Rightarrow> number = 2 \<and> result = second
      | Some out \<Rightarrow> second = None \<and> number = 1 \<and> result = Some out)"
  by (cases "(first, second)" rule: current_attempt.cases)
    (auto split: option.splits attempt_outcome.splits)

lemma attempt_new_eq:
  "attempt_new name number = Inr a \<Longrightarrow> a = \<lparr>attempt_decision = name, attempt_number = number\<rparr>"
  by (simp add: attempt_new_def Let_def)

lemma current_settled:
  assumes "current_attempt (rows (block_name b, 1)) (rows (block_name b, 2)) = Inr (number, Some out)"
  shows "settled_by rows b number out"
  using assms by (auto simp: current_attempt_cases settled_by_def split: option.splits attempt_outcome.splits)

lemma current_open:
  assumes "current_attempt (rows (block_name b, 1)) (rows (block_name b, 2)) = Inr (number, None)"
  shows "rows (block_name b, 2) = None \<and> (number = 1 \<and> rows (block_name b, 1) = None
    \<or> number = 2 \<and> rows (block_name b, 1) = Some AttemptSafeTransient)"
  using assms by (auto simp: current_attempt_cases split: option.splits attempt_outcome.splits)

lemma block_progress_sound:
  assumes "block_progress W I requirements b remaining (rows (block_name b, 1)) (rows (block_name b, 2)) = Inr r"
  shows "case r of Inl s \<Rightarrow> open_block rows b remaining s | Inr answer \<Rightarrow> answered_by W I requirements rows b answer"
proof -
  obtain number result where
    current: "current_attempt (rows (block_name b, 1)) (rows (block_name b, 2)) = Inr (number, result)"
    using assms by (auto simp: block_progress_def)
  show ?thesis
  proof (cases result)
    case None
    with assms current obtain a where "attempt_new (block_name b) number = Inr a"
      and "r = Inl (ProgressNext a remaining)" by (auto simp: block_progress_def)
    then show ?thesis
      using current_open [of rows b number] current None by (auto dest!: attempt_new_eq)
  next
    case (Some out)
    with current have "settled_by rows b number out" by (intro current_settled) simp
    then have "case r of Inl s \<Rightarrow> \<exists>t. s = ProgressTerminal t \<and> attempt_terminal out = Some t
      | Inr answer \<Rightarrow> out = AttemptAnswer answer \<and> result_attempts answer = number
          \<and> validate_for_declaration W I answer b requirements = Inr ()"
      using assms current Some by (cases out) (simp_all add: block_progress_def split: if_splits, auto)
    with \<open>settled_by rows b number out\<close> show ?thesis
      by (cases r) (simp_all add: answered_by_def, metis open_block.simps(2))
  qed
qed

lemma loop_settled:
  assumes "progress_loop W I requirements blocks rows answers (Some s) = Inr (rest, answers', state')"
    and "distinct (map block_name blocks)"
  shows "answers' = answers \<and> state' = Some s \<and> (\<forall>b \<in> set blocks. untouched (bt_get rows) b)"
  using assms
proof (induction blocks arbitrary: rows)
  case (Cons b blocks)
  let ?rest = "bt_remove (block_name b, 2) (bt_remove (block_name b, 1) rows)"
  from Cons.prems(1) have own: "untouched (bt_get rows) b"
    and run: "progress_loop W I requirements blocks ?rest answers (Some s) = Inr (rest, answers', state')"
    by (auto simp: untouched_def Let_def bt_get_remove split: if_splits)
  from Cons.IH [OF run] Cons.prems(2)
  have "answers' = answers \<and> state' = Some s \<and> (\<forall>c \<in> set blocks. untouched (bt_get ?rest) c)" by simp
  moreover have "untouched (bt_get ?rest) c = untouched (bt_get rows) c" if "c \<in> set blocks" for c
  proof -
    have "block_name c \<noteq> block_name b" using that Cons.prems(2) by (metis distinct.simps(2) image_eqI list.simps(9) set_map)
    then show ?thesis by (simp add: untouched_def bt_get_remove)
  qed
  ultimately show ?case using own by auto
qed simp

lemma loop_position:
  assumes "progress_loop W I requirements blocks rows answers None = Inr (rest, answers', state')"
    and "distinct (map block_name blocks)"
  shows "\<exists>new. answers' = answers @ new \<and> position_spec W I requirements (bt_get rows) blocks new state'"
  using assms
proof (induction blocks arbitrary: rows answers)
  case Nil
  then show ?case by (auto simp: position_spec_def)
next
  case (Cons b blocks)
  define m where "m = bt_remove (block_name b, 2) (bt_remove (block_name b, 1) rows)"
  have same: "bt_get m (block_name c, i) = bt_get rows (block_name c, i)" if "c \<in> set blocks" for c i
  proof -
    have "block_name c \<noteq> block_name b" using that Cons.prems(2) by (metis distinct.simps(2) image_eqI list.simps(9) set_map)
    then show ?thesis by (simp add: m_def bt_get_remove)
  qed
  have second: "bt_get (bt_remove (block_name b, 1) rows) (block_name b, 2) = bt_get rows (block_name b, 2)"
    by (simp add: bt_get_remove)
  from Cons.prems(1) obtain r where
    block: "block_progress W I requirements b (length (b # blocks))
      (bt_get rows (block_name b, 1)) (bt_get rows (block_name b, 2)) = Inr r"
    and run: "(case r of
        Inl st \<Rightarrow> progress_loop W I requirements blocks m answers (Some st)
      | Inr answer \<Rightarrow> progress_loop W I requirements blocks m (answers @ [answer]) None)
      = Inr (rest, answers', state')"
    by (simp only: progress_loop.simps Let_def option.case second res_bind_eq_Inr m_def) blast
  show ?case
  proof (cases r)
    case (Inl s)
    note settled = loop_settled [of W I requirements blocks m answers s rest answers' state']
    have "open_block (bt_get rows) b (length (b # blocks)) s" using block_progress_sound [OF block] Inl by simp
    then show ?thesis
      using settled run Inl Cons.prems(2)
      by (auto simp: position_spec_def untouched_def same intro!: exI [of _ "[]"])
  next
    case (Inr answer)
    with run have "progress_loop W I requirements blocks m (answers @ [answer]) None = Inr (rest, answers', state')"
      by simp
    from Cons.IH [OF this] Cons.prems(2) obtain new where new: "answers' = (answers @ [answer]) @ new"
      and pos: "position_spec W I requirements (bt_get m) blocks new state'" by auto
    from pos obtain before after where parts: "blocks = before @ after"
      and ans: "list_all2 (answered_by W I requirements (bt_get m)) before new"
      and aft: "case after of [] \<Rightarrow> state' = None | c # later \<Rightarrow>
           (\<exists>s. state' = Some s \<and> open_block (bt_get m) c (length after) s) \<and> (\<forall>d \<in> set later. untouched (bt_get m) d)"
      by (auto simp: position_spec_def)
    have own: "answered_by W I requirements (bt_get rows) b answer"
      using block_progress_sound [OF block] Inr by simp
    have "list_all2 (answered_by W I requirements (bt_get rows)) before new"
      using ans by (rule list.rel_mono_strong) (auto simp: answered_by_def settled_by_def same parts)
    moreover have "open_block (bt_get m) c n s = open_block (bt_get rows) c n s" if "c \<in> set blocks" for c n s
      by (cases s) (auto simp: settled_by_def same [OF that])
    moreover have "untouched m' c = untouched (bt_get rows) c" if "c \<in> set blocks" "m' = bt_get m" for c m'
      using that by (auto simp: untouched_def same)
    ultimately have "position_spec W I requirements (bt_get rows) (b # blocks) (answer # new) state'"
      using aft own unfolding position_spec_def parts
      by (intro exI [of _ "b # before"] exI [of _ after], cases after) simp_all
    with new show ?thesis by auto
  qed
qed

lemma collect_rows_fresh:
  assumes "collect_rows bs m progress = Inr m'" "bt_ok m" "r \<in> set progress"
  shows "bt_get m (row_key r) = None"
  using assms
proof (induction bs m progress rule: collect_rows.induct)
  case (2 bs m q qs)
  then show ?case by (fastforce simp: bt_contains_def bt_get_insert bt_ok_insert split: if_splits)
qed simp

lemma collect_rows_spec:
  assumes "collect_rows bs rows progress = Inr rows'" "bt_ok rows"
  shows "bt_ok rows' \<and> length rows' = length rows + length progress
    \<and> bt_get rows' = (\<lambda>k. case rows_of progress k of None \<Rightarrow> bt_get rows k | Some v \<Rightarrow> Some v)
    \<and> fst ` set rows' \<subseteq> fst ` set rows \<union> (block_name ` set bs) \<times> {1, 2}"
  using assms
proof (induction bs rows progress rule: collect_rows.induct)
  case (1 bs rows)
  then show ?case by (auto simp: rows_of_def)
next
  case (2 bs rows row rest)
  let ?rows = "bt_insert (row_key row) (row_outcome row) rows"
  have valid: "attempt_validate (row_attempt row) = Inr ()"
    and declared: "list_ex (\<lambda>b. block_name b = attempt_decision (row_attempt row)) bs"
    and fresh: "bt_get rows (row_key row) = None"
    and run: "collect_rows bs ?rows rest = Inr rows'"
    using 2(2) by (auto simp: bt_contains_def split: if_splits)
  have "bt_ok rows' \<and> length rows' = length ?rows + length rest
    \<and> bt_get rows' = (\<lambda>k. case rows_of rest k of None \<Rightarrow> bt_get ?rows k | Some v \<Rightarrow> Some v)
    \<and> fst ` set rows' \<subseteq> fst ` set ?rows \<union> (block_name ` set bs) \<times> {1, 2}"
    by (rule 2(1)) (use valid declared fresh run 2(3) in \<open>auto simp: bt_contains_def bt_ok_insert\<close>)
  then have ok: "bt_ok rows'" and size: "length rows' = length ?rows + length rest"
    and get: "bt_get rows' = (\<lambda>k. case rows_of rest k of None \<Rightarrow> bt_get ?rows k | Some v \<Rightarrow> Some v)"
    and sub: "fst ` set rows' \<subseteq> fst ` set ?rows \<union> (block_name ` set bs) \<times> {1, 2}"
    by blast+
  have own: "row_key row \<in> (block_name ` set bs) \<times> {1, 2}"
    using valid declared by (auto simp: row_key_def attempt_validate_def list_ex_iff image_iff split: if_splits) (metis)
  have len: "length rows' = length rows + length (row # rest)"
    using size length_bt_insert [OF 2(3) fresh] by simp
  have last: "rows_of rest (row_key row) = None"
  proof (cases "rows_of rest (row_key row)")
    case (Some v)
    then obtain r where r: "r \<in> set rest" "row_key r = row_key row"
      by (force simp: rows_of_def dest: map_of_SomeD)
    with collect_rows_fresh [OF run _ r(1)] 2(3) show ?thesis by (simp add: bt_ok_insert bt_get_insert)
  qed simp
  have shape: "fst ` set ?rows = insert (row_key row) (fst ` set rows)"
    unfolding bt_keys using 2(3) by (auto simp: bt_get_insert)
  have absorb: "A \<subseteq> insert k B \<union> C \<Longrightarrow> k \<in> C \<Longrightarrow> A \<subseteq> B \<union> C" for A B C and k :: "string \<times> nat"
    by blast
  have keys: "fst ` set rows' \<subseteq> fst ` set rows \<union> (block_name ` set bs) \<times> {1, 2}"
    by (rule absorb [OF sub [unfolded shape] own])
  have "bt_get rows' k = (case rows_of (row # rest) k of None \<Rightarrow> bt_get rows k | Some v \<Rightarrow> Some v)" for k
    unfolding get by (cases "k = row_key row") (use last in \<open>simp_all add: bt_get_insert [OF 2(3)] rows_of_def cong: option.case_cong\<close>)
  then show ?case using ok keys len by (intro conjI ext) simp_all
qed

text \<open>Everything an accepted progress says, in terms of its rows.\<close>

lemma validate_progressD:
  assumes "validate_decision_progress W I bs rs progress = Inr v"
  shows "vp_attempts v = length progress"
    and "distinct (map block_name bs)"
    and "rows_of progress k \<noteq> None \<Longrightarrow> k \<in> (block_name ` set bs) \<times> {1, 2}"
    and "length progress \<le> 2 * length bs"
    and "\<exists>answers state. position_spec W I rs (rows_of progress) bs answers state
      \<and> (case state of
           Some s \<Rightarrow> vp_state v = s
         | None \<Rightarrow> \<exists>a. vp_state v = ProgressComplete a \<and> assessed_attempts a = length progress
             \<and> assessment_new W I bs rs answers = Inr a)"
    and "vp_state v = ProgressNext a n \<Longrightarrow> length progress < 2 * length bs"
proof -
  obtain rows where reqs: "validate_requirements bs rs = Inr ()"
    and rows: "collect_rows bs [] progress = Inr rows"
    using assms by (auto simp: validate_decision_progress_def split: if_splits)
  obtain answers state where loop: "progress_loop W I rs bs rows [] None = Inr ([], answers, state)"
    and fin: "(case state of Some st \<Rightarrow> v = \<lparr>vp_attempts = length rows, vp_state = st\<rparr>
         | None \<Rightarrow> \<exists>e. assessment_new W I bs rs answers = Inr e \<and> assessed_attempts e = length rows
             \<and> v = \<lparr>vp_attempts = length rows, vp_state = ProgressComplete e\<rparr>)"
    using assms reqs rows
    by (cases "progress_loop W I rs bs rows [] None")
      (auto simp: validate_decision_progress_def split: if_splits sum.splits option.splits)
  note spec = collect_rows_spec [OF rows, simplified]
  have get: "bt_get rows = rows_of progress" and len: "length rows = length progress"
    using spec by (auto simp: fun_eq_iff bt_get_def split: option.splits)
  show "vp_attempts v = length progress" using fin len by (auto split: option.splits)
  show names: "distinct (map block_name bs)"
    using reqs validate_declarations_iff [of bs] by (auto simp: validate_requirements_def)
  show keys: "rows_of progress k \<noteq> None \<Longrightarrow> k \<in> (block_name ` set bs) \<times> {1, 2}" for k
    using spec bt_keys [of rows] by (auto simp: get)
  have "length rows = card (fst ` set rows)"
    using bt_ok_distinct [of rows] spec by (metis distinct_card length_map list.set_map)
  moreover have finite: "finite ((block_name ` set bs) \<times> {1, 2::nat})" by simp
  moreover have "card ((block_name ` set bs) \<times> {1, 2::nat}) = 2 * length bs"
    using distinct_card [OF names] by (simp add: card_cartesian_product)
  ultimately show "length progress \<le> 2 * length bs"
    using card_mono [OF finite, of "fst ` set rows"] spec len by simp
  obtain new where new: "answers = [] @ new" and pos: "position_spec W I rs (bt_get rows) bs new state"
    using loop_position [OF loop names] by blast
  show "\<exists>answers state. position_spec W I rs (rows_of progress) bs answers state
      \<and> (case state of
           Some s \<Rightarrow> vp_state v = s
         | None \<Rightarrow> \<exists>a. vp_state v = ProgressComplete a \<and> assessed_attempts a = length progress
             \<and> assessment_new W I bs rs answers = Inr a)"
  proof (intro exI conjI)
    show "position_spec W I rs (rows_of progress) bs answers state" using pos new by (simp add: get)
    show "case state of Some s \<Rightarrow> vp_state v = s
         | None \<Rightarrow> \<exists>a. vp_state v = ProgressComplete a \<and> assessed_attempts a = length progress
             \<and> assessment_new W I bs rs answers = Inr a"
      using fin len by (cases state) auto
  qed
  show "length progress < 2 * length bs" if next_state: "vp_state v = ProgressNext a n"
  proof -
    from next_state fin have st: "state = Some (ProgressNext a n)" by (cases state) auto
    from pos obtain before after where parts: "bs = before @ after"
      and aft: "case after of [] \<Rightarrow> state = None | b # later \<Rightarrow>
        (\<exists>s. state = Some s \<and> open_block (bt_get rows) b (length after) s) \<and> (\<forall>c \<in> set later. untouched (bt_get rows) c)"
      unfolding position_spec_def by blast
    from aft st obtain b later where "after = b # later"
      and "open_block (bt_get rows) b (length after) (ProgressNext a n)"
      by (cases after) simp_all
    with parts have b: "b \<in> set bs" "open_block (bt_get rows) b (length after) (ProgressNext a n)" by simp_all
    then have "(block_name b, 2) \<notin> fst ` set rows" by (simp add: bt_keys)
    then have "fst ` set rows \<subset> (block_name ` set bs) \<times> {1, 2}" using spec b(1) by (intro psubsetI) auto
    then have "card (fst ` set rows) < card ((block_name ` set bs) \<times> {1, 2::nat})"
      by (rule psubset_card_mono [OF finite])
    then show ?thesis
      using len \<open>length rows = card (fst ` set rows)\<close> \<open>card ((block_name ` set bs) \<times> {1, 2::nat}) = 2 * length bs\<close>
      by simp
  qed
qed

lemma validate_progress_next:
  assumes "validate_decision_progress W I bs rs progress = Inr v" "vp_state v = ProgressNext a n"
  obtains before b later answers where "bs = before @ b # later" "n = length (b # later)"
    "open_block (rows_of progress) b n (ProgressNext a n)"
    "list_all2 (answered_by W I rs (rows_of progress)) before answers"
    "\<forall>c \<in> set later. untouched (rows_of progress) c"
proof -
  from validate_progressD(5) [OF assms(1)] assms(2) obtain answers where
    "position_spec W I rs (rows_of progress) bs answers (Some (ProgressNext a n))"
    by (auto split: option.splits)
  then obtain before after where parts: "bs = before @ after"
    "list_all2 (answered_by W I rs (rows_of progress)) before answers"
    and aft: "case after of [] \<Rightarrow> Some (ProgressNext a n) = None | b # later \<Rightarrow>
        (\<exists>s. Some (ProgressNext a n) = Some s \<and> open_block (rows_of progress) b (length after) s)
        \<and> (\<forall>c \<in> set later. untouched (rows_of progress) c)"
    unfolding position_spec_def by blast
  then obtain b later where "after = b # later" by (cases after) auto
  with parts aft show ?thesis by (intro that [of before b later answers]) auto
qed

lemma sample_progress:
  "validate_decision_progress (\<lambda>_. ([], None)) id [sample_block] [sample_requirements]
     [\<lparr>row_attempt = \<lparr>attempt_decision = ''review'', attempt_number = 1\<rparr>, row_outcome = AttemptSafeTransient\<rparr>]
     = Inr \<lparr>vp_attempts = 1, vp_state = ProgressNext \<lparr>attempt_decision = ''review'', attempt_number = 2\<rparr> 1\<rparr>"
  by (simp add: validate_decision_progress_def validate_requirements_def validate_declarations_def block_validate_def
      sample_block_def sample_question_def sample_requirements_def sample_names attempt_validate_def
      MAX_QUESTIONS_PER_DECISION_def question_validate_def declared_questions_def bt_collect_def
      bt_get_def validate_for_question_def block_progress_def attempt_new_def row_key_def bt_contains_def
      bt_remove_def measure_json_def assessment_serde_def RESULT_LIMITS_def
      counter_new_def charge_def ev_bind_def MAX_FIT_INPUT_DEPTH_def MAX_RESULT_BYTES_def Let_def)

text \<open>
  When saved progress is accepted and asks for another attempt, that attempt is not among
  the saved rows, and it is a first attempt, or a second attempt after a first one that failed
  safely. So an attempt with an unknown or unsettled delivery is never sent again.
\<close>

lemma next_attempt_safe:
  assumes "validate_decision_progress W I bs rs progress = Inr v" "vp_state v = ProgressNext a n"
  shows "rows_of progress (attempt_decision a, attempt_number a) = None
    \<and> (attempt_number a = 1
       \<or> attempt_number a = 2 \<and> rows_of progress (attempt_decision a, 1) = Some AttemptSafeTransient)
    \<and> attempt_decision a \<in> block_name ` set bs"
proof -
  obtain before b later answers where "bs = before @ b # later"
    and "open_block (rows_of progress) b n (ProgressNext a n)"
    by (rule validate_progress_next [OF assms])
  then show ?thesis by auto
qed

text \<open>
  When saved progress is complete, the assessment holds one saved answer for every
  declared decision, each recorded by the attempt it names; it passes the check on saved
  assessments and counts every saved attempt, failed ones included.
\<close>

lemma complete_progress_sound:
  assumes "validate_decision_progress W I bs rs progress = Inr v" "vp_state v = ProgressComplete a"
  shows "validate_for_declarations W I a bs rs = Inr () \<and> assessed_attempts a = length progress
    \<and> (\<forall>d \<in> set (assessed_decisions a).
         rows_of progress (result_decision d, result_attempts d) = Some (AttemptAnswer d))"
proof -
  from validate_progressD(5) [OF assms(1)] obtain answers state where
    pos: "position_spec W I rs (rows_of progress) bs answers state"
    and st: "case state of Some s \<Rightarrow> vp_state v = s
         | None \<Rightarrow> \<exists>a. vp_state v = ProgressComplete a \<and> assessed_attempts a = length progress
             \<and> assessment_new W I bs rs answers = Inr a" by blast
  from pos obtain before after where parts: "bs = before @ after"
    and ans: "list_all2 (answered_by W I rs (rows_of progress)) before answers"
    and aft: "case after of [] \<Rightarrow> state = None | b # later \<Rightarrow>
        (\<exists>s. state = Some s \<and> open_block (rows_of progress) b (length after) s)
        \<and> (\<forall>c \<in> set later. untouched (rows_of progress) c)"
    unfolding position_spec_def by blast
  have "state = None" using st aft assms(2) by (cases state; cases after) auto
  with st assms(2) have new: "assessment_new W I bs rs answers = Inr a"
    and len: "assessed_attempts a = length progress" by auto
  note valid = assessment_new_validates [OF new]
  have "rows_of progress (result_decision d, result_attempts d) = Some (AttemptAnswer d)"
    if "d \<in> set (assessed_decisions a)" for d
  proof -
    from valid that have "d \<in> set answers" by (metis set_mset_mset)
    then obtain i where "i < length answers" "answers ! i = d" by (auto simp: in_set_conv_nth)
    with list_all2_nthD2 [OF ans] have "answered_by W I rs (rows_of progress) (before ! i) d" by blast
    then show ?thesis by (auto simp: answered_by_def settled_by_def dest: validate_for_declarationD(1))
  qed
  with valid len show ?thesis by blast
qed

lemma sample_complete:
  "validate_decision_progress (\<lambda>_. ([], None)) id [sample_block] [sample_requirements]
     [\<lparr>row_attempt = \<lparr>attempt_decision = ''review'', attempt_number = 1\<rparr>, row_outcome = AttemptAnswer sample_result\<rparr>]
     = Inr \<lparr>vp_attempts = 1, vp_state = ProgressComplete
         \<lparr>assessed_version = 1, assessed_decisions = [sample_result], assessed_attempts = 1\<rparr>\<rparr>"
proof -
  let ?a = "\<lparr>assessed_version = 1, assessed_decisions = [sample_result], assessed_attempts = 1\<rparr>"
  have reqs: "validate_requirements [sample_block] [sample_requirements] = Inr ()"
    and valid: "validate_for_declaration (\<lambda>_. ([], None)) id sample_result sample_block [sample_requirements] = Inr ()"
    and size: "\<exists>m. measure_json (\<lambda>_. ([], None)) (assessment_serde id ?a) RESULT_LIMITS = Inr m"
    using assessment_new_validates [OF sample_assessment]
    by (auto simp: validate_for_declarations_def check_declared_iff measure_results_def split: if_splits)
  from size obtain m where "measure_json (\<lambda>_. ([], None)) (assessment_serde id ?a) RESULT_LIMITS = Inr m" ..
  then show ?thesis
    by (simp add: validate_decision_progress_def reqs valid sample_assessment block_progress_def row_key_def
        attempt_validate_def bt_contains_def bt_get_def bt_remove_def sample_names RESULT_VERSION_def
        sample_block_def [THEN arg_cong [of _ _ block_name]]
        sample_result_def [THEN arg_cong [of _ _ result_attempts]])
qed

end
