(* ===== verification/Scheduler.thy ===== *)
theory Scheduler
  imports Selection "HOL-Library.Option_ord"
begin

text \<open>
  The in-memory scheduler of \<open>engine.rs\<close>: the queues of pending candidates per branch, the
  branches in flight, cooldowns, service tickets and claims that are still to be released.
  Every operation here runs under the scheduler's mutex. A candidate id is the fingerprint of
  its candidate and a cooldown is a number of milliseconds.
\<close>

section \<open>State\<close>

definition MAX_PENDING_CANDIDATES :: nat where
  "MAX_PENDING_CANDIDATES = 128"

definition MAX_IN_FLIGHT_EVALUATIONS :: nat where
  "MAX_IN_FLIGHT_EVALUATIONS = 4"

datatype execution_policy = LivePolicy | SequentialReplay

text \<open>
  The derived order of identities and keys is that of their fields, so a key is the tuple of
  its fields; \<open>Live\<close> precedes every \<open>Replay\<close>.
\<close>

type_synonym activation_key = "string \<times> string \<times> string option \<times> string \<times> nat"
type_synonym schedule_key = "activation_key \<times> string"

fun run_key :: "run_scope \<Rightarrow> string option" where
  "run_key Live = None"
| "run_key (Replay r) = Some r"

definition activation_key :: "activation_id \<Rightarrow> activation_key" where
  "activation_key a =
     (environment (scope a), session_cwd (scope a), run_key (run (scope a)), definition_id a, generation a)"

definition key_definition :: "schedule_key \<Rightarrow> string" where
  "key_definition key = fst (snd (snd (snd (fst key))))"

lemma run_key_inject [simp]: "run_key a = run_key b \<longleftrightarrow> a = b"
  by (cases a; cases b) auto

lemma activation_key_inject [simp]: "activation_key a = activation_key b \<longleftrightarrow> a = b"
  by (cases a; cases b; cases "scope a"; cases "scope b") (auto simp: activation_key_def)

record ('n, 'f) pending_candidate =
  pc_candidate :: "'n frozen_candidate"
  pc_compiled :: "('n, 'f) compiled_check"
  pc_resumed :: bool

record 'n claimed_candidate =
  cl_id :: string
  cl_candidate :: "'n frozen_candidate"
  cl_prior_status :: "status_result option"
  cl_fence :: nat

type_synonym ('n, 'f) pending_queue = "(nat, ('n, 'f) pending_candidate) bt"

record ('n, 'f) scheduler =
  sc_pending :: "(schedule_key, ('n, 'f) pending_queue) bt"
  sc_in_flight :: "schedule_key set"
  sc_cooldown :: "(schedule_key, nat) bt"
  sc_tickets :: "(schedule_key, nat) bt"
  sc_next_ticket :: nat
  sc_active :: nat
  sc_recent :: nat
  sc_releases :: "(schedule_key, 'n claimed_candidate) bt"

definition scheduler_default :: "('n, 'f) scheduler" where
  "scheduler_default = \<lparr>sc_pending = [], sc_in_flight = {}, sc_cooldown = [], sc_tickets = [],
     sc_next_ticket = 0, sc_active = 0, sc_recent = 0, sc_releases = []\<rparr>"

datatype enqueue_outcome = Queued | Coalesced | Overflow

definition queue_of :: "('n, 'f) scheduler \<Rightarrow> schedule_key \<Rightarrow> ('n, 'f) pending_queue" where
  "queue_of s key = (case bt_get (sc_pending s) key of None \<Rightarrow> [] | Some q \<Rightarrow> q)"

definition pending_total :: "('n, 'f) scheduler \<Rightarrow> nat" where
  "pending_total s = sum_list (map (\<lambda>(_, q). length q) (sc_pending s))"

definition is_windowed :: "('n, 'f) compiled_check \<Rightarrow> bool" where
  "is_windowed check \<longleftrightarrow> tr_window (check_trigger check) \<noteq> None"

definition has_fresh :: "('n, 'f) pending_queue \<Rightarrow> bool" where
  "has_fresh q \<longleftrightarrow> list_ex (\<lambda>(_, p). \<not> pc_resumed p) q"

section \<open>Queue admission\<close>

definition chunks :: "nat \<Rightarrow> 'a list \<Rightarrow> 'a list list" where
  "chunks n xs = map (\<lambda>i. take n (drop (i * n) xs)) [0..<(length xs + n - 1) div n]"

text \<open>\<open>lookup\<close> answers \<open>load_terminal_candidate_ids\<close> of the store.\<close>

type_synonym terminal_lookup = "string list \<Rightarrow> (string, string list) res"

fun terminal_ids :: "terminal_lookup \<Rightarrow> string set \<Rightarrow> string list list \<Rightarrow> (string, string set) res" where
  "terminal_ids lookup terminal [] = Inr terminal"
| "terminal_ids lookup terminal (batch # batches) =
     res_bind (lookup batch) (\<lambda>found.
       if list_ex (\<lambda>i. i \<notin> set batch) found
       then Inl ''terminal candidate lookup returned an unrequested identity''
       else terminal_ids lookup (terminal \<union> set found) batches)"

definition pending_ids :: "('n, 'f) scheduler \<Rightarrow> string list" where
  "pending_ids s =
     remdups_adj (sort (concat (map (\<lambda>(_, q). map (\<lambda>(_, p). cand_fingerprint (pc_candidate p)) q) (sc_pending s))))"

definition remove_terminal :: "string set \<Rightarrow> ('n, 'f) scheduler \<Rightarrow> ('n, 'f) scheduler" where
  "remove_terminal terminal s =
     (let pruned = map (\<lambda>(key, q). (key, bt_retain (\<lambda>_ p. cand_fingerprint (pc_candidate p) \<notin> terminal) q))
            (sc_pending s);
          empty_keys = map fst (filter (\<lambda>(_, q). q = []) pruned)
      in s\<lparr>sc_pending := filter (\<lambda>(_, q). q \<noteq> []) pruned,
           sc_tickets := fold bt_remove empty_keys (sc_tickets s)\<rparr>)"

definition prune_terminal_pending ::
  "terminal_lookup \<Rightarrow> (('n, 'f) scheduler, string, unit) ev" where
  "prune_terminal_pending lookup s =
     (if pending_ids s = [] then (Inr (), s)
      else
        (case terminal_ids lookup {} (chunks MAX_PENDING_CANDIDATES (pending_ids s)) of
           Inl e \<Rightarrow> (Inl e, s)
         | Inr terminal \<Rightarrow> (Inr (), remove_terminal terminal s)))"

definition issue_ticket :: "schedule_key \<Rightarrow> ('n, 'f) scheduler \<Rightarrow> ('n, 'f) scheduler" where
  "issue_ticket key s =
     s\<lparr>sc_next_ticket := u64_saturating_add (sc_next_ticket s) 1,
       sc_tickets := bt_insert key (sc_next_ticket s) (sc_tickets s)\<rparr>"

definition candidate_key :: "'n frozen_candidate \<Rightarrow> schedule_key" where
  "candidate_key candidate = (activation_key (cand_activation candidate), cand_branch candidate)"

text \<open>\<open>enqueue_with_resume\<close> after the lock is taken again.\<close>

definition admit ::
  "('n, 'f) compiled_check \<Rightarrow> 'n frozen_candidate \<Rightarrow> bool \<Rightarrow> ('n, 'f) scheduler
     \<Rightarrow> enqueue_outcome \<times> ('n, 'f) scheduler" where
  "admit compiled candidate resumed s =
     (let key = candidate_key candidate;
          position = cand_trigger_position candidate;
          queue = queue_of s key
      in if bt_contains queue position
         then (Queued, s\<lparr>sc_pending := bt_adjust key (bt_adjust position
                 (\<lambda>p. p\<lparr>pc_resumed := pc_resumed p \<or> resumed\<rparr>)) (sc_pending s)\<rparr>)
         else
           (let replaces = (\<not> resumed \<and> is_windowed compiled \<and> has_fresh queue);
                needs_ticket = (queue = [])
            in if \<not> replaces \<and> MAX_PENDING_CANDIDATES \<le> pending_total s then (Overflow, s)
               else if replaces \<and> \<not> pc_resumed (snd (last queue)) \<and> position < fst (last queue)
               then (Coalesced, s)
               else
                 (let kept = (if replaces then bt_retain (\<lambda>_ p. pc_resumed p) queue else queue);
                      s = s\<lparr>sc_pending := bt_insert key (bt_insert position
                            \<lparr>pc_candidate = candidate, pc_compiled = compiled, pc_resumed = resumed\<rparr> kept)
                            (sc_pending s)\<rparr>;
                      s = (if needs_ticket then issue_ticket key s else s)
                  in (if replaces then Coalesced else Queued, s))))"

definition enqueue_with_resume ::
  "terminal_lookup \<Rightarrow> ('n, 'f) effective_activation \<Rightarrow> 'n frozen_candidate \<Rightarrow> bool
     \<Rightarrow> (('n, 'f) scheduler, string, enqueue_outcome) ev" where
  "enqueue_with_resume lookup activation candidate resumed s =
     (case (if MAX_PENDING_CANDIDATES \<le> pending_total s then prune_terminal_pending lookup s else (Inr (), s)) of
        (Inl e, t) \<Rightarrow> (Inl e, t)
      | (Inr _, t) \<Rightarrow>
          (case admit (act_compiled activation) candidate resumed t of (out, u) \<Rightarrow> (Inr out, u)))"

definition enqueue ::
  "terminal_lookup \<Rightarrow> ('n, 'f) effective_activation \<Rightarrow> 'n frozen_candidate
     \<Rightarrow> (('n, 'f) scheduler, string, enqueue_outcome) ev" where
  "enqueue lookup activation candidate = enqueue_with_resume lookup activation candidate False"

section \<open>Choosing the next branch\<close>

text \<open>\<open>min_by_key\<close> returns the first minimum, \<open>max_by_key\<close> the last maximum.\<close>

fun min_by_key :: "('a \<Rightarrow> 'b::linorder) \<Rightarrow> 'a list \<Rightarrow> 'a option" where
  "min_by_key f [] = None"
| "min_by_key f (x # xs) =
     (case min_by_key f xs of None \<Rightarrow> Some x | Some y \<Rightarrow> if f x \<le> f y then Some x else Some y)"

fun max_by_key :: "('a \<Rightarrow> 'b::linorder) \<Rightarrow> 'a list \<Rightarrow> 'a option" where
  "max_by_key f [] = None"
| "max_by_key f (x # xs) =
     (case max_by_key f xs of None \<Rightarrow> Some x | Some y \<Rightarrow> if f x \<le> f y then Some y else Some x)"

definition first_resumed :: "('n, 'f) pending_queue \<Rightarrow> bool" where
  "first_resumed q \<longleftrightarrow> (case q of [] \<Rightarrow> False | (_, p) # _ \<Rightarrow> pc_resumed p)"

definition cooled_down :: "('n, 'f) scheduler \<Rightarrow> nat \<Rightarrow> schedule_key \<Rightarrow> bool" where
  "cooled_down s now key \<longleftrightarrow>
     (case bt_get (sc_cooldown s) key of None \<Rightarrow> True | Some until \<Rightarrow> until \<le> now)"

definition is_due ::
  "execution_policy \<Rightarrow> activation_id \<Rightarrow> (string \<Rightarrow> bool) \<Rightarrow> nat \<Rightarrow> ('n, 'f) scheduler \<Rightarrow> schedule_key \<Rightarrow> bool" where
  "is_due policy activation ready now s key \<longleftrightarrow>
     fst key = activation_key activation \<and> ready (snd key) \<and> key \<notin> sc_in_flight s
     \<and> (policy = SequentialReplay \<or> first_resumed (queue_of s key) \<or> cooled_down s now key)"

definition due_keys ::
  "execution_policy \<Rightarrow> activation_id \<Rightarrow> (string \<Rightarrow> bool) \<Rightarrow> nat \<Rightarrow> ('n, 'f) scheduler \<Rightarrow> schedule_key list" where
  "due_keys policy activation ready now s =
     filter (is_due policy activation ready now s) (map fst (sc_pending s))"

definition ranked_keys :: "('n, 'f) scheduler \<Rightarrow> schedule_key list \<Rightarrow> (schedule_key \<times> nat) list" where
  "ranked_keys s due =
     concat (map (\<lambda>key. if queue_of s key = [] then [] else [(key, fst (last (queue_of s key)))]) due)"

definition next_key ::
  "execution_policy \<Rightarrow> ('n, 'f) scheduler \<Rightarrow> schedule_key list \<Rightarrow> schedule_key option" where
  "next_key policy s due =
     (if policy = SequentialReplay
      then map_option fst (min_by_key (\<lambda>(key, position). (position, key)) (ranked_keys s due))
      else if 3 \<le> sc_recent s then min_by_key (\<lambda>key. (bt_get (sc_tickets s) key, key)) due
      else map_option fst (max_by_key (\<lambda>(key, position). (position, key)) (ranked_keys s due)))"

text \<open>
  The first critical section of \<open>start_one_due_matching\<close>: \<open>None\<close> is \<open>NotDue\<close>; otherwise the
  oldest candidate of the chosen branch leaves its queue and the branch is in flight.
\<close>

definition reserve ::
  "execution_policy \<Rightarrow> activation_id \<Rightarrow> (string \<Rightarrow> bool) \<Rightarrow> nat \<Rightarrow> ('n, 'f) scheduler
     \<Rightarrow> (schedule_key \<times> ('n, 'f) pending_candidate) option \<times> ('n, 'f) scheduler" where
  "reserve policy activation ready now s =
     (if MAX_IN_FLIGHT_EVALUATIONS \<le> sc_active s then (None, s)
      else
        (case next_key policy s (due_keys policy activation ready now s) of
           None \<Rightarrow> (None, s)
         | Some key \<Rightarrow>
             (case queue_of s key of
                [] \<Rightarrow> (None, s)
              | (_, p) # _ \<Rightarrow>
                  (let q = bt_remove (cand_trigger_position (pc_candidate p)) (queue_of s key) in
                   (Some (key, p),
                    s\<lparr>sc_pending := (if q = [] then bt_remove key (sc_pending s)
                                    else bt_adjust key (\<lambda>_. q) (sc_pending s)),
                      sc_in_flight := insert key (sc_in_flight s), sc_active := sc_active s + 1\<rparr>)))))"

section \<open>Guards, cooldowns and restored work\<close>

definition finish_guard :: "schedule_key \<Rightarrow> ('n, 'f) scheduler \<Rightarrow> ('n, 'f) scheduler" where
  "finish_guard key s = s\<lparr>sc_in_flight := sc_in_flight s - {key}, sc_active := sc_active s - 1\<rparr>"

text \<open>A guard dropped before it finished and without the right to release its branch.\<close>

definition abandon_guard :: "('n, 'f) scheduler \<Rightarrow> ('n, 'f) scheduler" where
  "abandon_guard s = s\<lparr>sc_active := sc_active s - 1\<rparr>"

definition restore_pending ::
  "schedule_key \<Rightarrow> ('n, 'f) pending_candidate \<Rightarrow> ('n, 'f) scheduler \<Rightarrow> ('n, 'f) scheduler" where
  "restore_pending key p s =
     (let queue = queue_of s key; position = cand_trigger_position (pc_candidate p);
          s = s\<lparr>sc_pending := bt_insert key queue (sc_pending s)\<rparr>
      in if \<not> pc_resumed p \<and> is_windowed (pc_compiled p) \<and> has_fresh queue then s
         else if bt_contains queue position then s
         else s\<lparr>sc_pending := bt_insert key (bt_insert position p queue) (sc_pending s)\<rparr>)"

definition defer_candidate ::
  "schedule_key \<Rightarrow> ('n, 'f) pending_candidate \<Rightarrow> nat \<Rightarrow> ('n, 'f) scheduler \<Rightarrow> ('n, 'f) scheduler" where
  "defer_candidate key p retry_at s =
     restore_pending key p (s\<lparr>sc_cooldown := bt_insert key retry_at (sc_cooldown s)\<rparr>)"

definition clear_ticket_if_idle :: "schedule_key \<Rightarrow> ('n, 'f) scheduler \<Rightarrow> ('n, 'f) scheduler" where
  "clear_ticket_if_idle key s =
     (if queue_of s key = [] then s\<lparr>sc_tickets := bt_remove key (sc_tickets s)\<rparr> else s)"

definition mark_scheduler_started ::
  "execution_policy \<Rightarrow> schedule_key \<Rightarrow> nat \<Rightarrow> nat \<Rightarrow> ('n, 'f) scheduler \<Rightarrow> ('n, 'f) scheduler" where
  "mark_scheduler_started policy key now cooldown s =
     (let s = (if queue_of s key \<noteq> [] then issue_ticket key s
               else s\<lparr>sc_tickets := bt_remove key (sc_tickets s)\<rparr>);
          s = (if policy = LivePolicy
               then s\<lparr>sc_recent := (if 3 \<le> sc_recent s then 0 else sc_recent s + 1)\<rparr> else s)
      in s\<lparr>sc_cooldown := bt_insert key (u64_saturating_add now (min cooldown u64_max)) (sc_cooldown s)\<rparr>)"

text \<open>\<open>persist_activation\<close> drops the work of other generations of the definition.\<close>

definition keeps_key :: "string \<Rightarrow> activation_id option \<Rightarrow> schedule_key \<Rightarrow> bool" where
  "keeps_key definition activation key \<longleftrightarrow>
     key_definition key \<noteq> definition
     \<or> (case activation of None \<Rightarrow> False | Some a \<Rightarrow> fst key = activation_key a)"

definition retain_activation ::
  "string \<Rightarrow> activation_id option \<Rightarrow> ('n, 'f) scheduler \<Rightarrow> ('n, 'f) scheduler" where
  "retain_activation definition activation s =
     s\<lparr>sc_pending := bt_retain (\<lambda>key _. keeps_key definition activation key) (sc_pending s),
       sc_cooldown := bt_retain (\<lambda>key _. keeps_key definition activation key) (sc_cooldown s),
       sc_releases := bt_retain (\<lambda>key _. keeps_key definition activation key) (sc_releases s)\<rparr>"

definition drop_branches ::
  "activation_id \<Rightarrow> string set \<Rightarrow> ('n, 'f) scheduler \<Rightarrow> ('n, 'f) scheduler" where
  "drop_branches activation branches s =
     s\<lparr>sc_pending := bt_retain (\<lambda>key _. fst key \<noteq> activation_key activation \<or> snd key \<notin> branches)
         (sc_pending s)\<rparr>"

end
