(* ===== verification/Scheduler_Laws.thy ===== *)
theory Scheduler_Laws
  imports Scheduler
begin

text \<open>
  Runs of the scheduler as a step relation, its invariant, and what follows for every
  interleaving: bounded queues and evaluations, one evaluation per branch, one fresh
  candidate per rolling window, and branches that stay reserved once their guard is lost.
\<close>

section \<open>Sizes of the queues\<close>

definition weight :: "('v \<Rightarrow> nat) \<Rightarrow> ('k, 'v) bt \<Rightarrow> nat" where
  "weight f m = sum_list (map (\<lambda>(_, v). f v) m)"

lemma pending_total_weight: "pending_total s = weight length (sc_pending s)"
  by (simp add: pending_total_def weight_def)

lemma weight_Cons [simp]: "weight f ((k, v) # m) = f v + weight f m"
  by (simp add: weight_def)

lemma weight_sum: "bt_ok m \<Longrightarrow> weight f m = (\<Sum>(_, v) \<in> set m. f v)"
  unfolding weight_def
  by (rule sum_list_distinct_conv_sum_set) (use bt_ok_distinct in \<open>auto simp: distinct_map\<close>)

definition weight_at :: "('v \<Rightarrow> nat) \<Rightarrow> ('k, 'v) bt \<Rightarrow> 'k \<Rightarrow> nat" where
  "weight_at f m k = (case bt_get m k of None \<Rightarrow> 0 | Some v \<Rightarrow> f v)"

lemma weight_others:
  assumes "bt_ok m"
  shows "weight f m = weight_at f m k + (\<Sum>(_, v) \<in> {p \<in> set m. fst p \<noteq> k}. f v)"
proof (cases "bt_get m k")
  case None
  then have "{p \<in> set m. fst p \<noteq> k} = set m" by (auto simp: bt_get_def map_of_eq_None_iff)
  with None show ?thesis by (simp add: weight_at_def weight_sum [OF assms])
next
  case (Some w)
  then have "(k, w) \<in> set m" using assms by (simp add: bt_get_iff)
  moreover have "set m - {(k, w)} = {p \<in> set m. fst p \<noteq> k}"
    using Some assms by (auto simp: bt_get_iff [symmetric])
  ultimately show ?thesis
    using Some sum.remove [of "set m" "(k, w)" "\<lambda>(_, v). f v"]
    by (simp add: weight_at_def weight_sum [OF assms])
qed

lemma weight_insert:
  assumes "bt_ok m"
  shows "weight f (bt_insert k v m) + weight_at f m k = weight f m + f v"
proof -
  have "weight f (bt_insert k v m) = f v + (\<Sum>(_, v) \<in> {p \<in> set m. fst p \<noteq> k}. f v)"
    by (simp add: weight_sum [OF bt_ok_insert [OF assms]] set_bt_insert [OF assms])
  with weight_others [OF assms, of f k] show ?thesis by simp
qed

lemma weight_remove:
  assumes "bt_ok m"
  shows "weight f (bt_remove k m) + weight_at f m k = weight f m"
proof -
  have "weight f (bt_remove k m) = (\<Sum>(_, v) \<in> {p \<in> set m. fst p \<noteq> k}. f v)"
    unfolding weight_sum [OF bt_ok_remove [OF assms]] by (simp add: bt_remove_def)
  with weight_others [OF assms, of f k] show ?thesis by simp
qed

lemma weight_adjust:
  "bt_ok m \<Longrightarrow> bt_get m k = Some w \<Longrightarrow> weight f (bt_adjust k g m) + f w = weight f m + f (g w)"
proof (induction m)
  case (Cons p m)
  obtain a b where p: "p = (a, b)" by (cases p)
  show ?case
  proof (cases "a = k")
    case True
    with Cons.prems p have "\<forall>q \<in> set m. fst q \<noteq> k" "b = w" by (auto simp: bt_ok_Cons bt_get_def)
    then have "bt_adjust k g m = m" by (auto simp: bt_adjust_def intro!: map_idI)
    with True p \<open>b = w\<close> show ?thesis by (simp add: bt_adjust_def)
  next
    case False
    with Cons p show ?thesis by (simp add: bt_ok_Cons bt_get_def bt_adjust_def)
  qed
qed (simp add: bt_get_def)

lemma weight_filter: "weight f (filter P m) \<le> weight f m"
  by (induction m) (auto simp: weight_def)

lemma weight_map_le:
  "(\<And>k v. (k, v) \<in> set m \<Longrightarrow> g v \<le> f v) \<Longrightarrow> sum_list (map (\<lambda>(_, v). g v) m) \<le> weight f m"
  by (induction m) (fastforce simp: weight_def)+

section \<open>Runs\<close>

text \<open>
  A guard is the key it holds and, until the candidate is restored, the candidate it took.
  \<open>W\<close> says which activations use a rolling window.
\<close>

type_synonym ('n, 'f) guard = "schedule_key \<times> ('n, 'f) pending_candidate option"

definition queued_as :: "(activation_key \<Rightarrow> bool) \<Rightarrow> schedule_key \<Rightarrow> ('n, 'f) pending_candidate \<Rightarrow> bool" where
  "queued_as W key p \<longleftrightarrow> candidate_key (pc_candidate p) = key \<and> is_windowed (pc_compiled p) = W (fst key)"

inductive sched_step ::
  "(activation_key \<Rightarrow> bool) \<Rightarrow> ('n, 'f) guard list \<times> ('n, 'f) scheduler
     \<Rightarrow> ('n, 'f) guard list \<times> ('n, 'f) scheduler \<Rightarrow> bool" for W where
  enqueued: "cand_activation c = act_id a \<Longrightarrow> is_windowed (act_compiled a) = W (activation_key (act_id a))
    \<Longrightarrow> sched_step W (gs, s) (gs, snd (enqueue_with_resume lookup a c resumed s))"
| pruned: "sched_step W (gs, s) (gs, snd (prune_terminal_pending lookup s))"
| reserved: "reserve policy a ready now s = (Some (key, p), t)
    \<Longrightarrow> sched_step W (gs, s) ((key, Some p) # gs, t)"
| restored: "(key, Some p) \<in> set gs \<Longrightarrow> q = p \<or> q = p\<lparr>pc_resumed := True\<rparr>
    \<Longrightarrow> sched_step W (gs, s) ((key, None) # remove1 (key, Some p) gs, restore_pending key q s)"
| deferred: "(key, Some p) \<in> set gs
    \<Longrightarrow> sched_step W (gs, s) ((key, None) # remove1 (key, Some p) gs, defer_candidate key p retry_at s)"
| finished: "(key, held) \<in> set gs
    \<Longrightarrow> sched_step W (gs, s) (remove1 (key, held) gs, finish_guard key s)"
| abandoned: "(key, held) \<in> set gs
    \<Longrightarrow> sched_step W (gs, s) (remove1 (key, held) gs, abandon_guard s)"
| started: "sched_step W (gs, s) (gs, mark_scheduler_started policy key now cooldown s)"
| cleared: "sched_step W (gs, s) (gs, clear_ticket_if_idle key s)"
| reactivated: "sched_step W (gs, s) (gs, retain_activation ident activation s)"
| dropped: "sched_step W (gs, s) (gs, drop_branches a branches s)"
| releases: "sched_step W (gs, s) (gs, s\<lparr>sc_releases := r\<rparr>)"

inductive_cases sched_stepE: "sched_step W (gs, s) c"

definition sched_reachable ::
  "(activation_key \<Rightarrow> bool) \<Rightarrow> ('n, 'f) guard list \<times> ('n, 'f) scheduler \<Rightarrow> bool" where
  "sched_reachable W c \<longleftrightarrow> (sched_step W)\<^sup>*\<^sup>* ([], scheduler_default) c"

definition fresh_count :: "('n, 'f) pending_queue \<Rightarrow> nat" where
  "fresh_count q = length (filter (\<lambda>(_, p). \<not> pc_resumed p) q)"

definition queue_ok ::
  "(activation_key \<Rightarrow> bool) \<Rightarrow> schedule_key \<Rightarrow> ('n, 'f) pending_queue \<Rightarrow> bool" where
  "queue_ok W key q \<longleftrightarrow>
     bt_ok q \<and> (\<forall>(position, p) \<in> set q. position = cand_trigger_position (pc_candidate p) \<and> queued_as W key p)
     \<and> (W (fst key) \<longrightarrow> fresh_count q \<le> 1)"

definition queues_ok :: "(activation_key \<Rightarrow> bool) \<Rightarrow> ('n, 'f) scheduler \<Rightarrow> bool" where
  "queues_ok W s \<longleftrightarrow> bt_ok (sc_pending s) \<and> (\<forall>(key, q) \<in> set (sc_pending s). queue_ok W key q)"

definition holds :: "('n, 'f) guard list \<Rightarrow> nat" where
  "holds gs = length (filter (\<lambda>(_, held). held \<noteq> None) gs)"

definition guards_ok :: "(activation_key \<Rightarrow> bool) \<Rightarrow> ('n, 'f) guard list \<Rightarrow> ('n, 'f) scheduler \<Rightarrow> bool" where
  "guards_ok W gs s \<longleftrightarrow>
     distinct (map fst gs) \<and> fst ` set gs \<subseteq> sc_in_flight s
     \<and> length gs = sc_active s \<and> sc_active s \<le> MAX_IN_FLIGHT_EVALUATIONS
     \<and> (\<forall>key p. (key, Some p) \<in> set gs \<longrightarrow> queued_as W key p)"

definition sched_ok ::
  "(activation_key \<Rightarrow> bool) \<Rightarrow> ('n, 'f) guard list \<times> ('n, 'f) scheduler \<Rightarrow> bool" where
  "sched_ok W c \<longleftrightarrow> (case c of (gs, s) \<Rightarrow>
     queues_ok W s \<and> guards_ok W gs s
     \<and> pending_total s + holds gs \<le> MAX_PENDING_CANDIDATES + MAX_IN_FLIGHT_EVALUATIONS)"

lemma queues_okI:
  "bt_ok (sc_pending s) \<Longrightarrow> (\<And>key q. (key, q) \<in> set (sc_pending s) \<Longrightarrow> queue_ok W key q) \<Longrightarrow> queues_ok W s"
  by (simp add: queues_ok_def split_def)

lemma queue_of_ok:
  assumes "queues_ok W s"
  shows "queue_ok W key (queue_of s key)"
proof (cases "bt_get (sc_pending s) key")
  case None
  then show ?thesis by (simp add: queue_of_def queue_ok_def fresh_count_def)
next
  case (Some q)
  with assms have "(key, q) \<in> set (sc_pending s)" by (simp add: queues_ok_def bt_get_iff)
  with Some assms show ?thesis by (auto simp: queue_of_def queues_ok_def simp del: split_paired_All)
qed

lemma queues_ok_adjust:
  assumes "queues_ok W s" "\<And>q. queue_ok W key q \<Longrightarrow> queue_ok W key (f q)"
  shows "queues_ok W (s\<lparr>sc_pending := bt_adjust key f (sc_pending s)\<rparr>)"
proof (rule queues_okI)
  show "bt_ok (sc_pending (s\<lparr>sc_pending := bt_adjust key f (sc_pending s)\<rparr>))"
    using assms(1) by (simp add: queues_ok_def bt_ok_adjust)
  fix k q
  assume "(k, q) \<in> set (sc_pending (s\<lparr>sc_pending := bt_adjust key f (sc_pending s)\<rparr>))"
  then obtain r where "(k, r) \<in> set (sc_pending s)" "q = (if k = key then f r else r)"
    by (auto simp: bt_adjust_def)
  moreover from this(1) assms(1) have "queue_ok W k r" by (auto simp: queues_ok_def)
  ultimately show "queue_ok W k q" using assms(2) by (cases "k = key") auto
qed

lemma weight_at_queue: "weight_at length (sc_pending s) key = length (queue_of s key)"
  by (simp add: weight_at_def queue_of_def split: option.splits)

lemma queues_ok_insert:
  assumes "queues_ok W s" "queue_ok W key q"
  shows "queues_ok W (s\<lparr>sc_pending := bt_insert key q (sc_pending s)\<rparr>)"
  using assms by (auto simp: queues_ok_def bt_ok_insert set_bt_insert)

lemma total_insert:
  assumes "queues_ok W s"
  shows "pending_total (s\<lparr>sc_pending := bt_insert key q (sc_pending s)\<rparr>) + length (queue_of s key) =
    pending_total s + length q"
  using weight_insert [of "sc_pending s" length key q] assms
  by (simp add: pending_total_weight weight_at_queue queues_ok_def)

lemma queue_ok_retain: "queue_ok W key q \<Longrightarrow> queue_ok W key (bt_retain P q)"
proof -
  have "length (filter Q (filter R q)) \<le> length (filter Q q)" for Q R
    by (induction q) auto
  then show "queue_ok W key q \<Longrightarrow> queue_ok W key (bt_retain P q)"
    by (force simp: queue_ok_def bt_retain_def bt_ok_filter fresh_count_def intro: order_trans)
qed

lemma fresh_count_insert:
  assumes "bt_ok q" "\<not> bt_contains q position"
  shows "fresh_count (bt_insert position p q) = fresh_count q + (if pc_resumed p then 0 else 1)"
proof -
  have count: "fresh_count r = weight (\<lambda>p. if pc_resumed p then 0 else 1) r" for r :: "('n, 'f) pending_queue"
    by (induction r) (auto simp: fresh_count_def weight_def)
  show ?thesis
    using weight_insert [OF assms(1), of "\<lambda>p. if pc_resumed p then 0 else 1" position p] assms(2)
    by (simp add: count weight_at_def bt_contains_def)
qed

lemma queue_ok_insert:
  assumes "queue_ok W key q" "\<not> bt_contains q (cand_trigger_position (pc_candidate p))" "queued_as W key p"
    and "W (fst key) \<Longrightarrow> \<not> pc_resumed p \<Longrightarrow> fresh_count q = 0"
  shows "queue_ok W key (bt_insert (cand_trigger_position (pc_candidate p)) p q)"
proof -
  have ok: "bt_ok q" using assms(1) by (simp add: queue_ok_def)
  show ?thesis
    using assms by (auto simp: queue_ok_def bt_ok_insert set_bt_insert [OF ok] fresh_count_insert [OF ok])
qed

lemma has_fresh_iff: "has_fresh q \<longleftrightarrow> fresh_count q \<noteq> 0"
  by (induction q) (auto simp: has_fresh_def fresh_count_def)

lemma restore_keeps:
  assumes "queues_ok W s" "queued_as W key p"
  shows "queues_ok W (restore_pending key p s)"
    and "pending_total (restore_pending key p s) \<le> pending_total s + 1"
proof -
  let ?q = "queue_of s key" and ?pos = "cand_trigger_position (pc_candidate p)"
  let ?s = "s\<lparr>sc_pending := bt_insert key ?q (sc_pending s)\<rparr>"
  note q = queue_of_ok [OF assms(1), of key]
  note same = queues_ok_insert [OF assms(1) q]
  have total: "pending_total ?s = pending_total s" using total_insert [OF assms(1), of key ?q] by simp
  have cases: "restore_pending key p s = ?s
      \<or> (\<not> bt_contains ?q ?pos \<and> (W (fst key) \<longrightarrow> \<not> pc_resumed p \<longrightarrow> fresh_count ?q = 0)
         \<and> restore_pending key p s = ?s\<lparr>sc_pending := bt_insert key (bt_insert ?pos p ?q) (sc_pending ?s)\<rparr>)"
    using assms(2) by (auto simp: restore_pending_def Let_def has_fresh_iff queued_as_def)
  have bt: "bt_ok ?q" using q by (simp add: queue_ok_def)
  have own: "queue_of ?s key = ?q"
    using assms(1) by (simp add: queue_of_def bt_get_insert queues_ok_def)
  from cases show "queues_ok W (restore_pending key p s)"
  proof
    assume c: "\<not> bt_contains ?q ?pos \<and> (W (fst key) \<longrightarrow> \<not> pc_resumed p \<longrightarrow> fresh_count ?q = 0)
         \<and> restore_pending key p s = ?s\<lparr>sc_pending := bt_insert key (bt_insert ?pos p ?q) (sc_pending ?s)\<rparr>"
    then have "queue_ok W key (bt_insert ?pos p ?q)" by (intro queue_ok_insert [OF q _ assms(2)]) auto
    from queues_ok_insert [OF same this] c show ?thesis by simp
  qed (simp add: same)
  from cases show "pending_total (restore_pending key p s) \<le> pending_total s + 1"
  proof
    assume c: "\<not> bt_contains ?q ?pos \<and> (W (fst key) \<longrightarrow> \<not> pc_resumed p \<longrightarrow> fresh_count ?q = 0)
         \<and> restore_pending key p s = ?s\<lparr>sc_pending := bt_insert key (bt_insert ?pos p ?q) (sc_pending ?s)\<rparr>"
    have "length (bt_insert ?pos p ?q) = Suc (length ?q)"
      by (rule length_bt_insert [OF bt]) (use c in \<open>simp add: bt_contains_def\<close>)
    with total_insert [OF same, of key "bt_insert ?pos p ?q"] own total c show ?thesis by simp
  qed (simp add: total)
qed

lemma admit_keeps:
  assumes "queues_ok W s" "candidate_key c = key" "is_windowed check = W (fst key)"
  shows "queues_ok W (snd (admit check c resumed s))"
    and "pending_total (snd (admit check c resumed s)) \<le> max (pending_total s) MAX_PENDING_CANDIDATES"
proof -
  let ?q = "queue_of s key" and ?pos = "cand_trigger_position c"
  let ?p = "\<lparr>pc_candidate = c, pc_compiled = check, pc_resumed = resumed\<rparr>"
  let ?replaces = "\<not> resumed \<and> is_windowed check \<and> has_fresh ?q"
  define kept where "kept = (if ?replaces then bt_retain (\<lambda>_ p. pc_resumed p) ?q else ?q)"
  let ?touched = "s\<lparr>sc_pending := bt_adjust key (bt_adjust ?pos (\<lambda>p. p\<lparr>pc_resumed := pc_resumed p \<or> resumed\<rparr>)) (sc_pending s)\<rparr>"
  let ?new = "s\<lparr>sc_pending := bt_insert key (bt_insert ?pos ?p kept) (sc_pending s)\<rparr>"
  note q = queue_of_ok [OF assms(1), of key]
  have ok: "bt_ok (sc_pending s)" using assms(1) by (simp add: queues_ok_def)
  have kept: "queue_ok W key kept" using q by (simp add: kept_def queue_ok_retain)
  consider (touched) "bt_contains ?q ?pos" "sc_pending (snd (admit check c resumed s)) = sc_pending ?touched"
    | (same) "sc_pending (snd (admit check c resumed s)) = sc_pending s"
    | (new) "\<not> bt_contains ?q ?pos" "?replaces \<or> pending_total s < MAX_PENDING_CANDIDATES"
        "sc_pending (snd (admit check c resumed s)) = sc_pending ?new"
  proof (cases "bt_contains ?q ?pos")
    case True
    then show ?thesis using assms(2) by (intro touched) (simp_all add: admit_def)
  next
    case False
    show ?thesis
    proof (cases "(\<not> ?replaces \<and> MAX_PENDING_CANDIDATES \<le> pending_total s)
        \<or> (?replaces \<and> \<not> pc_resumed (snd (last ?q)) \<and> ?pos < fst (last ?q))")
      case True
      then show ?thesis
        using False assms(2) by (intro same) (auto simp: admit_def)
    next
      case other: False
      then show ?thesis
        using False assms(2)
        by (intro new) (auto simp: admit_def kept_def issue_ticket_def Let_def not_le split: if_splits)
    qed
  qed
  then have "queues_ok W (snd (admit check c resumed s))
    \<and> pending_total (snd (admit check c resumed s)) \<le> max (pending_total s) MAX_PENDING_CANDIDATES"
  proof cases
    case touched
    have "queue_ok W k (bt_adjust ?pos (\<lambda>p. p\<lparr>pc_resumed := pc_resumed p \<or> resumed\<rparr>) r)" if "queue_ok W k r" for k r
    proof -
      have "fresh_count (bt_adjust ?pos (\<lambda>p. p\<lparr>pc_resumed := pc_resumed p \<or> resumed\<rparr>) r) \<le> fresh_count r"
        by (induction r) (auto simp: fresh_count_def bt_adjust_def split: if_splits)
      with that show ?thesis
        by (auto simp: queue_ok_def bt_ok_adjust queued_as_def) (auto simp: bt_adjust_def queued_as_def split: if_splits)
    qed
    with assms(1) have "queues_ok W ?touched" by (intro queues_ok_adjust)
    moreover have "length (bt_adjust a f r) = length r" for a f and r :: "('n, 'f) pending_queue"
      by (simp add: bt_adjust_def)
    then have "pending_total ?touched = pending_total s"
      by (auto simp: pending_total_def bt_adjust_def intro!: arg_cong [of _ _ sum_list])
    ultimately show ?thesis using touched(2) by (simp add: queues_ok_def pending_total_def)
  next
    case same
    with assms(1) show ?thesis by (simp add: queues_ok_def pending_total_def)
  next
    case new
    have absent: "\<not> bt_contains kept ?pos"
      using new(1) by (auto simp: kept_def bt_contains_def bt_get_def map_of_eq_None_iff bt_retain_def)
    have "fresh_count (bt_retain (\<lambda>_ p. pc_resumed p) r) = 0" for r :: "('n, 'f) pending_queue"
      by (induction r) (auto simp: fresh_count_def bt_retain_def)
    then have "fresh_count kept = 0" if "W (fst key)" "\<not> resumed"
      using that assms(3) by (auto simp: kept_def has_fresh_iff)
    then have "queue_ok W key (bt_insert ?pos ?p kept)"
      using queue_ok_insert [OF kept, of ?p] absent assms(2,3) by (simp add: queued_as_def)
    then have "queues_ok W ?new" by (rule queues_ok_insert [OF assms(1)])
    moreover have "pending_total ?new \<le> max (pending_total s) MAX_PENDING_CANDIDATES"
    proof -
      have len: "length (bt_insert ?pos ?p kept) = Suc (length kept)"
        using length_bt_insert [of kept ?pos ?p] kept absent by (simp add: queue_ok_def bt_contains_def)
      have "length (bt_retain (\<lambda>_ p. pc_resumed p) r) < length r" if "has_fresh r" for r :: "('n, 'f) pending_queue"
        using that by (auto simp: bt_retain_def has_fresh_def list_ex_iff intro!: length_filter_less)
      then have "Suc (length kept) \<le> length ?q \<or> pending_total s < MAX_PENDING_CANDIDATES \<and> kept = ?q"
        using new(2) by (auto simp: kept_def Suc_le_eq)
      with total_insert [OF assms(1), of key "bt_insert ?pos ?p kept"] len show ?thesis by auto
    qed
    ultimately show ?thesis using new(3) by (simp add: queues_ok_def pending_total_def)
  qed
  then show "queues_ok W (snd (admit check c resumed s))"
    and "pending_total (snd (admit check c resumed s)) \<le> max (pending_total s) MAX_PENDING_CANDIDATES"
    by simp_all
qed

lemma filtered_queues:
  assumes "queues_ok W s" "sc_pending t = filter P (sc_pending s)"
  shows "queues_ok W t \<and> pending_total t \<le> pending_total s"
  using assms weight_filter [of length P "sc_pending s"]
  by (simp add: queues_ok_def bt_ok_filter pending_total_weight)

lemma remove_terminal_keeps:
  assumes "queues_ok W s"
  shows "queues_ok W (remove_terminal terminal s) \<and> pending_total (remove_terminal terminal s) \<le> pending_total s"
proof -
  let ?keep = "\<lambda>(_::nat) p. cand_fingerprint (pc_candidate p) \<notin> terminal"
  let ?t = "s\<lparr>sc_pending := map (\<lambda>(key, q). (key, bt_retain ?keep q)) (sc_pending s)\<rparr>"
  have keys: "map fst (sc_pending ?t) = map fst (sc_pending s)" by (simp add: split_def)
  have "bt_ok (sc_pending ?t)" using assms unfolding queues_ok_def bt_ok_def keys by simp
  moreover have "queue_ok W key q" if "(key, q) \<in> set (sc_pending ?t)" for key q
  proof -
    from that obtain r where "(key, r) \<in> set (sc_pending s)" "q = bt_retain ?keep r" by auto
    with assms queue_ok_retain [of W key r ?keep] show ?thesis by (auto simp: queues_ok_def)
  qed
  ultimately have "queues_ok W ?t" by (rule queues_okI)
  moreover have "pending_total ?t \<le> pending_total s"
    unfolding pending_total_def
    by (simp add: comp_def split_def bt_retain_def sum_list_mono)
  moreover have "sc_pending (remove_terminal terminal s) = filter (\<lambda>(_, q). q \<noteq> []) (sc_pending ?t)"
    by (simp add: remove_terminal_def Let_def)
  note filtered_queues [OF \<open>queues_ok W ?t\<close> this]
  ultimately show ?thesis by simp
qed

lemma prune_keeps:
  "queues_ok W s \<Longrightarrow> queues_ok W (snd (prune_terminal_pending lookup s))
     \<and> pending_total (snd (prune_terminal_pending lookup s)) \<le> pending_total s"
  using remove_terminal_keeps by (auto simp: prune_terminal_pending_def split: sum.splits)

lemma enqueue_keeps:
  assumes "queues_ok W s" "cand_activation c = act_id a" "is_windowed (act_compiled a) = W (activation_key (act_id a))"
  shows "queues_ok W (snd (enqueue_with_resume lookup a c resumed s))
    \<and> pending_total (snd (enqueue_with_resume lookup a c resumed s)) \<le> max (pending_total s) MAX_PENDING_CANDIDATES"
proof -
  let ?t = "snd (if MAX_PENDING_CANDIDATES \<le> pending_total s then prune_terminal_pending lookup s else (Inr (), s))"
  have t: "queues_ok W ?t" "pending_total ?t \<le> pending_total s" using prune_keeps [OF assms(1)] assms(1) by auto
  have "snd (enqueue_with_resume lookup a c resumed s) = ?t
    \<or> snd (enqueue_with_resume lookup a c resumed s) = snd (admit (act_compiled a) c resumed ?t)"
    by (auto simp: enqueue_with_resume_def split: prod.splits sum.splits)
  moreover have "is_windowed (act_compiled a) = W (fst (candidate_key c))"
    using assms(2,3) by (simp add: candidate_key_def)
  note admit_keeps [OF t(1) refl this, of resumed]
  ultimately show ?thesis using t by fastforce
qed

lemma min_by_key_set: "min_by_key f xs = Some x \<Longrightarrow> x \<in> set xs"
  by (induction xs arbitrary: x) (auto split: option.splits if_splits)

lemma max_by_key_set: "max_by_key f xs = Some x \<Longrightarrow> x \<in> set xs"
  by (induction xs arbitrary: x) (auto split: option.splits if_splits)

lemma ranked_keys_set: "(key, position) \<in> set (ranked_keys s due) \<Longrightarrow> key \<in> set due"
  by (auto simp: ranked_keys_def split: if_splits)

lemma next_key_set: "next_key policy s due = Some key \<Longrightarrow> key \<in> set due"
  by (auto simp: next_key_def split: if_splits dest!: min_by_key_set max_by_key_set ranked_keys_set)

text \<open>What a reservation takes: the oldest candidate of a due branch.\<close>

lemma reserveD:
  assumes "reserve policy a ready now s = (Some (key, p), t)" "queues_ok W s"
  shows "sc_active s < MAX_IN_FLIGHT_EVALUATIONS" "is_due policy a ready now s key"
    and "queue_of s key = (cand_trigger_position (pc_candidate p), p) # queue_of t key"
    and "\<And>k. k \<noteq> key \<Longrightarrow> queue_of t k = queue_of s k"
    and "queued_as W key p" "queues_ok W t" "pending_total t + 1 = pending_total s"
    and "sc_in_flight t = insert key (sc_in_flight s)" "sc_active t = sc_active s + 1"
proof -
  let ?q = "queue_of s key"
  let ?rest = "bt_remove (cand_trigger_position (pc_candidate p)) ?q"
  obtain position q where active: "sc_active s < MAX_IN_FLIGHT_EVALUATIONS"
    and nk: "next_key policy s (due_keys policy a ready now s) = Some key"
    and q: "?q = (position, p) # q"
    and t: "t = s\<lparr>sc_pending := (if ?rest = [] then bt_remove key (sc_pending s)
                                    else bt_adjust key (\<lambda>_. ?rest) (sc_pending s)),
                      sc_in_flight := insert key (sc_in_flight s), sc_active := sc_active s + 1\<rparr>"
    using assms(1) by (auto simp: reserve_def Let_def split: if_splits option.splits list.splits)
  show "sc_active s < MAX_IN_FLIGHT_EVALUATIONS" by (rule active)
  show "is_due policy a ready now s key" using next_key_set [OF nk] by (simp add: due_keys_def)
  note qok = queue_of_ok [OF assms(2), of key]
  have position: "position = cand_trigger_position (pc_candidate p)" and queued: "queued_as W key p"
    using qok q by (auto simp: queue_ok_def)
  show "queued_as W key p" by (rule queued)
  have rest: "?rest = q"
    using qok by (auto simp: q bt_remove_def queue_ok_def bt_ok_Cons position intro!: filter_True)
  note t = t [unfolded rest]
  obtain v where v: "bt_get (sc_pending s) key = Some v" "v = ?q"
    using q by (auto simp: queue_of_def split: option.splits)
  have ok: "bt_ok (sc_pending s)" using assms(2) by (simp add: queues_ok_def)
  have own: "queue_of t key = q"
    using v(1) by (simp add: t queue_of_def bt_get_remove bt_get_adjust)
  with q position show "?q = (cand_trigger_position (pc_candidate p), p) # queue_of t key" by simp
  show "queue_of t k = queue_of s k" if "k \<noteq> key" for k
    using that by (simp add: t queue_of_def bt_get_remove bt_get_adjust)
  show "sc_in_flight t = insert key (sc_in_flight s)" "sc_active t = sc_active s + 1" by (simp_all add: t)
  have "queue_ok W key q"
    using queue_ok_retain [OF qok, of "\<lambda>k _. k \<noteq> cand_trigger_position (pc_candidate p)"] rest
    by (simp add: bt_retain_def bt_remove_def split_def)
  then have "queues_ok W (s\<lparr>sc_pending := bt_adjust key (\<lambda>_. q) (sc_pending s)\<rparr>)"
    by (intro queues_ok_adjust [OF assms(2)])
  moreover have "queues_ok W (s\<lparr>sc_pending := bt_remove key (sc_pending s)\<rparr>)"
    using filtered_queues [OF assms(2)] by (simp add: bt_remove_def)
  ultimately show "queues_ok W t" by (simp add: t queues_ok_def)
  show "pending_total t + 1 = pending_total s"
    using weight_remove [OF ok, of length key] weight_adjust [OF ok v(1), of length "\<lambda>_. q"] v q
    by (auto simp: pending_total_weight t weight_at_def)
qed

lemma holds_remove:
  "(key, held) \<in> set gs \<Longrightarrow> holds (remove1 (key, held) gs) + (if held = None then 0 else 1) = holds gs"
  by (induction gs) (auto simp: holds_def)

lemma guards_remove:
  assumes "guards_ok W gs s" "(key, held) \<in> set gs"
  shows "key \<notin> fst ` set (remove1 (key, held) gs)" "length (remove1 (key, held) gs) = sc_active s - 1"
    "fst ` set (remove1 (key, held) gs) = fst ` set gs - {key}"
    "distinct (map fst (remove1 (key, held) gs))"
proof -
  have d: "distinct (map fst gs)" and len: "length gs = sc_active s" using assms(1) by (auto simp: guards_ok_def)
  from d assms(2) have "map fst (remove1 (key, held) gs) = remove1 key (map fst gs)"
  proof (induction gs)
    case (Cons g gs)
    then show ?case by (cases "g = (key, held)") (auto intro!: rev_image_eqI)
  qed simp
  then have eq: "fst ` set (remove1 (key, held) gs) = set (remove1 key (map fst gs))" and
    dist: "distinct (map fst (remove1 (key, held) gs))" using d by (metis list.set_map, simp)
  show "distinct (map fst (remove1 (key, held) gs))" by (rule dist)
  show "key \<notin> fst ` set (remove1 (key, held) gs)" "fst ` set (remove1 (key, held) gs) = fst ` set gs - {key}"
    unfolding eq using d by auto
  show "length (remove1 (key, held) gs) = sc_active s - 1" using assms(2) len by (simp add: length_remove1)
qed

lemma scheduler_updates [simp]:
  "sc_pending (mark_scheduler_started policy key now cooldown s) = sc_pending s"
  "sc_in_flight (mark_scheduler_started policy key now cooldown s) = sc_in_flight s"
  "sc_active (mark_scheduler_started policy key now cooldown s) = sc_active s"
  "sc_pending (clear_ticket_if_idle key s) = sc_pending s"
  "sc_in_flight (clear_ticket_if_idle key s) = sc_in_flight s"
  "sc_active (clear_ticket_if_idle key s) = sc_active s"
  by (simp_all add: mark_scheduler_started_def clear_ticket_if_idle_def issue_ticket_def Let_def)

lemma reservations_kept [simp]:
  "sc_in_flight (snd (admit check c resumed s)) = sc_in_flight s"
  "sc_active (snd (admit check c resumed s)) = sc_active s"
  "sc_in_flight (remove_terminal terminal s) = sc_in_flight s"
  "sc_active (remove_terminal terminal s) = sc_active s"
  "sc_in_flight (restore_pending key p s) = sc_in_flight s"
  "sc_active (restore_pending key p s) = sc_active s"
  by (simp_all add: admit_def remove_terminal_def restore_pending_def issue_ticket_def Let_def)

lemma prune_reservations [simp]:
  "sc_in_flight (snd (prune_terminal_pending lookup s)) = sc_in_flight s"
  "sc_active (snd (prune_terminal_pending lookup s)) = sc_active s"
  by (simp_all add: prune_terminal_pending_def split: sum.split)

lemma enqueue_ends:
  "\<exists>t. (t = s \<or> t = snd (prune_terminal_pending lookup s))
     \<and> (snd (enqueue_with_resume lookup a c resumed s) = t
        \<or> snd (enqueue_with_resume lookup a c resumed s) = snd (admit (act_compiled a) c resumed t))"
proof -
  obtain r t where first: "(if MAX_PENDING_CANDIDATES \<le> pending_total s then prune_terminal_pending lookup s
      else (Inr (), s)) = (r, t)" by (rule prod.exhaust)
  then have "t = s \<or> t = snd (prune_terminal_pending lookup s)" by (metis snd_conv)
  moreover have "snd (enqueue_with_resume lookup a c resumed s) = t
        \<or> snd (enqueue_with_resume lookup a c resumed s) = snd (admit (act_compiled a) c resumed t)"
    unfolding enqueue_with_resume_def first by (cases r) (simp_all add: split_def)
  ultimately show ?thesis by blast
qed

lemma enqueue_reservations [simp]:
  "sc_in_flight (snd (enqueue_with_resume lookup a c resumed s)) = sc_in_flight s"
  "sc_active (snd (enqueue_with_resume lookup a c resumed s)) = sc_active s"
  using enqueue_ends [of s lookup a c resumed] by (metis prune_reservations reservations_kept(1,2))+

lemma guards_ok_same:
  "guards_ok W gs s \<Longrightarrow> sc_in_flight t = sc_in_flight s \<Longrightarrow> sc_active t = sc_active s \<Longrightarrow> guards_ok W gs t"
  by (simp add: guards_ok_def)

lemma guards_queued: "guards_ok W gs s \<Longrightarrow> (key, Some p) \<in> set gs \<Longrightarrow> queued_as W key p"
  unfolding guards_ok_def by blast

lemma sched_okI:
  "queues_ok W s \<Longrightarrow> guards_ok W gs s
    \<Longrightarrow> pending_total s + holds gs \<le> MAX_PENDING_CANDIDATES + MAX_IN_FLIGHT_EVALUATIONS \<Longrightarrow> sched_ok W (gs, s)"
  by (simp add: sched_ok_def)

lemma holds_length: "holds gs \<le> length gs"
  by (simp add: holds_def)

lemma guards_release:
  assumes "guards_ok W gs s" "(key, Some p) \<in> set gs"
    and "sc_in_flight t = sc_in_flight s" "sc_active t = sc_active s"
  shows "guards_ok W ((key, None) # remove1 (key, Some p) gs) t"
proof -
  note r = guards_remove [OF assms(1,2)]
  have key: "key \<in> fst ` set gs" using assms(2) by force
  have "length gs \<noteq> 0" using assms(2) by auto
  moreover have "(k, Some q) \<in> set (remove1 (key, Some p) gs) \<Longrightarrow> (k, Some q) \<in> set gs" for k q
    by (metis notin_set_remove1)
  ultimately show ?thesis
    using assms(1,3,4) r key unfolding guards_ok_def
    by (intro conjI allI impI) (simp_all only: set_simps insert_iff, auto)
qed

lemma guards_drop:
  assumes "guards_ok W gs s" "(key, held) \<in> set gs"
    and "sc_in_flight t = sc_in_flight s \<or> sc_in_flight t = sc_in_flight s - {key}" "sc_active t = sc_active s - 1"
  shows "guards_ok W (remove1 (key, held) gs) t"
proof -
  note r = guards_remove [OF assms(1,2)]
  have "(k, Some q) \<in> set (remove1 (key, held) gs) \<Longrightarrow> (k, Some q) \<in> set gs" for k q
    by (metis notin_set_remove1)
  then have queued: "(k, Some q) \<in> set (remove1 (key, held) gs) \<Longrightarrow> queued_as W k q" for k q
    using guards_queued [OF assms(1)] by simp
  have sub: "fst ` set (remove1 (key, held) gs) \<subseteq> sc_in_flight t"
    using assms(1,3) r(3) by (auto simp: guards_ok_def)
  have "sc_active t \<le> MAX_IN_FLIGHT_EVALUATIONS" "length (remove1 (key, held) gs) = sc_active t"
    using assms(1,4) r(2) unfolding guards_ok_def by (elim conjE, linarith)+
  with sub queued r(4) show ?thesis by (simp add: guards_ok_def)
qed

lemma restore_step_ok:
  assumes "queues_ok W s" "guards_ok W gs s" "(key, Some p) \<in> set gs" "queued_as W key q"
    and "pending_total s + holds gs \<le> MAX_PENDING_CANDIDATES + MAX_IN_FLIGHT_EVALUATIONS"
  shows "sched_ok W ((key, None) # remove1 (key, Some p) gs, restore_pending key q s)"
proof (rule sched_okI)
  show "queues_ok W (restore_pending key q s)" by (rule restore_keeps(1) [OF assms(1,4)])
  show "guards_ok W ((key, None) # remove1 (key, Some p) gs) (restore_pending key q s)"
    by (rule guards_release [OF assms(2,3)]) simp_all
  have "holds ((key, None) # remove1 (key, Some p) gs) + 1 = holds gs"
    using holds_remove [OF assms(3)] by (simp add: holds_def)
  with restore_keeps(2) [OF assms(1,4)] assms(5)
  show "pending_total (restore_pending key q s) + holds ((key, None) # remove1 (key, Some p) gs)
    \<le> MAX_PENDING_CANDIDATES + MAX_IN_FLIGHT_EVALUATIONS" by simp
qed

lemma sched_step_ok:
  assumes "sched_step W c d" "sched_ok W c"
  shows "sched_ok W d"
  using assms(1)
proof cases
  case (enqueued c' a gs s lookup resumed)
  with assms(2) have q: "queues_ok W s" and g: "guards_ok W gs s"
    and n: "pending_total s + holds gs \<le> MAX_PENDING_CANDIDATES + MAX_IN_FLIGHT_EVALUATIONS"
    by (simp_all add: sched_ok_def)
  have "holds gs \<le> MAX_IN_FLIGHT_EVALUATIONS" using holds_length [of gs] g by (simp add: guards_ok_def)
  moreover note e = enqueue_keeps [OF q, of c' a lookup resumed]
  ultimately show ?thesis
    using enqueued q g n by (auto intro!: sched_okI guards_ok_same [OF g])
next
  case (pruned gs s lookup)
  then show ?thesis
    using assms(2) prune_keeps [of W s lookup] by (fastforce simp: sched_ok_def intro: guards_ok_same)
next
  case (reserved policy a ready now s key p t gs)
  with assms(2) have q: "queues_ok W s" and g: "guards_ok W gs s"
    and n: "pending_total s + holds gs \<le> MAX_PENDING_CANDIDATES + MAX_IN_FLIGHT_EVALUATIONS"
    by (simp_all add: sched_ok_def)
  note r = reserveD [OF reserved(3) q]
  have "key \<notin> sc_in_flight s" using r(2) by (simp add: is_due_def)
  then have "key \<notin> fst ` set gs" using g by (auto simp: guards_ok_def)
  then have "guards_ok W ((key, Some p) # gs) t" using g r by (auto simp: guards_ok_def)
  moreover have "holds ((key, Some p) # gs) = holds gs + 1" by (simp add: holds_def)
  ultimately show ?thesis using reserved r n by (auto intro!: sched_okI)
next
  case (restored key p gs q s)
  with assms(2) have ok: "queues_ok W s" "guards_ok W gs s"
    "pending_total s + holds gs \<le> MAX_PENDING_CANDIDATES + MAX_IN_FLIGHT_EVALUATIONS"
    by (simp_all add: sched_ok_def)
  have "queued_as W key q"
    using guards_queued [OF ok(2) restored(3)] restored(4) by (auto simp: queued_as_def)
  from restore_step_ok [OF ok(1,2) restored(3) this ok(3)] restored show ?thesis by simp
next
  case (deferred key p gs s retry_at)
  let ?s = "s\<lparr>sc_cooldown := bt_insert key retry_at (sc_cooldown s)\<rparr>"
  from deferred assms(2) have ok: "queues_ok W ?s" "guards_ok W gs ?s"
    "pending_total ?s + holds gs \<le> MAX_PENDING_CANDIDATES + MAX_IN_FLIGHT_EVALUATIONS"
    by (simp_all add: sched_ok_def queues_ok_def guards_ok_def pending_total_def)
  from restore_step_ok [OF ok(1,2) deferred(3) guards_queued [OF ok(2) deferred(3)] ok(3)] deferred
  show ?thesis by (simp add: defer_candidate_def)
next
  case (finished key held gs s)
  with assms(2) show ?thesis
    using guards_drop [of W gs s key held "finish_guard key s"] holds_remove [of key held gs]
    by (auto simp: sched_ok_def finish_guard_def queues_ok_def pending_total_def split: if_splits)
next
  case (abandoned key held gs s)
  with assms(2) show ?thesis
    using guards_drop [of W gs s key held "abandon_guard s"] holds_remove [of key held gs]
    by (auto simp: sched_ok_def abandon_guard_def queues_ok_def pending_total_def split: if_splits)
next
  case (reactivated gs s ident activation)
  let ?t = "retain_activation ident activation s"
  have "queues_ok W ?t \<and> pending_total ?t \<le> pending_total s"
    by (rule filtered_queues) (use reactivated assms(2) in \<open>auto simp: sched_ok_def retain_activation_def bt_retain_def\<close>)
  with reactivated assms(2) show ?thesis
    by (auto simp: sched_ok_def intro: guards_ok_same simp: retain_activation_def)
next
  case (dropped gs s a branches)
  let ?t = "drop_branches a branches s"
  have "queues_ok W ?t \<and> pending_total ?t \<le> pending_total s"
    by (rule filtered_queues) (use dropped assms(2) in \<open>auto simp: sched_ok_def drop_branches_def bt_retain_def\<close>)
  with dropped assms(2) show ?thesis
    by (auto simp: sched_ok_def intro: guards_ok_same simp: drop_branches_def)
qed (use assms(2) in \<open>auto simp: sched_ok_def queues_ok_def guards_ok_def pending_total_def\<close>)

lemma sched_ok_start: "sched_ok W ([], scheduler_default)"
  by (simp add: sched_ok_def queues_ok_def guards_ok_def pending_total_def scheduler_default_def holds_def)

lemma sched_reachable_ok: "sched_reachable W c \<Longrightarrow> sched_ok W c"
  unfolding sched_reachable_def
  by (induction rule: rtranclp_induct) (auto simp: sched_ok_start intro: sched_step_ok)

section \<open>What holds of every run\<close>

text \<open>
  C21. Whatever the order of enqueues, reservations, restores, cancellations and lifecycle
  changes, at most four evaluations are active, each for a branch of its own that is marked
  in flight, and the queues hold at most 128 candidates beyond those that active evaluations
  gave back.
\<close>

theorem scheduler_bounded:
  assumes "sched_reachable W (gs, s)"
  shows "sc_active s = length gs \<and> length gs \<le> 4 \<and> distinct (map fst gs) \<and> fst ` set gs \<subseteq> sc_in_flight s
    \<and> pending_total s \<le> 132"
  using sched_reachable_ok [OF assms]
  by (simp add: sched_ok_def guards_ok_def MAX_PENDING_CANDIDATES_def MAX_IN_FLIGHT_EVALUATIONS_def)

text \<open>
  A branch of a check with a rolling window never has two fresh candidates in its queue:
  a later trigger replaces the earlier one, and a candidate that is given back gives way to
  the one that replaced it. Only work resumed from the store is kept beside it.
\<close>

lemma window_single_fresh:
  assumes "sched_reachable W (gs, s)" "W (fst key)"
  shows "length (filter (\<lambda>(_, p). \<not> pc_resumed p) (queue_of s key)) \<le> 1"
  using sched_reachable_ok [OF assms(1)] queue_of_ok [of W s key] assms(2)
  by (simp add: sched_ok_def queue_ok_def fresh_count_def)

text \<open>One candidate that is queued and then taken, for closed examples.\<close>

definition sample_candidate :: "nat frozen_candidate" where
  "sample_candidate = \<lparr>cand_activation = act_id (sample_activation 1), cand_branch = ''main'',
     cand_trigger_position = 1, cand_messages = [], cand_context = \<lparr>context_value = JNull, context_dependencies = []\<rparr>,
     cand_dependencies = [], cand_fingerprint = ''f''\<rparr>"

definition sample_pending :: "(nat, unit) pending_candidate" where
  "sample_pending = \<lparr>pc_candidate = sample_candidate, pc_compiled = sample_check, pc_resumed = False\<rparr>"

abbreviation sample_key :: schedule_key where
  "sample_key \<equiv> candidate_key sample_candidate"

definition sample_queued :: "(nat, unit) scheduler" where
  "sample_queued = scheduler_default\<lparr>sc_pending := [(sample_key, [(1, sample_pending)])],
     sc_tickets := [(sample_key, 0)], sc_next_ticket := 1\<rparr>"

definition sample_running :: "(nat, unit) scheduler" where
  "sample_running = sample_queued\<lparr>sc_pending := [], sc_in_flight := {sample_key}, sc_active := 1\<rparr>"

lemma sample_queue:
  "enqueue_with_resume (\<lambda>_. Inr []) (sample_activation 1) sample_candidate False scheduler_default
     = (Inr Queued, sample_queued)"
  by (simp add: enqueue_with_resume_def admit_def scheduler_default_def sample_queued_def sample_pending_def
      queue_of_def bt_get_def bt_contains_def pending_total_def MAX_PENDING_CANDIDATES_def has_fresh_def
      issue_ticket_def u64_saturating_add_def u64_max_def sample_candidate_def sample_activation_def Let_def)

lemma sample_reserve:
  "reserve LivePolicy (act_id (sample_activation 1)) (\<lambda>_. True) 0 sample_queued
     = (Some (sample_key, sample_pending), sample_running)"
  by (simp add: reserve_def sample_queued_def sample_running_def scheduler_default_def sample_pending_def
      MAX_IN_FLIGHT_EVALUATIONS_def next_key_def due_keys_def is_due_def candidate_key_def queue_of_def bt_get_def
      ranked_keys_def cooled_down_def bt_remove_def sample_candidate_def)

lemma sample_run: "sched_reachable (\<lambda>_. False) ([(sample_key, Some sample_pending)], sample_running)"
proof -
  have "sched_step (\<lambda>_. False) ([], scheduler_default) ([], sample_queued)"
    using sched_step.enqueued [of sample_candidate "sample_activation 1" "\<lambda>_. False" "[]" scheduler_default
        "\<lambda>_. Inr []" False]
    unfolding sample_queue snd_conv
    by (simp add: sample_candidate_def sample_activation_def sample_check_def is_windowed_def)
  moreover have "sched_step (\<lambda>_. False) ([], sample_queued) ([(sample_key, Some sample_pending)], sample_running)"
    by (rule sched_step.reserved [OF sample_reserve])
  ultimately show ?thesis unfolding sched_reachable_def by (rule rtranclp.rtrancl_into_rtrancl [OF r_into_rtranclp])
qed

theorem scheduler_bounded_witness:
  "sc_active sample_running = 1 \<and> fst ` set [(sample_key, Some sample_pending)] \<subseteq> sc_in_flight sample_running"
  using scheduler_bounded [OF sample_run] by simp

text \<open>A branch is stuck when it is in flight and no guard holds it.\<close>

definition stuck :: "schedule_key \<Rightarrow> ('n, 'f) guard list \<times> ('n, 'f) scheduler \<Rightarrow> bool" where
  "stuck key c \<longleftrightarrow> (case c of (gs, s) \<Rightarrow> key \<in> sc_in_flight s \<and> key \<notin> fst ` set gs)"

lemma remove1_keys: "key \<notin> fst ` set gs \<Longrightarrow> key \<notin> fst ` set (remove1 g gs)"
  by (meson image_mono set_remove1_subset subsetD)

lemma stuck_step:
  assumes "sched_step W c d" "sched_ok W c" "stuck key c"
  shows "stuck key d"
  using assms(1)
proof cases
  case (reserved policy a ready now s k p t gs)
  with assms(2) have q: "queues_ok W s" by (simp add: sched_ok_def)
  from reserveD(2,8) [OF reserved(3) q] show ?thesis
    using reserved assms(3) by (auto simp: stuck_def is_due_def)
next
  case (finished k held gs s)
  moreover from this assms(3) have "k \<noteq> key" by (force simp: stuck_def)
  ultimately show ?thesis using assms(3) by (simp add: stuck_def finish_guard_def remove1_keys)
next
  case (restored k p gs q s)
  moreover from this assms(3) have "k \<noteq> key" by (force simp: stuck_def)
  ultimately show ?thesis using assms(3) by (simp add: stuck_def remove1_keys)
next
  case (deferred k p gs s retry_at)
  moreover from this assms(3) have "k \<noteq> key" by (force simp: stuck_def)
  ultimately show ?thesis using assms(3) by (simp add: stuck_def remove1_keys defer_candidate_def)
qed (use assms(3) in \<open>auto simp: stuck_def abandon_guard_def retain_activation_def drop_branches_def
       remove1_keys simp del: split_paired_All split_paired_Ex\<close>)

lemma stuck_run:
  "(sched_step W)\<^sup>*\<^sup>* c d \<Longrightarrow> sched_ok W c \<Longrightarrow> stuck key c \<Longrightarrow> sched_ok W d \<and> stuck key d"
  by (induction rule: rtranclp_induct) (auto intro: sched_step_ok stuck_step)

lemma abandon_stuck:
  assumes "sched_ok W (gs, s)" "(key, held) \<in> set gs"
  shows "sched_ok W (remove1 (key, held) gs, abandon_guard s)" "stuck key (remove1 (key, held) gs, abandon_guard s)"
proof -
  show "sched_ok W (remove1 (key, held) gs, abandon_guard s)"
    by (rule sched_step_ok [OF sched_step.abandoned [OF assms(2)] assms(1)])
  have g: "guards_ok W gs s" using assms(1) by (simp add: sched_ok_def)
  then have "key \<in> sc_in_flight s" using assms(2) by (force simp: guards_ok_def)
  then show "stuck key (remove1 (key, held) gs, abandon_guard s)"
    using guards_remove(1) [OF g assms(2)] by (simp add: stuck_def abandon_guard_def)
qed

lemma stuck_not_reserved:
  assumes "sched_ok W (gs, s)" "stuck key (gs, s)"
  shows "reserve policy a ready now s \<noteq> (Some (key, p), u)"
proof
  assume take: "reserve policy a ready now s = (Some (key, p), u)"
  have "queues_ok W s" "key \<in> sc_in_flight s" using assms by (simp_all add: sched_ok_def stuck_def)
  with reserveD(2) [OF take] show False by (simp add: is_due_def)
qed

text \<open>
  C22. When an evaluation is cancelled after its dispatch became possible, its branch stays
  reserved: no later run of the scheduler ever reserves that branch again, so the engine
  cannot send the same unsettled work twice.
\<close>

theorem cancelled_branch_reserved:
  assumes "sched_reachable W (gs, s)" "(key, held) \<in> set gs"
    and "(sched_step W)\<^sup>*\<^sup>* (remove1 (key, held) gs, abandon_guard s) (hs, t)"
  shows "key \<notin> fst ` set hs \<and> (\<forall>policy a ready now p u. reserve policy a ready now t \<noteq> (Some (key, p), u))"
proof -
  note start = abandon_stuck [OF sched_reachable_ok [OF assms(1)] assms(2)]
  from stuck_run [OF assms(3) start] have "sched_ok W (hs, t)" "stuck key (hs, t)" by blast+
  moreover from this have "reserve policy a ready now t \<noteq> (Some (key, p), u)" for policy a ready now p u
    by (rule stuck_not_reserved)
  ultimately show ?thesis unfolding stuck_def prod.case by blast
qed

theorem cancelled_branch_reserved_witness:
  "\<forall>policy a ready now p u. reserve policy a ready now (abandon_guard sample_running) \<noteq> (Some (sample_key, p), u)"
  using cancelled_branch_reserved [OF sample_run, of sample_key "Some sample_pending" "[]" "abandon_guard sample_running"]
  by auto

end
