(* ===== verification/Fit.thy ===== *)
theory Fit
  imports Results Eval_Json
begin

text \<open>
  \<open>fit.rs\<close> and \<open>fit_limits.rs\<close>: ordered reductions of a decision input until the complete
  request passes the validator of the provider. A pointer into the input is the list of its
  steps. The validator is a parameter; it works on the shared work budget and on a state of
  its own. \<open>FitPanic\<close> is an \<open>expect\<close> or a slice of the code that fails.
\<close>

section \<open>Data\<close>

definition MAX_FIT_INPUT_BYTES :: nat where "MAX_FIT_INPUT_BYTES = 8 * 1024 * 1024"
definition MAX_FIT_INPUT_NODES :: nat where "MAX_FIT_INPUT_NODES = 16384"
definition MAX_FIT_RULES :: nat where "MAX_FIT_RULES = 128"
definition MAX_FIT_PATH_SEGMENTS :: nat where "MAX_FIT_PATH_SEGMENTS = 64"
definition MAX_FIT_PATH_BYTES :: nat where "MAX_FIT_PATH_BYTES = 2048"
definition MAX_FIT_TARGETS :: nat where "MAX_FIT_TARGETS = 4096"
definition MAX_FIT_TRAVERSAL_NODES :: nat where "MAX_FIT_TRAVERSAL_NODES = 32768"
definition MAX_FIT_TURNS :: nat where "MAX_FIT_TURNS = 4096"
definition TRUNCATE_CHUNK_BYTES :: nat where "TRUNCATE_CHUNK_BYTES = 1024"
definition MINIMUM_TEXT_BYTES :: nat where "MINIMUM_TEXT_BYTES = 256"
definition MAX_FITTING_WORK :: nat where "MAX_FITTING_WORK = 64 * 1024 * 1024"

definition OMISSION_MARKER :: string where
  "OMISSION_MARKER = CHR 0x0A # ''[... omitted ...]'' @ [CHR 0x0A]"

datatype fit_strategy = Recent | Truncate

datatype fit_segment = FitField string | FitEach

record fit_rule =
  rule_path :: string
  rule_segments :: "fit_segment list"
  rule_strategy :: fit_strategy

record fit_omission =
  om_path :: string
  om_strategy :: fit_strategy
  om_original :: nat
  om_retained :: nat

type_synonym fit_report = "fit_omission list"

datatype preparation_failure_code =
    ConditionFalse | InputUnavailable | InvalidInput | InvalidRequest | NoFit
  | PreparationResourceLimit | InvalidFit | ProviderUnavailable | IncompatibleProfile

datatype no_fit_reason = NoRules | NoMatchingTargets | TargetsAtMinimum | ReductionsExhausted

datatype preparation_budget_kind =
    InputBytes | InputNodes | InputDepth | FitRules | PathDepth | PathBytes | ExpandedTargets
  | TraversalNodes | Turns | WorkBytes | RequestBytes | EstimatedTokens | ResidentBytes | Criteria

record preparation_budget =
  pb_kind :: preparation_budget_kind
  pb_observed :: nat
  pb_maximum :: nat

record failure_context =
  fc_decision :: "string option"
  fc_field :: "string option"
  fc_input_path :: "string option"
  fc_no_fit_reason :: "no_fit_reason option"
  fc_budget :: "preparation_budget option"

record preparation_failure =
  pf_code :: preparation_failure_code
  pf_detail :: string
  pf_report :: "fit_report option"
  pf_context :: failure_context

datatype fit_validation_error =
    OverBudget preparation_budget
  | FitResourceLimit preparation_budget
  | FitUnavailable string
  | FitInvalidRequest string failure_context

datatype fit_failure = FitFailed preparation_failure | FitPanic

definition no_context :: failure_context where
  "no_context = \<lparr>fc_decision = None, fc_field = None, fc_input_path = None, fc_no_fit_reason = None,
     fc_budget = None\<rparr>"

text \<open>The durable local start.\<close>

record local_preparation =
  lp_version :: nat
  lp_started_at :: nat
  lp_budget :: evaluation_budget

definition local_new :: "nat \<Rightarrow> local_preparation" where
  "local_new started_at = \<lparr>lp_version = 1, lp_started_at = started_at, lp_budget = default_budget\<rparr>"

definition incompatible_local :: "string \<Rightarrow> preparation_failure" where
  "incompatible_local detail =
     \<lparr>pf_code = IncompatibleProfile, pf_detail = detail, pf_report = None, pf_context = no_context\<rparr>"

definition validate_local :: "local_preparation \<Rightarrow> (preparation_failure, unit) res" where
  "validate_local p =
     (if lp_version p \<noteq> 1
      then Inl (incompatible_local ''The saved local preparation version is unsupported.'')
      else res_map_err (\<lambda>e. incompatible_local (error_message e)) (validate_for_resume (lp_budget p)))"

lemma validate_local_new: "validate_local (local_new t) = Inr ()"
  by (simp add: validate_local_def local_new_def validate_for_resume_def check_active_def default_budget_def
      budget_new_def new_with_materialization_limit_def)

section \<open>Limits\<close>

fun budget_field :: "preparation_budget_kind \<Rightarrow> string option" where
  "budget_field InputBytes = Some ''input''"
| "budget_field InputNodes = Some ''input''"
| "budget_field InputDepth = Some ''input''"
| "budget_field FitRules = Some ''fit''"
| "budget_field PathDepth = Some ''fit''"
| "budget_field PathBytes = Some ''fit''"
| "budget_field ExpandedTargets = Some ''fit''"
| "budget_field TraversalNodes = Some ''fit''"
| "budget_field Turns = Some ''fit''"
| "budget_field _ = None"

definition resource_limit :: "preparation_budget \<Rightarrow> preparation_failure" where
  "resource_limit b =
     \<lparr>pf_code = PreparationResourceLimit,
      pf_detail = ''Input preparation reached a local resource limit. Select less input or fewer fitting targets. The model request was not sent.'',
      pf_report = None,
      pf_context = no_context\<lparr>fc_field := budget_field (pb_kind b), fc_budget := Some b\<rparr>\<rparr>"

definition check_count ::
  "preparation_budget_kind \<Rightarrow> nat \<Rightarrow> nat \<Rightarrow> (preparation_failure, unit) res" where
  "check_count what observed maximum =
     (if maximum < observed
      then Inl (resource_limit \<lparr>pb_kind = what, pb_observed = min observed u64_max, pb_maximum = min maximum u64_max\<rparr>)
      else Inr ())"

text \<open>The work budget is the number of bytes consumed.\<close>

definition charge_work :: "nat \<Rightarrow> (nat, preparation_failure, unit) ev" where
  "charge_work bytes consumed =
     (let observed = u64_saturating_add consumed bytes in
      (if MAX_FITTING_WORK < observed
       then Inl (resource_limit \<lparr>pb_kind = WorkBytes, pb_observed = observed, pb_maximum = MAX_FITTING_WORK\<rparr>)
       else Inr (), observed))"

definition measure_preparation_bytes ::
  "'n writer \<Rightarrow> 'n serde_value \<Rightarrow> nat \<Rightarrow> preparation_budget_kind \<Rightarrow> (preparation_failure, nat) res" where
  "measure_preparation_bytes W v maximum what =
     (let (observed, failed) = count_chunks maximum 0 (fst (W v)) in
      if failed \<or> snd (W v) \<noteq> None
      then
        if maximum < observed
        then Inl (resource_limit \<lparr>pb_kind = what, pb_observed = observed, pb_maximum = maximum\<rparr>)
        else Inl \<lparr>pf_code = InvalidInput, pf_detail = ''The decision input cannot be serialized.'',
               pf_report = None, pf_context = no_context\<rparr>
      else Inr observed)"

definition measure_work :: "'n writer \<Rightarrow> 'n serde_value \<Rightarrow> (nat, preparation_failure, nat) ev" where
  "measure_work W v =
     ev_bind (charge_work 0) (\<lambda>_ consumed.
       (case measure_preparation_bytes W v (MAX_FITTING_WORK - consumed) WorkBytes of
          Inl e \<Rightarrow>
            (case fc_budget (pf_context e) of
               None \<Rightarrow> (Inl e, consumed)
             | Some b \<Rightarrow>
                 (let observed = u64_saturating_add consumed (pb_observed b);
                      b = b\<lparr>pb_observed := observed, pb_maximum := MAX_FITTING_WORK\<rparr>
                  in (Inl (e\<lparr>pf_context := (pf_context e)\<lparr>fc_budget := Some b\<rparr>\<rparr>), observed)))
        | Inr bytes \<Rightarrow> ev_bind (charge_work bytes) (\<lambda>_. ev_return bytes) consumed))"

text \<open>What \<open>serde_json::Value\<close> hands to a serialiser.\<close>

fun value_serde :: "'n json \<Rightarrow> 'n serde_value" where
  "value_serde JNull = SvUnit"
| "value_serde (JBool b) = SvBool b"
| "value_serde (JNumber n) = SvInteger n"
| "value_serde (JString s) = SvStr s"
| "value_serde (JArray items) = SvSeq (map value_serde items)"
| "value_serde (JObject obj) = SvMap (map (\<lambda>(k, v). (k, value_serde v)) obj)"

text \<open>The state of \<open>admit_value\<close>: the values and the text bytes seen.\<close>

type_synonym 'a admitting = "(nat \<times> nat, preparation_failure, 'a) ev"

definition add_text_bytes :: "nat \<Rightarrow> unit admitting" where
  "add_text_bytes bytes st =
     (let total = u64_saturating_add (snd st) (min bytes u64_max) in
      (if MAX_FIT_INPUT_BYTES < total
       then Inl (resource_limit \<lparr>pb_kind = InputBytes, pb_observed = total, pb_maximum = MAX_FIT_INPUT_BYTES\<rparr>)
       else Inr (), (fst st, total)))"

definition admit_node :: "nat \<Rightarrow> unit admitting" where
  "admit_node depth st =
     (case check_count InputDepth depth MAX_FIT_INPUT_DEPTH of
        Inl e \<Rightarrow> (Inl e, st)
      | Inr _ \<Rightarrow> (check_count InputNodes (fst st + 1) MAX_FIT_INPUT_NODES, (fst st + 1, snd st)))"

fun admit_value :: "'n json \<Rightarrow> nat \<Rightarrow> unit admitting" where
  "admit_value (JString s) depth = ev_bind (admit_node depth) (\<lambda>_. add_text_bytes (length s))"
| "admit_value (JObject obj) depth =
     ev_bind (admit_node depth) (\<lambda>_.
       ev_fold (\<lambda>(key, v) _. ev_bind (add_text_bytes (length key)) (\<lambda>_. admit_value v (depth + 1))) obj ())"
| "admit_value (JArray items) depth =
     ev_bind (admit_node depth) (\<lambda>_. ev_fold (\<lambda>v _. admit_value v (depth + 1)) items ())"
| "admit_value _ depth = admit_node depth"

definition admit_input :: "'n writer \<Rightarrow> 'n json \<Rightarrow> (preparation_failure, unit) res" where
  "admit_input W input =
     res_bind (fst (admit_value input 0 (0, 0))) (\<lambda>_.
     res_bind (measure_preparation_bytes W (value_serde input) MAX_FIT_INPUT_BYTES InputBytes) (\<lambda>_. Inr ()))"

section \<open>Paths\<close>

definition segment_start :: "char \<Rightarrow> bool" where
  "segment_start c \<longleftrightarrow> is_ascii_alphabetic c \<or> c = CHR ''_''"

definition segment_char :: "char \<Rightarrow> bool" where
  "segment_char c \<longleftrightarrow> is_ascii_alphanumeric c \<or> c = CHR ''_''"

text \<open>\<open>while path[cursor..].starts_with("[*]")\<close>.\<close>

fun each_segments :: "string \<Rightarrow> nat \<times> string" where
  "each_segments (a # b # c # s) =
     (if [a, b, c] = ''[*]'' then (case each_segments s of (n, rest) \<Rightarrow> (n + 1, rest)) else (0, a # b # c # s))"
| "each_segments s = (0, s)"

lemma each_segments_length: "each_segments s = (n, rest) \<Longrightarrow> length rest \<le> length s"
  by (induction s arbitrary: n rest rule: each_segments.induct) (auto split: if_splits prod.splits)

function fit_path_loop :: "string \<Rightarrow> fit_segment list \<Rightarrow> fit_segment list option" where
  "fit_path_loop [] segments = None"
| "fit_path_loop (c # s) segments =
     (if \<not> segment_start c then None
      else
        (let field = c # takeWhile segment_char s;
             rest = dropWhile segment_char s
         in if segments = [] \<and> (\<not> is_ascii_lowercase c \<or> list_ex is_ascii_uppercase field) then None
            else
              (case each_segments rest of (n, rest) \<Rightarrow>
                 (let segments = segments @ FitField field # replicate n FitEach in
                  case rest of
                    [] \<Rightarrow> Some segments
                  | d # rest \<Rightarrow> if d \<noteq> CHR ''.'' then None else fit_path_loop rest segments))))"
  by pat_completeness auto
termination
proof (relation "measure (\<lambda>(s, _). length s)")
  fix c :: char and s :: string and segments rest n rest' rest'' d x y z
  assume "rest = dropWhile segment_char s" "(n, rest') = each_segments rest" "rest' = d # rest''"
  then have "length (d # rest'') \<le> length rest" "length rest \<le> length s"
    using each_segments_length [of rest n rest'] by (auto simp: length_dropWhile_le)
  then show "((rest'', x), (c # s, segments)) \<in> measure (\<lambda>(s, _). length s)" by simp
qed auto

definition parse_fit_path :: "string \<Rightarrow> fit_segment list option" where
  "parse_fit_path path = (if MAX_FIT_PATH_BYTES < length path then None else fit_path_loop path [])"

definition paths_overlap :: "fit_segment list \<Rightarrow> fit_segment list \<Rightarrow> bool" where
  "paths_overlap left right \<longleftrightarrow> list_all (\<lambda>(a, b). a = b) (zip left right)"

section \<open>Expansion\<close>

datatype pointer_step = PField string | PIndex nat

record fit_target =
  tg_pointer :: "pointer_step list"
  tg_path :: string
  tg_strategy :: fit_strategy
  tg_original_count :: nat
  tg_retained_count :: nat
  tg_original_text :: "string option"
  tg_exhausted :: bool

record expansion =
  ex_targets :: "fit_target list"
  ex_visited :: nat
  ex_matched :: nat

definition invalid_fit :: "string \<Rightarrow> string \<Rightarrow> preparation_failure" where
  "invalid_fit detail path =
     \<lparr>pf_code = InvalidFit, pf_detail = detail, pf_report = None,
      pf_context = no_context\<lparr>fc_field := Some ''fit'', fc_input_path := Some path\<rparr>\<rparr>"

type_synonym 'a expanding = "(expansion, preparation_failure, 'a) ev"

definition count_visit :: "unit expanding" where
  "count_visit ex =
     (check_count TraversalNodes (ex_visited ex + 1) MAX_FIT_TRAVERSAL_NODES, ex\<lparr>ex_visited := ex_visited ex + 1\<rparr>)"

definition count_match :: "unit expanding" where
  "count_match ex =
     (check_count ExpandedTargets (ex_matched ex + 1) MAX_FIT_TARGETS, ex\<lparr>ex_matched := ex_matched ex + 1\<rparr>)"

fun target_count :: "fit_strategy \<Rightarrow> 'n json \<Rightarrow> nat option" where
  "target_count Recent (JArray items) = Some (length items)"
| "target_count Truncate (JString text) = Some (length text)"
| "target_count _ _ = None"

fun minimum_count :: "fit_strategy \<Rightarrow> nat" where
  "minimum_count Recent = 1"
| "minimum_count Truncate = MINIMUM_TEXT_BYTES"

definition add_target :: "'n json \<Rightarrow> pointer_step list \<Rightarrow> string \<Rightarrow> fit_strategy \<Rightarrow> unit expanding" where
  "add_target v pointer path strategy =
     (case target_count strategy v of
        None \<Rightarrow> ev_fail (invalid_fit (''Fit target `'' @ path @ ''` has an incompatible value type.'') path)
      | Some n \<Rightarrow>
          ev_bind count_match (\<lambda>_ ex.
            if n \<le> minimum_count strategy then (Inr (), ex)
            else (Inr (), ex\<lparr>ex_targets := ex_targets ex @
              [\<lparr>tg_pointer = pointer, tg_path = path, tg_strategy = strategy, tg_original_count = n,
                tg_retained_count = n, tg_original_text = None, tg_exhausted = False\<rparr>]\<rparr>)))"

fun expand ::
  "fit_segment list \<Rightarrow> 'n json \<Rightarrow> pointer_step list \<Rightarrow> string \<Rightarrow> fit_strategy \<Rightarrow> unit expanding" where
  "expand [] v pointer path strategy = ev_bind count_visit (\<lambda>_. add_target v pointer path strategy)"
| "expand (segment # rest) v pointer path strategy =
     ev_bind count_visit (\<lambda>_.
       (case (segment, v) of
          (FitField field, JObject obj) \<Rightarrow>
            (case bt_get obj field of
               None \<Rightarrow> ev_return ()
             | Some w \<Rightarrow> expand rest w (pointer @ [PField field])
                 (if path = [] then field else path @ ''.'' @ field) strategy)
        | (FitEach, JArray items) \<Rightarrow>
            ev_fold (\<lambda>(index, w) _. expand rest w (pointer @ [PIndex index])
                (path @ ''['' @ show_nat index @ '']'') strategy) (List.enumerate 0 items) ()
        | _ \<Rightarrow> ev_fail (invalid_fit (''Fit path `'' @ path @ ''` traverses an incompatible value type.'') path)))"

definition rule_path_bytes :: "fit_rule \<Rightarrow> nat" where
  "rule_path_bytes rule =
     fold (\<lambda>n total. usize_saturating_add total n)
       (map (\<lambda>s. case s of FitField field \<Rightarrow> usize_saturating_add (length field) 1 | FitEach \<Rightarrow> 3)
         (rule_segments rule)) 0 - 1"

definition default_input_path :: "string \<Rightarrow> preparation_failure \<Rightarrow> preparation_failure" where
  "default_input_path path e =
     e\<lparr>pf_context := (pf_context e)\<lparr>fc_input_path :=
        (case fc_input_path (pf_context e) of None \<Rightarrow> Some path | Some p \<Rightarrow> Some p)\<rparr>\<rparr>"

text \<open>The loop over the rules; \<open>previous\<close> are the rules before the current one.\<close>

fun expand_rules :: "'n json \<Rightarrow> fit_rule list \<Rightarrow> fit_rule list \<Rightarrow> unit expanding" where
  "expand_rules input previous [] = ev_return ()"
| "expand_rules input previous (rule # rules) = (\<lambda>ex.
     case res_bind (check_count PathDepth (length (rule_segments rule)) MAX_FIT_PATH_SEGMENTS) (\<lambda>_.
            check_count PathBytes (rule_path_bytes rule) MAX_FIT_PATH_BYTES) of
       Inl e \<Rightarrow> (Inl e, ex)
     | Inr _ \<Rightarrow>
         if list_ex (\<lambda>p. paths_overlap (rule_segments p) (rule_segments rule)) previous
         then (Inl (invalid_fit ''Fit targets must not overlap.'' (rule_path rule)), ex)
         else
           (case expand (rule_segments rule) input [] [] (rule_strategy rule) ex of
              (Inl e, ex) \<Rightarrow> (Inl (default_input_path (rule_path rule) e), ex)
            | (Inr _, ex) \<Rightarrow> expand_rules input (previous @ [rule]) rules ex))"

section \<open>Reduction\<close>

fun pointer_get :: "'n json \<Rightarrow> pointer_step list \<Rightarrow> 'n json option" where
  "pointer_get v [] = Some v"
| "pointer_get (JObject obj) (PField f # ptr) =
     (case bt_get obj f of None \<Rightarrow> None | Some w \<Rightarrow> pointer_get w ptr)"
| "pointer_get (JArray items) (PIndex i # ptr) =
     (if i < length items then pointer_get (items ! i) ptr else None)"
| "pointer_get _ _ = None"

text \<open>Writing through the reference that \<open>pointer_mut\<close> returns.\<close>

fun pointer_set :: "'n json \<Rightarrow> pointer_step list \<Rightarrow> 'n json \<Rightarrow> 'n json" where
  "pointer_set v [] new = new"
| "pointer_set (JObject obj) (PField f # ptr) new =
     JObject (bt_adjust f (\<lambda>w. pointer_set w ptr new) obj)"
| "pointer_set (JArray items) (PIndex i # ptr) new =
     (if i < length items then JArray (items[i := pointer_set (items ! i) ptr new]) else JArray items)"
| "pointer_set v _ new = v"

text \<open>The loops that move a cut to a character boundary; both ends of a text are boundaries.\<close>

function boundary_up :: "string \<Rightarrow> nat \<Rightarrow> nat" where
  "boundary_up s i = (if is_char_boundary s i \<or> length s \<le> i then i else boundary_up s (i + 1))"
  by pat_completeness auto
termination
  by (relation "measure (\<lambda>(s, i). length s - i)") auto

fun boundary_down :: "string \<Rightarrow> nat \<Rightarrow> nat" where
  "boundary_down s 0 = 0"
| "boundary_down s (Suc i) = (if is_char_boundary s (Suc i) then Suc i else boundary_down s i)"

declare boundary_up.simps [simp del]

type_synonym 'n reduction = "bool \<times> 'n json \<times> fit_target"

definition truncated_text :: "string \<Rightarrow> nat \<Rightarrow> nat \<Rightarrow> string" where
  "truncated_text original head tail = take head original @ OMISSION_MARKER @ drop tail original"

definition reduce_text :: "'n json \<Rightarrow> fit_target \<Rightarrow> string \<Rightarrow> 'n reduction option" where
  "reduce_text input target original =
     (let keep = max (tg_retained_count target - TRUNCATE_CHUNK_BYTES) MINIMUM_TEXT_BYTES;
          target = target\<lparr>tg_original_text := Some original\<rparr>;
          head = boundary_up original ((keep + 1) div 2);
          tail = boundary_down original (length original - keep div 2);
          retained = head + length original - tail
      in if tg_retained_count target \<le> retained then Some (False, input, target\<lparr>tg_exhausted := True\<rparr>)
         else if tg_retained_count target = tg_original_count target \<and> tail < head then None
         else if tg_retained_count target = tg_original_count target
           \<and> length (quote_json (take (tail - head) (drop head original))) \<le> length (quote_json OMISSION_MARKER)
         then Some (False, input, target\<lparr>tg_exhausted := True\<rparr>)
         else Some (True, pointer_set input (tg_pointer target) (JString (truncated_text original head tail)),
                target\<lparr>tg_retained_count := retained, tg_exhausted := (keep = MINIMUM_TEXT_BYTES)\<rparr>))"

definition reduce :: "'n json \<Rightarrow> fit_target \<Rightarrow> 'n reduction option" where
  "reduce input target =
     (case pointer_get input (tg_pointer target) of
        None \<Rightarrow> None
      | Some v \<Rightarrow>
          (case tg_strategy target of
             Recent \<Rightarrow>
               (case json_as_array v of
                  None \<Rightarrow> None
                | Some items \<Rightarrow>
                    if length items \<le> 1 then Some (False, input, target\<lparr>tg_exhausted := True\<rparr>)
                    else Some (True, pointer_set input (tg_pointer target) (JArray (tl items)),
                           target\<lparr>tg_retained_count := tg_retained_count target - 1,
                             tg_exhausted := (length (tl items) = 1)\<rparr>))
           | Truncate \<Rightarrow>
               if tg_retained_count target \<le> MINIMUM_TEXT_BYTES
               then Some (False, input, target\<lparr>tg_exhausted := True\<rparr>)
               else
                 (case (case tg_original_text target of Some t \<Rightarrow> Some t | None \<Rightarrow> json_as_str v) of
                    None \<Rightarrow> None
                  | Some original \<Rightarrow> reduce_text input target original)))"

section \<open>Fitting\<close>

type_synonym ('v, 'a) fitting = "(nat \<times> 'v, fit_failure, 'a) ev"
type_synonym ('n, 'v) fit_validator =
  "'n json \<Rightarrow> fit_report \<Rightarrow> (nat \<times> 'v, fit_validation_error, unit) ev"

definition on_work :: "(nat, preparation_failure, 'a) ev \<Rightarrow> ('v, 'a) fitting" where
  "on_work m st = (case m (fst st) of (r, consumed) \<Rightarrow> (map_sum FitFailed id r, (consumed, snd st)))"

definition fit_fail :: "preparation_failure \<Rightarrow> ('v, 'a) fitting" where
  "fit_fail e = ev_fail (FitFailed e)"

definition validate_request ::
  "('n, 'v) fit_validator \<Rightarrow> 'n json \<Rightarrow> fit_report \<Rightarrow> preparation_budget option
     \<Rightarrow> ('v, bool \<times> preparation_budget option) fitting" where
  "validate_request validate input report budget st =
     (case validate input report st of
        (Inr _, st) \<Rightarrow> (Inr (True, budget), st)
      | (Inl (OverBudget estimate), st) \<Rightarrow> (Inr (False, Some estimate), st)
      | (Inl (FitResourceLimit b), st) \<Rightarrow> (Inl (FitFailed ((resource_limit b)\<lparr>pf_report := Some report\<rparr>)), st)
      | (Inl (FitUnavailable detail), st) \<Rightarrow>
          (Inl (FitFailed \<lparr>pf_code = ProviderUnavailable, pf_detail = detail, pf_report = Some report,
             pf_context = no_context\<rparr>), st)
      | (Inl (FitInvalidRequest detail c), st) \<Rightarrow>
          (Inl (FitFailed \<lparr>pf_code = InvalidRequest, pf_detail = detail, pf_report = Some report,
             pf_context = c\<rparr>), st))"

fun record_omission :: "fit_omission \<Rightarrow> fit_report \<Rightarrow> fit_report" where
  "record_omission om [] = [om]"
| "record_omission om (saved # report) =
     (if om_path saved = om_path om then om # report else saved # record_omission om report)"

record 'n fit_run =
  run_input :: "'n json"
  run_report :: fit_report
  run_budget :: "preparation_budget option"
  run_turns :: nat

datatype 'n turn_outcome =
    TurnFits "'n json" fit_report
  | TurnSkipped fit_target "'n fit_run"
  | TurnReduced fit_target "'n fit_run"

datatype 'n pass_outcome = PassFits "'n json" fit_report | PassEnd "fit_target list" "'n fit_run" bool

text \<open>One turn of a target.\<close>

definition fit_turn ::
  "'n writer \<Rightarrow> ('n, 'v) fit_validator \<Rightarrow> fit_target \<Rightarrow> 'n fit_run \<Rightarrow> ('v, 'n turn_outcome) fitting" where
  "fit_turn W validate target r =
     (let r = r\<lparr>run_turns := run_turns r + 1\<rparr> in
      case check_count Turns (run_turns r) MAX_FIT_TURNS of
        Inl e \<Rightarrow> fit_fail (e\<lparr>pf_context := (pf_context e)\<lparr>fc_input_path := Some (tg_path target)\<rparr>,
                    pf_report := Some (run_report r)\<rparr>)
      | Inr _ \<Rightarrow>
          (case reduce (run_input r) target of
             None \<Rightarrow> ev_fail FitPanic
           | Some (reduced, input, target) \<Rightarrow>
               if \<not> reduced then ev_return (TurnSkipped target r)
               else
                 ev_bind (on_work (measure_work W (value_serde input))) (\<lambda>_.
                   (let report = record_omission \<lparr>om_path = tg_path target, om_strategy = tg_strategy target,
                          om_original = tg_original_count target, om_retained = tg_retained_count target\<rparr>
                          (run_report r)
                    in ev_bind (validate_request validate input report (run_budget r)) (\<lambda>(fits, budget).
                         if fits then ev_return (TurnFits input report)
                         else ev_return (TurnReduced target
                                (r\<lparr>run_input := input, run_report := report, run_budget := budget\<rparr>)))))))"

text \<open>One round: one turn for every target that is not exhausted.\<close>

fun fit_pass ::
  "'n writer \<Rightarrow> ('n, 'v) fit_validator \<Rightarrow> fit_target list \<Rightarrow> fit_target list \<Rightarrow> bool \<Rightarrow> 'n fit_run
     \<Rightarrow> ('v, 'n pass_outcome) fitting" where
  "fit_pass W validate before [] changed r = ev_return (PassEnd before r changed)"
| "fit_pass W validate before (target # rest) changed r =
     (if tg_exhausted target then fit_pass W validate (before @ [target]) rest changed r
      else
        ev_bind (fit_turn W validate target r) (\<lambda>out.
          (case out of
             TurnFits input report \<Rightarrow> ev_return (PassFits input report)
           | TurnSkipped target r \<Rightarrow> fit_pass W validate (before @ [target]) rest changed r
           | TurnReduced target r \<Rightarrow> fit_pass W validate (before @ [target]) rest True r)))"

definition no_fit :: "fit_rule list \<Rightarrow> nat \<Rightarrow> 'n fit_run \<Rightarrow> preparation_failure" where
  "no_fit rules matched r =
     (let (reason, detail) =
        (if rules = []
         then (NoRules, ''The complete request exceeds the local model budget. No input fitting rules permit reductions.'')
         else if matched = 0
         then (NoMatchingTargets, ''The complete request exceeds the local model budget. The selected fit paths do not match present values.'')
         else if run_report r = []
         then (TargetsAtMinimum, ''The complete request exceeds the local model budget. Selected targets are at their retention limits or cannot become smaller after marking omissions.'')
         else (ReductionsExhausted, ''The complete request still exceeds the local model budget after all permitted reductions.''))
      in \<lparr>pf_code = NoFit, pf_detail = detail, pf_report = Some (run_report r),
          pf_context = no_context\<lparr>fc_field := Some (if rules = [] then ''input'' else ''fit''),
            fc_input_path := (if length rules = 1 then Some (rule_path (hd rules)) else None),
            fc_no_fit_reason := Some reason, fc_budget := run_budget r\<rparr>\<rparr>)"

lemma check_count_iff: "check_count what n m = Inr () \<longleftrightarrow> n \<le> m"
  by (simp add: check_count_def)

lemma fit_turn_cases:
  assumes "fit_turn W validate target r st = (Inr out, st')"
  shows "run_turns r < MAX_FIT_TURNS"
    and "out = TurnSkipped target' r' \<Longrightarrow> r' = r\<lparr>run_turns := run_turns r + 1\<rparr>
      \<and> (\<exists>i. reduce (run_input r) target = Some (False, i, target'))"
    and "out = TurnReduced target' r' \<Longrightarrow> run_turns r' = run_turns r + 1
      \<and> reduce (run_input r) target = Some (True, run_input r', target')"
    and "out = TurnFits input report \<Longrightarrow> \<exists>target' st1. reduce (run_input r) target = Some (True, input, target')
      \<and> validate input report st1 = (Inr (), st')"
proof -
  obtain reduced i t where turns: "run_turns r + 1 \<le> MAX_FIT_TURNS"
    and red: "reduce (run_input r) target = Some (reduced, i, t)"
    using assms by (cases "reduce (run_input r) target")
      (auto simp: fit_turn_def Let_def fit_fail_def check_count_def split: if_splits)
  show "run_turns r < MAX_FIT_TURNS" using turns by simp
  let ?r = "r\<lparr>run_turns := run_turns r + 1\<rparr>"
  let ?report = "record_omission \<lparr>om_path = tg_path t, om_strategy = tg_strategy t,
      om_original = tg_original_count t, om_retained = tg_retained_count t\<rparr> (run_report r)"
  have out: "out = TurnSkipped t ?r \<and> \<not> reduced
    \<or> reduced \<and> (\<exists>budget. out = TurnReduced t (?r\<lparr>run_input := i, run_report := ?report, run_budget := budget\<rparr>))
    \<or> reduced \<and> out = TurnFits i ?report \<and> (\<exists>st1. validate i ?report st1 = (Inr (), st'))"
    using assms turns red
    by (auto simp: fit_turn_def Let_def check_count_def ev_bind_def validate_request_def
        split: if_splits prod.splits sum.splits fit_validation_error.splits)
  show "out = TurnSkipped target' r' \<Longrightarrow> r' = r\<lparr>run_turns := run_turns r + 1\<rparr>
      \<and> (\<exists>i. reduce (run_input r) target = Some (False, i, target'))"
    using out red by auto
  show "out = TurnReduced target' r' \<Longrightarrow> run_turns r' = run_turns r + 1
      \<and> reduce (run_input r) target = Some (True, run_input r', target')"
    using out red by auto
  show "out = TurnFits input report \<Longrightarrow> \<exists>target' st1. reduce (run_input r) target = Some (True, input, target')
      \<and> validate input report st1 = (Inr (), st')"
    using out red by auto
qed

lemma fit_pass_Cons:
  assumes "fit_pass W validate before (target # rest) changed r st = (Inr out, st')" "\<not> tg_exhausted target"
  obtains (fits) input report where "fit_turn W validate target r st = (Inr (TurnFits input report), st')"
      "out = PassFits input report"
  | (skipped) target' r' st1 where "fit_turn W validate target r st = (Inr (TurnSkipped target' r'), st1)"
      "fit_pass W validate (before @ [target']) rest changed r' st1 = (Inr out, st')"
  | (reduced) target' r' st1 where "fit_turn W validate target r st = (Inr (TurnReduced target' r'), st1)"
      "fit_pass W validate (before @ [target']) rest True r' st1 = (Inr out, st')"
proof -
  obtain x st1 where turn: "fit_turn W validate target r st = (x, st1)" by (rule prod.exhaust)
  show ?thesis
  proof (cases x)
    case (Inr t)
    then show ?thesis
      using assms turn fits skipped reduced by (cases t) (auto simp: ev_bind_def)
  qed (use assms turn in \<open>auto simp: ev_bind_def\<close>)
qed

lemma fit_pass_turns:
  assumes "fit_pass W validate before targets changed r st = (Inr (PassEnd after r' changed'), st')"
  shows "run_turns r \<le> run_turns r' \<and> (run_turns r < run_turns r' \<longrightarrow> run_turns r' \<le> MAX_FIT_TURNS)
    \<and> (changed' \<longrightarrow> changed \<or> run_turns r < run_turns r')"
  using assms
proof (induction targets arbitrary: before changed r st)
  case (Cons target rest)
  show ?case
  proof (cases "tg_exhausted target")
    case True
    with Cons.IH [of "before @ [target]" changed r st] Cons.prems show ?thesis by auto
  next
    case False
    from Cons.prems False show ?thesis
    proof (cases rule: fit_pass_Cons)
      case (skipped target' r2 st1)
      from fit_turn_cases(1,2) [OF skipped(1)] Cons.IH [OF skipped(2)] show ?thesis by fastforce
    next
      case (reduced target' r2 st1)
      from fit_turn_cases(1,3) [OF reduced(1)] Cons.IH [OF reduced(2)] show ?thesis by fastforce
    qed simp
  qed
qed simp

function fit_rounds ::
  "'n writer \<Rightarrow> ('n, 'v) fit_validator \<Rightarrow> fit_rule list \<Rightarrow> nat \<Rightarrow> fit_target list \<Rightarrow> 'n fit_run
     \<Rightarrow> ('v, 'n json \<times> fit_report) fitting" where
  "fit_rounds W validate rules matched targets r st =
     (case fit_pass W validate [] targets False r st of
        (Inl e, st) \<Rightarrow> (Inl e, st)
      | (Inr (PassFits input report), st) \<Rightarrow> (Inr (input, report), st)
      | (Inr (PassEnd targets r changed), st) \<Rightarrow>
          if \<not> changed then fit_fail (no_fit rules matched r) st
          else fit_rounds W validate rules matched targets r st)"
  by pat_completeness auto
termination
  by (relation "measure (\<lambda>(W, validate, rules, matched, targets, r, st). Suc MAX_FIT_TURNS - run_turns r)")
    (auto dest!: fit_pass_turns [OF sym])

declare fit_rounds.simps [simp del]

definition fit_input_with_work_budget ::
  "'n writer \<Rightarrow> ('n, 'v) fit_validator \<Rightarrow> 'n json \<Rightarrow> fit_rule list \<Rightarrow> ('v, 'n json \<times> fit_report) fitting" where
  "fit_input_with_work_budget W validate input rules st =
     (case res_map_err FitFailed (admit_input W input) of
        Inl e \<Rightarrow> (Inl e, st)
      | Inr _ \<Rightarrow>
          ev_bind (on_work (measure_work W (value_serde input))) (\<lambda>_ st.
            (case check_count FitRules (length rules) MAX_FIT_RULES of
               Inl e \<Rightarrow> fit_fail e st
             | Inr _ \<Rightarrow>
                 (case expand_rules input [] rules \<lparr>ex_targets = [], ex_visited = 0, ex_matched = 0\<rparr> of
                    (Inl e, _) \<Rightarrow> fit_fail e st
                  | (Inr _, ex) \<Rightarrow>
                      ev_bind (validate_request validate input [] None) (\<lambda>(fits, budget).
                        if fits then ev_return (input, [])
                        else fit_rounds W validate rules (ex_matched ex) (ex_targets ex)
                               \<lparr>run_input = input, run_report = [], run_budget = budget, run_turns = 0\<rparr>) st))) st)"

definition fit_input ::
  "'n writer \<Rightarrow> ('n json \<Rightarrow> fit_report \<Rightarrow> ('v, fit_validation_error, unit) ev) \<Rightarrow> 'n json \<Rightarrow> fit_rule list
     \<Rightarrow> 'v \<Rightarrow> (fit_failure, 'n json \<times> fit_report) res" where
  "fit_input W validate input rules v =
     fst (fit_input_with_work_budget W
       (\<lambda>input report (consumed, v). case validate input report v of (x, v) \<Rightarrow> (x, (consumed, v)))
       input rules (0, v))"

end
