(* ===== verification/Fit_Laws.thy ===== *)
theory Fit_Laws
  imports Fit
begin

text \<open>
  What fitting does: targets never overlap, so that a reduction leaves every other target in
  place and no \<open>expect\<close> fails; what is returned passed the validator, and only values that a
  rule selects have changed.
\<close>

section \<open>Pointers\<close>

definition overlap :: "pointer_step list \<Rightarrow> pointer_step list \<Rightarrow> bool" where
  "overlap p q \<longleftrightarrow> list_all (\<lambda>(a, b). a = b) (zip p q)"

lemma overlap_simps [simp]:
  "overlap [] q" "overlap p []"
  "overlap (a # p) (b # q) \<longleftrightarrow> a = b \<and> overlap p q"
  by (auto simp: overlap_def)

lemma overlap_append [simp]: "overlap (r @ p) (r @ q) \<longleftrightarrow> overlap p q"
  by (induction r) auto

lemma overlap_commute: "overlap p q \<longleftrightarrow> overlap q p"
  by (induction p q rule: list_induct2') auto

lemma pointer_get_set: "pointer_get v p = Some w \<Longrightarrow> pointer_get (pointer_set v p new) p = Some new"
  by (induction v p new rule: pointer_set.induct) (auto simp: bt_get_adjust split: option.splits if_splits)

lemma pointer_get_set_other: "\<not> overlap p q \<Longrightarrow> pointer_get (pointer_set v p new) q = pointer_get v q"
proof (induction v p new arbitrary: q rule: pointer_set.induct)
  case (2 obj f ptr new)
  then show ?case
    by (cases q; cases "hd q") (auto simp: bt_get_adjust split: option.splits)
next
  case (3 items i ptr new)
  then show ?case
    by (cases q; cases "hd q") (auto simp: nth_list_update)
qed (auto split: if_splits)

text \<open>The pointers that a path of a rule can expand to.\<close>

definition matches :: "fit_segment list \<Rightarrow> pointer_step list \<Rightarrow> bool" where
  "matches = list_all2 (\<lambda>s p. case s of FitField f \<Rightarrow> p = PField f | FitEach \<Rightarrow> \<exists>i. p = PIndex i)"

lemma matches_simps [simp]:
  "matches [] p \<longleftrightarrow> p = []"
  "matches (s # ss) p \<longleftrightarrow>
     (\<exists>a q. p = a # q \<and> (case s of FitField f \<Rightarrow> a = PField f | FitEach \<Rightarrow> \<exists>i. a = PIndex i) \<and> matches ss q)"
  by (auto simp: matches_def list_all2_Cons1)

lemma matches_overlap: "matches s p \<Longrightarrow> matches t q \<Longrightarrow> overlap p q \<Longrightarrow> paths_overlap s t"
proof (induction s t arbitrary: p q rule: list_induct2')
  case (4 a s b t)
  then show ?case by (cases a; cases b) (auto simp: paths_overlap_def)
qed (auto simp: paths_overlap_def)

section \<open>Expansion finds separate targets\<close>

definition separate :: "fit_target list \<Rightarrow> bool" where
  "separate ts \<longleftrightarrow> sorted_wrt (\<lambda>a b. \<not> overlap (tg_pointer a) (tg_pointer b)) ts"

text \<open>A target as expansion creates it, at \<open>ptr\<close> within the value \<open>v\<close> that sits at \<open>base\<close>.\<close>

definition new_target :: "fit_strategy \<Rightarrow> fit_segment list \<Rightarrow> 'n json \<Rightarrow> pointer_step list \<Rightarrow> fit_target \<Rightarrow> bool" where
  "new_target strategy segs v base t \<longleftrightarrow>
     (\<exists>ptr w. tg_pointer t = base @ ptr \<and> matches segs ptr \<and> pointer_get v ptr = Some w
        \<and> tg_strategy t = strategy \<and> minimum_count strategy < tg_original_count t \<and> target_count (tg_strategy t) w = Some (tg_original_count t)
        \<and> tg_retained_count t = tg_original_count t \<and> tg_original_text t = None)"

definition adds :: "(fit_target list \<Rightarrow> bool) \<Rightarrow> expansion \<Rightarrow> expansion \<Rightarrow> bool" where
  "adds P ex ex' \<longleftrightarrow> (\<exists>new. ex_targets ex' = ex_targets ex @ new \<and> P new)"

lemma count_targets [simp]:
  "count_visit ex = (Inr u, ex') \<Longrightarrow> ex_targets ex' = ex_targets ex"
  "count_match ex = (Inr u, ex') \<Longrightarrow> ex_targets ex' = ex_targets ex"
  by (auto simp: count_visit_def count_match_def)

lemma add_target_adds:
  assumes "add_target v base path strategy ex = (Inr u, ex')"
  shows "adds (\<lambda>new. separate new \<and> (\<forall>t \<in> set new. new_target strategy [] v base t)) ex ex'"
proof -
  obtain n ex1 where n: "target_count strategy v = Some n" and visit: "count_match ex = (Inr (), ex1)"
    and out: "ex' = (if n \<le> minimum_count strategy then ex1
      else ex1\<lparr>ex_targets := ex_targets ex1 @
              [\<lparr>tg_pointer = base, tg_path = path, tg_strategy = strategy, tg_original_count = n,
                tg_retained_count = n, tg_original_text = None, tg_exhausted = False\<rparr>]\<rparr>)"
    using assms by (auto simp: add_target_def ev_bind_def split: option.splits prod.splits sum.splits if_splits)
  show ?thesis
    using n out visit by (auto simp: adds_def separate_def new_target_def)
qed

lemma adds_items:
  assumes "\<And>i w ex ex'. (i, w) \<in> set ws \<Longrightarrow> f (i, w) () ex = (Inr (), ex')
      \<Longrightarrow> adds (\<lambda>new. separate new \<and> (\<forall>t \<in> set new. new_target strategy segs w (base @ [PIndex i]) t)) ex ex'"
    and "distinct (map fst ws)" and "\<And>i w. (i, w) \<in> set ws \<Longrightarrow> i < length items \<and> items ! i = w"
    and "ev_fold f ws () ex = (Inr (), ex')"
  shows "adds (\<lambda>new. separate new
      \<and> (\<forall>t \<in> set new. new_target strategy (FitEach # segs) (JArray items) base t
           \<and> (\<exists>i ptr. i \<in> fst ` set ws \<and> tg_pointer t = base @ PIndex i # ptr))) ex ex'"
  using assms
proof (induction ws arbitrary: ex)
  case Nil
  then show ?case by (simp add: adds_def separate_def)
next
  case (Cons x ws)
  obtain i w where x: "x = (i, w)" by (cases x)
  obtain ex1 where first: "f (i, w) () ex = (Inr (), ex1)" and rest: "ev_fold f ws () ex1 = (Inr (), ex')"
    using Cons.prems(4) by (auto simp: x ev_bind_def split: prod.splits sum.splits)
  from Cons.prems(1) [OF _ first] x obtain new1 where new1: "ex_targets ex1 = ex_targets ex @ new1"
    "separate new1" "\<forall>t \<in> set new1. new_target strategy segs w (base @ [PIndex i]) t"
    by (auto simp: adds_def)
  have "adds (\<lambda>new. separate new
      \<and> (\<forall>t \<in> set new. new_target strategy (FitEach # segs) (JArray items) base t
           \<and> (\<exists>i ptr. i \<in> fst ` set ws \<and> tg_pointer t = base @ PIndex i # ptr))) ex1 ex'"
  proof (rule Cons.IH [OF _ _ _ rest])
    show "adds (\<lambda>new. separate new \<and> (\<forall>t \<in> set new. new_target strategy segs w (base @ [PIndex i]) t)) e e'"
      if "(i, w) \<in> set ws" "f (i, w) () e = (Inr (), e')" for i w e e'
      using Cons.prems(1) [OF _ that(2)] that(1) by simp
    show "distinct (map fst ws)" using Cons.prems(2) by simp
    show "i < length items \<and> items ! i = w" if "(i, w) \<in> set ws" for i w
      using Cons.prems(3) [of i w] that by simp
  qed
  then obtain new2 where new2: "ex_targets ex' = ex_targets ex1 @ new2" "separate new2"
    "\<forall>t \<in> set new2. new_target strategy (FitEach # segs) (JArray items) base t
           \<and> (\<exists>i ptr. i \<in> fst ` set ws \<and> tg_pointer t = base @ PIndex i # ptr)"
    by (auto simp: adds_def)
  have item: "i < length items" "items ! i = w" using Cons.prems(3) x by auto
  have head: "new_target strategy (FitEach # segs) (JArray items) base t \<and> (\<exists>ptr. tg_pointer t = base @ PIndex i # ptr)"
    if "t \<in> set new1" for t
  proof -
    from new1(3) that obtain ptr v where p: "tg_pointer t = (base @ [PIndex i]) @ ptr" "matches segs ptr"
      "pointer_get w ptr = Some v" "tg_strategy t = strategy \<and> minimum_count strategy < tg_original_count t"
      "target_count (tg_strategy t) v = Some (tg_original_count t)"
      "tg_retained_count t = tg_original_count t" "tg_original_text t = None"
      by (auto simp: new_target_def)
    have "\<exists>q w. tg_pointer t = base @ q \<and> matches (FitEach # segs) q \<and> pointer_get (JArray items) q = Some w
        \<and> tg_strategy t = strategy \<and> minimum_count strategy < tg_original_count t
        \<and> target_count (tg_strategy t) w = Some (tg_original_count t)
        \<and> tg_retained_count t = tg_original_count t \<and> tg_original_text t = None"
      using p item by (intro exI [of _ "PIndex i # ptr"] exI [of _ v]) simp
    then show ?thesis using p(1) by (simp add: new_target_def)
  qed
  have i: "i \<notin> fst ` set ws" using Cons.prems(2) x by simp
  have "\<not> overlap (tg_pointer a) (tg_pointer b)" if "a \<in> set new1" "b \<in> set new2" for a b
  proof -
    note ab = that
    obtain q where q: "tg_pointer a = base @ PIndex i # q" using head [OF ab(1)] by auto
    obtain j p where p: "j \<in> fst ` set ws" "tg_pointer b = base @ PIndex j # p"
      using bspec [OF new2(3) ab(2)] by auto
    then show ?thesis using q i by auto
  qed
  then have "separate (new1 @ new2)" using new1(2) new2(2) by (auto simp: separate_def sorted_wrt_append)
  moreover have "\<forall>t \<in> set (new1 @ new2). new_target strategy (FitEach # segs) (JArray items) base t
           \<and> (\<exists>i ptr. i \<in> fst ` set (x # ws) \<and> tg_pointer t = base @ PIndex i # ptr)"
  proof
    fix t assume "t \<in> set (new1 @ new2)"
    then consider "t \<in> set new1" | "t \<in> set new2" by auto
    then show "new_target strategy (FitEach # segs) (JArray items) base t
           \<and> (\<exists>i ptr. i \<in> fst ` set (x # ws) \<and> tg_pointer t = base @ PIndex i # ptr)"
    proof cases
      case 1
      from head [OF this] obtain ptr where "tg_pointer t = base @ PIndex i # ptr" by auto
      then show ?thesis using head [OF 1] x by (intro conjI exI [of _ i] exI [of _ ptr]) auto
    next
      case 2
      with bspec [OF new2(3)] obtain j ptr where "j \<in> fst ` set ws" "tg_pointer t = base @ PIndex j # ptr"
        by blast
      then show ?thesis using bspec [OF new2(3) 2] by (intro conjI exI [of _ j] exI [of _ ptr]) auto
    qed
  qed
  ultimately show ?case
    unfolding adds_def using new1(1) new2(1) by (intro exI [of _ "new1 @ new2"]) simp
qed

lemma expand_adds:
  assumes "expand segs v base path strategy ex = (Inr (), ex')"
  shows "adds (\<lambda>new. separate new \<and> (\<forall>t \<in> set new. new_target strategy segs v base t)) ex ex'"
  using assms
proof (induction segs arbitrary: v base path ex ex')
  case Nil
  then obtain ex1 where "count_visit ex = (Inr (), ex1)" "add_target v base path strategy ex1 = (Inr (), ex')"
    by (auto simp: ev_bind_def split: prod.splits sum.splits)
  from add_target_adds [OF this(2)] count_targets(1) [OF this(1)] show ?case by (simp add: adds_def)
next
  case (Cons segment rest)
  then obtain ex1 where visit: "count_visit ex = (Inr (), ex1)"
    and run: "(case (segment, v) of
          (FitField field, JObject obj) \<Rightarrow>
            (case bt_get obj field of
               None \<Rightarrow> ev_return ()
             | Some w \<Rightarrow> expand rest w (base @ [PField field])
                 (if path = [] then field else path @ ''.'' @ field) strategy)
        | (FitEach, JArray items) \<Rightarrow>
            ev_fold (\<lambda>(index, w) _. expand rest w (base @ [PIndex index])
                (path @ ''['' @ show_nat index @ '']'') strategy) (List.enumerate 0 items) ()
        | _ \<Rightarrow> ev_fail (invalid_fit (''Fit path `'' @ path @ ''` traverses an incompatible value type.'') path))
        ex1 = (Inr (), ex')"
    by (auto simp: ev_bind_def split: prod.splits sum.splits)
  have start: "ex_targets ex1 = ex_targets ex" using visit by (rule count_targets(1))
  show ?case
  proof (cases segment)
    case (FitField field)
    with run obtain obj where v: "v = JObject obj" by (cases v) auto
    show ?thesis
    proof (cases "bt_get obj field")
      case None
      with run FitField v start show ?thesis by (auto simp: adds_def separate_def)
    next
      case (Some w)
      with run FitField v have "expand rest w (base @ [PField field])
         (if path = [] then field else path @ ''.'' @ field) strategy ex1 = (Inr (), ex')" by simp
      from Cons.IH [OF this] obtain new where "ex_targets ex' = ex_targets ex1 @ new"
        "separate new" and each: "\<forall>t \<in> set new. new_target strategy rest w (base @ [PField field]) t"
        by (auto simp: adds_def)
      moreover have "new_target strategy (segment # rest) v base t" if "t \<in> set new" for t
        using bspec [OF each that] FitField v Some unfolding new_target_def
        by (elim exE conjE) (rule exI, rule exI, intro conjI, auto)
      ultimately show ?thesis unfolding adds_def using start by (intro exI [of _ new]) simp
    qed
  next
    case FitEach
    with run obtain items where v: "v = JArray items" by (cases v) auto
    let ?f = "\<lambda>(index, w) (_::unit). expand rest w (base @ [PIndex index])
                (path @ ''['' @ show_nat index @ '']'') strategy"
    have "adds (\<lambda>new. separate new
      \<and> (\<forall>t \<in> set new. new_target strategy (FitEach # rest) (JArray items) base t
           \<and> (\<exists>i ptr. i \<in> fst ` set (List.enumerate 0 items) \<and> tg_pointer t = base @ PIndex i # ptr))) ex1 ex'"
    proof (rule adds_items)
      show "ev_fold ?f (List.enumerate 0 items) () ex1 = (Inr (), ex')" using run FitEach v by simp
      show "distinct (map fst (List.enumerate 0 items))" by simp
      show "i < length items \<and> items ! i = w" if "(i, w) \<in> set (List.enumerate 0 items)" for i w
        using that by (auto simp: in_set_enumerate_eq)
      show "adds (\<lambda>new. separate new \<and> (\<forall>t \<in> set new. new_target strategy rest w (base @ [PIndex i]) t)) e e'"
        if "(i, w) \<in> set (List.enumerate 0 items)" "?f (i, w) () e = (Inr (), e')" for i w e e'
        using Cons.IH that(2) by simp
    qed
    then show ?thesis using start FitEach v by (auto simp: adds_def)
  qed
qed

text \<open>The targets of all rules.\<close>

definition of_rules :: "fit_rule list \<Rightarrow> 'n json \<Rightarrow> fit_target list \<Rightarrow> bool" where
  "of_rules rules input ts \<longleftrightarrow>
     separate ts \<and> (\<forall>t \<in> set ts. \<exists>rule \<in> set rules. new_target (rule_strategy rule) (rule_segments rule) input [] t)"

lemma of_rules_append:
  assumes "of_rules previous input ts" "separate new" "\<forall>t \<in> set new. new_target (rule_strategy rule) (rule_segments rule) input [] t"
    and "\<not> list_ex (\<lambda>p. paths_overlap (rule_segments p) (rule_segments rule)) previous"
  shows "of_rules (previous @ [rule]) input (ts @ new)"
proof -
  have "\<not> overlap (tg_pointer a) (tg_pointer b)" if "a \<in> set ts" "b \<in> set new" for a b
  proof
    assume o: "overlap (tg_pointer a) (tg_pointer b)"
    have "\<exists>p \<in> set previous. new_target (rule_strategy p) (rule_segments p) input [] a"
      using assms(1) that(1) by (simp add: of_rules_def)
    then obtain p where p: "p \<in> set previous" "matches (rule_segments p) (tg_pointer a)"
      unfolding new_target_def by fastforce
    have "matches (rule_segments rule) (tg_pointer b)"
      using bspec [OF assms(3) that(2)] unfolding new_target_def by fastforce
    from matches_overlap [OF p(2) this o] p(1) assms(4) show False by (auto simp: list_ex_iff)
  qed
  with assms(1-3) show ?thesis
    by (auto simp: of_rules_def separate_def sorted_wrt_append)
qed

lemma expand_rules_targets:
  assumes "expand_rules input previous rules ex = (Inr (), ex')" "of_rules previous input (ex_targets ex)"
  shows "of_rules (previous @ rules) input (ex_targets ex')"
  using assms
proof (induction rules arbitrary: previous ex)
  case (Cons rule rules)
  from Cons.prems(1) obtain ex1 where
    apart: "\<not> list_ex (\<lambda>p. paths_overlap (rule_segments p) (rule_segments rule)) previous"
    and first: "expand (rule_segments rule) input [] [] (rule_strategy rule) ex = (Inr (), ex1)"
    and rest: "expand_rules input (previous @ [rule]) rules ex1 = (Inr (), ex')"
    by (auto split: sum.splits if_splits prod.splits)
  from expand_adds [OF first] obtain new where "ex_targets ex1 = ex_targets ex @ new" "separate new"
    "\<forall>t \<in> set new. new_target (rule_strategy rule) (rule_segments rule) input [] t" by (auto simp: adds_def)
  with of_rules_append [OF Cons.prems(2) _ _ apart] have "of_rules (previous @ [rule]) input (ex_targets ex1)" by simp
  from Cons.IH [OF rest this] show ?case by simp
qed simp

section \<open>What a reduction may do\<close>

text \<open>A cut keeps both ends of a text, at character boundaries.\<close>

definition cut_text :: "string \<Rightarrow> string \<Rightarrow> bool" where
  "cut_text s str \<longleftrightarrow> (\<exists>front rear. str = truncated_text s front rear \<and> front < rear \<and> rear \<le> length s
     \<and> is_char_boundary s front \<and> is_char_boundary s rear \<and> MINIMUM_TEXT_BYTES \<le> front + (length s - rear))"

fun reduced_value :: "fit_strategy \<Rightarrow> 'n json \<Rightarrow> 'n json \<Rightarrow> bool" where
  "reduced_value Recent v w \<longleftrightarrow>
     w = v \<or> (\<exists>items n. v = JArray items \<and> n < length items \<and> w = JArray (drop n items))"
| "reduced_value Truncate v w \<longleftrightarrow>
     w = v \<or> (\<exists>s str. v = JString s \<and> w = JString str \<and> cut_text s str)"

lemma reduced_value_refl [simp]: "reduced_value strategy v v"
  by (cases strategy) auto

definition target_ok :: "'n json \<Rightarrow> 'n json \<Rightarrow> fit_target \<Rightarrow> bool" where
  "target_ok start input t \<longleftrightarrow>
     (\<exists>v w. pointer_get start (tg_pointer t) = Some v \<and> pointer_get input (tg_pointer t) = Some w
        \<and> target_count (tg_strategy t) v = Some (tg_original_count t)
        \<and> reduced_value (tg_strategy t) v w
        \<and> minimum_count (tg_strategy t) < tg_original_count t
        \<and> tg_retained_count t \<le> tg_original_count t
        \<and> (tg_original_text t = None \<and> tg_strategy t = Truncate \<longrightarrow> w = v)
        \<and> (\<forall>str. tg_original_text t = Some str \<longrightarrow> v = JString str))"

lemma new_target_ok: "new_target strategy segs input [] t \<Longrightarrow> target_ok input input t"
  by (auto simp: new_target_def target_ok_def)

lemma target_ok_other:
  "\<not> overlap p (tg_pointer t) \<Longrightarrow> target_ok start (pointer_set input p new) t = target_ok start input t"
  by (simp add: target_ok_def pointer_get_set_other)

lemma boundary_down_le: "boundary_down s i \<le> i"
  by (induction s i rule: boundary_down.induct) auto

lemma boundary_down_boundary: "0 < boundary_down s i \<Longrightarrow> is_char_boundary s (boundary_down s i)"
  by (induction s i rule: boundary_down.induct) (auto simp: is_char_boundary_def)

lemma boundary_up_ge: "i \<le> boundary_up s i"
  by (induction s i rule: boundary_up.induct) (subst boundary_up.simps, auto)

lemma boundary_up_boundary: "boundary_up s i < length s \<Longrightarrow> is_char_boundary s (boundary_up s i)"
proof (induction s i rule: boundary_up.induct)
  case (1 s i)
  have step: "boundary_up s i = (if is_char_boundary s i \<or> length s \<le> i then i else boundary_up s (i + 1))"
    by (rule boundary_up.simps)
  show ?case
  proof (cases "is_char_boundary s i \<or> length s \<le> i")
    case True
    with step 1(2) show ?thesis by auto
  next
    case False
    with step have eq: "boundary_up s i = boundary_up s (i + 1)" by (simp only: if_False)
    with 1(1) [OF False] 1(2) show ?thesis by simp
  qed
qed

lemma reduce_text_ok:
  assumes "pointer_get input (tg_pointer t) = Some w" "length original = tg_original_count t"
    and "tg_strategy t = Truncate" "MINIMUM_TEXT_BYTES < tg_original_count t"
    and "tg_retained_count t \<le> tg_original_count t"
  obtains (kept) t' where "reduce_text input t original = Some (False, input, t')"
      "\<exists>b. t' = t\<lparr>tg_original_text := Some original, tg_exhausted := b\<rparr>"
  | (cut) t' str where
      "reduce_text input t original = Some (True, pointer_set input (tg_pointer t) (JString str), t')"
      "cut_text original str"
      "\<exists>b n. t' = t\<lparr>tg_original_text := Some original, tg_retained_count := n, tg_exhausted := b\<rparr>
         \<and> n \<le> tg_original_count t"
proof -
  define keep where "keep = max (tg_retained_count t - TRUNCATE_CHUNK_BYTES) MINIMUM_TEXT_BYTES"
  define front where "front = boundary_up original ((keep + 1) div 2)"
  define rear where "rear = boundary_down original (length original - keep div 2)"
  have keep: "256 \<le> keep" "keep \<le> length original"
    using assms(2,4,5) by (auto simp: keep_def MINIMUM_TEXT_BYTES_def)
  have bounds: "(keep + 1) div 2 \<le> front" "rear \<le> length original - keep div 2"
    by (auto simp: front_def rear_def boundary_up_ge boundary_down_le)
  have min: "MINIMUM_TEXT_BYTES \<le> front + (length original - rear)"
    using bounds keep by (simp add: MINIMUM_TEXT_BYTES_def)
  have apart: "front < rear" if "front + length original - rear < tg_retained_count t"
    using that assms(2,5) by simp
  have cut: "cut_text original (truncated_text original front rear)"
    if "front + length original - rear < tg_retained_count t"
    unfolding cut_text_def
  proof (intro exI conjI)
    show "front < rear" using apart that by simp
    then show "is_char_boundary original rear" using bounds boundary_down_boundary by (auto simp: rear_def)
    have "front < length original" using apart [OF that] bounds by simp
    then show "is_char_boundary original front" using boundary_up_boundary by (auto simp: front_def)
  qed (use min bounds in auto)
  have step: "reduce_text input t original =
    (if tg_retained_count t \<le> front + length original - rear
     then Some (False, input, t\<lparr>tg_original_text := Some original, tg_exhausted := True\<rparr>)
     else if tg_retained_count t = tg_original_count t \<and> rear < front then None
     else if tg_retained_count t = tg_original_count t
       \<and> length (quote_json (take (rear - front) (drop front original))) \<le> length (quote_json OMISSION_MARKER)
     then Some (False, input, t\<lparr>tg_original_text := Some original, tg_exhausted := True\<rparr>)
     else Some (True, pointer_set input (tg_pointer t) (JString (truncated_text original front rear)),
       t\<lparr>tg_original_text := Some original, tg_retained_count := front + length original - rear,
         tg_exhausted := (keep = MINIMUM_TEXT_BYTES)\<rparr>))"
    unfolding reduce_text_def Let_def keep_def [symmetric] front_def [symmetric] rear_def [symmetric]
    by (cases t) (simp only: fit_target.select_convs fit_target.update_convs)
  show ?thesis
  proof (cases "tg_retained_count t \<le> front + length original - rear")
    case True
    with step have "reduce_text input t original
      = Some (False, input, t\<lparr>tg_original_text := Some original, tg_exhausted := True\<rparr>)" by (simp only: if_True)
    then show ?thesis by (rule kept) blast
  next
    case False
    then have less: "front + length original - rear < tg_retained_count t" by simp
    with step apart have step: "reduce_text input t original =
      (if tg_retained_count t = tg_original_count t
         \<and> length (quote_json (take (rear - front) (drop front original))) \<le> length (quote_json OMISSION_MARKER)
       then Some (False, input, t\<lparr>tg_original_text := Some original, tg_exhausted := True\<rparr>)
       else Some (True, pointer_set input (tg_pointer t) (JString (truncated_text original front rear)),
         t\<lparr>tg_original_text := Some original, tg_retained_count := front + length original - rear,
           tg_exhausted := (keep = MINIMUM_TEXT_BYTES)\<rparr>))" by simp
    show ?thesis
    proof (cases "tg_retained_count t = tg_original_count t
         \<and> length (quote_json (take (rear - front) (drop front original))) \<le> length (quote_json OMISSION_MARKER)")
      case True
      with step have "reduce_text input t original
        = Some (False, input, t\<lparr>tg_original_text := Some original, tg_exhausted := True\<rparr>)" by (simp only: if_True simp_thms)
      then show ?thesis by (rule kept) blast
    next
      case False
      with step have "reduce_text input t original = Some (True,
         pointer_set input (tg_pointer t) (JString (truncated_text original front rear)),
         t\<lparr>tg_original_text := Some original, tg_retained_count := front + length original - rear,
           tg_exhausted := (keep = MINIMUM_TEXT_BYTES)\<rparr>)" by (simp only: if_False)
      moreover have "front + length original - rear \<le> tg_original_count t" using less assms(5) by simp
      ultimately show ?thesis using cut [OF less] by (intro that(2)) blast+
    qed
  qed
qed

lemma cut_reduced: "cut_text s str \<Longrightarrow> reduced_value Truncate (JString s) (JString str)"
  by simp

text \<open>
  One reduction of a target does not panic. It keeps what makes the target a reduction of the
  value at the start, and writes only at the pointer of the target.
\<close>

lemma reduce_recent_ok:
  assumes "target_ok start input t" "tg_strategy t = Recent"
  shows "\<exists>b input' t'. reduce input t = Some (b, input', t') \<and> target_ok start input' t'
    \<and> tg_pointer t' = tg_pointer t \<and> tg_strategy t' = tg_strategy t
    \<and> (input' = input \<or> b \<and> (\<exists>new. input' = pointer_set input (tg_pointer t) new))"
proof -
  obtain v w where v: "pointer_get start (tg_pointer t) = Some v" and w: "pointer_get input (tg_pointer t) = Some w"
    and n: "target_count Recent v = Some (tg_original_count t)" and red: "reduced_value Recent v w"
    and min: "1 < tg_original_count t" "tg_retained_count t \<le> tg_original_count t"
    and no_text: "\<forall>str. tg_original_text t = Some str \<longrightarrow> v = JString str"
    using assms(1) unfolding target_ok_def assms(2) by fastforce
  from n obtain items where items: "v = JArray items" "length items = tg_original_count t" by (cases v) auto
  have no_text: "tg_original_text t = None" using no_text items by (cases "tg_original_text t") auto
  from red items min obtain k where k: "w = JArray (drop k items)" "k < length items"
    by (fastforce intro: that [of 0])
  show ?thesis
  proof (cases "length (drop k items) \<le> 1")
    case True
    with k w assms(2) have "reduce input t = Some (False, input, t\<lparr>tg_exhausted := True\<rparr>)" by (simp add: reduce_def)
    moreover have "target_ok start input (t\<lparr>tg_exhausted := True\<rparr>)" using assms(1) by (simp add: target_ok_def)
    ultimately show ?thesis by auto
  next
    case False
    let ?new = "JArray (drop (Suc k) items)"
    let ?t = "t\<lparr>tg_retained_count := tg_retained_count t - 1, tg_exhausted := (length (drop (Suc k) items) = 1)\<rparr>"
    from False k w assms(2) have out: "reduce input t = Some (True, pointer_set input (tg_pointer t) ?new, ?t)"
      by (simp add: reduce_def drop_Suc tl_drop)
    have "Suc k < length items" using False k(2) by simp
    with items have "reduced_value Recent v ?new" by auto
    then have "target_ok start (pointer_set input (tg_pointer t) ?new) ?t"
      using v n min no_text assms(2) pointer_get_set [OF w, of ?new] by (simp add: target_ok_def)
    with out show ?thesis by auto
  qed
qed

lemma reduce_truncate_ok:
  assumes "target_ok start input t" "tg_strategy t = Truncate"
  shows "\<exists>b input' t'. reduce input t = Some (b, input', t') \<and> target_ok start input' t'
    \<and> tg_pointer t' = tg_pointer t \<and> tg_strategy t' = tg_strategy t
    \<and> (input' = input \<or> b \<and> (\<exists>new. input' = pointer_set input (tg_pointer t) new))"
proof -
  obtain v w where v: "pointer_get start (tg_pointer t) = Some v" and w: "pointer_get input (tg_pointer t) = Some w"
    and n: "target_count Truncate v = Some (tg_original_count t)" and red: "reduced_value Truncate v w"
    and min: "MINIMUM_TEXT_BYTES < tg_original_count t" "tg_retained_count t \<le> tg_original_count t"
    and saved: "tg_original_text t = None \<longrightarrow> w = v" "\<forall>str. tg_original_text t = Some str \<longrightarrow> v = JString str"
    using assms(1) unfolding target_ok_def assms(2) minimum_count.simps by blast
  from n obtain s where s: "v = JString s" "length s = tg_original_count t" by (cases v) auto
  show ?thesis
  proof (cases "tg_retained_count t \<le> MINIMUM_TEXT_BYTES")
    case True
    with w assms(2) have "reduce input t = Some (False, input, t\<lparr>tg_exhausted := True\<rparr>)" by (simp add: reduce_def)
    moreover have "target_ok start input (t\<lparr>tg_exhausted := True\<rparr>)" using assms(1) by (simp add: target_ok_def)
    ultimately show ?thesis by auto
  next
    case False
    with w s saved assms(2) have run: "reduce input t = reduce_text input t s"
      by (auto simp: reduce_def split: option.splits)
    from w s(2) assms(2) min show ?thesis
    proof (cases rule: reduce_text_ok)
      case (kept t')
      then have "target_ok start input t'" "tg_pointer t' = tg_pointer t" "tg_strategy t' = tg_strategy t"
        using v w n red min s assms(2) by (auto simp: target_ok_def)
      with run kept(1) show ?thesis by auto
    next
      case (cut t' str)
      have "target_ok start (pointer_set input (tg_pointer t) (JString str)) t'"
        "tg_pointer t' = tg_pointer t" "tg_strategy t' = tg_strategy t"
        using v n min s assms(2) cut(3) cut_reduced [OF cut(2)] pointer_get_set [OF w, of "JString str"]
        by (auto simp: target_ok_def)
      with run cut(1) show ?thesis by auto
    qed
  qed
qed

lemma reduce_ok:
  assumes "target_ok start input t"
  obtains b input' t' where "reduce input t = Some (b, input', t')" "target_ok start input' t'"
    "tg_pointer t' = tg_pointer t" "tg_strategy t' = tg_strategy t"
    "input' = input \<or> b \<and> (\<exists>new. input' = pointer_set input (tg_pointer t) new)"
  using reduce_recent_ok [OF assms] reduce_truncate_ok [OF assms] by (cases "tg_strategy t") blast+

section \<open>The fitting loop\<close>

text \<open>
  The invariant of the loop: separate targets, each a reduction of its value at the start, and
  nothing changed elsewhere.
\<close>

definition places :: "fit_target list \<Rightarrow> (pointer_step list \<times> fit_strategy) list" where
  "places ts = map (\<lambda>t. (tg_pointer t, tg_strategy t)) ts"

definition fit_ok :: "'n json \<Rightarrow> (pointer_step list \<times> fit_strategy) list \<Rightarrow> 'n json \<Rightarrow> fit_target list \<Rightarrow> bool" where
  "fit_ok start spots input ts \<longleftrightarrow> places ts = spots \<and> separate ts \<and> (\<forall>t \<in> set ts. target_ok start input t)
     \<and> (\<forall>q. (\<forall>(p, _) \<in> set spots. \<not> overlap p q) \<longrightarrow> pointer_get input q = pointer_get start q)"

lemma separate_places: "places ts = places ts' \<Longrightarrow> separate ts = separate ts'"
proof -
  have "separate ts = sorted_wrt (\<lambda>a b. \<not> overlap (fst a) (fst b)) (places ts)" for ts
    by (simp add: separate_def places_def sorted_wrt_map)
  then show "places ts = places ts' \<Longrightarrow> separate ts = separate ts'" by simp
qed

lemma fit_ok_reduce:
  assumes "fit_ok start spots input (before @ t # rest)"
  obtains b input' t' where "reduce input t = Some (b, input', t')" "b \<or> input' = input"
    "fit_ok start spots input' (before @ t' # rest)"
proof -
  have at: "places (before @ t # rest) = spots" and sep: "separate (before @ t # rest)"
    and each: "\<forall>u \<in> set (before @ t # rest). target_ok start input u"
    and frame: "\<And>q. \<forall>(p, _) \<in> set spots. \<not> overlap p q \<Longrightarrow> pointer_get input q = pointer_get start q"
    using assms by (auto simp: fit_ok_def)
  have "target_ok start input t" using each by simp
  then show ?thesis
  proof (rule reduce_ok)
    fix b input' t'
    assume run: "reduce input t = Some (b, input', t')" and ok: "target_ok start input' t'"
      and t': "tg_pointer t' = tg_pointer t" "tg_strategy t' = tg_strategy t"
      and input': "input' = input \<or> b \<and> (\<exists>new. input' = pointer_set input (tg_pointer t) new)"
    have same: "places (before @ t' # rest) = spots" using at t' by (simp add: places_def)
    have "separate (before @ t' # rest)" using sep separate_places same at by metis
    moreover have "target_ok start input' u" if "u \<in> set before \<union> set rest" for u
    proof -
      have "\<not> overlap (tg_pointer t) (tg_pointer u)"
        using sep that by (auto simp: separate_def sorted_wrt_append overlap_commute)
      then show ?thesis using each that input' target_ok_other by (metis Un_iff append_is_Nil_conv in_set_conv_decomp set_append list.set_intros(2) UnCI)
    qed
    moreover have "pointer_get input' q = pointer_get start q" if "\<forall>(p, _) \<in> set spots. \<not> overlap p q" for q
    proof -
      have "(tg_pointer t, tg_strategy t) \<in> set spots" using at by (auto simp: places_def)
      then have "\<not> overlap (tg_pointer t) q" using that by auto
      then show ?thesis using frame [OF that] input' pointer_get_set_other by metis
    qed
    ultimately have "fit_ok start spots input' (before @ t' # rest)"
      using same ok by (auto simp: fit_ok_def)
    with run input' show thesis by (intro that) auto
  qed
qed

lemma on_work_no_panic: "on_work m st \<noteq> (Inl FitPanic, st')"
proof -
  obtain x c where m: "m (fst st) = (x, c)" by (rule prod.exhaust)
  show ?thesis by (cases x) (simp_all add: on_work_def m)
qed

lemma validate_no_panic: "validate_request validate input report budget st \<noteq> (Inl FitPanic, st')"
  by (auto simp: validate_request_def split: prod.splits sum.splits fit_validation_error.splits)

lemma fit_turn_no_panic:
  assumes "reduce (run_input r) target \<noteq> None"
  shows "fit_turn W validate target r st \<noteq> (Inl FitPanic, st')"
proof
  assume panic: "fit_turn W validate target r st = (Inl FitPanic, st')"
  from assms obtain b input t where red: "reduce (run_input r) target = Some (b, input, t)" by auto
  from panic red show False
    by (auto simp: fit_turn_def Let_def fit_fail_def ev_bind_def check_count_def
        on_work_no_panic validate_no_panic split: if_splits prod.splits sum.splits)
qed

lemma fit_pass_ok:
  assumes "fit_ok start spots (run_input r) (before @ targets)"
    and "fit_pass W validate before targets changed r st = (x, st')"
  shows "x \<noteq> Inl FitPanic"
    and "x = Inr (PassFits input report) \<Longrightarrow>
      (\<exists>ts. fit_ok start spots input ts) \<and> (\<exists>st1. validate input report st1 = (Inr (), st'))"
    and "x = Inr (PassEnd after r' changed') \<Longrightarrow> fit_ok start spots (run_input r') after"
proof -
  have "x \<noteq> Inl FitPanic
    \<and> (\<forall>input report. x = Inr (PassFits input report) \<longrightarrow>
        (\<exists>ts. fit_ok start spots input ts) \<and> (\<exists>st1. validate input report st1 = (Inr (), st')))
    \<and> (\<forall>after r' changed'. x = Inr (PassEnd after r' changed') \<longrightarrow> fit_ok start spots (run_input r') after)"
    using assms
  proof (induction targets arbitrary: before changed r st)
    case (Cons t rest)
    show ?case
    proof (cases "tg_exhausted t")
      case True
      with Cons.prems(2) have run: "fit_pass W validate (before @ [t]) rest changed r st = (x, st')" by simp
      have "fit_ok start spots (run_input r) ((before @ [t]) @ rest)" using Cons.prems(1) by simp
      from Cons.IH [OF this run] show ?thesis .
    next
      case False
      from Cons.prems(1) obtain b input2 t2 where red: "reduce (run_input r) t = Some (b, input2, t2)"
        "b \<or> input2 = run_input r" "fit_ok start spots input2 (before @ t2 # rest)"
        by (rule fit_ok_reduce)
      have ok2: "fit_ok start spots input2 ((before @ [t2]) @ rest)" using red(3) by simp
      obtain y st1 where turn: "fit_turn W validate t r st = (y, st1)" by (rule prod.exhaust)
      show ?thesis
      proof (cases y)
        case (Inl e)
        have "e \<noteq> FitPanic" using fit_turn_no_panic [of r t W validate st st1] red(1) turn Inl by auto
        then show ?thesis using Cons.prems(2) False turn Inl by (auto simp: ev_bind_def)
      next
        case (Inr out)
        note turn = turn [unfolded Inr]
        show ?thesis
        proof (cases out)
          case (TurnFits input report)
          from fit_turn_cases(4) [OF turn this] red(1)
          obtain st2 where v: "input = input2" "validate input report st2 = (Inr (), st1)" by auto
          have "x = Inr (PassFits input2 report)" "st1 = st'"
            using Cons.prems(2) False turn TurnFits v(1) by (auto simp: ev_bind_def)
          moreover have "\<exists>ts. fit_ok start spots input2 ts" using red(3) by blast
          moreover have "\<exists>st2. validate input2 report st2 = (Inr (), st1)" using v by blast
          ultimately show ?thesis by simp
        next
          case (TurnSkipped t3 r3)
          from fit_turn_cases(2) [OF turn this] red have "r3 = r\<lparr>run_turns := run_turns r + 1\<rparr>" "t3 = t2"
            "input2 = run_input r" by auto
          with ok2 have ok: "fit_ok start spots (run_input r3) ((before @ [t3]) @ rest)" by simp
          have "fit_pass W validate (before @ [t3]) rest changed r3 st1 = (x, st')"
            using Cons.prems(2) False turn TurnSkipped by (simp add: ev_bind_def)
          from Cons.IH [OF ok this] show ?thesis .
        next
          case (TurnReduced t3 r3)
          from fit_turn_cases(3) [OF turn this] red(1) have "t3 = t2" "input2 = run_input r3" by auto
          with ok2 have ok: "fit_ok start spots (run_input r3) ((before @ [t3]) @ rest)" by simp
          have "fit_pass W validate (before @ [t3]) rest True r3 st1 = (x, st')"
            using Cons.prems(2) False turn TurnReduced by (simp add: ev_bind_def)
          from Cons.IH [OF ok this] show ?thesis .
        qed
      qed
    qed
  qed auto
  then show "x \<noteq> Inl FitPanic"
    and "x = Inr (PassFits input report) \<Longrightarrow>
      (\<exists>ts. fit_ok start spots input ts) \<and> (\<exists>st1. validate input report st1 = (Inr (), st'))"
    and "x = Inr (PassEnd after r' changed') \<Longrightarrow> fit_ok start spots (run_input r') after"
    by blast+
qed

lemma fit_rounds_ok:
  assumes "fit_ok start spots (run_input r) targets"
    and "fit_rounds W validate rules matched targets r st = (x, st')"
  shows "x \<noteq> Inl FitPanic
    \<and> (\<forall>input report. x = Inr (input, report) \<longrightarrow>
        (\<exists>ts. fit_ok start spots input ts) \<and> (\<exists>st1. validate input report st1 = (Inr (), st')))"
  using assms
proof (induction W validate rules matched targets r st rule: fit_rounds.induct)
  case (1 W validate rules matched targets r st)
  obtain y st1 where pass: "fit_pass W validate [] targets False r st = (y, st1)" by (rule prod.exhaust)
  have ok: "fit_ok start spots (run_input r) ([] @ targets)" using 1(2) by simp
  note pass_ok = fit_pass_ok [OF ok pass]
  note run = 1(3) [unfolded fit_rounds.simps [of W validate rules matched targets r] pass]
  show ?case
  proof (cases y)
    case (Inl e)
    with run pass_ok(1) show ?thesis by auto
  next
    case (Inr out)
    show ?thesis
    proof (cases out)
      case (PassFits input report)
      with run Inr pass_ok(2) [of input report] show ?thesis by auto
    next
      case (PassEnd after r' changed')
      then have kept: "fit_ok start spots (run_input r') after" using pass_ok(3) Inr by simp
      show ?thesis
      proof (cases changed')
        case False
        with run Inr PassEnd show ?thesis by (auto simp: fit_fail_def)
      next
        case True
        with run Inr PassEnd have "fit_rounds W validate rules matched after r' st1 = (x, st')" by simp
        from 1(1) [OF pass [symmetric] Inr PassEnd _ kept this] True show ?thesis by blast
      qed
    qed
  qed
qed

section \<open>What fitting promises\<close>

text \<open>The rules of an accepted request are apart.\<close>

definition rules_apart :: "fit_rule list \<Rightarrow> bool" where
  "rules_apart rules \<longleftrightarrow> sorted_wrt (\<lambda>a b. \<not> paths_overlap (rule_segments a) (rule_segments b)) rules"

lemma expand_rules_apart:
  assumes "expand_rules input previous rules ex = (Inr (), ex')" "rules_apart previous"
  shows "rules_apart (previous @ rules)"
  using assms
proof (induction rules arbitrary: previous ex)
  case (Cons rule rules)
  from Cons.prems(1) obtain ex1 where
    apart: "\<not> list_ex (\<lambda>p. paths_overlap (rule_segments p) (rule_segments rule)) previous"
    and rest: "expand_rules input (previous @ [rule]) rules ex1 = (Inr (), ex')"
    by (auto split: sum.splits if_splits prod.splits)
  from apart Cons.prems(2) have "rules_apart (previous @ [rule])"
    by (auto simp: rules_apart_def sorted_wrt_append list_ex_iff)
  from Cons.IH [OF rest this] show ?case by simp
qed simp

lemma paths_overlap_commute: "paths_overlap s t \<longleftrightarrow> paths_overlap t s"
  by (induction s t rule: list_induct2') (auto simp: paths_overlap_def)

lemma matches_same: "matches s p \<Longrightarrow> matches s q \<Longrightarrow> overlap p q \<Longrightarrow> p = q"
  by (induction s arbitrary: p q) auto

lemma rules_apart_same:
  assumes "rules_apart rules" "a \<in> set rules" "b \<in> set rules" "paths_overlap (rule_segments a) (rule_segments b)"
  shows "a = b"
  using assms
proof (induction rules)
  case (Cons r rs)
  then show ?case using paths_overlap_commute by (auto simp: rules_apart_def)
qed simp

text \<open>A rule selects a value; a rule's path touches a pointer.\<close>

definition rule_selects :: "fit_rule \<Rightarrow> pointer_step list \<Rightarrow> bool" where
  "rule_selects rule q \<longleftrightarrow> matches (rule_segments rule) q"

definition rule_touches :: "fit_rule \<Rightarrow> pointer_step list \<Rightarrow> bool" where
  "rule_touches rule q \<longleftrightarrow> (\<exists>p. matches (rule_segments rule) p \<and> overlap p q)"

text \<open>What a fitted input may be: reduced where a rule selects, and as it was elsewhere.\<close>

definition fitted_from :: "fit_rule list \<Rightarrow> 'n json \<Rightarrow> 'n json \<Rightarrow> bool" where
  "fitted_from rules start input \<longleftrightarrow>
     (\<forall>q. (\<forall>rule \<in> set rules. \<not> rule_touches rule q) \<longrightarrow> pointer_get input q = pointer_get start q)
     \<and> (\<forall>rule \<in> set rules. \<forall>q v. rule_selects rule q \<longrightarrow> pointer_get start q = Some v
          \<longrightarrow> (\<exists>w. pointer_get input q = Some w \<and> reduced_value (rule_strategy rule) v w))"

lemma fit_ok_fitted:
  assumes ok: "fit_ok start spots input ts" and origin: "of_rules rules start ts0" "places ts0 = spots"
    and apart: "rules_apart rules"
  shows "fitted_from rules start input"
proof -
  have spot: "\<exists>rule \<in> set rules. matches (rule_segments rule) p \<and> rule_strategy rule = strategy"
    if spot_in: "(p, strategy) \<in> set spots" for p strategy
  proof -
    obtain t where t: "t \<in> set ts0" "p = tg_pointer t" "strategy = tg_strategy t"
      using spot_in origin(2) by (auto simp: places_def)
    have "\<exists>rule \<in> set rules. new_target (rule_strategy rule) (rule_segments rule) start [] t"
      using origin(1) t(1) by (simp add: of_rules_def)
    then show ?thesis unfolding new_target_def t(2,3) by fastforce
  qed
  have frame: "pointer_get input q = pointer_get start q" if "\<forall>(p, _) \<in> set spots. \<not> overlap p q" for q
    using ok that by (simp add: fit_ok_def)
  have untouched: "pointer_get input q = pointer_get start q" if un: "\<forall>rule \<in> set rules. \<not> rule_touches rule q" for q
  proof (rule frame, clarify)
    fix p strategy assume "(p, strategy) \<in> set spots" "overlap p q"
    with spot un show False unfolding rule_touches_def by blast
  qed
  have selected: "\<exists>w. pointer_get input q = Some w \<and> reduced_value (rule_strategy rule) v w"
    if rule: "rule \<in> set rules" and sel: "rule_selects rule q" and v: "pointer_get start q = Some v" for rule q v
  proof (cases "\<forall>(p, _) \<in> set spots. \<not> overlap p q")
    case True
    from frame [OF this] v show ?thesis by simp
  next
    case False
    then obtain p strategy where at: "(p, strategy) \<in> set spots" "overlap p q" by auto
    from spot [OF at(1)] obtain other where other: "other \<in> set rules" "matches (rule_segments other) p"
      "rule_strategy other = strategy" by blast
    have q: "matches (rule_segments rule) q" using sel by (simp add: rule_selects_def)
    have same: "other = rule"
      using rules_apart_same [OF apart other(1) rule matches_overlap [OF other(2) q at(2)]] .
    have pq: "p = q" using matches_same [OF _ q at(2)] other(2) same by simp
    from ok at(1) obtain t where t: "t \<in> set ts" "tg_pointer t = q" "tg_strategy t = rule_strategy rule"
      using pq same other(3) by (auto simp: fit_ok_def places_def)
    then have "target_ok start input t" using ok by (simp add: fit_ok_def)
    then show ?thesis using v t(2,3) by (auto simp: target_ok_def)
  qed
  show ?thesis unfolding fitted_from_def using untouched selected by blast
qed

lemma fit_start:
  assumes "expand_rules input [] rules \<lparr>ex_targets = [], ex_visited = 0, ex_matched = 0\<rparr> = (Inr (), ex)"
  shows "of_rules rules input (ex_targets ex)" "rules_apart rules"
    "fit_ok input (places (ex_targets ex)) input (ex_targets ex)"
proof -
  show origin: "of_rules rules input (ex_targets ex)"
    using expand_rules_targets [OF assms] by (simp add: of_rules_def separate_def)
  show "rules_apart rules" using expand_rules_apart [OF assms] by (simp add: rules_apart_def)
  show "fit_ok input (places (ex_targets ex)) input (ex_targets ex)"
  proof -
    have "target_ok input input t" if "t \<in> set (ex_targets ex)" for t
    proof -
      have "\<exists>rule \<in> set rules. new_target (rule_strategy rule) (rule_segments rule) input [] t"
        using origin that by (simp add: of_rules_def)
      then show ?thesis by (elim bexE) (rule new_target_ok)
    qed
    then show ?thesis using origin by (simp add: fit_ok_def of_rules_def)
  qed
qed

lemma fitted_refl: "fitted_from rules input input"
  by (simp add: fitted_from_def)

text \<open>The two ends of fitting: at once, or after the loop.\<close>

lemma fit_input_cases:
  assumes "fit_input_with_work_budget W validate input rules st = (x, st')"
  shows "x \<noteq> Inl FitPanic
    \<and> (\<forall>fitted report. x = Inr (fitted, report) \<longrightarrow>
        fitted_from rules input fitted \<and> (\<exists>st1. validate fitted report st1 = (Inr (), st')))"
proof -
  let ?ex = "\<lparr>ex_targets = [], ex_visited = 0, ex_matched = 0\<rparr>"
  consider (early) e where "x = Inl (FitFailed e)"
    | (failed) e st1 st2 where "validate_request validate input [] None st1 = (Inl e, st2)" "x = Inl e"
    | (at_once) ex st1 budget where "expand_rules input [] rules ?ex = (Inr (), ex)"
        "validate_request validate input [] None st1 = (Inr (True, budget), st')" "x = Inr (input, [])"
    | (loop) ex budget st2 where "expand_rules input [] rules ?ex = (Inr (), ex)"
        "fit_rounds W validate rules (ex_matched ex) (ex_targets ex)
           \<lparr>run_input = input, run_report = [], run_budget = budget, run_turns = 0\<rparr> st2 = (x, st')"
  proof -
    obtain y st1 where work: "on_work (measure_work W (value_serde input)) st = (y, st1)" by (rule prod.exhaust)
    obtain z ex where expanded: "expand_rules input [] rules ?ex = (z, ex)" by (rule prod.exhaust)
    obtain u st2 where checked: "validate_request validate input [] None st1 = (u, st2)" by (rule prod.exhaust)
    show ?thesis
    proof (cases "admit_input W input")
      case (Inl e)
      then show ?thesis using assms by (intro early) (auto simp: fit_input_with_work_budget_def)
    next
      case admitted: (Inr _)
      show ?thesis
      proof (cases y)
        case (Inl e)
        then have "e \<noteq> FitPanic" using work on_work_no_panic by blast
        then show ?thesis using assms admitted work Inl
          by (cases e) (auto simp: fit_input_with_work_budget_def ev_bind_def intro: early)
      next
        case worked: (Inr _)
        show ?thesis
        proof (cases "check_count FitRules (length rules) MAX_FIT_RULES")
          case (Inl e)
          then show ?thesis using assms admitted work worked
            by (auto simp: fit_input_with_work_budget_def ev_bind_def fit_fail_def intro: early)
        next
          case counted: (Inr _)
          show ?thesis
          proof (cases z)
            case (Inl e)
            then show ?thesis using assms admitted work worked counted expanded
              by (auto simp: fit_input_with_work_budget_def ev_bind_def fit_fail_def intro: early)
          next
            case expanded_ok: (Inr _)
            have run: "(case u of
                Inl e \<Rightarrow> (Inl e, st2)
              | Inr (fits, budget) \<Rightarrow>
                  if fits then (Inr (input, []), st2)
                  else fit_rounds W validate rules (ex_matched ex) (ex_targets ex)
                    \<lparr>run_input = input, run_report = [], run_budget = budget, run_turns = 0\<rparr> st2) = (x, st')"
              using assms admitted work worked counted expanded expanded_ok checked
              by (cases u) (simp_all add: fit_input_with_work_budget_def ev_bind_def split: prod.splits if_splits)
            show ?thesis
            proof (cases u)
              case (Inl e)
              with run checked show ?thesis by (intro failed [of st1 e st2]) auto
            next
              case (Inr out)
              then obtain fits budget where out: "u = Inr (fits, budget)" by (cases out) auto
              show ?thesis
              proof (cases fits)
                case True
                with run out checked expanded expanded_ok show ?thesis
                  by (intro at_once [of ex st1 budget]) auto
              next
                case False
                with run out expanded expanded_ok show ?thesis by (intro loop [of ex budget st2]) auto
              qed
            qed
          qed
        qed
      qed
    qed
  qed
  then show ?thesis
  proof cases
    case early
    then show ?thesis by simp
  next
    case failed
    then show ?thesis using validate_no_panic [of validate input "[]" None st1 st2] by auto
  next
    case at_once
    from at_once(2) have "validate input [] st1 = (Inr (), st')"
      by (auto simp: validate_request_def split: prod.splits sum.splits fit_validation_error.splits)
    then have "\<exists>st1. validate input [] st1 = (Inr (), st')" by (rule exI)
    then show ?thesis using at_once(3) fitted_refl by simp
  next
    case loop
    note start = fit_start [OF loop(1)]
    have "fit_ok input (places (ex_targets ex)) (run_input \<lparr>run_input = input, run_report = [],
        run_budget = budget, run_turns = 0\<rparr>) (ex_targets ex)" using start(3) by simp
    from fit_rounds_ok [OF this loop(2)] fit_ok_fitted [OF _ start(1) refl start(2)] show ?thesis by blast
  qed
qed

text \<open>
  C14. Input fitting never panics, for any input, rules, validator and work already consumed: the
  pointers that \<open>reduce\<close> follows always exist and hold the type that the rule's strategy expects,
  and the slices of a text are in range.
\<close>

theorem fitting_no_panic: "fst (fit_input_with_work_budget W validate input rules st) \<noteq> Inl FitPanic"
  using fit_input_cases [of W validate input rules st] by (metis prod.collapse)

text \<open>
  C6. When fitting succeeds, the provider's validator accepted exactly the returned input and
  report, in the call that ends the run. Every value that no rule's path touches is unchanged, and
  a value that a rule selects is as it was or reduced the way the rule permits: the most recent
  items of an array, at least one, or a text with its middle replaced by the omission marker, cut at
  character boundaries, at least 256 bytes of it kept.
\<close>

theorem fitting_sound:
  assumes "fit_input_with_work_budget W validate input rules st = (Inr (fitted, report), st')"
  shows "(\<exists>st1. validate fitted report st1 = (Inr (), st')) \<and> fitted_from rules input fitted"
  using fit_input_cases [OF assms] by simp

text \<open>A validator that wants one reduction, on an array of two items.\<close>

definition one_rule :: "fit_rule list" where
  "one_rule = [\<lparr>rule_path = ''a'', rule_segments = [FitField ''a''], rule_strategy = Recent\<rparr>]"

definition wants_one :: "('n, unit) fit_validator" where
  "wants_one input report st =
     (if report = [] then Inl (OverBudget \<lparr>pb_kind = EstimatedTokens, pb_observed = 3, pb_maximum = 2\<rparr>) else Inr (), st)"

definition two_items :: "nat json" where
  "two_items = JObject [(''a'', JArray [JNull, JBool True])]"

lemma one_reduction:
  "fit_input_with_work_budget (\<lambda>_. ([], None)) wants_one two_items one_rule (0, ()) =
     (Inr (JObject [(''a'', JArray [JBool True])],
       [\<lparr>om_path = ''a'', om_strategy = Recent, om_original = 2, om_retained = 1\<rparr>]), (0, ()))"
proof -
  have pass: "fit_pass (\<lambda>_. ([], None)) wants_one []
      [\<lparr>tg_pointer = [PField ''a''], tg_path = ''a'', tg_strategy = Recent, tg_original_count = 2,
         tg_retained_count = 2, tg_original_text = None, tg_exhausted = False\<rparr>] False
      \<lparr>run_input = two_items, run_report = [],
         run_budget = Some \<lparr>pb_kind = EstimatedTokens, pb_observed = 3, pb_maximum = 2\<rparr>, run_turns = 0\<rparr> (0, ())
    = (Inr (PassFits (JObject [(''a'', JArray [JBool True])])
        [\<lparr>om_path = ''a'', om_strategy = Recent, om_original = 2, om_retained = 1\<rparr>]), (0, ()))"
    by (simp add: fit_turn_def two_items_def check_count_def MAX_FIT_TURNS_def reduce_def json_as_array_def
        ev_bind_def on_work_def measure_work_def charge_work_def MAX_FITTING_WORK_def u64_saturating_add_def
        u64_max_def measure_preparation_bytes_def validate_request_def wants_one_def bt_adjust_def bt_get_def
        Let_def)
  have admit: "admit_input (\<lambda>_. ([], None)) two_items = Inr ()"
    by (simp add: admit_input_def two_items_def ev_bind_def admit_node_def add_text_bytes_def check_count_def
        measure_preparation_bytes_def u64_saturating_add_def u64_max_def MAX_FIT_INPUT_BYTES_def
        MAX_FIT_INPUT_NODES_def MAX_FIT_INPUT_DEPTH_def Let_def)
  have work: "measure_work (\<lambda>_. ([], None)) (value_serde two_items) 0 = (Inr 0, 0)"
    by (simp add: measure_work_def ev_bind_def charge_work_def measure_preparation_bytes_def
        u64_saturating_add_def u64_max_def Let_def)
  have expanded: "expand_rules two_items [] one_rule \<lparr>ex_targets = [], ex_visited = 0, ex_matched = 0\<rparr> =
    (Inr (), \<lparr>ex_targets = [\<lparr>tg_pointer = [PField ''a''], tg_path = ''a'', tg_strategy = Recent, tg_original_count = 2,
         tg_retained_count = 2, tg_original_text = None, tg_exhausted = False\<rparr>], ex_visited = 2, ex_matched = 1\<rparr>)"
  proof -
    let ?ex = "\<lparr>ex_targets = [], ex_visited = 0, ex_matched = 0\<rparr>"
    have bytes: "rule_path_bytes (hd one_rule) = 1"
      by (simp add: one_rule_def rule_path_bytes_def usize_saturating_add_def usize_max_def)
    have "expand [FitField ''a''] two_items [] [] Recent ?ex = (Inr (),
      \<lparr>ex_targets = [\<lparr>tg_pointer = [PField ''a''], tg_path = ''a'', tg_strategy = Recent, tg_original_count = 2,
         tg_retained_count = 2, tg_original_text = None, tg_exhausted = False\<rparr>], ex_visited = 2, ex_matched = 1\<rparr>)"
    proof -
      have visit: "count_visit \<lparr>ex_targets = [], ex_visited = n, ex_matched = 0\<rparr> =
        (Inr (), \<lparr>ex_targets = [], ex_visited = Suc n, ex_matched = 0\<rparr>)" if "n < 2" for n
        using that by (simp add: count_visit_def check_count_def MAX_FIT_TRAVERSAL_NODES_def)
      have "count_match \<lparr>ex_targets = [], ex_visited = 2, ex_matched = 0\<rparr> =
        (Inr (), \<lparr>ex_targets = [], ex_visited = 2, ex_matched = 1\<rparr>)"
        by (simp add: count_match_def check_count_def MAX_FIT_TARGETS_def)
      then have add: "add_target (JArray [JNull, JBool True]) [PField ''a''] ''a'' Recent
          \<lparr>ex_targets = [], ex_visited = 2, ex_matched = 0\<rparr> = (Inr (),
        \<lparr>ex_targets = [\<lparr>tg_pointer = [PField ''a''], tg_path = ''a'', tg_strategy = Recent, tg_original_count = 2,
           tg_retained_count = 2, tg_original_text = None, tg_exhausted = False\<rparr>], ex_visited = 2, ex_matched = 1\<rparr>)"
        by (simp add: add_target_def ev_bind_def)
      have get: "bt_get [(''a'', JArray [JNull, JBool True])] ''a'' = Some (JArray [JNull, JBool True])"
        by (simp add: bt_get_def)
      show ?thesis
        using add by (simp add: two_items_def ev_bind_def visit get numeral_2_eq_2)
    qed
    then show ?thesis using bytes
      by (simp add: one_rule_def check_count_def MAX_FIT_PATH_SEGMENTS_def MAX_FIT_PATH_BYTES_def)
  qed
  have count: "check_count FitRules (length one_rule) MAX_FIT_RULES = Inr ()"
    by (simp add: one_rule_def check_count_def MAX_FIT_RULES_def)
  have first: "validate_request wants_one two_items [] None (0, ()) =
    (Inr (False, Some \<lparr>pb_kind = EstimatedTokens, pb_observed = 3, pb_maximum = 2\<rparr>), (0, ()))"
    by (simp add: validate_request_def wants_one_def)
  show ?thesis
    by (simp add: fit_input_with_work_budget_def admit work on_work_def ev_bind_def count expanded first
        fit_rounds.simps pass del: fit_pass.simps)
qed

lemma fitting_sound_witness:
  "(\<exists>st1. wants_one (JObject [(''a'', JArray [JBool True])] :: nat json)
     [\<lparr>om_path = ''a'', om_strategy = Recent, om_original = 2, om_retained = 1\<rparr>] st1 = (Inr (), (0, ())))
   \<and> fitted_from one_rule two_items (JObject [(''a'', JArray [JBool True])])"
  by (rule fitting_sound [OF one_reduction])

end
