(* ===== verification/Prepared.thy ===== *)
theory Prepared
  imports Fit Decision
begin

text \<open>
  \<open>prepared_assessment.rs\<close> and the record of \<open>fit.rs\<close> that holds it: the immutable requests of
  one complete model assessment, the checks on a saved set, and the bound on its size as the
  complete record. \<open>W\<close> and \<open>I\<close> are the writer and the integer conversion of \<open>serde_json\<close>.
\<close>

section \<open>Data\<close>

definition PREPARED_ASSESSMENT_VERSION :: nat where "PREPARED_ASSESSMENT_VERSION = 1"
definition MAX_PREPARED_ASSESSMENT_BYTES :: nat where "MAX_PREPARED_ASSESSMENT_BYTES = 8 * 1024 * 1024"
definition MAX_PREPARED_ASSESSMENT_NODES :: nat where "MAX_PREPARED_ASSESSMENT_NODES = 65536"
definition MAX_ASSESSMENT_FITTING_WORK_BYTES :: nat where
  "MAX_ASSESSMENT_FITTING_WORK_BYTES = 64 * 1024 * 1024"

definition PREPARATION_LIMITS :: json_limits where
  "PREPARATION_LIMITS = \<lparr>max_bytes = MAX_PREPARED_ASSESSMENT_BYTES, max_nodes = MAX_PREPARED_ASSESSMENT_NODES,
     max_json_depth = MAX_FIT_INPUT_DEPTH\<rparr>"

record 'n prepared_block =
  pb_decision :: string
  pb_original_input :: "'n json"
  pb_input :: "'n json"
  pb_request :: "'n json"
  pb_report :: fit_report

record 'n prepared_assessment =
  pa_version :: nat
  pa_profile :: string
  pa_budget :: evaluation_budget
  pa_work :: nat
  pa_decisions :: "'n prepared_block list"

datatype 'n preparation_record =
    RecordReady "'n prepared_assessment"
  | RecordLocal local_preparation
  | RecordRejected preparation_failure

section \<open>Serialisation\<close>

text \<open>What \<open>derive(Serialize)\<close> hands to a serialiser, field by field.\<close>

definition budget_serde :: "(nat \<Rightarrow> 'n) \<Rightarrow> evaluation_budget \<Rightarrow> 'n serde_value" where
  "budget_serde I b =
     SvStruct [(''limits'', SvStruct [(''max_depth'', SvInteger (I (max_depth (limits b)))),
           (''max_steps'', SvInteger (I (max_steps (limits b))))]),
       (''max_items'', SvInteger (I (max_items b))),
       (''max_generated_bytes'', SvInteger (I (max_generated_bytes b))),
       (''max_materialized_bytes'', SvInteger (I (max_materialized_bytes b))),
       (''steps'', SvInteger (I (steps b))),
       (''visited_items'', SvInteger (I (visited_items b))),
       (''generated_bytes'', SvInteger (I (generated_bytes b))),
       (''materialized_bytes'', SvInteger (I (materialized_bytes b))),
       (''exhausted'', SvBool (exhausted b))]"

fun strategy_serde :: "fit_strategy \<Rightarrow> 'n serde_value" where
  "strategy_serde Recent = SvUnitVariant ''recent''"
| "strategy_serde Truncate = SvUnitVariant ''truncate''"

definition omission_serde :: "(nat \<Rightarrow> 'n) \<Rightarrow> fit_omission \<Rightarrow> 'n serde_value" where
  "omission_serde I om =
     SvStruct [(''path'', SvStr (om_path om)), (''strategy'', strategy_serde (om_strategy om)),
       (''original_count'', SvInteger (I (om_original om))),
       (''retained_count'', SvInteger (I (om_retained om)))]"

definition report_serde :: "(nat \<Rightarrow> 'n) \<Rightarrow> fit_report \<Rightarrow> 'n serde_value" where
  "report_serde I report = SvStruct [(''omissions'', SvSeq (map (omission_serde I) report))]"

definition block_serde :: "(nat \<Rightarrow> 'n) \<Rightarrow> 'n prepared_block \<Rightarrow> 'n serde_value" where
  "block_serde I b =
     SvStruct [(''decision'', SvStr (pb_decision b)),
       (''original_input'', value_serde (pb_original_input b)),
       (''input'', value_serde (pb_input b)),
       (''request'', value_serde (pb_request b)),
       (''report'', report_serde I (pb_report b))]"

fun budget_kind_name :: "preparation_budget_kind \<Rightarrow> string" where
  "budget_kind_name InputBytes = ''input_bytes''"
| "budget_kind_name InputNodes = ''input_nodes''"
| "budget_kind_name InputDepth = ''input_depth''"
| "budget_kind_name FitRules = ''fit_rules''"
| "budget_kind_name PathDepth = ''path_depth''"
| "budget_kind_name PathBytes = ''path_bytes''"
| "budget_kind_name ExpandedTargets = ''expanded_targets''"
| "budget_kind_name TraversalNodes = ''traversal_nodes''"
| "budget_kind_name Turns = ''turns''"
| "budget_kind_name WorkBytes = ''work_bytes''"
| "budget_kind_name RequestBytes = ''request_bytes''"
| "budget_kind_name EstimatedTokens = ''estimated_tokens''"
| "budget_kind_name ResidentBytes = ''resident_bytes''"
| "budget_kind_name Criteria = ''criteria''"

fun no_fit_name :: "no_fit_reason \<Rightarrow> string" where
  "no_fit_name NoRules = ''no_rules''"
| "no_fit_name NoMatchingTargets = ''no_matching_targets''"
| "no_fit_name TargetsAtMinimum = ''targets_at_minimum''"
| "no_fit_name ReductionsExhausted = ''reductions_exhausted''"

fun failure_code_name :: "preparation_failure_code \<Rightarrow> string" where
  "failure_code_name ConditionFalse = ''condition_false''"
| "failure_code_name InputUnavailable = ''input_unavailable''"
| "failure_code_name InvalidInput = ''invalid_input''"
| "failure_code_name InvalidRequest = ''invalid_request''"
| "failure_code_name NoFit = ''no_fit''"
| "failure_code_name PreparationResourceLimit = ''preparation_resource_limit''"
| "failure_code_name InvalidFit = ''invalid_fit''"
| "failure_code_name ProviderUnavailable = ''provider_unavailable''"
| "failure_code_name IncompatibleProfile = ''incompatible_profile''"

definition option_serde :: "('a \<Rightarrow> 'n serde_value) \<Rightarrow> 'a option \<Rightarrow> 'n serde_value" where
  "option_serde f v = (case v of None \<Rightarrow> SvNone | Some x \<Rightarrow> SvSome (f x))"

definition preparation_budget_serde :: "(nat \<Rightarrow> 'n) \<Rightarrow> preparation_budget \<Rightarrow> 'n serde_value" where
  "preparation_budget_serde I b =
     SvStruct [(''kind'', SvUnitVariant (budget_kind_name (pb_kind b))),
       (''observed'', SvInteger (I (pb_observed b))), (''maximum'', SvInteger (I (pb_maximum b)))]"

definition context_serde :: "(nat \<Rightarrow> 'n) \<Rightarrow> failure_context \<Rightarrow> 'n serde_value" where
  "context_serde I c =
     SvStruct [(''decision'', option_serde SvStr (fc_decision c)),
       (''field'', option_serde SvStr (fc_field c)),
       (''input_path'', option_serde SvStr (fc_input_path c)),
       (''no_fit_reason'', option_serde (\<lambda>r. SvUnitVariant (no_fit_name r)) (fc_no_fit_reason c)),
       (''budget'', option_serde (preparation_budget_serde I) (fc_budget c))]"

text \<open>
  The records are internally tagged: \<open>status\<close> stands before the fields of the variant. The
  ready record is also what \<open>ReadyView\<close> writes, with the blocks and one more.
\<close>

definition ready_view :: "(nat \<Rightarrow> 'n) \<Rightarrow> 'n prepared_assessment \<Rightarrow> 'n prepared_block option \<Rightarrow> 'n serde_value" where
  "ready_view I p following =
     SvStruct [(''status'', SvStr ''ready''),
       (''version'', SvInteger (I (pa_version p))),
       (''profile'', SvStr (pa_profile p)),
       (''evaluation_budget'', budget_serde I (pa_budget p)),
       (''fitting_work_bytes'', SvInteger (I (pa_work p))),
       (''decisions'', SvSeq (map (block_serde I) (pa_decisions p @ (case following of None \<Rightarrow> [] | Some b \<Rightarrow> [b]))))]"

fun preparation_record_serde :: "(nat \<Rightarrow> 'n) \<Rightarrow> 'n preparation_record \<Rightarrow> 'n serde_value" where
  "preparation_record_serde I (RecordReady p) = ready_view I p None"
| "preparation_record_serde I (RecordLocal p) =
     SvStruct [(''status'', SvStr ''local''),
       (''version'', SvInteger (I (lp_version p))),
       (''started_at_unix_ms'', SvInteger (I (lp_started_at p))),
       (''evaluation_budget'', budget_serde I (lp_budget p))]"
| "preparation_record_serde I (RecordRejected e) =
     SvStruct [(''status'', SvStr ''rejected''),
       (''code'', SvUnitVariant (failure_code_name (pf_code e))),
       (''detail'', SvStr (pf_detail e)),
       (''report'', option_serde (report_serde I) (pf_report e)),
       (''context'', context_serde I (pf_context e))]"

section \<open>Checks\<close>

definition validate_header :: "'n prepared_assessment \<Rightarrow> (string, unit) res" where
  "validate_header p =
     (if pa_version p \<noteq> PREPARED_ASSESSMENT_VERSION then Inl ''Saved preparation version is unsupported.''
      else if is_blank (pa_profile p) then Inl ''Saved preparation profile is missing.''
      else if MAX_ASSESSMENT_FITTING_WORK_BYTES < pa_work p
      then Inl ''Saved fitting work exceeds the assessment limit.''
      else res_map_err error_message (validate_for_resume (pa_budget p)))"

fun names_loop :: "string set \<Rightarrow> 'n prepared_block list \<Rightarrow> (string, unit) res" where
  "names_loop names [] = Inr ()"
| "names_loop names (b # bs) =
     (if \<not> is_identifier (pb_decision b) \<or> pb_decision b \<in> names
      then Inl ''Prepared decision names must be valid and unique.''
      else names_loop (insert (pb_decision b) names) bs)"

definition validate_names :: "'n prepared_block list \<Rightarrow> 'n prepared_block option \<Rightarrow> (string, unit) res" where
  "validate_names blocks following =
     names_loop {} (blocks @ (case following of None \<Rightarrow> [] | Some b \<Rightarrow> [b]))"

definition measure_prepared_assessment ::
  "'n writer \<Rightarrow> (nat \<Rightarrow> 'n) \<Rightarrow> 'n prepared_assessment \<Rightarrow> (string, json_measurement) res" where
  "measure_prepared_assessment W I p =
     res_map_err bounded_error_text (measure_json W (ready_view I p None) PREPARATION_LIMITS)"

definition measure_prepared_assessment_with_block ::
  "'n writer \<Rightarrow> (nat \<Rightarrow> 'n) \<Rightarrow> 'n prepared_assessment \<Rightarrow> 'n prepared_block \<Rightarrow> (string, json_measurement) res" where
  "measure_prepared_assessment_with_block W I p following =
     res_map_err bounded_error_text (measure_json W (ready_view I p (Some following)) PREPARATION_LIMITS)"

definition validate_prepared_set :: "'n writer \<Rightarrow> (nat \<Rightarrow> 'n) \<Rightarrow> 'n prepared_assessment \<Rightarrow> (string, unit) res" where
  "validate_prepared_set W I p =
     res_bind (validate_header p) (\<lambda>_.
       if pa_decisions p = [] then Inl ''Model preparation requires at least one decision.''
       else
         res_bind (validate_names (pa_decisions p) None) (\<lambda>_.
         res_bind (measure_prepared_assessment W I p) (\<lambda>_. Inr ())))"

definition prepared_new ::
  "'n writer \<Rightarrow> (nat \<Rightarrow> 'n) \<Rightarrow> string \<Rightarrow> evaluation_budget \<Rightarrow> nat \<Rightarrow> 'n prepared_block list
     \<Rightarrow> (string, 'n prepared_assessment) res" where
  "prepared_new W I profile budget work blocks =
     (let p = \<lparr>pa_version = PREPARED_ASSESSMENT_VERSION, pa_profile = profile, pa_budget = budget,
          pa_work = work, pa_decisions = blocks\<rparr>
      in res_bind (validate_prepared_set W I p) (\<lambda>_. Inr p))"

definition prepared_for_declarations ::
  "'n writer \<Rightarrow> (nat \<Rightarrow> 'n) \<Rightarrow> 'n prepared_assessment \<Rightarrow> ('n, 'f) decision_block list \<Rightarrow> (string, unit) res" where
  "prepared_for_declarations W I p declarations =
     res_bind (validate_prepared_set W I p) (\<lambda>_.
     res_bind (validate_declarations declarations) (\<lambda>_.
       if length (pa_decisions p) \<noteq> length declarations
          \<or> list_ex (\<lambda>(b, d). pb_decision b \<noteq> block_name d) (zip (pa_decisions p) declarations)
       then Inl ''Prepared decisions must match the exact declaration order.''
       else Inr ()))"

definition check_append ::
  "'n writer \<Rightarrow> (nat \<Rightarrow> 'n) \<Rightarrow> 'n prepared_assessment \<Rightarrow> 'n prepared_block \<Rightarrow> (string, json_measurement) res" where
  "check_append W I p following =
     res_bind (validate_header p) (\<lambda>_.
     res_bind (validate_names (pa_decisions p) (Some following)) (\<lambda>_.
     measure_prepared_assessment_with_block W I p following))"

definition try_push ::
  "'n writer \<Rightarrow> (nat \<Rightarrow> 'n) \<Rightarrow> 'n prepared_assessment \<Rightarrow> 'n prepared_block \<Rightarrow> (string, 'n prepared_assessment) res" where
  "try_push W I p following =
     res_bind (check_append W I p following) (\<lambda>_. Inr (p\<lparr>pa_decisions := pa_decisions p @ [following]\<rparr>))"

definition bounded_preparation_record ::
  "'n writer \<Rightarrow> (nat \<Rightarrow> 'n) \<Rightarrow> 'n preparation_record \<Rightarrow> 'n preparation_record" where
  "bounded_preparation_record W I r =
     (case measure_json W (preparation_record_serde I r) PREPARATION_LIMITS of
        Inr _ \<Rightarrow> r
      | Inl _ \<Rightarrow> RecordRejected \<lparr>pf_code = PreparationResourceLimit,
           pf_detail = ''The saved preparation exceeds the local record limit. The model request was not sent.'',
           pf_report = None, pf_context = no_context\<rparr>)"

section \<open>Building a set block by block\<close>

lemma names_loop_iff:
  "names_loop names bs = Inr () \<longleftrightarrow>
     list_all (\<lambda>b. is_identifier (pb_decision b)) bs \<and> distinct (map pb_decision bs)
     \<and> names \<inter> pb_decision ` set bs = {}"
  by (induction bs arbitrary: names) auto

lemma prepared_for_declarations_names:
  assumes "prepared_for_declarations W I p declarations = Inr ()"
  shows "map pb_decision (pa_decisions p) = map block_name declarations"
    and "validate_for_resume (pa_budget p) = Inr ()"
proof -
  have len: "length (pa_decisions p) = length declarations"
    and each: "\<not> list_ex (\<lambda>(b, d). pb_decision b \<noteq> block_name d) (zip (pa_decisions p) declarations)"
    and valid: "validate_header p = Inr ()"
    using assms by (auto simp: prepared_for_declarations_def validate_prepared_set_def split: if_splits)
  show "map pb_decision (pa_decisions p) = map block_name declarations"
  proof (rule nth_equalityI)
    show "length (map pb_decision (pa_decisions p)) = length (map block_name declarations)" using len by simp
    fix i assume "i < length (map pb_decision (pa_decisions p))"
    then have i: "i < length (pa_decisions p)" by simp
    then have "(pa_decisions p ! i, declarations ! i) \<in> set (zip (pa_decisions p) declarations)"
      using len by (auto simp: set_zip)
    with each have "pb_decision (pa_decisions p ! i) = block_name (declarations ! i)" by (auto simp: list_ex_iff)
    then show "map pb_decision (pa_decisions p) ! i = map block_name declarations ! i" using i len by simp
  qed
  show "validate_for_resume (pa_budget p) = Inr ()"
    using valid by (auto simp: validate_header_def split: if_splits)
qed

text \<open>
  A push accepts exactly what the complete check accepts of the longer set, and measures
  the same record.
\<close>

lemma push_measures: "ready_view I p (Some b) = ready_view I (p\<lparr>pa_decisions := pa_decisions p @ [b]\<rparr>) None"
  by (simp add: ready_view_def)

lemma try_push_iff:
  "try_push W I p b = Inr p' \<longleftrightarrow>
     p' = p\<lparr>pa_decisions := pa_decisions p @ [b]\<rparr> \<and> validate_prepared_set W I p' = Inr ()"
  by (auto simp: try_push_def check_append_def validate_prepared_set_def validate_header_def validate_names_def
      measure_prepared_assessment_def measure_prepared_assessment_with_block_def push_measures)

fun push_all ::
  "'n writer \<Rightarrow> (nat \<Rightarrow> 'n) \<Rightarrow> 'n prepared_assessment \<Rightarrow> 'n prepared_block list \<Rightarrow> (string, 'n prepared_assessment) res" where
  "push_all W I p [] = Inr p"
| "push_all W I p (b # bs) = res_bind (try_push W I p b) (\<lambda>p. push_all W I p bs)"

lemma push_all_blocks:
  "push_all W I p bs = Inr p' \<Longrightarrow> p' = p\<lparr>pa_decisions := pa_decisions p @ bs\<rparr>
     \<and> (bs \<noteq> [] \<longrightarrow> validate_prepared_set W I p' = Inr ())"
proof (induction bs arbitrary: p)
  case (Cons b bs)
  then obtain q where q: "try_push W I p b = Inr q" "push_all W I q bs = Inr p'" by auto
  from q(1) have "q = p\<lparr>pa_decisions := pa_decisions p @ [b]\<rparr>" "validate_prepared_set W I (p\<lparr>pa_decisions := pa_decisions p @ [b]\<rparr>) = Inr ()"
    by (auto simp: try_push_iff)
  with Cons.IH [OF q(2)] q(2) show ?case by (cases bs) auto
qed simp

end
