(* ===== verification/Requirements.thy ===== *)
theory Requirements
  imports Results
begin

text \<open>
  \<open>compiler/requirements.rs\<close>, \<open>question_requirements\<close> of \<open>compiler.rs\<close> and
  \<open>results/capacity.rs\<close>: which details of an answer the actions of a check can read, and the
  size reserved for a complete result before a decision is dispatched.
\<close>

section \<open>The reads of an expression\<close>

record details_read =
  dr_probabilities :: bool
  dr_confidence :: bool

definition no_details :: details_read where
  "no_details = \<lparr>dr_probabilities = False, dr_confidence = False\<rparr>"

definition merge_reads :: "details_read \<Rightarrow> details_read \<Rightarrow> details_read" where
  "merge_reads a b =
     \<lparr>dr_probabilities = (dr_probabilities a \<or> dr_probabilities b), dr_confidence = (dr_confidence a \<or> dr_confidence b)\<rparr>"

datatype decision_node =
    RecDecisions | RecDecision | RecOutputs | RecDetails | RecQuestionDetails | RecProbabilities

datatype selected_value =
    SelOther
  | SelScalar details_read
  | SelRecord decision_node
  | SelArray selected_value
  | SelAlternatives "selected_value list"

record read_target =
  target_decision :: string
  target_question :: named_question

definition target_kind :: "read_target \<Rightarrow> question_kind" where
  "target_kind t = question_kind_of (q_question (target_question t))"

definition target_details :: "read_target \<Rightarrow> details_read" where
  "target_details t = \<lparr>dr_probabilities = (target_kind t \<noteq> KindNoul), dr_confidence = (target_kind t \<noteq> KindNoul)\<rparr>"

definition scalar_probabilities :: selected_value where
  "scalar_probabilities = SelScalar \<lparr>dr_probabilities = True, dr_confidence = False\<rparr>"

definition scalar_confidence :: selected_value where
  "scalar_confidence = SelScalar \<lparr>dr_probabilities = False, dr_confidence = True\<rparr>"

fun details_of :: "read_target \<Rightarrow> selected_value \<Rightarrow> details_read" where
  "details_of t SelOther = no_details"
| "details_of t (SelRecord RecOutputs) = no_details"
| "details_of t (SelScalar reads) = reads"
| "details_of t (SelRecord RecProbabilities) = \<lparr>dr_probabilities = True, dr_confidence = False\<rparr>"
| "details_of t (SelRecord _) = target_details t"
| "details_of t (SelArray item) = details_of t item"
| "details_of t (SelAlternatives items) = fold (\<lambda>item reads. merge_reads reads (details_of t item)) items no_details"

definition has_label :: "read_target \<Rightarrow> string \<Rightarrow> bool" where
  "has_label t label \<longleftrightarrow>
     (case q_question (target_question t) of Choice _ criteria \<Rightarrow> list_ex (\<lambda>(name, _). name = label) criteria | _ \<Rightarrow> False)"

definition record_property :: "read_target \<Rightarrow> decision_node \<Rightarrow> string \<Rightarrow> selected_value" where
  "record_property t node key =
     (case node of
        RecDecisions \<Rightarrow> if key = target_decision t then SelRecord RecDecision else SelOther
      | RecDecision \<Rightarrow>
          if key = ''outputs'' then SelRecord RecOutputs
          else if key = ''details'' then SelRecord RecDetails else SelOther
      | RecOutputs \<Rightarrow> SelOther
      | RecDetails \<Rightarrow> if key = q_name (target_question t) then SelRecord RecQuestionDetails else SelOther
      | RecQuestionDetails \<Rightarrow>
          if key = ''probabilities'' \<and> target_kind t \<noteq> KindNoul then SelRecord RecProbabilities
          else if key = ''confidence'' \<and> target_kind t \<noteq> KindNoul then scalar_confidence else SelOther
      | RecProbabilities \<Rightarrow>
          if has_label t key \<or> target_kind t = KindScore \<and> key = ''length'' then scalar_probabilities else SelOther)"

fun sel_property :: "read_target \<Rightarrow> string \<Rightarrow> selected_value \<Rightarrow> selected_value" where
  "sel_property t key (SelRecord node) = record_property t node key"
| "sel_property t key (SelAlternatives items) = SelAlternatives (map (sel_property t key) items)"
| "sel_property t key (SelArray item) = (if key = ''length'' then SelScalar (details_of t item) else SelOther)"
| "sel_property t key _ = SelOther"

fun sel_index :: "read_target \<Rightarrow> selected_value \<Rightarrow> selected_value" where
  "sel_index t (SelArray item) = item"
| "sel_index t (SelAlternatives items) = SelAlternatives (map (sel_index t) items)"
| "sel_index t (SelRecord node) =
     (if node = RecProbabilities \<and> target_kind t = KindScore then SelScalar (details_of t (SelRecord node)) else SelOther)"
| "sel_index t _ = SelOther"

fun sel_dynamic :: "read_target \<Rightarrow> selected_value \<Rightarrow> selected_value" where
  "sel_dynamic t (SelRecord RecProbabilities) = SelScalar (details_of t (SelRecord RecProbabilities))"
| "sel_dynamic t (SelAlternatives items) = SelAlternatives (map (sel_dynamic t) items)"
| "sel_dynamic t v = sel_index t v"

fun sel_projection :: "read_target \<Rightarrow> selected_value \<Rightarrow> selected_value" where
  "sel_projection t (SelArray item) = item"
| "sel_projection t (SelRecord node) =
     (case node of
        RecDecisions \<Rightarrow> SelRecord RecDecision
      | RecDecision \<Rightarrow> SelAlternatives [SelRecord RecOutputs, SelRecord RecDetails]
      | RecOutputs \<Rightarrow> SelOther
      | RecDetails \<Rightarrow> SelRecord RecQuestionDetails
      | RecQuestionDetails \<Rightarrow>
          if target_kind t \<noteq> KindNoul then SelAlternatives [SelRecord RecProbabilities, scalar_confidence] else SelOther
      | RecProbabilities \<Rightarrow> SelScalar (details_of t (SelRecord RecProbabilities)))"
| "sel_projection t (SelAlternatives items) = SelAlternatives (map (sel_projection t) items)"
| "sel_projection t _ = SelOther"

fun path_step :: "read_target \<Rightarrow> path_segment \<Rightarrow> selected_value \<Rightarrow> selected_value" where
  "path_step t (PathProperty key) v = sel_property t key v"
| "path_step t (PathIndex _) v = sel_index t v"

text \<open>\<open>analyze\<close> and \<open>select\<close>: what an expression selects, and what it reads on the way.\<close>

fun analyze :: "read_target \<Rightarrow> 'n expression \<Rightarrow> selected_value \<times> details_read"
  and analyze_arguments :: "read_target \<Rightarrow> 'n expression list \<Rightarrow> details_read \<Rightarrow> details_read"
  and select_reads :: "read_target \<Rightarrow> selected_value \<Rightarrow> 'n access_segment list \<Rightarrow> details_read \<Rightarrow> selected_value \<times> details_read" where
  "analyze t (Literal _) = (SelOther, no_details)"
| "analyze t (Path path) =
     (fold (path_step t) (drop 1 path)
        (case path of PathProperty origin # _ \<Rightarrow> if origin = ''decisions'' then SelRecord RecDecisions else SelOther
         | _ \<Rightarrow> SelOther),
      no_details)"
| "analyze t (Access base segments) =
     (case analyze t base of (v, reads) \<Rightarrow> select_reads t v segments (merge_reads no_details reads))"
| "analyze t (Call _ arguments) = (SelOther, analyze_arguments t arguments no_details)"
| "analyze t (Not e) =
     (case analyze t e of (v, reads) \<Rightarrow> (SelOther, merge_reads (merge_reads no_details reads) (details_of t v)))"
| "analyze t (Binary operator left right) =
     (case (analyze t left, analyze t right) of
        ((lv, lr), (rv, rr)) \<Rightarrow>
          (let reads = merge_reads (merge_reads (merge_reads no_details lr) rr) (details_of t lv) in
           if operator = OpAnd \<or> operator = OpOr then (SelAlternatives [lv, rv], reads)
           else (SelOther, merge_reads reads (details_of t rv))))"
| "analyze_arguments t [] reads = reads"
| "analyze_arguments t (e # es) reads =
     (case analyze t e of (v, r) \<Rightarrow> analyze_arguments t es (merge_reads (merge_reads reads r) (details_of t v)))"
| "select_reads t v [] reads = (v, reads)"
| "select_reads t v (AProperty key # rest) reads = select_reads t (sel_property t key v) rest reads"
| "select_reads t v (AIndex _ # rest) reads = select_reads t (sel_index t v) rest reads"
| "select_reads t v (ADynamic selector # rest) reads =
     (case analyze t selector of
        (sv, r) \<Rightarrow>
          (let reads = merge_reads (merge_reads reads r) (details_of t sv) in
           select_reads t
             (case selector of Literal (LString key) \<Rightarrow> sel_property t key v | _ \<Rightarrow> sel_dynamic t v) rest reads))"
| "select_reads t v (AProjection # rest) reads =
     (case select_reads t (sel_projection t v) rest reads of (selected, reads) \<Rightarrow> (SelArray selected, reads))"

definition inspect_reads :: "read_target \<Rightarrow> 'n expression \<Rightarrow> question_requirements \<Rightarrow> question_requirements" where
  "inspect_reads t e r =
     (case analyze t e of
        (v, reads) \<Rightarrow>
          (let reads = merge_reads reads (details_of t v) in
           r\<lparr>req_probabilities := (req_probabilities r \<or> dr_probabilities reads),
             req_confidence := (req_confidence r \<or> dr_confidence reads)\<rparr>))"

section \<open>The requirements of a check\<close>

text \<open>\<open>visit_expressions\<close>: the expressions of a template in the order of the visit.\<close>

fun condition_expressions :: "'n condition option \<Rightarrow> 'n expression list" where
  "condition_expressions (Some (CondExpression e)) = [e]"
| "condition_expressions _ = []"

fun part_expressions :: "'n template_part \<Rightarrow> 'n expression list" where
  "part_expressions (PartExpression e) = [e]"
| "part_expressions (PartLiteral _) = []"

fun template_expressions :: "'n input_template \<Rightarrow> 'n expression list" where
  "template_expressions (TplLiteral _) = []"
| "template_expressions (TplExpression e) = [e]"
| "template_expressions (TplText parts) = concat (map part_expressions parts)"
| "template_expressions (TplSequence items) = concat (map template_expressions items)"
| "template_expressions (TplObject items) = concat (map (\<lambda>(_, v). template_expressions v) items)"
| "template_expressions (TplMap collection _ condition v) =
     collection # condition_expressions condition @ template_expressions v"

definition action_expressions :: "'n status_action \<Rightarrow> 'n expression list" where
  "action_expressions action =
     condition_expressions (act_condition action)
     @ (case act_result action of ResultExpression e \<Rightarrow> [e] | ResultLiteral _ \<Rightarrow> [])
     @ (case act_message action of Some template \<Rightarrow> template_expressions template | None \<Rightarrow> [])"

definition question_requirement :: "'n status_action list \<Rightarrow> ('n, 'f) decision_block \<Rightarrow> named_question \<Rightarrow> question_requirements" where
  "question_requirement actions decision question =
     fold (inspect_reads \<lparr>target_decision = block_name decision, target_question = question\<rparr>)
       (concat (map action_expressions actions))
       \<lparr>req_decision = block_name decision, req_question = q_name question,
        req_kind = question_kind_of (q_question question),
        req_criteria_count = criteria_count (q_question question),
        req_probabilities = False, req_confidence = False\<rparr>"

definition check_requirements :: "('n, 'f) compiled_check \<Rightarrow> question_requirements list" where
  "check_requirements check =
     concat (map (\<lambda>d. map (question_requirement (check_actions check) d) (block_outputs d)) (check_decisions check))"

section \<open>The capacity of a result\<close>

definition NUMBER_RESERVATION :: string where
  "NUMBER_RESERVATION = replicate 32 (CHR ''0'')"

text \<open>
  \<open>max_by_key\<close> on the length of the label: the last of the longest. Requirements that were
  admitted have criteria, so the error for a choice without any is not reached.
\<close>

fun longest_label :: "(string \<times> string) list \<Rightarrow> string" where
  "longest_label [] = []"
| "longest_label [(label, _)] = label"
| "longest_label ((label, _) # criteria) =
     (if length label \<le> length (longest_label criteria) then longest_label criteria else label)"

fun question_capacity :: "question \<Rightarrow> 'n serde_value" where
  "question_capacity (Choice _ criteria) =
     SvStruct [(''type'', SvStr ''choice''), (''output'', SvStr (longest_label criteria)),
       (''probabilities'', SvMap (map (\<lambda>(label, _). (label, SvStr NUMBER_RESERVATION)) criteria)),
       (''confidence'', SvStr NUMBER_RESERVATION)]"
| "question_capacity (Score _ criteria) =
     SvStruct [(''type'', SvStr ''score''), (''output'', SvStr NUMBER_RESERVATION),
       (''probabilities'', SvSeq (map (\<lambda>_. SvStr NUMBER_RESERVATION) criteria)),
       (''confidence'', SvStr NUMBER_RESERVATION)]"
| "question_capacity (Noul _) =
     SvStruct [(''type'', SvStr ''noul''), (''output'', SvStr NUMBER_RESERVATION)]"

definition answer_capacity :: "named_question \<Rightarrow> 'n serde_value" where
  "answer_capacity q = SvStruct [(''name'', SvStr (q_name q)), (''result'', question_capacity (q_question q))]"

definition decision_capacity :: "(nat \<Rightarrow> 'n) \<Rightarrow> ('n, 'f) decision_block \<Rightarrow> 'n serde_value" where
  "decision_capacity I d =
     SvStruct [(''decision'', SvStr (block_name d)),
       (''answers'', SvSeq (map answer_capacity (block_outputs d))), (''attempts'', SvInteger (I 2))]"

definition assessment_capacity :: "(nat \<Rightarrow> 'n) \<Rightarrow> ('n, 'f) decision_block list \<Rightarrow> 'n serde_value" where
  "assessment_capacity I declarations =
     SvStruct [(''version'', SvInteger (I RESULT_VERSION)),
       (''decisions'', SvSeq (map (decision_capacity I) declarations)),
       (''attempts'', SvInteger (I u64_max))]"

definition measure_result_capacity ::
  "'n writer \<Rightarrow> (nat \<Rightarrow> 'n) \<Rightarrow> ('n, 'f) decision_block list \<Rightarrow> question_requirements list
     \<Rightarrow> (string, json_measurement) res" where
  "measure_result_capacity W I declarations requirements =
     res_bind (validate_requirements declarations requirements) (\<lambda>_.
     res_map_err bounded_error_text (measure_json W (assessment_capacity I declarations) RESULT_LIMITS))"

section \<open>The requirements of a check are admitted\<close>

text \<open>A \<open>noul\<close> question has no details, and no expression appears to read any.\<close>

fun quiet :: "selected_value \<Rightarrow> bool" where
  "quiet SelOther \<longleftrightarrow> True"
| "quiet (SelScalar reads) \<longleftrightarrow> reads = no_details"
| "quiet (SelRecord node) \<longleftrightarrow> node \<noteq> RecProbabilities"
| "quiet (SelArray item) \<longleftrightarrow> quiet item"
| "quiet (SelAlternatives items) \<longleftrightarrow> list_all quiet items"

lemma merge_no_details [simp]: "merge_reads no_details r = r" "merge_reads r no_details = r"
  by (simp_all add: merge_reads_def no_details_def)

lemma fold_no_details: "\<forall>v \<in> set items. details_of t v = no_details \<Longrightarrow>
    fold (\<lambda>item reads. merge_reads reads (details_of t item)) items r = r"
  by (induction items arbitrary: r) auto

lemma quiet_details: "target_kind t = KindNoul \<Longrightarrow> quiet v \<Longrightarrow> details_of t v = no_details"
  by (induction t v rule: details_of.induct)
    (auto simp: fold_no_details list_all_iff target_details_def no_details_def)

lemma quiet_record: "target_kind t = KindNoul \<Longrightarrow> node \<noteq> RecProbabilities \<Longrightarrow> quiet (record_property t node key)"
  by (simp add: record_property_def split: decision_node.split)

lemma quiet_property: "target_kind t = KindNoul \<Longrightarrow> quiet v \<Longrightarrow> quiet (sel_property t key v)"
  by (induction t key v rule: sel_property.induct) (simp_all add: list_all_iff quiet_record quiet_details)

lemma quiet_index: "quiet v \<Longrightarrow> quiet (sel_index t v)"
  by (induction t v rule: sel_index.induct) (simp_all add: list_all_iff)

lemma quiet_dynamic: "quiet v \<Longrightarrow> quiet (sel_dynamic t v)"
  by (induction t v rule: sel_dynamic.induct) (simp_all add: list_all_iff)

lemma quiet_projection: "target_kind t = KindNoul \<Longrightarrow> quiet v \<Longrightarrow> quiet (sel_projection t v)"
  by (induction t v rule: sel_projection.induct) (simp_all add: list_all_iff split: decision_node.split)

lemma quiet_path_step: "target_kind t = KindNoul \<Longrightarrow> quiet v \<Longrightarrow> quiet (path_step t s v)"
  by (cases s) (simp_all add: quiet_property quiet_index)

lemmas quiet_select = quiet_property quiet_index quiet_dynamic quiet_projection quiet_path_step

lemma quiet_path: "target_kind t = KindNoul \<Longrightarrow> quiet v \<Longrightarrow> quiet (fold (path_step t) path v)"
  by (induction path arbitrary: v) (simp_all add: quiet_select)

lemma quiet_analyze:
  fixes e :: "'n expression" and es :: "'n expression list" and segments :: "'n access_segment list"
  assumes "target_kind t = KindNoul"
  shows "quiet (fst (analyze t e)) \<and> snd (analyze t e) = no_details"
    and "analyze_arguments t es reads = reads"
    and "quiet v \<Longrightarrow> quiet (fst (select_reads t v segments reads)) \<and> snd (select_reads t v segments reads) = reads"
proof -
  have "target_kind t = KindNoul \<Longrightarrow> quiet (fst (analyze t e)) \<and> snd (analyze t e) = no_details"
    "target_kind t = KindNoul \<Longrightarrow> analyze_arguments t es reads = reads"
    "target_kind t = KindNoul \<Longrightarrow> quiet v
       \<Longrightarrow> quiet (fst (select_reads t v segments reads)) \<and> snd (select_reads t v segments reads) = reads"
    for t and e :: "'n expression" and es :: "'n expression list" and segments :: "'n access_segment list"
      and v reads
  proof (induction t e and t es reads and t v segments reads rule: analyze_analyze_arguments_select_reads.induct)
    case (2 t path)
    then show ?case by (cases path; cases "hd path") (auto simp: quiet_path)
  qed (auto simp: quiet_select quiet_details Let_def split: prod.splits expression.splits expression_literal.splits)
  then show "quiet (fst (analyze t e)) \<and> snd (analyze t e) = no_details"
    and "analyze_arguments t es reads = reads"
    and "quiet v \<Longrightarrow> quiet (fst (select_reads t v segments reads)) \<and> snd (select_reads t v segments reads) = reads"
    using assms by auto
qed

text \<open>The reads only set the two details, and a \<open>noul\<close> question sets neither.\<close>

lemma inspect_reads_fields:
  "req_decision (inspect_reads t e r) = req_decision r" "req_question (inspect_reads t e r) = req_question r"
  "req_kind (inspect_reads t e r) = req_kind r" "req_criteria_count (inspect_reads t e r) = req_criteria_count r"
  by (simp_all add: inspect_reads_def Let_def split: prod.splits)

lemma inspect_reads_quiet: "target_kind t = KindNoul \<Longrightarrow> inspect_reads t e r = r"
  using quiet_analyze(1) [of t e] quiet_details [of t "fst (analyze t e)"]
  by (simp add: inspect_reads_def Let_def split_beta no_details_def merge_reads_def)

lemma fold_inspect_fields:
  "req_decision (fold (inspect_reads t) es r) = req_decision r" "req_question (fold (inspect_reads t) es r) = req_question r"
  "req_kind (fold (inspect_reads t) es r) = req_kind r"
  "req_criteria_count (fold (inspect_reads t) es r) = req_criteria_count r"
  by (induction es arbitrary: r) (simp_all add: inspect_reads_fields)

lemma fold_inspect_quiet: "target_kind t = KindNoul \<Longrightarrow> fold (inspect_reads t) es r = r"
  by (induction es arbitrary: r) (simp_all add: inspect_reads_quiet)

lemma question_requirement_fits: "requirement_fits (question_requirement actions d q) (block_name d) q"
proof (cases "question_kind_of (q_question q) = KindNoul")
  case True
  then show ?thesis
    by (simp add: requirement_fits_def question_requirement_def fold_inspect_quiet target_kind_def)
qed (simp add: requirement_fits_def question_requirement_def fold_inspect_fields)

lemma question_requirement_key:
  "req_decision (question_requirement actions d q) = block_name d"
  "req_question (question_requirement actions d q) = q_name q"
  using question_requirement_fits [of actions d q] by (simp_all add: requirement_fits_def)

lemma requirement_keys: "map req_key (check_requirements check) = map fst (declared_questions (check_decisions check))"
  by (simp add: check_requirements_def declared_questions_def map_concat comp_def question_requirement_key)

text \<open>
  C39. The requirements that a check derives from the expressions of its actions are accepted
  exactly when its decision declarations are valid, and otherwise fail with the error of the
  declarations: they name every declared question once with its kind and criteria count, and
  no expression, however it selects from \<open>decisions\<close>, makes them ask a \<open>noul\<close> question for
  probabilities or confidence.
\<close>

theorem derived_requirements_admitted:
  "validate_requirements (check_decisions check) (check_requirements check)
     = validate_declarations (check_decisions check)"
proof (cases "validate_declarations (check_decisions check)")
  case (Inl e)
  then show ?thesis by (simp add: validate_requirements_def)
next
  case (Inr u)
  then have valid: "list_all block_ok (check_decisions check)" "distinct (map block_name (check_decisions check))"
    using validate_declarations_iff [of "check_decisions check"] by simp_all
  have "distinct (map req_key (check_requirements check))"
    using distinct_declared [OF valid] by (simp add: requirement_keys)
  moreover have "set (map req_key (check_requirements check))
      = {(block_name b, q_name q) | b q. b \<in> set (check_decisions check) \<and> q \<in> set (block_outputs b)}"
    unfolding requirement_keys by (force simp: declared_questions_def)
  moreover have "list_all (\<lambda>r. list_ex (\<lambda>b. list_ex (requirement_fits r (block_name b)) (block_outputs b))
      (check_decisions check)) (check_requirements check)"
    using question_requirement_fits [of "check_actions check"]
    by (fastforce simp: list_all_iff list_ex_iff check_requirements_def)
  ultimately have "validate_requirements (check_decisions check) (check_requirements check) = Inr ()"
    using valid validate_requirements_exact [of "check_decisions check" "check_requirements check"] by blast
  with Inr show ?thesis by simp
qed

end
