(* ===== verification/Model_Run.thy ===== *)
theory Model_Run
  imports Progress Requirements Actions Prepared Scheduler
begin

text \<open>
  \<open>engine/model.rs\<close>: the task that evaluates the decisions of one claimed candidate. The store
  and the evaluator are records of functions on a world \<open>'w\<close>; a future is the value it
  resolves to, and the yield between two attempts has no effect. The calls that matter are
  logged in the order the code makes them. The store's mutex keeps other tasks out of the
  scheduler during the one update this task makes.
\<close>

section \<open>The store and the evaluator\<close>

datatype claim_outcome = ClaimCurrent | ClaimStale
datatype acceptance_outcome = AcceptAccepted | AcceptDeferred | AcceptStale | AcceptAlready
datatype attempt_failure = FailSafeTransient | FailUnknown | FailPermanent
datatype validation_purpose = PurposeDispatch | PurposePublication

datatype evaluation_failure_code =
    CodeAuthenticationRejected | CodeRateLimited | CodeProviderOverloaded | CodeProviderUnavailable
  | CodeDeliveryUnknown | CodeInvalidResponse | CodeContextRejected | CodeInvalidRequest
  | CodeCancelled | CodeStorageFailure | CodeInvalidDecision | CodeActionFailed

record evaluation_failure =
  ef_code :: evaluation_failure_code
  ef_kind :: attempt_failure
  ef_detail :: string
  ef_attempts :: nat

record evaluation_diagnostic =
  ed_code :: evaluation_failure_code
  ed_detail :: string

record 'n decision_input =
  di_decision :: string
  di_input :: "'n json"

record 'n assessment_acceptance =
  ac_claimed :: "'n claimed_candidate"
  ac_evaluated :: evaluated_assessment
  ac_actions :: action_plan

datatype 'n candidate_claim = ClaimClaimed "'n claimed_candidate" | ClaimNotDue nat | ClaimRejected

record ('n, 'w) check_store =
  st_release_claim :: "'n claimed_candidate \<Rightarrow> ('w, string, claim_outcome) ev"
  st_claim_due :: "'n frozen_candidate \<Rightarrow> nat \<Rightarrow> bool \<Rightarrow> ('w, string, 'n candidate_claim) ev"
  st_load_progress :: "'n claimed_candidate \<Rightarrow> ('w, string, decision_progress) ev"
  st_load_preparation :: "'n claimed_candidate \<Rightarrow> ('w, string, 'n preparation_record option) ev"
  st_record_preparation :: "'n claimed_candidate \<Rightarrow> 'n preparation_record \<Rightarrow> ('w, string, claim_outcome) ev"
  st_record_local_start :: "'n claimed_candidate \<Rightarrow> nat \<Rightarrow> nat \<Rightarrow> local_preparation \<Rightarrow> ('w, string, claim_outcome) ev"
  st_record_rejection :: "'n claimed_candidate \<Rightarrow> preparation_failure \<Rightarrow> ('w, string, claim_outcome) ev"
  st_record_intent :: "'n claimed_candidate \<Rightarrow> nat \<Rightarrow> nat \<Rightarrow> decision_attempt \<Rightarrow> ('w, string, claim_outcome) ev"
  st_record_attempt_failure ::
    "'n claimed_candidate \<Rightarrow> decision_attempt \<Rightarrow> attempt_failure \<Rightarrow> evaluation_diagnostic \<Rightarrow> ('w, string, claim_outcome) ev"
  st_record_answer :: "'n claimed_candidate \<Rightarrow> decision_attempt \<Rightarrow> decision_result \<Rightarrow> ('w, string, claim_outcome) ev"
  st_accept :: "'n assessment_acceptance \<Rightarrow> ('w, string, acceptance_outcome) ev"
  st_record_evaluation_failure :: "'n claimed_candidate \<Rightarrow> evaluation_diagnostic \<Rightarrow> ('w, string, claim_outcome) ev"
  st_record_not_assessed :: "'n claimed_candidate \<Rightarrow> string \<Rightarrow> ('w, string, claim_outcome) ev"

record ('n, 'f, 'w) decision_evaluator =
  dv_local_current :: "('n, 'f) effective_activation \<Rightarrow> 'w \<Rightarrow> bool \<times> 'w"
  dv_prepare ::
    "('n, 'f) effective_activation \<Rightarrow> 'n decision_input list \<Rightarrow> evaluation_budget
       \<Rightarrow> ('w, preparation_failure, 'n prepared_assessment) ev"
  dv_recorded :: "'n preparation_record \<Rightarrow> 'w \<Rightarrow> 'w"
  dv_validate ::
    "('n, 'f) effective_activation \<Rightarrow> 'n prepared_assessment \<Rightarrow> validation_purpose
       \<Rightarrow> ('w, preparation_failure, unit) ev"
  dv_evaluate ::
    "('n, 'f) effective_activation \<Rightarrow> 'n frozen_candidate \<Rightarrow> 'n prepared_assessment \<Rightarrow> decision_attempt
       \<Rightarrow> ('w, evaluation_failure, decision_result) ev"

text \<open>The functions of \<open>serde_json\<close> that the engine reaches.\<close>

record 'n engine_lib =
  lib_writer :: "'n writer"
  lib_int :: "nat \<Rightarrow> 'n"
  lib_float :: "f64 \<Rightarrow> 'n option"
  lib_json :: "'n json_lib"

section \<open>Outcomes and the log of calls\<close>

datatype run_outcome =
    RunAccepted | RunDeferred | RunStale | RunSkipped | RunNotAssessed string | RunFailed string | RunLimitReached

record task_error =
  te_source :: string
  te_attempts :: nat
  te_new_intents :: nat
  te_uncertain :: bool

record run_settlement =
  se_outcome :: run_outcome
  se_attempts :: nat
  se_new_intents :: nat

text \<open>A call with \<open>None\<close> failed in the store.\<close>

datatype 'n engine_call =
    CallIntent decision_attempt "claim_outcome option"
  | CallSend decision_attempt
  | CallAnswer decision_attempt decision_result "claim_outcome option"
  | CallFailure decision_attempt attempt_failure "claim_outcome option"
  | CallAccept "'n assessment_acceptance" "acceptance_outcome option"
  | CallEnd "claim_outcome option"
  | CallRelease "'n claimed_candidate" "claim_outcome option"

record ('n, 'w) engine_io =
  io_world :: 'w
  io_calls :: "'n engine_call list"

datatype engine_failure = StoreFailed string | EnginePanic

type_synonym ('n, 'w, 'r, 'a) storing = "(('n, 'w, 'r) engine_io_scheme, engine_failure, 'a) ev"

definition store_call :: "('w, string, 'a) ev \<Rightarrow> ('a option \<Rightarrow> 'n engine_call list) \<Rightarrow> ('n, 'w, 'r, 'a) storing" where
  "store_call m entry s =
     (case m (io_world s) of
        (Inl e, w) \<Rightarrow> (Inl (StoreFailed e), s\<lparr>io_world := w, io_calls := io_calls s @ entry None\<rparr>)
      | (Inr a, w) \<Rightarrow> (Inr a, s\<lparr>io_world := w, io_calls := io_calls s @ entry (Some a)\<rparr>))"

definition evaluator_call :: "('w \<Rightarrow> 'a \<times> 'w) \<Rightarrow> 'n engine_call list \<Rightarrow> ('n, 'w, 'r, 'a) storing" where
  "evaluator_call m entry s =
     (case m (io_world s) of (a, w) \<Rightarrow> (Inr a, s\<lparr>io_world := w, io_calls := io_calls s @ entry\<rparr>))"

definition stale_or :: "run_outcome \<Rightarrow> claim_outcome \<Rightarrow> run_outcome" where
  "stale_or outcome recorded = (if recorded = ClaimStale then RunStale else outcome)"

section \<open>Answers\<close>

definition bounded_failure :: "'n engine_lib \<Rightarrow> preparation_failure \<Rightarrow> preparation_failure option" where
  "bounded_failure E failure =
     (case bounded_preparation_record (lib_writer E) (lib_int E) (RecordRejected failure) of
        RecordRejected f \<Rightarrow> Some f
      | _ \<Rightarrow> None)"

fun terminal_diagnostic :: "progress_terminal \<Rightarrow> evaluation_diagnostic" where
  "terminal_diagnostic UnresolvedIntent = \<lparr>ed_code = CodeDeliveryUnknown,
     ed_detail = ''An earlier decision dispatch has no settled delivery outcome. Automatic retry is blocked.''\<rparr>"
| "terminal_diagnostic TerminalUnknown = \<lparr>ed_code = CodeDeliveryUnknown,
     ed_detail = ''Decision delivery is unknown. Automatic retry is blocked.''\<rparr>"
| "terminal_diagnostic TerminalPermanent = \<lparr>ed_code = CodeInvalidDecision,
     ed_detail = ''Decision evaluation failed permanently.''\<rparr>"
| "terminal_diagnostic AttemptsExhausted = \<lparr>ed_code = CodeProviderUnavailable,
     ed_detail = ''Decision retries are exhausted.''\<rparr>"

fun failure_outcome :: "attempt_failure \<Rightarrow> attempt_outcome" where
  "failure_outcome FailSafeTransient = AttemptSafeTransient"
| "failure_outcome FailUnknown = AttemptUnknown"
| "failure_outcome FailPermanent = AttemptPermanent"

text \<open>What one task works on.\<close>

record ('n, 'f, 'w) model_task =
  mt_store :: "('n, 'w) check_store"
  mt_evaluator :: "('n, 'f, 'w) decision_evaluator"
  mt_activation :: "('n, 'f) effective_activation"
  mt_candidate :: "'n frozen_candidate"
  mt_claimed :: "'n claimed_candidate"
  mt_prepared :: "'n prepared_assessment"
  mt_maximum :: nat
  mt_now :: nat
  mt_cooldown :: nat
  mt_policy :: execution_policy
  mt_key :: schedule_key

definition mt_decisions :: "('n, 'f, 'w) model_task \<Rightarrow> ('n, 'f) decision_block list" where
  "mt_decisions T = check_decisions (act_compiled (mt_activation T))"

definition mt_requirements :: "('n, 'f, 'w) model_task \<Rightarrow> question_requirements list" where
  "mt_requirements T = check_requirements (act_compiled (mt_activation T))"

definition saved_answers :: "decision_progress \<Rightarrow> decision_result list" where
  "saved_answers progress =
     List.map_filter (\<lambda>row. case row_outcome row of AttemptAnswer answer \<Rightarrow> Some answer | _ \<Rightarrow> None) progress"

text \<open>\<open>None\<close> is the \<open>expect\<close> that the attempt names a declared decision.\<close>

definition validate_answer ::
  "'n engine_lib \<Rightarrow> ('n, 'f, 'w) model_task \<Rightarrow> decision_attempt \<Rightarrow> decision_result \<Rightarrow> decision_progress
     \<Rightarrow> (evaluation_failure, decision_result) res option" where
  "validate_answer E T a answer progress =
     (let invalid = (\<lambda>detail. \<lparr>ef_code = CodeInvalidDecision, ef_kind = FailPermanent, ef_detail = detail,
            ef_attempts = attempt_number a\<rparr>) in
      map_option (\<lambda>block.
        res_bind (res_map_err invalid
            (validate_for_declaration (lib_writer E) (lib_int E) answer block (mt_requirements T))) (\<lambda>_.
          if result_attempts answer \<noteq> attempt_number a
          then Inl (invalid ''The answer attempt count does not match its durable intent.'')
          else res_bind (res_map_err invalid
                 (measure_decision_results_with_next (lib_writer E) (lib_int E) (saved_answers progress) answer))
               (\<lambda>_. Inr answer)))
        (find (\<lambda>b. block_name b = attempt_decision a) (mt_decisions T)))"

definition settle_decision_attempt ::
  "'n engine_lib \<Rightarrow> ('n, 'f, 'w) model_task \<Rightarrow> decision_attempt \<Rightarrow> (evaluation_failure, decision_result) res
     \<Rightarrow> decision_progress
     \<Rightarrow> ('n, 'w, 'r, claim_outcome \<times> attempt_outcome \<times> evaluation_diagnostic option) storing" where
  "settle_decision_attempt E T a evaluated progress =
     (case (case evaluated of Inl f \<Rightarrow> Some (Inl f) | Inr answer \<Rightarrow> validate_answer E T a answer progress) of
        None \<Rightarrow> ev_fail EnginePanic
      | Some (Inr answer) \<Rightarrow>
          ev_bind (store_call (st_record_answer (mt_store T) (mt_claimed T) a answer) (\<lambda>r. [CallAnswer a answer r]))
            (\<lambda>recorded. ev_return (recorded, AttemptAnswer answer, None))
      | Some (Inl f) \<Rightarrow>
          (let diagnostic = \<lparr>ed_code = ef_code f, ed_detail = ef_detail f\<rparr> in
           ev_bind (store_call (st_record_attempt_failure (mt_store T) (mt_claimed T) a (ef_kind f) diagnostic)
               (\<lambda>r. [CallFailure a (ef_kind f) r]))
             (\<lambda>recorded. ev_return (recorded, failure_outcome (ef_kind f), Some diagnostic))))"

section \<open>Publication\<close>

definition reject_preparation ::
  "'n engine_lib \<Rightarrow> ('n, 'w) check_store \<Rightarrow> 'n claimed_candidate \<Rightarrow> preparation_failure
     \<Rightarrow> ('n, 'w, 'r, claim_outcome \<times> preparation_failure) storing" where
  "reject_preparation E S claimed failure =
     (case bounded_failure E failure of
        None \<Rightarrow> ev_fail EnginePanic
      | Some f \<Rightarrow>
          ev_bind (store_call (st_record_rejection S claimed f) (\<lambda>r. [CallEnd r])) (\<lambda>recorded.
            ev_return (recorded, f)))"

fun accepted_outcome :: "acceptance_outcome \<Rightarrow> run_outcome" where
  "accepted_outcome AcceptAccepted = RunAccepted"
| "accepted_outcome AcceptAlready = RunAccepted"
| "accepted_outcome AcceptDeferred = RunDeferred"
| "accepted_outcome AcceptStale = RunStale"

definition publish_plan ::
  "'n engine_lib \<Rightarrow> ('n, 'f) compiled_check \<Rightarrow> 'n claimed_candidate \<Rightarrow> evaluated_assessment \<Rightarrow> evaluation_budget
     \<Rightarrow> (planning_failure, action_plan) res" where
  "publish_plan E compiled claimed evaluated budget =
     fst (plan_status_actions_with_budget (lib_float E) (lib_json E) (check_actions compiled)
       (context_value (cand_context (cl_candidate claimed))) evaluated (cl_prior_status claimed) (start_state budget))"

text \<open>The plan of the actions and its acceptance, or the record that it failed.\<close>

definition publish_actions ::
  "('n, 'w) check_store \<Rightarrow> 'n claimed_candidate \<Rightarrow> evaluated_assessment \<Rightarrow> (planning_failure, action_plan) res
     \<Rightarrow> ('n, 'w, 'r, run_outcome) storing" where
  "publish_actions S claimed evaluated plan =
     (case plan of
        Inl PlanningPanic \<Rightarrow> ev_fail EnginePanic
      | Inl (PlanningError _ message) \<Rightarrow>
          ev_bind (store_call (st_record_evaluation_failure S claimed
              \<lparr>ed_code = CodeActionFailed, ed_detail = message\<rparr>) (\<lambda>r. [CallEnd r]))
            (\<lambda>recorded. ev_return (stale_or (RunFailed message) recorded))
      | Inr actions \<Rightarrow>
          (let acceptance = \<lparr>ac_claimed = claimed, ac_evaluated = evaluated, ac_actions = actions\<rparr> in
           ev_bind (store_call (st_accept S acceptance) (\<lambda>r. [CallAccept acceptance r]))
             (\<lambda>out. ev_return (accepted_outcome out))))"

definition publish_model ::
  "'n engine_lib \<Rightarrow> ('n, 'w) check_store \<Rightarrow> ('n, 'f, 'w) decision_evaluator \<Rightarrow> ('n, 'f) effective_activation
     \<Rightarrow> 'n claimed_candidate \<Rightarrow> 'n prepared_assessment \<Rightarrow> evaluated_assessment \<Rightarrow> ('n, 'w, 'r, run_outcome) storing" where
  "publish_model E S V activation claimed prepared evaluated =
     ev_bind (evaluator_call (dv_validate V activation prepared PurposePublication) []) (\<lambda>checked.
       (case checked of
          Inl failure \<Rightarrow>
            ev_bind (reject_preparation E S claimed failure) (\<lambda>(recorded, f).
              ev_return (stale_or (RunNotAssessed (pf_detail f)) recorded))
        | Inr _ \<Rightarrow>
            publish_actions S claimed evaluated
              (publish_plan E (act_compiled activation) claimed evaluated (pa_budget prepared))))"

section \<open>The task\<close>

text \<open>\<open>rn_release\<close> and \<open>rn_safe\<close> are \<open>release_branch_on_drop\<close> and the presence of \<open>safe_release\<close>.\<close>

record ('n, 'f, 'w) run_state = "('n, 'w) engine_io" +
  rn_release :: bool
  rn_safe :: bool
  rn_sched :: "('n, 'f) scheduler"
  rn_attempts :: nat
  rn_intents :: nat

datatype task_failure = TaskFailed task_error | TaskPanic

type_synonym ('n, 'f, 'w, 'a) running = "(('n, 'f, 'w) run_state, task_failure, 'a) ev"

definition counts_error :: "('n, 'f, 'w) run_state \<Rightarrow> string \<Rightarrow> task_error" where
  "counts_error s source =
     \<lparr>te_source = source, te_attempts = rn_attempts s, te_new_intents = rn_intents s, te_uncertain = False\<rparr>"

definition task_fail :: "string \<Rightarrow> ('n, 'f, 'w, 'a) running" where
  "task_fail source s = (Inl (TaskFailed (counts_error s source)), s)"

definition counted :: "(('n, 'f, 'w) run_state, engine_failure, 'a) ev \<Rightarrow> ('n, 'f, 'w, 'a) running" where
  "counted m s =
     (case m s of
        (Inl (StoreFailed e), s) \<Rightarrow> task_fail e s
      | (Inl EnginePanic, s) \<Rightarrow> (Inl TaskPanic, s)
      | (Inr a, s) \<Rightarrow> (Inr a, s))"

definition current_progress ::
  "'n engine_lib \<Rightarrow> ('n, 'f, 'w) model_task \<Rightarrow> decision_progress \<Rightarrow> ('n, 'f, 'w, validated_progress) running" where
  "current_progress E T progress =
     (case validate_decision_progress (lib_writer E) (lib_int E) (mt_decisions T) (mt_requirements T) progress of
        Inl e \<Rightarrow> task_fail e
      | Inr v \<Rightarrow> ev_return v)"

datatype model_turn = TurnEnds run_outcome | TurnAgain saved_attempt "evaluation_diagnostic option"

text \<open>The send of a committed intent, and its settlement.\<close>

definition send_attempt ::
  "'n engine_lib \<Rightarrow> ('n, 'f, 'w) model_task \<Rightarrow> decision_progress \<Rightarrow> decision_attempt \<Rightarrow> ('n, 'f, 'w, model_turn) running" where
  "send_attempt E T progress a =
     ev_bind (counted (evaluator_call
         (dv_evaluate (mt_evaluator T) (mt_activation T) (mt_candidate T) (mt_prepared T) a) [CallSend a])) (\<lambda>evaluated.
     ev_bind (counted (settle_decision_attempt E T a evaluated progress)) (\<lambda>(recorded, outcome, diagnostic).
       if recorded = ClaimStale then ev_return (TurnEnds RunStale)
       else
         (let row = \<lparr>row_attempt = a, row_outcome = outcome\<rparr> in
          ev_bind (current_progress E T (progress @ [row])) (\<lambda>settled s.
            (Inr (TurnAgain row diagnostic),
             (case vp_state settled of
                ProgressNext _ _ \<Rightarrow> s\<lparr>rn_release := True\<rparr>
              | ProgressComplete _ \<Rightarrow> s\<lparr>rn_release := True, rn_safe := False\<rparr>
              | ProgressTerminal _ \<Rightarrow> s))))))"

text \<open>The durable intent; a failed write can have committed, so the branch stays reserved.\<close>

definition dispatch_attempt ::
  "'n engine_lib \<Rightarrow> ('n, 'f, 'w) model_task \<Rightarrow> decision_progress \<Rightarrow> bool \<Rightarrow> decision_attempt \<Rightarrow> ('n, 'f, 'w, model_turn) running" where
  "dispatch_attempt E T progress first a s =
     (case store_call (st_record_intent (mt_store T) (mt_claimed T) (mt_now T) (mt_cooldown T) a)
         (\<lambda>r. [CallIntent a r]) (s\<lparr>rn_release := False\<rparr>) of
        (Inl (StoreFailed e), s) \<Rightarrow> (Inl (TaskFailed ((counts_error s e)\<lparr>te_uncertain := True\<rparr>)), s)
      | (Inl EnginePanic, s) \<Rightarrow> (Inl TaskPanic, s)
      | (Inr ClaimStale, s) \<Rightarrow> (Inr (TurnEnds RunStale), s)
      | (Inr ClaimCurrent, s) \<Rightarrow>
          (let s = s\<lparr>rn_attempts := rn_attempts s + 1, rn_intents := rn_intents s + 1\<rparr>;
               s = (if first \<and> rn_attempts s = 1
                    then s\<lparr>rn_sched := mark_scheduler_started (mt_policy T) (mt_key T) (mt_now T) (mt_cooldown T) (rn_sched s)\<rparr>
                    else s)
           in send_attempt E T progress a s))"

definition next_turn ::
  "'n engine_lib \<Rightarrow> ('n, 'f, 'w) model_task \<Rightarrow> decision_progress \<Rightarrow> bool \<Rightarrow> decision_attempt \<Rightarrow> nat
     \<Rightarrow> ('n, 'f, 'w, model_turn) running" where
  "next_turn E T progress first a unfinished s =
     (let remaining = mt_maximum T - rn_intents s in
      if remaining = 0 \<or> first \<and> remaining < unfinished
      then ev_bind (counted (store_call (st_record_not_assessed (mt_store T) (mt_claimed T)
             ''Replay provider attempt limit reached.'') (\<lambda>r. [CallEnd r])))
             (\<lambda>recorded. ev_return (TurnEnds (stale_or RunLimitReached recorded))) s
      else
        ev_bind (counted (evaluator_call
            (dv_validate (mt_evaluator T) (mt_activation T) (mt_prepared T) PurposeDispatch) [])) (\<lambda>checked.
          (case checked of
             Inl failure \<Rightarrow>
               ev_bind (counted (reject_preparation E (mt_store T) (mt_claimed T) failure)) (\<lambda>(recorded, f).
                 ev_return (TurnEnds (stale_or (RunNotAssessed (pf_detail f)) recorded)))
           | Inr _ \<Rightarrow> dispatch_attempt E T progress first a)) s)"

text \<open>One pass of the loop of \<open>run_model\<close>.\<close>

definition model_turn ::
  "'n engine_lib \<Rightarrow> ('n, 'f, 'w) model_task \<Rightarrow> decision_progress \<Rightarrow> bool \<Rightarrow> evaluation_diagnostic option
     \<Rightarrow> ('n, 'f, 'w, model_turn) running" where
  "model_turn E T progress first last_failure =
     ev_bind (current_progress E T progress) (\<lambda>v s.
       if vp_attempts v \<noteq> rn_attempts s then task_fail ''saved attempt count changed during evaluation'' s
       else
         (case vp_state v of
            ProgressComplete evaluated \<Rightarrow>
              ev_bind (counted (publish_model E (mt_store T) (mt_evaluator T) (mt_activation T) (mt_claimed T)
                  (mt_prepared T) evaluated)) (\<lambda>out. ev_return (TurnEnds out))
                (s\<lparr>rn_release := True, rn_safe := False\<rparr>)
          | ProgressTerminal t \<Rightarrow>
              (let diagnostic = (case last_failure of Some d \<Rightarrow> d | None \<Rightarrow> terminal_diagnostic t) in
               ev_bind (counted (store_call (st_record_evaluation_failure (mt_store T) (mt_claimed T) diagnostic)
                   (\<lambda>r. [CallEnd r])))
                 (\<lambda>recorded. ev_return (TurnEnds (stale_or (RunFailed (ed_detail diagnostic)) recorded)))
                 (s\<lparr>rn_release := False\<rparr>))
          | ProgressNext a unfinished \<Rightarrow> next_turn E T progress first a unfinished s))"

text \<open>Another pass follows only when the rows leave an attempt open.\<close>

lemma counted_Inr: "counted m s = (Inr a, s') \<longleftrightarrow> m s = (Inr a, s')"
  by (auto simp: counted_def task_fail_def split: prod.splits sum.splits engine_failure.splits)

lemma ev_bind_Inr_cases:
  assumes "ev_bind m f s = (Inr b, s')"
  obtains a s1 where "m s = (Inr a, s1)" "f a s1 = (Inr b, s')"
  using assms by (auto simp: ev_bind_def split: prod.splits sum.splits)

lemma current_progress_Inr:
  "current_progress E T progress s = (Inr v, s') \<longleftrightarrow>
     validate_decision_progress (lib_writer E) (lib_int E) (mt_decisions T) (mt_requirements T) progress = Inr v \<and> s' = s"
  by (auto simp: current_progress_def task_fail_def split: sum.splits)

lemma model_turn_again:
  assumes "model_turn E T progress first last_failure s = (Inr (TurnAgain row d), s')"
  obtains v a n where
    "validate_decision_progress (lib_writer E) (lib_int E) (mt_decisions T) (mt_requirements T) progress = Inr v"
    "vp_state v = ProgressNext a n" "vp_attempts v = rn_attempts s"
    "next_turn E T progress first a n s = (Inr (TurnAgain row d), s')"
proof -
  from assms obtain v where
    v: "validate_decision_progress (lib_writer E) (lib_int E) (mt_decisions T) (mt_requirements T) progress = Inr v"
    and same: "vp_attempts v = rn_attempts s"
    and run: "(case vp_state v of
            ProgressComplete evaluated \<Rightarrow>
              ev_bind (counted (publish_model E (mt_store T) (mt_evaluator T) (mt_activation T) (mt_claimed T)
                  (mt_prepared T) evaluated)) (\<lambda>out. ev_return (TurnEnds out))
                (s\<lparr>rn_release := True, rn_safe := False\<rparr>)
          | ProgressTerminal t \<Rightarrow>
              (let diagnostic = (case last_failure of Some d \<Rightarrow> d | None \<Rightarrow> terminal_diagnostic t) in
               ev_bind (counted (store_call (st_record_evaluation_failure (mt_store T) (mt_claimed T) diagnostic)
                   (\<lambda>r. [CallEnd r])))
                 (\<lambda>recorded. ev_return (TurnEnds (stale_or (RunFailed (ed_detail diagnostic)) recorded)))
                 (s\<lparr>rn_release := False\<rparr>))
          | ProgressNext a unfinished \<Rightarrow> next_turn E T progress first a unfinished s) = (Inr (TurnAgain row d), s')"
    unfolding model_turn_def by (elim ev_bind_Inr_cases) (auto simp: current_progress_Inr task_fail_def split: if_splits)
  show ?thesis
  proof (cases "vp_state v")
    case (ProgressNext a n)
    with v same run show ?thesis by (intro that) auto
  qed (use run in \<open>auto simp: Let_def elim!: ev_bind_Inr_cases\<close>)
qed

lemma model_turn_open:
  "model_turn E T progress first last_failure s = (Inr (TurnAgain row d), s')
     \<Longrightarrow> length progress < 2 * length (mt_decisions T)"
  by (elim model_turn_again) (auto dest: validate_progressD(6))

text \<open>The loop of \<open>run_model\<close>: every pass that continues has settled one more attempt.\<close>

function run_model ::
  "'n engine_lib \<Rightarrow> ('n, 'f, 'w) model_task \<Rightarrow> decision_progress \<Rightarrow> bool \<Rightarrow> evaluation_diagnostic option
     \<Rightarrow> ('n, 'f, 'w, run_outcome) running" where
  "run_model E T progress first last_failure s =
     (case model_turn E T progress first last_failure s of
        (Inl e, s) \<Rightarrow> (Inl e, s)
      | (Inr (TurnEnds outcome), s) \<Rightarrow> (Inr outcome, s)
      | (Inr (TurnAgain row d), s) \<Rightarrow> run_model E T (progress @ [row]) False d s)"
  by pat_completeness auto
termination
  by (relation "measure (\<lambda>(E, T, progress, _). 2 * length (mt_decisions T) - length progress)")
    (auto dest!: model_turn_open [OF sym])

declare run_model.simps [simp del]

end
