(* ===== verification/Engine_Start.thy ===== *)
theory Engine_Start
  imports Model_Run
begin

text \<open>
  The start of an evaluation: \<open>start_one_due_matching\<close> and \<open>prepare_claimed\<close> of \<open>engine.rs\<close>,
  \<open>start_model\<close> and \<open>prepare_all_inputs\<close> of \<open>engine/model.rs\<close>, and \<open>engine_local.rs\<close>. A started
  task is a value that \<open>run_task\<close> polls to its end; the guard of the branch is finished or
  dropped there. The scheduler's mutex is free between the steps of the code, but nothing else
  runs there in this model.
\<close>

section \<open>The engine\<close>

record ('n, 'f, 'w) engine =
  eg_lib :: "'n engine_lib"
  eg_store :: "('n, 'w) check_store"
  eg_evaluator :: "('n, 'f, 'w) decision_evaluator"
  eg_policy :: execution_policy

record ('n, 'f, 'w) engine_state = "('n, 'w) engine_io" +
  en_sched :: "('n, 'f) scheduler"

definition on_sched ::
  "(('n, 'f) scheduler \<Rightarrow> ('n, 'f) scheduler) \<Rightarrow> ('n, 'f, 'w) engine_state \<Rightarrow> ('n, 'f, 'w) engine_state" where
  "on_sched f s = s\<lparr>en_sched := f (en_sched s)\<rparr>"

definition release_call ::
  "('n, 'w) check_store \<Rightarrow> 'n claimed_candidate \<Rightarrow> ('n, 'w, 'r, claim_outcome) storing" where
  "release_call S claimed = store_call (st_release_claim S claimed) (\<lambda>r. [CallRelease claimed r])"

definition hold_release ::
  "schedule_key \<Rightarrow> 'n claimed_candidate \<Rightarrow> ('n, 'f) scheduler \<Rightarrow> ('n, 'f) scheduler" where
  "hold_release key claimed s = s\<lparr>sc_releases := bt_insert key claimed (sc_releases s)\<rparr>"

definition forget_release :: "schedule_key \<Rightarrow> ('n, 'f) scheduler \<Rightarrow> ('n, 'f) scheduler" where
  "forget_release key s = s\<lparr>sc_releases := bt_remove key (sc_releases s)\<rparr>"

text \<open>The claim is released, or kept for a later release, and its candidate queued again.\<close>

definition restore_pre_dispatch ::
  "('n, 'w) check_store \<Rightarrow> schedule_key \<Rightarrow> ('n, 'f) pending_candidate \<Rightarrow> 'n claimed_candidate \<Rightarrow> string
     \<Rightarrow> ('n, 'f, 'w) engine_state \<Rightarrow> string \<times> ('n, 'f, 'w) engine_state" where
  "restore_pre_dispatch S key p claimed message s =
     (case release_call S claimed s of
        (Inr ClaimCurrent, s) \<Rightarrow> (message, on_sched (finish_guard key \<circ> restore_pending key p) s)
      | (Inr ClaimStale, s) \<Rightarrow> (message, on_sched (finish_guard key) s)
      | (Inl (StoreFailed e), s) \<Rightarrow>
          (message @ ''; pre-dispatch claim release: '' @ e,
           on_sched (finish_guard key \<circ> restore_pending key p \<circ> hold_release key claimed) s)
      | (Inl EnginePanic, s) \<Rightarrow> (message, s))"

section \<open>Inputs\<close>

definition incompatible_preparation :: "string \<Rightarrow> preparation_failure" where
  "incompatible_preparation detail =
     \<lparr>pf_code = IncompatibleProfile, pf_detail = detail, pf_report = None, pf_context = no_context\<rparr>"

definition local_condition_failure ::
  "'n json_lib \<Rightarrow> ('n, 'f) compiled_check \<Rightarrow> 'n frozen_candidate \<Rightarrow> preparation_failure option" where
  "local_condition_failure L compiled candidate =
     (let failure = (\<lambda>code detail. Some \<lparr>pf_code = code, pf_detail = detail, pf_report = None, pf_context = no_context\<rparr>) in
      case evaluate_trigger_condition L compiled (context_value (cand_context candidate)) of
        CondMatched \<Rightarrow> None
      | CondFalse \<Rightarrow> failure ConditionFalse ''condition was false''
      | CondUnavailable \<Rightarrow> failure InputUnavailable ''Top-level condition depends on unavailable evidence.''
      | CondFailed detail \<Rightarrow> failure InvalidInput detail)"

definition input_failure :: "string \<Rightarrow> preparation_failure_code \<Rightarrow> string \<Rightarrow> preparation_failure" where
  "input_failure name code detail =
     \<lparr>pf_code = code, pf_detail = detail, pf_report = None,
      pf_context = no_context\<lparr>fc_decision := Some name, fc_field := Some (''decisions.'' @ name @ ''.input'')\<rparr>\<rparr>"

fun prepare_inputs ::
  "'n json_lib \<Rightarrow> 'n frozen_candidate \<Rightarrow> ('n, 'f) decision_block list \<Rightarrow> 'n decision_input list \<Rightarrow> eval_state
     \<Rightarrow> (preparation_failure, 'n decision_input list \<times> eval_state) res" where
  "prepare_inputs L candidate [] inputs s = Inr (inputs, s)"
| "prepare_inputs L candidate (block # blocks) inputs s =
     (case prepare_decision_input_with_budget L block candidate s of
        (PrepReady input, s) \<Rightarrow>
          prepare_inputs L candidate blocks (inputs @ [\<lparr>di_decision = block_name block, di_input = input\<rparr>]) s
      | (PrepUnavailable detail, s) \<Rightarrow> Inl (input_failure (block_name block) InputUnavailable detail)
      | (PrepFailed detail, s) \<Rightarrow> Inl (input_failure (block_name block) InvalidInput detail)
      | (PrepResourceLimit detail, s) \<Rightarrow> Inl (input_failure (block_name block) PreparationResourceLimit detail))"

definition prepare_all_inputs ::
  "'n engine_lib \<Rightarrow> ('n, 'f) compiled_check \<Rightarrow> 'n frozen_candidate
     \<Rightarrow> (preparation_failure, 'n decision_input list \<times> evaluation_budget) res" where
  "prepare_all_inputs E compiled candidate =
     (case local_condition_failure (lib_json E) compiled candidate of
        Some failure \<Rightarrow> Inl failure
      | None \<Rightarrow>
          res_bind (res_map_err incompatible_preparation
              (measure_result_capacity (lib_writer E) (lib_int E) (check_decisions compiled) (check_requirements compiled)))
            (\<lambda>_. res_bind (prepare_inputs (lib_json E) candidate (check_decisions compiled) [] (start_state default_budget))
              (\<lambda>(inputs, s). Inr (inputs, evaluation_budget.truncate s))))"

section \<open>Preparation of a claimed candidate\<close>

datatype 'n preflight = PreflightReady "'n prepared_assessment" | PreflightSettled run_settlement | PreflightStale

text \<open>Provider preparation must keep the budget that the inputs used.\<close>

definition fresh_preparation ::
  "('n, 'f, 'w) engine \<Rightarrow> ('n, 'f) effective_activation \<Rightarrow> ('n, 'f) pending_candidate
     \<Rightarrow> ('n, 'w, 'r, (preparation_failure, 'n prepared_assessment) res) storing" where
  "fresh_preparation G activation p =
     (case prepare_all_inputs (eg_lib G) (pc_compiled p) (pc_candidate p) of
        Inl failure \<Rightarrow> ev_return (Inl failure)
      | Inr (inputs, budget) \<Rightarrow>
          ev_bind (evaluator_call (dv_prepare (eg_evaluator G) activation inputs budget) []) (\<lambda>r.
            ev_return (res_bind r (\<lambda>prepared.
              if pa_budget prepared \<noteq> budget
              then Inl (incompatible_preparation ''Provider preparation changed the shared expression budget.'')
              else res_bind (res_map_err incompatible_preparation
                     (prepared_for_declarations (lib_writer (eg_lib G)) (lib_int (eg_lib G)) prepared
                       (check_decisions (pc_compiled p)))) (\<lambda>_. Inr prepared)))))"

text \<open>The saved record, or a fresh one under the current claim; \<open>None\<close> when the claim is stale.\<close>

definition preparation_of ::
  "('n, 'f, 'w) engine \<Rightarrow> ('n, 'f) effective_activation \<Rightarrow> ('n, 'f) pending_candidate \<Rightarrow> 'n claimed_candidate
     \<Rightarrow> nat \<Rightarrow> validation_purpose \<Rightarrow> ('n, 'w, 'r, 'n preparation_record option) storing" where
  "preparation_of G activation p claimed attempts purpose =
     ev_bind (store_call (st_load_preparation (eg_store G) claimed) (\<lambda>_. [])) (\<lambda>saved.
       case saved of
         Some record \<Rightarrow> ev_return (Some record)
       | None \<Rightarrow>
           if 0 < attempts \<or> purpose = PurposePublication
           then ev_return (Some (RecordRejected (incompatible_preparation ''The original preparation is unavailable.'')))
           else
             ev_bind (fresh_preparation G activation p) (\<lambda>prepared.
               (let record = bounded_preparation_record (lib_writer (eg_lib G)) (lib_int (eg_lib G))
                      (case prepared of Inr r \<Rightarrow> RecordReady r | Inl failure \<Rightarrow> RecordRejected failure) in
                ev_bind (store_call (st_record_preparation (eg_store G) claimed record) (\<lambda>_. [])) (\<lambda>recorded.
                  if recorded = ClaimStale then ev_return None
                  else ev_bind (evaluator_call (\<lambda>w. ((), dv_recorded (eg_evaluator G) record w)) [])
                         (\<lambda>_. ev_return (Some record))))))"

definition check_preparation ::
  "('n, 'f, 'w) engine \<Rightarrow> ('n, 'f) effective_activation \<Rightarrow> ('n, 'f) pending_candidate \<Rightarrow> validation_purpose
     \<Rightarrow> 'n preparation_record \<Rightarrow> ('n, 'w, 'r, (preparation_failure, 'n prepared_assessment) res) storing" where
  "check_preparation G activation p purpose record =
     (case record of
        RecordRejected failure \<Rightarrow> ev_return (Inl failure)
      | RecordLocal _ \<Rightarrow>
          ev_return (Inl (incompatible_preparation ''A local preparation cannot evaluate a model decision.''))
      | RecordReady prepared \<Rightarrow>
          (case prepared_for_declarations (lib_writer (eg_lib G)) (lib_int (eg_lib G)) prepared
              (check_decisions (pc_compiled p)) of
             Inl message \<Rightarrow> ev_return (Inl (incompatible_preparation message))
           | Inr _ \<Rightarrow>
               ev_bind (evaluator_call (dv_validate (eg_evaluator G) activation prepared purpose) []) (\<lambda>checked.
                 ev_return (res_bind checked (\<lambda>_. Inr prepared)))))"

definition rejection_outcome :: "claim_outcome \<Rightarrow> preparation_failure \<Rightarrow> run_outcome" where
  "rejection_outcome recorded failure =
     stale_or (if pf_code failure = ConditionFalse then RunSkipped else RunNotAssessed (pf_detail failure)) recorded"

definition prepare_claimed ::
  "('n, 'f, 'w) engine \<Rightarrow> ('n, 'f) effective_activation \<Rightarrow> ('n, 'f) pending_candidate \<Rightarrow> 'n claimed_candidate
     \<Rightarrow> nat \<Rightarrow> validation_purpose \<Rightarrow> ('n, 'w, 'r, 'n preflight) storing" where
  "prepare_claimed G activation p claimed attempts purpose =
     ev_bind (preparation_of G activation p claimed attempts purpose) (\<lambda>record.
       case record of
         None \<Rightarrow> ev_return PreflightStale
       | Some record \<Rightarrow>
           ev_bind (check_preparation G activation p purpose record) (\<lambda>prepared.
             case prepared of
               Inr prepared \<Rightarrow> ev_return (PreflightReady prepared)
             | Inl failure \<Rightarrow>
                 ev_bind (reject_preparation (eg_lib G) (eg_store G) claimed failure) (\<lambda>(recorded, failure).
                   ev_return (PreflightSettled \<lparr>se_outcome = rejection_outcome recorded failure,
                     se_attempts = attempts, se_new_intents = 0\<rparr>))))"

section \<open>Starting\<close>

text \<open>
  A started task: one that is settled, with its guard finished, or one that still holds the
  guard of its branch. The guard of a model task can release its claim when it is dropped.
\<close>

datatype ('n, 'f, 'w) started_task =
    TaskSettled "(task_error, run_settlement) res"
  | TaskModel "('n, 'f, 'w) model_task" decision_progress nat "('n, 'f) pending_candidate"
  | TaskLocal "('n, 'f) effective_activation" schedule_key "('n, 'f) pending_candidate" "'n claimed_candidate" local_preparation

datatype ('n, 'f, 'w) start_outcome = StartNotDue | StartStale | Started "('n, 'f, 'w) started_task"

type_synonym ('n, 'f, 'w) starting =
  "(('n, 'f, 'w) engine_state, engine_failure, ('n, 'f, 'w) start_outcome) ev"

definition plain_error :: "nat \<Rightarrow> string \<Rightarrow> task_error" where
  "plain_error attempts message =
     \<lparr>te_source = message, te_attempts = attempts, te_new_intents = 0, te_uncertain = False\<rparr>"

definition settlement :: "nat \<Rightarrow> run_outcome \<Rightarrow> run_settlement" where
  "settlement attempts outcome = \<lparr>se_outcome = outcome, se_attempts = attempts, se_new_intents = 0\<rparr>"

definition task_cooldown :: "execution_policy \<Rightarrow> ('n, 'f) pending_candidate \<Rightarrow> nat" where
  "task_cooldown policy p = (if policy = SequentialReplay then 0 else tr_cooldown (check_trigger (pc_compiled p)))"

text \<open>Saved progress that does not bind to the declarations ends the candidate.\<close>

definition reject_progress ::
  "('n, 'f, 'w) engine \<Rightarrow> schedule_key \<Rightarrow> 'n claimed_candidate \<Rightarrow> nat \<Rightarrow> string \<Rightarrow> ('n, 'f, 'w) starting" where
  "reject_progress G key claimed attempts message s =
     (case store_call (st_record_evaluation_failure (eg_store G) claimed
         \<lparr>ed_code = CodeInvalidDecision, ed_detail = message\<rparr>) (\<lambda>r. [CallEnd r]) s of
        (Inl (StoreFailed e), s) \<Rightarrow>
          (Inr (Started (TaskSettled (Inl (plain_error attempts e)))), on_sched (finish_guard key) s)
      | (Inl EnginePanic, s) \<Rightarrow> (Inl EnginePanic, s)
      | (Inr recorded, s) \<Rightarrow>
          (Inr (Started (TaskSettled (Inr (settlement attempts (stale_or (RunFailed message) recorded))))),
           on_sched (finish_guard key) s))"

definition start_validated ::
  "('n, 'f, 'w) engine \<Rightarrow> ('n, 'f) effective_activation \<Rightarrow> nat \<Rightarrow> nat \<Rightarrow> schedule_key \<Rightarrow> ('n, 'f) pending_candidate
     \<Rightarrow> 'n claimed_candidate \<Rightarrow> decision_progress \<Rightarrow> validated_progress \<Rightarrow> ('n, 'f, 'w) starting" where
  "start_validated G activation now maximum key p claimed progress v s =
     (let attempts = vp_attempts v;
          p = p\<lparr>pc_resumed := pc_resumed p \<or> 0 < attempts\<rparr>;
          purpose = (case vp_state v of ProgressComplete _ \<Rightarrow> PurposePublication | _ \<Rightarrow> PurposeDispatch)
      in case prepare_claimed G activation p claimed attempts purpose s of
           (Inr (PreflightReady prepared), s) \<Rightarrow>
             (Inr (Started (TaskModel
                \<lparr>mt_store = eg_store G, mt_evaluator = eg_evaluator G, mt_activation = activation,
                 mt_candidate = pc_candidate p, mt_claimed = claimed, mt_prepared = prepared, mt_maximum = maximum,
                 mt_now = now, mt_cooldown = task_cooldown (eg_policy G) p, mt_policy = eg_policy G, mt_key = key\<rparr>
                progress attempts p)), s)
         | (Inr (PreflightSettled se), s) \<Rightarrow>
             (Inr (Started (TaskSettled (Inr se))), on_sched (finish_guard key \<circ> clear_ticket_if_idle key) s)
         | (Inr PreflightStale, s) \<Rightarrow> (Inr StartStale, on_sched (finish_guard key) s)
         | (Inl (StoreFailed e), s) \<Rightarrow>
             (case restore_pre_dispatch (eg_store G) key p claimed e s of
                (message, s) \<Rightarrow> (Inr (Started (TaskSettled (Inl (plain_error attempts message)))), s))
         | (Inl EnginePanic, s) \<Rightarrow> (Inl EnginePanic, s))"

definition start_model ::
  "('n, 'f, 'w) engine \<Rightarrow> ('n, 'f) effective_activation \<Rightarrow> nat \<Rightarrow> nat \<Rightarrow> schedule_key \<Rightarrow> ('n, 'f) pending_candidate
     \<Rightarrow> 'n claimed_candidate \<Rightarrow> ('n, 'f, 'w) starting" where
  "start_model G activation now maximum key p claimed s =
     (case store_call (st_load_progress (eg_store G) claimed) (\<lambda>_. []) s of
        (Inl (StoreFailed e), s) \<Rightarrow>
          (case restore_pre_dispatch (eg_store G) key (p\<lparr>pc_resumed := True\<rparr>) claimed e s of
             (message, s) \<Rightarrow> (Inl (StoreFailed message), s))
      | (Inl EnginePanic, s) \<Rightarrow> (Inl EnginePanic, s)
      | (Inr progress, s) \<Rightarrow>
          (case validate_decision_progress (lib_writer (eg_lib G)) (lib_int (eg_lib G)) (check_decisions (pc_compiled p))
              (check_requirements (pc_compiled p)) progress of
             Inl message \<Rightarrow> reject_progress G key claimed (length progress) message s
           | Inr v \<Rightarrow> start_validated G activation now maximum key p claimed progress v s))"

text \<open>A candidate whose check has no decisions; \<open>start_not_current\<close> is the gate of the runtime.\<close>

definition start_not_current ::
  "('n, 'f, 'w) engine \<Rightarrow> schedule_key \<Rightarrow> ('n, 'f) pending_candidate \<Rightarrow> 'n claimed_candidate \<Rightarrow> ('n, 'f, 'w) starting" where
  "start_not_current G key p claimed s =
     (case release_call (eg_store G) claimed s of
        (Inr ClaimCurrent, s) \<Rightarrow> (Inr StartNotDue, on_sched (finish_guard key \<circ> restore_pending key p) s)
      | (Inr ClaimStale, s) \<Rightarrow> (Inr StartStale, on_sched (finish_guard key \<circ> clear_ticket_if_idle key) s)
      | (Inl (StoreFailed e), s) \<Rightarrow>
          (case restore_pre_dispatch (eg_store G) key p claimed e s of (message, s) \<Rightarrow> (Inl (StoreFailed message), s))
      | (Inl EnginePanic, s) \<Rightarrow> (Inl EnginePanic, s))"

definition start_rejected ::
  "('n, 'f, 'w) engine \<Rightarrow> schedule_key \<Rightarrow> ('n, 'f) pending_candidate \<Rightarrow> 'n claimed_candidate \<Rightarrow> preparation_failure
     \<Rightarrow> ('n, 'f, 'w) starting" where
  "start_rejected G key p claimed failure s =
     (case store_call (st_record_rejection (eg_store G) claimed failure) (\<lambda>r. [CallEnd r]) s of
        (Inl (StoreFailed e), s) \<Rightarrow>
          (case restore_pre_dispatch (eg_store G) key p claimed e s of (message, s) \<Rightarrow> (Inl (StoreFailed message), s))
      | (Inl EnginePanic, s) \<Rightarrow> (Inl EnginePanic, s)
      | (Inr recorded, s) \<Rightarrow>
          (Inr (Started (TaskSettled (Inr (settlement 0 (rejection_outcome recorded failure))))),
           on_sched (finish_guard key \<circ> clear_ticket_if_idle key) s))"

definition start_local ::
  "('n, 'f, 'w) engine \<Rightarrow> ('n, 'f) effective_activation \<Rightarrow> nat \<Rightarrow> schedule_key \<Rightarrow> ('n, 'f) pending_candidate
     \<Rightarrow> 'n claimed_candidate \<Rightarrow> ('n, 'f, 'w) starting" where
  "start_local G activation now key p claimed s =
     (case dv_local_current (eg_evaluator G) activation (io_world s) of
        (False, w) \<Rightarrow> start_not_current G key p claimed (s\<lparr>io_world := w\<rparr>)
      | (True, w) \<Rightarrow>
          (let s = s\<lparr>io_world := w\<rparr> in
           case local_condition_failure (lib_json (eg_lib G)) (pc_compiled p) (pc_candidate p) of
             Some failure \<Rightarrow> start_rejected G key p claimed failure s
           | None \<Rightarrow>
               (let prepared = local_new now; cooldown = task_cooldown (eg_policy G) p in
                case store_call (st_record_local_start (eg_store G) claimed now cooldown prepared) (\<lambda>_. []) s of
                  (Inr ClaimCurrent, s) \<Rightarrow>
                    (Inr (Started (TaskLocal activation key p claimed prepared)),
                     on_sched (mark_scheduler_started (eg_policy G) key now cooldown) s)
                | (Inr ClaimStale, s) \<Rightarrow> (Inr StartStale, on_sched (finish_guard key \<circ> clear_ticket_if_idle key) s)
                | (Inl (StoreFailed e), s) \<Rightarrow>
                    (case restore_pre_dispatch (eg_store G) key p claimed e s of
                       (message, s) \<Rightarrow> (Inl (StoreFailed message), s))
                | (Inl EnginePanic, s) \<Rightarrow> (Inl EnginePanic, s))))"

text \<open>The claim of a reserved candidate.\<close>

definition start_reserved ::
  "('n, 'f, 'w) engine \<Rightarrow> ('n, 'f) effective_activation \<Rightarrow> nat \<Rightarrow> nat \<Rightarrow> schedule_key \<Rightarrow> ('n, 'f) pending_candidate
     \<Rightarrow> ('n, 'f, 'w) starting" where
  "start_reserved G activation now maximum key p s =
     (case store_call (st_claim_due (eg_store G) (pc_candidate p) now (eg_policy G = SequentialReplay)) (\<lambda>_. []) s of
        (Inr (ClaimClaimed claimed), s) \<Rightarrow>
          if is_local (pc_compiled p) then start_local G activation now key p claimed s
          else start_model G activation now maximum key p claimed s
      | (Inr (ClaimNotDue retry_at), s) \<Rightarrow>
          (Inr StartNotDue, on_sched (finish_guard key \<circ> defer_candidate key p retry_at) s)
      | (Inr ClaimRejected, s) \<Rightarrow> (Inr StartStale, on_sched (finish_guard key \<circ> clear_ticket_if_idle key) s)
      | (Inl e, s) \<Rightarrow> (Inl e, on_sched (finish_guard key \<circ> restore_pending key p) s))"

definition start_one_due_matching ::
  "('n, 'f, 'w) engine \<Rightarrow> ('n, 'f) effective_activation \<Rightarrow> nat \<Rightarrow> nat \<Rightarrow> (string \<Rightarrow> bool) \<Rightarrow> ('n, 'f, 'w) starting" where
  "start_one_due_matching G activation now maximum ready s =
     (case reserve (eg_policy G) (act_id activation) ready now (en_sched s) of
        (None, sched) \<Rightarrow> (Inr StartNotDue, s\<lparr>en_sched := sched\<rparr>)
      | (Some (key, p), sched) \<Rightarrow>
          (let s = s\<lparr>en_sched := sched\<rparr> in
           case bt_get (sc_releases sched) key of
             None \<Rightarrow> start_reserved G activation now maximum key p s
           | Some previous \<Rightarrow>
               (case release_call (eg_store G) previous s of
                  (Inl e, s) \<Rightarrow> (Inl e, on_sched (finish_guard key \<circ> restore_pending key p) s)
                | (Inr _, s) \<Rightarrow> start_reserved G activation now maximum key p (on_sched (forget_release key) s))))"

definition start_one_due ::
  "('n, 'f, 'w) engine \<Rightarrow> ('n, 'f) effective_activation \<Rightarrow> nat \<Rightarrow> ('n, 'f, 'w) starting" where
  "start_one_due G activation now = start_one_due_matching G activation now u64_max (\<lambda>_. True)"

definition start_one_due_with_attempt_limit ::
  "('n, 'f, 'w) engine \<Rightarrow> ('n, 'f) effective_activation \<Rightarrow> nat \<Rightarrow> nat \<Rightarrow> ('n, 'f, 'w) starting" where
  "start_one_due_with_attempt_limit G activation now maximum =
     start_one_due_matching G activation now maximum (\<lambda>_. True)"

definition start_one_due_for_branches ::
  "('n, 'f, 'w) engine \<Rightarrow> ('n, 'f) effective_activation \<Rightarrow> nat \<Rightarrow> string set \<Rightarrow> ('n, 'f, 'w) starting" where
  "start_one_due_for_branches G activation now branches =
     start_one_due_matching G activation now u64_max (\<lambda>branch. branch \<in> branches)"

section \<open>Running\<close>

text \<open>
  The guard when it is dropped before it finished: \<open>release\<close> and \<open>safe\<close> are
  \<open>release_branch_on_drop\<close> and the presence of \<open>safe_release\<close>.
\<close>

definition safe_release ::
  "('n, 'w) check_store \<Rightarrow> schedule_key \<Rightarrow> ('n, 'f) pending_candidate \<Rightarrow> 'n claimed_candidate
     \<Rightarrow> ('n, 'f, 'w) engine_state \<Rightarrow> ('n, 'f, 'w) engine_state" where
  "safe_release S key p claimed s =
     (case release_call S claimed s of
        (Inr ClaimStale, s) \<Rightarrow> s
      | (Inr ClaimCurrent, s) \<Rightarrow> on_sched (restore_pending key (p\<lparr>pc_resumed := True\<rparr>)) s
      | (Inl _, s) \<Rightarrow> on_sched (restore_pending key (p\<lparr>pc_resumed := True\<rparr>) \<circ> hold_release key claimed) s)"

definition drop_guard ::
  "('n, 'w) check_store \<Rightarrow> schedule_key \<Rightarrow> ('n, 'f) pending_candidate \<Rightarrow> 'n claimed_candidate \<Rightarrow> bool \<Rightarrow> bool
     \<Rightarrow> ('n, 'f, 'w) engine_state \<Rightarrow> ('n, 'f, 'w) engine_state" where
  "drop_guard S key p claimed release safe s =
     (if release then on_sched (finish_guard key) (if safe then safe_release S key p claimed s else s)
      else on_sched abandon_guard s)"

definition engine_of_run :: "('n, 'f, 'w) run_state \<Rightarrow> ('n, 'f, 'w) engine_state" where
  "engine_of_run s = \<lparr>io_world = io_world s, io_calls = io_calls s, en_sched = rn_sched s\<rparr>"

definition run_of_engine :: "nat \<Rightarrow> ('n, 'f, 'w) engine_state \<Rightarrow> ('n, 'f, 'w) run_state" where
  "run_of_engine attempts s =
     \<lparr>io_world = io_world s, io_calls = io_calls s, rn_release = True, rn_safe = True, rn_sched = en_sched s,
      rn_attempts = attempts, rn_intents = 0\<rparr>"

definition run_model_task ::
  "'n engine_lib \<Rightarrow> ('n, 'f, 'w) model_task \<Rightarrow> decision_progress \<Rightarrow> nat \<Rightarrow> ('n, 'f) pending_candidate
     \<Rightarrow> (('n, 'f, 'w) engine_state, task_failure, run_settlement) ev" where
  "run_model_task E T progress attempts p s =
     (case run_model E T progress True None (run_of_engine attempts s) of
        (Inr outcome, t) \<Rightarrow>
          (Inr \<lparr>se_outcome = outcome, se_attempts = rn_attempts t, se_new_intents = rn_intents t\<rparr>,
           on_sched (finish_guard (mt_key T)) (engine_of_run t))
      | (Inl e, t) \<Rightarrow>
          (Inl e, drop_guard (mt_store T) (mt_key T) p (mt_claimed T) (rn_release t) (rn_safe t) (engine_of_run t)))"

text \<open>A local task plans its actions on the empty assessment, if the runtime still allows it.\<close>

definition run_local ::
  "('n, 'f, 'w) engine \<Rightarrow> ('n, 'f) effective_activation \<Rightarrow> ('n, 'f) pending_candidate \<Rightarrow> 'n claimed_candidate
     \<Rightarrow> local_preparation \<Rightarrow> (('n, 'f, 'w) engine_state, engine_failure, run_outcome) ev" where
  "run_local G activation p claimed prepared =
     ev_bind (evaluator_call (dv_local_current (eg_evaluator G) activation) []) (\<lambda>current.
       if \<not> current then ev_return RunDeferred
       else
         (let plan = fst (plan_status_actions_with_budget (lib_float (eg_lib G)) (lib_json (eg_lib G))
                (check_actions (pc_compiled p)) (context_value (cand_context (pc_candidate p))) assessment_local
                (cl_prior_status claimed) (start_state (lp_budget prepared)))
          in case plan of
               Inl _ \<Rightarrow> publish_actions (eg_store G) claimed assessment_local plan
             | Inr _ \<Rightarrow>
                 ev_bind (evaluator_call (dv_local_current (eg_evaluator G) activation) []) (\<lambda>current.
                   if \<not> current then ev_return RunDeferred
                   else publish_actions (eg_store G) claimed assessment_local plan)))"

definition run_task ::
  "('n, 'f, 'w) engine \<Rightarrow> ('n, 'f, 'w) started_task
     \<Rightarrow> (('n, 'f, 'w) engine_state, task_failure, run_settlement) ev" where
  "run_task G task s =
     (case task of
        TaskSettled (Inl e) \<Rightarrow> (Inl (TaskFailed e), s)
      | TaskSettled (Inr se) \<Rightarrow> (Inr se, s)
      | TaskModel T progress attempts p \<Rightarrow> run_model_task (eg_lib G) T progress attempts p s
      | TaskLocal activation key p claimed prepared \<Rightarrow>
          (case run_local G activation p claimed prepared s of
             (Inr outcome, s) \<Rightarrow> (Inr (settlement 0 outcome), on_sched (finish_guard key) s)
           | (Inl (StoreFailed e), s) \<Rightarrow>
               (Inl (TaskFailed (plain_error 0 e)), on_sched (finish_guard key) s)
           | (Inl EnginePanic, s) \<Rightarrow> (Inl TaskPanic, on_sched (finish_guard key) s)))"

end
