(* ===== verification/Model_Laws.thy ===== *)
theory Model_Laws
  imports Model_Run
begin

text \<open>
  What the task of a candidate does, for every store and evaluator: it sends an attempt only
  after its own durable intent, never sends again what may have been delivered, stays within the
  allowance, and submits only complete assessments.
\<close>

section \<open>What one pass does\<close>

text \<open>A step on the store only changes the world and adds calls to the log.\<close>

definition same_run :: "('n, 'f, 'w) run_state \<Rightarrow> ('n, 'f, 'w) run_state \<Rightarrow> bool" where
  "same_run s s' \<longleftrightarrow> rn_release s' = rn_release s \<and> rn_safe s' = rn_safe s \<and> rn_sched s' = rn_sched s
     \<and> rn_attempts s' = rn_attempts s \<and> rn_intents s' = rn_intents s"

definition logs ::
  "(('n, 'f, 'w) run_state, engine_failure, 'a) ev \<Rightarrow> (engine_failure + 'a \<Rightarrow> 'n engine_call list \<Rightarrow> bool) \<Rightarrow> bool" where
  "logs m P \<longleftrightarrow> (\<forall>s r s'. m s = (r, s') \<longrightarrow> same_run s s' \<and> (\<exists>cs. io_calls s' = io_calls s @ cs \<and> P r cs))"

lemma logsD:
  assumes "logs m P" "m s = (r, s')"
  obtains cs where "same_run s s'" "io_calls s' = io_calls s @ cs" "P r cs"
  using assms unfolding logs_def by blast

lemma logs_mono: "logs m P \<Longrightarrow> (\<And>r cs. P r cs \<Longrightarrow> Q r cs) \<Longrightarrow> logs m Q"
  unfolding logs_def by blast

lemma logs_return: "P (Inr a) [] \<Longrightarrow> logs (ev_return a) P"
  and logs_fail: "P (Inl e) [] \<Longrightarrow> logs (ev_fail e) P"
  by (simp_all add: logs_def same_run_def)

lemma logs_bind:
  assumes "logs m P" "\<And>e cs. P (Inl e) cs \<Longrightarrow> Q (Inl e) cs"
    and "\<And>a cs. P (Inr a) cs \<Longrightarrow> logs (f a) (\<lambda>r cs'. Q r (cs @ cs'))"
  shows "logs (ev_bind m f) Q"
  unfolding logs_def
proof (intro allI impI)
  fix s r s' assume run: "ev_bind m f s = (r, s')"
  obtain x s1 where first: "m s = (x, s1)" by (rule prod.exhaust)
  with assms(1) obtain cs where s1: "same_run s s1" "io_calls s1 = io_calls s @ cs" and P: "P x cs"
    by (rule logsD)
  show "same_run s s' \<and> (\<exists>cs. io_calls s' = io_calls s @ cs \<and> Q r cs)"
  proof (cases x)
    case (Inl e)
    with run first have "r = Inl e" "s' = s1" by (auto simp: ev_bind_def)
    with s1 P assms(2) Inl show ?thesis by auto
  next
    case (Inr a)
    with run first have then_run: "f a s1 = (r, s')" by (simp add: ev_bind_def)
    have "logs (f a) (\<lambda>r cs'. Q r (cs @ cs'))" using assms(3) P Inr by simp
    then obtain cs' where "same_run s1 s'" "io_calls s' = io_calls s1 @ cs'" "Q r (cs @ cs')"
      using then_run by (rule logsD)
    with s1 show ?thesis by (simp add: same_run_def)
  qed
qed

lemma logs_store:
  "logs (store_call m entry) (\<lambda>r cs. case r of
      Inl f \<Rightarrow> (\<exists>e. f = StoreFailed e) \<and> cs = entry None
    | Inr a \<Rightarrow> cs = entry (Some a))"
  by (auto simp: logs_def store_call_def same_run_def split: prod.splits sum.splits)

lemma logs_store_then:
  assumes "\<And>e. Q (Inl (StoreFailed e)) (entry None)"
    and "\<And>a. logs (f a) (\<lambda>r cs'. Q r (entry (Some a) @ cs'))"
  shows "logs (ev_bind (store_call m entry) f) Q"
  by (rule logs_bind [OF logs_store]) (use assms in auto)

lemma logs_evaluator_then:
  assumes "\<And>a. logs (f a) (\<lambda>r cs'. Q r (entry @ cs'))"
  shows "logs (ev_bind (evaluator_call m entry) f) Q"
proof (rule logs_bind)
  show "logs (evaluator_call m entry) (\<lambda>r cs. cs = entry \<and> (\<exists>a. r = Inr a))"
    by (auto simp: logs_def evaluator_call_def same_run_def split: prod.splits)
qed (use assms in auto)

text \<open>The rows that the calls of a run settle, and the calls that do not belong to an attempt.\<close>

fun settled_row :: "'n engine_call \<Rightarrow> saved_attempt option" where
  "settled_row (CallAnswer a answer (Some _)) = Some \<lparr>row_attempt = a, row_outcome = AttemptAnswer answer\<rparr>"
| "settled_row (CallFailure a how (Some _)) = Some \<lparr>row_attempt = a, row_outcome = failure_outcome how\<rparr>"
| "settled_row _ = None"

definition settled_rows :: "'n engine_call list \<Rightarrow> decision_progress" where
  "settled_rows cs = List.map_filter settled_row cs"

fun is_settlement :: "'n engine_call \<Rightarrow> bool" where
  "is_settlement (CallAnswer _ _ _) = True"
| "is_settlement (CallFailure _ _ _) = True"
| "is_settlement _ = False"

lemma settled_rows_simps [simp]:
  "settled_rows [] = []" "settled_rows (cs @ ds) = settled_rows cs @ settled_rows ds"
  "settled_rows (c # cs) = (case settled_row c of None \<Rightarrow> settled_rows cs | Some r \<Rightarrow> r # settled_rows cs)"
  by (simp_all add: settled_rows_def List.map_filter_simps split: option.splits)
    (simp add: List.map_filter_def)

definition publishes ::
  "'n engine_lib \<Rightarrow> ('n, 'f) compiled_check \<Rightarrow> 'n claimed_candidate \<Rightarrow> 'n prepared_assessment \<Rightarrow> evaluated_assessment
     \<Rightarrow> 'n engine_call \<Rightarrow> bool" where
  "publishes E compiled claimed prepared evaluated c \<longleftrightarrow>
     (case c of
        CallAccept acc _ \<Rightarrow> ac_claimed acc = claimed \<and> ac_evaluated acc = evaluated
          \<and> publish_plan E compiled claimed evaluated (pa_budget prepared) = Inr (ac_actions acc)
      | CallEnd _ \<Rightarrow> True
      | _ \<Rightarrow> False)"

lemma bounded_failure_some: "bounded_failure E f \<noteq> None"
  by (simp add: bounded_failure_def bounded_preparation_record_def split: sum.splits)

lemma logs_reject_then:
  assumes "\<And>e. Q (Inl (StoreFailed e)) [CallEnd None]"
    and "\<And>x a. logs (f a) (\<lambda>r cs'. Q r (CallEnd x # cs'))"
  shows "logs (ev_bind (reject_preparation E S claimed failure) f) Q"
proof (rule logs_bind)
  obtain f where f: "bounded_failure E failure = Some f" using bounded_failure_some by blast
  show "logs (reject_preparation E S claimed failure)
      (\<lambda>r cs. case r of Inl f \<Rightarrow> (\<exists>e. f = StoreFailed e) \<and> cs = [CallEnd None] | Inr a \<Rightarrow> \<exists>x. cs = [CallEnd x])"
    unfolding reject_preparation_def f option.case by (rule logs_store_then) (auto intro!: logs_return)
qed (use assms in auto)

lemma logs_publish_actions:
  "logs (publish_actions S claimed evaluated plan) (\<lambda>r cs.
     (r = Inl EnginePanic \<longrightarrow> plan = Inl PlanningPanic)
     \<and> (\<forall>c \<in> set cs. case c of
        CallAccept acc _ \<Rightarrow> ac_claimed acc = claimed \<and> ac_evaluated acc = evaluated \<and> plan = Inr (ac_actions acc)
      | CallEnd _ \<Rightarrow> True
      | _ \<Rightarrow> False))"
proof (cases plan)
  case (Inl e)
  then show ?thesis
    by (cases e) (auto simp: publish_actions_def intro!: logs_store_then logs_return logs_fail)
next
  case (Inr p)
  then show ?thesis by (auto simp: publish_actions_def Let_def intro!: logs_store_then logs_return)
qed

lemma logs_publish_model:
  "logs (publish_model E S V activation claimed prepared evaluated) (\<lambda>r cs.
     (r = Inl EnginePanic \<longrightarrow>
        publish_plan E (act_compiled activation) claimed evaluated (pa_budget prepared) = Inl PlanningPanic)
     \<and> (\<forall>c \<in> set cs. publishes E (act_compiled activation) claimed prepared evaluated c))"
  unfolding publish_model_def
proof (rule logs_evaluator_then, unfold append_Nil)
  fix checked :: "preparation_failure + unit"
  show "logs (case checked of
       Inl failure \<Rightarrow> ev_bind (reject_preparation E S claimed failure)
           (\<lambda>(recorded, f). ev_return (stale_or (RunNotAssessed (pf_detail f)) recorded))
     | Inr _ \<Rightarrow> publish_actions S claimed evaluated
           (publish_plan E (act_compiled activation) claimed evaluated (pa_budget prepared)))
     (\<lambda>r cs. (r = Inl EnginePanic \<longrightarrow>
        publish_plan E (act_compiled activation) claimed evaluated (pa_budget prepared) = Inl PlanningPanic)
       \<and> (\<forall>c \<in> set cs. publishes E (act_compiled activation) claimed prepared evaluated c))"
  proof (cases checked)
    case (Inl f)
    then show ?thesis
      by (auto intro!: logs_reject_then logs_return simp: publishes_def split: prod.splits)
  next
    case (Inr u)
    show ?thesis unfolding Inr sum.case
      by (rule logs_mono [OF logs_publish_actions]) (auto simp: publishes_def)
  qed
qed

lemma logs_settle:
  "logs (settle_decision_attempt E T a evaluated progress) (\<lambda>r cs.
     (case r of
        Inr (recorded, outcome, d) \<Rightarrow> settled_rows cs = [\<lparr>row_attempt = a, row_outcome = outcome\<rparr>]
      | Inl f \<Rightarrow> settled_rows cs = [] \<and> (f = EnginePanic \<longrightarrow> find (\<lambda>b. block_name b = attempt_decision a) (mt_decisions T) = None))
     \<and> (\<forall>c \<in> set cs. is_settlement c))"
proof (cases "case evaluated of Inl f \<Rightarrow> Some (Inl f) | Inr answer \<Rightarrow> validate_answer E T a answer progress")
  case None
  then show ?thesis
    by (auto simp: settle_decision_attempt_def validate_answer_def Let_def split: sum.splits intro!: logs_fail)
next
  case (Some x)
  then show ?thesis
    by (cases x) (auto simp: settle_decision_attempt_def Let_def intro!: logs_store_then logs_return)
qed

section \<open>The calls of one pass\<close>

definition counted_result :: "('n, 'f, 'w) run_state \<Rightarrow> engine_failure + 'a \<Rightarrow> task_failure + 'a" where
  "counted_result s r =
     (case r of
        Inr a \<Rightarrow> Inr a
      | Inl EnginePanic \<Rightarrow> Inl TaskPanic
      | Inl (StoreFailed e) \<Rightarrow> Inl (TaskFailed (counts_error s e)))"

lemma counted_logs:
  assumes "counted m s = (r, s')" "logs m P"
  obtains x cs where "same_run s s'" "io_calls s' = io_calls s @ cs" "P x cs" "r = counted_result s' x"
proof -
  obtain x s1 where m: "m s = (x, s1)" by (rule prod.exhaust)
  with assms(2) obtain cs where cs: "same_run s s1" "io_calls s1 = io_calls s @ cs" "P x cs" by (rule logsD)
  have "s' = s1 \<and> r = counted_result s1 x"
    using assms(1) m
    by (auto simp: counted_def counted_result_def task_fail_def split: sum.splits engine_failure.splits)
  with cs that show ?thesis by blast
qed

lemma counted_result_simps [simp]:
  "counted_result s (Inr a) = Inr a"
  "counted_result s r = Inr a \<longleftrightarrow> r = Inr a"
  "counted_result s r = Inl TaskPanic \<longleftrightarrow> r = Inl EnginePanic"
  "counted_result s r = Inl (TaskFailed e) \<longleftrightarrow> (\<exists>m. r = Inl (StoreFailed m) \<and> e = counts_error s m)"
  by (auto simp: counted_result_def split: sum.splits engine_failure.splits)

text \<open>The next step runs after a step that was counted, or the pass ends with its failure.\<close>

lemma counted_bind:
  assumes "ev_bind (counted m) f s = (r, s')" "logs m P"
  obtains (failed) x cs where "same_run s s'" "io_calls s' = io_calls s @ cs" "P (Inl x) cs"
      "r = (case x of EnginePanic \<Rightarrow> Inl TaskPanic | StoreFailed e \<Rightarrow> Inl (TaskFailed (counts_error s' e)))"
  | (passed) a s1 cs where "same_run s s1" "io_calls s1 = io_calls s @ cs" "P (Inr a) cs" "f a s1 = (r, s')"
proof -
  obtain y s1 where c: "counted m s = (y, s1)" by (rule prod.exhaust)
  with assms(2) obtain x cs where cs: "same_run s s1" "io_calls s1 = io_calls s @ cs" "P x cs" "y = counted_result s1 x"
    by (metis counted_logs)
  show ?thesis
  proof (cases x)
    case (Inl e)
    then have "r = counted_result s1 (Inl e)" "s' = s1"
      using assms(1) c cs(4) by (auto simp: ev_bind_def counted_result_def split: engine_failure.splits)
    with cs Inl show ?thesis by (intro failed [of cs e]) (auto simp: counted_result_def split: engine_failure.splits)
  next
    case (Inr a)
    with assms(1) c cs show ?thesis by (intro passed [of s1 cs a]) (auto simp: ev_bind_def)
  qed
qed

definition settling :: "'n engine_call list \<Rightarrow> bool" where
  "settling cs \<longleftrightarrow> (\<forall>c \<in> set cs. is_settlement c)"

lemma logs_evaluator: "logs (evaluator_call m entry) (\<lambda>r cs. cs = entry \<and> (\<exists>a. r = Inr a))"
  by (auto simp: logs_def evaluator_call_def same_run_def split: prod.splits)

lemma send_attempt_calls:
  assumes "send_attempt E T progress a s = (r, s')"
  obtains tail where "io_calls s' = io_calls s @ CallSend a # tail" "settling tail"
    "rn_attempts s' = rn_attempts s" "rn_intents s' = rn_intents s"
    "\<And>row d. r = Inr (TurnAgain row d) \<Longrightarrow> settled_rows tail = [row] \<and> row_attempt row = a"
    "settled_rows tail = [] \<Longrightarrow> rn_release s' = rn_release s"
    "r = Inl TaskPanic \<Longrightarrow> find (\<lambda>b. block_name b = attempt_decision a) (mt_decisions T) = None"
    "\<And>e. r = Inl (TaskFailed e) \<Longrightarrow> te_attempts e = rn_attempts s' \<and> te_new_intents e = rn_intents s'"
  using assms unfolding send_attempt_def
proof (elim counted_bind [OF _ logs_evaluator], goal_cases)
  case (2 evaluated s1 cs)
  then have s1: "same_run s s1" "io_calls s1 = io_calls s @ [CallSend a]" by auto
  from 2(5) show ?thesis
  proof (elim counted_bind [OF _ logs_settle], goal_cases)
    case (1 x tail)
    with s1 2(1) show ?thesis
      by (intro that [of tail]) (auto simp: same_run_def settling_def counts_error_def split: engine_failure.splits)
  next
    case (2 out s2 tail)
    obtain recorded outcome diagnostic where out: "out = (recorded, outcome, diagnostic)" by (cases out) auto
    let ?row = "\<lparr>row_attempt = a, row_outcome = outcome\<rparr>"
    have tail: "settled_rows tail = [?row]" "settling tail" using 2(3) out by (auto simp: settling_def)
    have end_run: "io_calls s' = io_calls s2 \<and> rn_attempts s' = rn_attempts s2 \<and> rn_intents s' = rn_intents s2
      \<and> r \<noteq> Inl TaskPanic \<and> (\<forall>row d. r = Inr (TurnAgain row d) \<longrightarrow> row = ?row)
      \<and> (\<forall>e. r = Inl (TaskFailed e) \<longrightarrow> te_attempts e = rn_attempts s' \<and> te_new_intents e = rn_intents s')"
      using 2(4) out
      by (auto simp: Let_def ev_bind_def current_progress_def task_fail_def counts_error_def
          split: if_splits sum.splits progress_state.splits)
    have before: "io_calls s2 = io_calls s @ CallSend a # tail" "rn_attempts s2 = rn_attempts s" "rn_intents s2 = rn_intents s"
      using 2(1,2) s1 by (simp_all add: same_run_def)
    show ?thesis
      using tail end_run before by (intro that [of tail]) auto
  qed
qed auto

text \<open>What a pass says of itself when it fails: the counts of the run.\<close>

definition counts_told :: "('n, 'f, 'w) run_state \<Rightarrow> task_failure + 'a \<Rightarrow> bool" where
  "counts_told s r \<longleftrightarrow>
     (\<forall>e. r = Inl (TaskFailed e) \<longrightarrow> te_attempts e = rn_attempts s \<and> te_new_intents e = rn_intents s)"

definition is_again :: "task_failure + model_turn \<Rightarrow> bool" where
  "is_again r \<longleftrightarrow> (\<exists>row d. r = Inr (TurnAgain row d))"

text \<open>A refused intent, and a sent attempt.\<close>

definition refused ::
  "('n, 'f, 'w) run_state \<Rightarrow> task_failure + model_turn \<Rightarrow> ('n, 'f, 'w) run_state \<Rightarrow> bool" where
  "refused s r s' \<longleftrightarrow>
     (\<exists>a x. io_calls s' = io_calls s @ [CallIntent a x] \<and> x \<noteq> Some ClaimCurrent)
     \<and> rn_attempts s' = rn_attempts s \<and> rn_intents s' = rn_intents s \<and> \<not> rn_release s'
     \<and> \<not> is_again r \<and> r \<noteq> Inl TaskPanic \<and> counts_told s' r"

definition sent ::
  "('n, 'f, 'w) model_task \<Rightarrow> decision_attempt \<Rightarrow> ('n, 'f, 'w) run_state \<Rightarrow> task_failure + model_turn
     \<Rightarrow> ('n, 'f, 'w) run_state \<Rightarrow> bool" where
  "sent T a s r s' \<longleftrightarrow>
     (\<exists>tail. io_calls s' = io_calls s @ CallIntent a (Some ClaimCurrent) # CallSend a # tail \<and> settling tail
        \<and> (\<forall>row d. r = Inr (TurnAgain row d) \<longrightarrow> settled_rows tail = [row] \<and> row_attempt row = a)
        \<and> (settled_rows tail = [] \<longrightarrow> \<not> rn_release s'))
     \<and> rn_attempts s' = Suc (rn_attempts s) \<and> rn_intents s' = Suc (rn_intents s)
     \<and> (r = Inl TaskPanic \<longrightarrow> find (\<lambda>b. block_name b = attempt_decision a) (mt_decisions T) = None)
     \<and> counts_told s' r"

lemma dispatch_attempt_calls:
  assumes "dispatch_attempt E T progress first a s = (r, s')"
  shows "refused s r s' \<or> sent T a s r s'"
proof -
  let ?log = "\<lambda>x. [CallIntent a x]"
  obtain x s1 where intent: "store_call (st_record_intent (mt_store T) (mt_claimed T) (mt_now T) (mt_cooldown T) a)
      ?log (s\<lparr>rn_release := False\<rparr>) = (x, s1)" by (rule prod.exhaust)
  from logs_store intent obtain cs where same: "same_run (s\<lparr>rn_release := False\<rparr>) s1"
    and calls: "io_calls s1 = io_calls (s\<lparr>rn_release := False\<rparr>) @ cs"
    and x: "case x of Inl f \<Rightarrow> (\<exists>e. f = StoreFailed e) \<and> cs = ?log None | Inr c \<Rightarrow> cs = ?log (Some c)"
    by (rule logsD)
  consider (failed) e where "x = Inl (StoreFailed e)" "cs = ?log None"
    | (stale) "x = Inr ClaimStale" "cs = ?log (Some ClaimStale)"
    | (current) "x = Inr ClaimCurrent" "cs = ?log (Some ClaimCurrent)"
  proof (cases x)
    case (Inr c)
    with x stale current show ?thesis by (cases c) auto
  qed (use x failed in auto)
  then show ?thesis
  proof cases
    case current
    let ?s = "s1\<lparr>rn_attempts := rn_attempts s1 + 1, rn_intents := rn_intents s1 + 1\<rparr>"
    let ?t = "if first \<and> rn_attempts ?s = 1
      then ?s\<lparr>rn_sched := mark_scheduler_started (mt_policy T) (mt_key T) (mt_now T) (mt_cooldown T) (rn_sched ?s)\<rparr> else ?s"
    have "send_attempt E T progress a ?t = (r, s')"
      using assms unfolding dispatch_attempt_def intent current(1) Let_def
      by (simp only: prod.case sum.case claim_outcome.case)
    then obtain tail where tail: "io_calls s' = io_calls ?t @ CallSend a # tail" "settling tail"
      "rn_attempts s' = rn_attempts ?t" "rn_intents s' = rn_intents ?t"
      "\<And>row d. r = Inr (TurnAgain row d) \<Longrightarrow> settled_rows tail = [row] \<and> row_attempt row = a"
      "settled_rows tail = [] \<Longrightarrow> rn_release s' = rn_release ?t"
      "r = Inl TaskPanic \<Longrightarrow> find (\<lambda>b. block_name b = attempt_decision a) (mt_decisions T) = None"
      "\<And>e. r = Inl (TaskFailed e) \<Longrightarrow> te_attempts e = rn_attempts s' \<and> te_new_intents e = rn_intents s'"
      by (rule send_attempt_calls) blast
    have t: "io_calls ?t = io_calls s @ [CallIntent a (Some ClaimCurrent)]" "rn_attempts ?t = Suc (rn_attempts s)"
      "rn_intents ?t = Suc (rn_intents s)" "\<not> rn_release ?t"
      using same calls current(2) by (auto simp: same_run_def)
    have "sent T a s r s'"
      unfolding sent_def counts_told_def using tail t by auto
    then show ?thesis ..
  qed (use assms intent same calls in \<open>auto simp: dispatch_attempt_def refused_def same_run_def counts_told_def
      is_again_def counts_error_def\<close>)
qed

text \<open>A pass that sends nothing; an acceptance in it rests on complete progress.\<close>

definition accept_sound :: "'n engine_lib \<Rightarrow> ('n, 'f, 'w) model_task \<Rightarrow> decision_progress \<Rightarrow> 'n engine_call \<Rightarrow> bool" where
  "accept_sound E T progress c \<longleftrightarrow>
     (\<forall>acc out. c = CallAccept acc out \<longrightarrow>
        (\<exists>v. validate_decision_progress (lib_writer E) (lib_int E) (mt_decisions T) (mt_requirements T) progress = Inr v
           \<and> vp_state v = ProgressComplete (ac_evaluated acc))
        \<and> ac_claimed acc = mt_claimed T
        \<and> publish_plan E (act_compiled (mt_activation T)) (mt_claimed T) (ac_evaluated acc) (pa_budget (mt_prepared T))
            = Inr (ac_actions acc))"

text \<open>Planning on a complete assessment reached the \<open>expect\<close> of \<open>finite_number\<close>.\<close>

definition plan_panics :: "'n engine_lib \<Rightarrow> ('n, 'f, 'w) model_task \<Rightarrow> decision_progress \<Rightarrow> bool" where
  "plan_panics E T progress \<longleftrightarrow>
     (\<exists>v a. validate_decision_progress (lib_writer E) (lib_int E) (mt_decisions T) (mt_requirements T) progress = Inr v
        \<and> vp_state v = ProgressComplete a
        \<and> publish_plan E (act_compiled (mt_activation T)) (mt_claimed T) a (pa_budget (mt_prepared T)) = Inl PlanningPanic)"

definition idle ::
  "'n engine_lib \<Rightarrow> ('n, 'f, 'w) model_task \<Rightarrow> decision_progress \<Rightarrow> ('n, 'f, 'w) run_state
     \<Rightarrow> task_failure + model_turn \<Rightarrow> ('n, 'f, 'w) run_state \<Rightarrow> bool" where
  "idle E T progress s r s' \<longleftrightarrow>
     (\<exists>cs. io_calls s' = io_calls s @ cs
        \<and> (\<forall>c \<in> set cs. (\<exists>x. c = CallEnd x) \<or> (\<exists>acc out. c = CallAccept acc out) \<and> accept_sound E T progress c))
     \<and> rn_attempts s' = rn_attempts s \<and> rn_intents s' = rn_intents s \<and> \<not> is_again r \<and> counts_told s' r
     \<and> (r = Inl TaskPanic \<longrightarrow> plan_panics E T progress)"

lemma logs_end: "logs (store_call m (\<lambda>r. [CallEnd r])) (\<lambda>r cs. r \<noteq> Inl EnginePanic \<and> (\<forall>c \<in> set cs. \<exists>x. c = CallEnd x))"
  by (rule logs_mono [OF logs_store]) (auto split: sum.splits)

lemma logs_bind_return: "logs (ev_bind m ev_return) P \<Longrightarrow> logs m P"
proof -
  have "ev_bind m ev_return = m" by (rule ext) (auto simp: ev_bind_def split: prod.splits sum.splits)
  then show "logs (ev_bind m ev_return) P \<Longrightarrow> logs m P" by (simp only:)
qed

lemma logs_reject:
  "logs (reject_preparation E S claimed f) (\<lambda>r cs. r \<noteq> Inl EnginePanic \<and> (\<forall>c \<in> set cs. \<exists>x. c = CallEnd x))"
  by (rule logs_bind_return, rule logs_reject_then) (auto intro!: logs_return)

text \<open>A step that only ends the run.\<close>

lemma ending_idle:
  assumes "ev_bind (counted m) (\<lambda>x. ev_return (TurnEnds (g x))) s = (r, s')"
    and "logs m (\<lambda>r cs. (r = Inl EnginePanic \<longrightarrow> plan_panics E T progress)
      \<and> (\<forall>c \<in> set cs. (\<exists>x. c = CallEnd x) \<or> (\<exists>acc out. c = CallAccept acc out) \<and> accept_sound E T progress c))"
  shows "idle E T progress s r s'"
proof (rule counted_bind [OF assms])
  fix x cs
  assume "same_run s s'" "io_calls s' = io_calls s @ cs"
    "(Inl x = Inl EnginePanic \<longrightarrow> plan_panics E T progress)
      \<and> (\<forall>c \<in> set cs. (\<exists>x. c = CallEnd x) \<or> (\<exists>acc out. c = CallAccept acc out) \<and> accept_sound E T progress c)"
    "r = (case x of EnginePanic \<Rightarrow> Inl TaskPanic | StoreFailed e \<Rightarrow> Inl (TaskFailed (counts_error s' e)))"
  then show ?thesis
    by (cases x) (auto simp: idle_def same_run_def is_again_def counts_told_def counts_error_def)
next
  fix y s1 cs
  assume "same_run s s1" "io_calls s1 = io_calls s @ cs"
    "(Inr y = Inl EnginePanic \<longrightarrow> plan_panics E T progress)
      \<and> (\<forall>c \<in> set cs. (\<exists>x. c = CallEnd x) \<or> (\<exists>acc out. c = CallAccept acc out) \<and> accept_sound E T progress c)"
    "ev_return (TurnEnds (g y)) s1 = (r, s')"
  then show ?thesis by (auto simp: idle_def same_run_def is_again_def counts_told_def)
qed

lemma next_turn_calls:
  assumes "next_turn E T progress first a n s = (r, s')"
  shows "idle E T progress s r s' \<or> refused s r s'
    \<or> sent T a s r s' \<and> rn_intents s < mt_maximum T \<and> (first \<longrightarrow> n \<le> mt_maximum T - rn_intents s)"
proof (cases "mt_maximum T - rn_intents s = 0 \<or> first \<and> mt_maximum T - rn_intents s < n")
  case True
  then have "ev_bind (counted (store_call (st_record_not_assessed (mt_store T) (mt_claimed T)
       ''Replay provider attempt limit reached.'') (\<lambda>r. [CallEnd r])))
       (\<lambda>recorded. ev_return (TurnEnds (stale_or RunLimitReached recorded))) s = (r, s')"
    using assms by (simp add: next_turn_def Let_def)
  then have "idle E T progress s r s'" by (rule ending_idle) (rule logs_mono [OF logs_end], auto)
  then show ?thesis ..
next
  case False
  let ?check = "evaluator_call (dv_validate (mt_evaluator T) (mt_activation T) (mt_prepared T) PurposeDispatch) []"
  from False assms have "ev_bind (counted ?check) (\<lambda>checked.
      (case checked of
         Inl failure \<Rightarrow>
           ev_bind (counted (reject_preparation E (mt_store T) (mt_claimed T) failure)) (\<lambda>(recorded, f).
             ev_return (TurnEnds (stale_or (RunNotAssessed (pf_detail f)) recorded)))
       | Inr _ \<Rightarrow> dispatch_attempt E T progress first a)) s = (r, s')"
    unfolding next_turn_def Let_def by (simp only: if_False)
  then show ?thesis
  proof (elim counted_bind [OF _ logs_evaluator], goal_cases)
    case (2 checked s1 cs)
    then have s1: "same_run s s1" "io_calls s1 = io_calls s" by auto
    show ?case
    proof (cases checked)
      case (Inl failure)
      then have "ev_bind (counted (reject_preparation E (mt_store T) (mt_claimed T) failure))
          (\<lambda>p. ev_return (TurnEnds (stale_or (RunNotAssessed (pf_detail (snd p))) (fst p)))) s1 = (r, s')"
        using 2 by (simp add: case_prod_beta')
      then have "idle E T progress s1 r s'" by (rule ending_idle) (rule logs_mono [OF logs_reject], auto)
      with s1 show ?thesis by (simp add: idle_def same_run_def)
    next
      case (Inr u)
      then have "dispatch_attempt E T progress first a s1 = (r, s')" using 2 by simp
      from dispatch_attempt_calls [OF this] s1 False show ?thesis
        by (auto simp: refused_def sent_def same_run_def)
    qed
  qed auto
qed

lemma model_turn_calls:
  assumes "model_turn E T progress first last_failure s = (r, s')"
  shows "idle E T progress s r s' \<or> refused s r s'
    \<or> (\<exists>v a n. validate_decision_progress (lib_writer E) (lib_int E) (mt_decisions T) (mt_requirements T) progress = Inr v
         \<and> vp_state v = ProgressNext a n \<and> vp_attempts v = rn_attempts s \<and> sent T a s r s' \<and> rn_intents s < mt_maximum T
         \<and> (first \<longrightarrow> n \<le> mt_maximum T - rn_intents s))"
proof -
  let ?v = "validate_decision_progress (lib_writer E) (lib_int E) (mt_decisions T) (mt_requirements T) progress"
  consider (bad) e where "?v = Inl e" | (counts) v where "?v = Inr v" "vp_attempts v \<noteq> rn_attempts s"
    | (ok) v where "?v = Inr v" "vp_attempts v = rn_attempts s" by (cases ?v) auto
  then show ?thesis
  proof cases
    case (ok v)
    show ?thesis
    proof (cases "vp_state v")
      case (ProgressNext a n)
      with ok assms have "next_turn E T progress first a n s = (r, s')"
        by (simp add: model_turn_def current_progress_def ev_bind_def)
      from next_turn_calls [OF this] ok ProgressNext show ?thesis by blast
    next
      case (ProgressComplete evaluated)
      let ?s = "s\<lparr>rn_release := True, rn_safe := False\<rparr>"
      from ok ProgressComplete assms have run: "ev_bind (counted (publish_model E (mt_store T) (mt_evaluator T) (mt_activation T)
          (mt_claimed T) (mt_prepared T) evaluated)) (\<lambda>out. ev_return (TurnEnds out)) ?s = (r, s')"
        by (simp add: model_turn_def current_progress_def ev_bind_def)
      have "logs (publish_model E (mt_store T) (mt_evaluator T) (mt_activation T) (mt_claimed T) (mt_prepared T) evaluated)
        (\<lambda>r cs. (r = Inl EnginePanic \<longrightarrow> plan_panics E T progress)
          \<and> (\<forall>c \<in> set cs. (\<exists>x. c = CallEnd x) \<or> (\<exists>acc out. c = CallAccept acc out) \<and> accept_sound E T progress c))"
      proof (rule logs_mono [OF logs_publish_model], intro conjI ballI, goal_cases)
        case (1 r cs)
        with ok ProgressComplete show ?case by (auto simp: plan_panics_def)
      next
        case (2 r cs c)
        then have "publishes E (act_compiled (mt_activation T)) (mt_claimed T) (mt_prepared T) evaluated c" by blast
        with ok ProgressComplete show ?case by (cases c) (auto simp: publishes_def accept_sound_def)
      qed
      with run have "idle E T progress ?s r s'" by (rule ending_idle)
      then show ?thesis by (simp add: idle_def)
    next
      case (ProgressTerminal t)
      let ?d = "case last_failure of Some d \<Rightarrow> d | None \<Rightarrow> terminal_diagnostic t"
      from ok ProgressTerminal assms have "ev_bind (counted (store_call
          (st_record_evaluation_failure (mt_store T) (mt_claimed T) ?d) (\<lambda>r. [CallEnd r])))
          (\<lambda>recorded. ev_return (TurnEnds (stale_or (RunFailed (ed_detail ?d)) recorded))) (s\<lparr>rn_release := False\<rparr>) = (r, s')"
        by (simp add: model_turn_def current_progress_def ev_bind_def Let_def)
      then have "idle E T progress (s\<lparr>rn_release := False\<rparr>) r s'" by (rule ending_idle) (rule logs_mono [OF logs_end], auto)
      then show ?thesis by (simp add: idle_def)
    qed
  qed (use assms in \<open>auto simp: model_turn_def current_progress_def ev_bind_def task_fail_def idle_def is_again_def
      counts_told_def counts_error_def\<close>)
qed

section \<open>What a run does\<close>

definition opens :: "'n engine_lib \<Rightarrow> ('n, 'f, 'w) model_task \<Rightarrow> decision_progress \<Rightarrow> decision_attempt \<Rightarrow> bool" where
  "opens E T progress a \<longleftrightarrow>
     (\<exists>v n. validate_decision_progress (lib_writer E) (lib_int E) (mt_decisions T) (mt_requirements T) progress = Inr v
        \<and> vp_state v = ProgressNext a n)"

text \<open>
  The calls of a run that starts with these rows after \<open>m\<close> intents of its own: passes that send
  the open attempt and settle it, then one that ends the run.
\<close>

inductive task_trace ::
  "'n engine_lib \<Rightarrow> ('n, 'f, 'w) model_task \<Rightarrow> decision_progress \<Rightarrow> nat \<Rightarrow> 'n engine_call list \<Rightarrow> bool"
  for E T where
  trace_idle: "(\<And>c. c \<in> set cs \<Longrightarrow> (\<exists>x. c = CallEnd x) \<or> (\<exists>acc out. c = CallAccept acc out) \<and> accept_sound E T progress c)
      \<Longrightarrow> task_trace E T progress m cs"
| trace_refused: "x \<noteq> Some ClaimCurrent \<Longrightarrow> task_trace E T progress m [CallIntent a x]"
| trace_last: "opens E T progress a \<Longrightarrow> m < mt_maximum T \<Longrightarrow> settling tail
      \<Longrightarrow> task_trace E T progress m (CallIntent a (Some ClaimCurrent) # CallSend a # tail)"
| trace_again: "opens E T progress a \<Longrightarrow> m < mt_maximum T \<Longrightarrow> settling tail \<Longrightarrow> settled_rows tail = [row]
      \<Longrightarrow> row_attempt row = a \<Longrightarrow> task_trace E T (progress @ [row]) (Suc m) cs
      \<Longrightarrow> task_trace E T progress m (CallIntent a (Some ClaimCurrent) # CallSend a # tail @ cs)"

fun sent_attempt :: "'n engine_call \<Rightarrow> decision_attempt option" where
  "sent_attempt (CallSend a) = Some a"
| "sent_attempt _ = None"

definition sends :: "'n engine_call list \<Rightarrow> decision_attempt list" where
  "sends cs = List.map_filter sent_attempt cs"

lemma sends_simps [simp]:
  "sends [] = []" "sends (cs @ ds) = sends cs @ sends ds"
  "sends (c # cs) = (case sent_attempt c of None \<Rightarrow> sends cs | Some a \<Rightarrow> a # sends cs)"
  by (simp_all add: sends_def List.map_filter_simps split: option.splits) (simp add: List.map_filter_def)

lemma no_sends: "(\<And>c. c \<in> set cs \<Longrightarrow> sent_attempt c = None) \<Longrightarrow> sends cs = []"
  by (induction cs) auto

lemma settling_calls:
  assumes "settling cs"
  shows "sends cs = []" and "CallIntent a x \<notin> set cs" and "CallAccept acc out \<notin> set cs" and "CallSend a \<notin> set cs"
proof -
  have "sent_attempt c = None" if "is_settlement c" for c :: "'a engine_call" using that by (cases c) auto
  with assms show "sends cs = []" by (intro no_sends) (auto simp: settling_def)
qed (use assms in \<open>auto simp: settling_def\<close>)

text \<open>What the state of the run tells of these calls.\<close>

definition unsettled :: "'n engine_call list \<Rightarrow> bool" where
  "unsettled cs \<longleftrightarrow>
     length (settled_rows cs) < length (sends cs) \<or> (\<exists>a x. CallIntent a x \<in> set cs \<and> x \<noteq> Some ClaimCurrent)"

definition run_tells ::
  "('n, 'f, 'w) run_state \<Rightarrow> 'n engine_call list \<Rightarrow> task_failure + 'a \<Rightarrow> ('n, 'f, 'w) run_state \<Rightarrow> bool" where
  "run_tells s cs r s' \<longleftrightarrow>
     rn_intents s' = rn_intents s + length (sends cs) \<and> rn_attempts s' = rn_attempts s + length (sends cs)
     \<and> counts_told s' r \<and> (unsettled cs \<longrightarrow> \<not> rn_release s')"

definition may_panic :: "'n engine_lib \<Rightarrow> ('n, 'f, 'w) model_task \<Rightarrow> bool" where
  "may_panic E T \<longleftrightarrow>
     (\<exists>progress. plan_panics E T progress
        \<or> (\<exists>a. opens E T progress a \<and> find (\<lambda>b. block_name b = attempt_decision a) (mt_decisions T) = None))"

lemma idle_trace:
  assumes "idle E T progress s r s'"
  obtains cs where "io_calls s' = io_calls s @ cs" "task_trace E T progress (rn_intents s) cs" "run_tells s cs r s'"
proof -
  from assms obtain cs where calls: "io_calls s' = io_calls s @ cs"
    and each: "\<And>c. c \<in> set cs \<Longrightarrow>
        (\<exists>x. c = CallEnd x) \<or> (\<exists>acc out. c = CallAccept acc out) \<and> accept_sound E T progress c"
    and rest: "rn_attempts s' = rn_attempts s" "rn_intents s' = rn_intents s" "counts_told s' r"
    unfolding idle_def by blast
  have "sent_attempt c = None \<and> (\<forall>a x. c \<noteq> CallIntent a x)" if "c \<in> set cs" for c using each [OF that] by auto
  then have "sends cs = []" "\<not> unsettled cs" using no_sends [of cs] by (auto simp: unsettled_def)
  with calls rest trace_idle [OF each] show ?thesis by (intro that [of cs]) (auto simp: run_tells_def)
qed

lemma run_model_trace:
  "run_model E T progress first last_failure s = (r, s') \<Longrightarrow>
     \<exists>cs. io_calls s' = io_calls s @ cs \<and> task_trace E T progress (rn_intents s) cs \<and> run_tells s cs r s'
       \<and> (r = Inl TaskPanic \<longrightarrow> may_panic E T)"
proof (induction E T progress first last_failure s rule: run_model.induct)
  case (1 E T progress first last_failure s)
  obtain x s1 where turn: "model_turn E T progress first last_failure s = (x, s1)" by (rule prod.exhaust)
  let ?done = "\<lambda>r s'. (r, s') = (case x of Inl e \<Rightarrow> (Inl e, s1) | Inr (TurnEnds outcome) \<Rightarrow> (Inr outcome, s1) | _ \<Rightarrow> (r, s'))"
  show ?case
  proof (cases "is_again x")
    case False
    have "s' = s1" and panic: "r = Inl TaskPanic \<longleftrightarrow> x = Inl TaskPanic"
      and told: "counts_told s1 r \<longleftrightarrow> counts_told s1 x"
      using "1.prems" turn False
      by (auto simp: run_model.simps [of E T progress first last_failure s] is_again_def counts_told_def
          split: sum.splits model_turn.splits)
    from model_turn_calls [OF turn]
    consider (idle) "idle E T progress s x s1" | (refused) "refused s x s1"
      | (sent) a where "opens E T progress a" "sent T a s x s1" "rn_intents s < mt_maximum T"
      unfolding opens_def by blast
    then show ?thesis
    proof cases
      case idle
      have "x = Inl TaskPanic \<longrightarrow> may_panic E T" using idle by (auto simp: idle_def may_panic_def)
      with idle_trace [OF idle] \<open>s' = s1\<close> panic told show ?thesis by (auto simp: run_tells_def)
    next
      case refused
      then obtain a y where "io_calls s1 = io_calls s @ [CallIntent a y]" "y \<noteq> Some ClaimCurrent"
        "x \<noteq> Inl TaskPanic" "run_tells s [CallIntent a y] x s1"
        by (auto simp: refused_def run_tells_def)
      with \<open>s' = s1\<close> panic told show ?thesis
        using trace_refused [of y E T progress "rn_intents s" a] by (auto simp: run_tells_def)
    next
      case (sent a)
      then obtain tail where calls: "io_calls s1 = io_calls s @ CallIntent a (Some ClaimCurrent) # CallSend a # tail"
        and tail: "settling tail" "settled_rows tail = [] \<longrightarrow> \<not> rn_release s1"
        unfolding sent_def by blast
      let ?cs = "CallIntent a (Some ClaimCurrent) # CallSend a # tail"
      have "unsettled ?cs \<longrightarrow> \<not> rn_release s1"
        using tail by (auto simp: unsettled_def settling_calls)
      with sent tail have "run_tells s ?cs x s1"
        by (simp add: run_tells_def sent_def settling_calls)
      moreover have "x = Inl TaskPanic \<longrightarrow> may_panic E T" using sent by (auto simp: sent_def may_panic_def)
      ultimately show ?thesis
        using \<open>s' = s1\<close> panic told calls trace_last [OF sent(1,3) tail(1)] by (auto simp: run_tells_def)
    qed
  next
    case True
    then obtain row d where x: "x = Inr (TurnAgain row d)" unfolding is_again_def by blast
    with "1.prems" turn have run: "run_model E T (progress @ [row]) False d s1 = (r, s')"
      by (simp add: run_model.simps [of E T progress first last_failure s])
    from model_turn_calls [OF turn] True obtain a where next_attempt: "opens E T progress a" "rn_intents s < mt_maximum T"
      and sent: "sent T a s x s1"
      unfolding opens_def by (auto simp: idle_def refused_def)
    from sent x obtain tail where calls: "io_calls s1 = io_calls s @ CallIntent a (Some ClaimCurrent) # CallSend a # tail"
      and tail: "settling tail" "settled_rows tail = [row]" "row_attempt row = a"
      and counts: "rn_attempts s1 = Suc (rn_attempts s)" "rn_intents s1 = Suc (rn_intents s)"
      unfolding sent_def by auto
    from "1.IH" [OF turn [symmetric] x refl run]
    obtain cs where cs: "io_calls s' = io_calls s1 @ cs" "task_trace E T (progress @ [row]) (rn_intents s1) cs"
      "run_tells s1 cs r s'" "r = Inl TaskPanic \<longrightarrow> may_panic E T" by blast
    let ?cs = "CallIntent a (Some ClaimCurrent) # CallSend a # tail @ cs"
    have "task_trace E T progress (rn_intents s) ?cs"
      using cs(2) counts(2) by (intro trace_again [OF next_attempt tail]) simp
    moreover have "run_tells s ?cs r s'"
      using cs(3) counts tail by (auto simp: run_tells_def unsettled_def settling_calls)
    ultimately show ?thesis
      using calls cs(1,4) by auto
  qed
qed

end
