(* ===== verification/Model_Safety.thy ===== *)
theory Model_Safety
  imports Model_Laws Scheduler_Laws
begin

text \<open>
  The properties of a whole run of the task of a candidate, for every store and every evaluator.
  They follow from the trace of its calls, \<open>run_model_trace\<close>.
\<close>

section \<open>Dispatch\<close>

definition attempt_key :: "decision_attempt \<Rightarrow> string \<times> nat" where
  "attempt_key a = (attempt_decision a, attempt_number a)"

text \<open>Neither sent before, nor a retry of anything but a failure known to be safe.\<close>

definition fresh_attempt :: "('n, 'f, 'w) model_task \<Rightarrow> decision_progress \<Rightarrow> decision_attempt \<Rightarrow> bool" where
  "fresh_attempt T rows a \<longleftrightarrow>
     rows_of rows (attempt_key a) = None \<and> attempt_decision a \<in> block_name ` set (mt_decisions T)
     \<and> (attempt_number a = 1
        \<or> attempt_number a = 2 \<and> rows_of rows (attempt_decision a, 1) = Some AttemptSafeTransient)"

lemma opens_fresh: "opens E T progress a \<Longrightarrow> fresh_attempt T progress a"
  unfolding opens_def fresh_attempt_def attempt_key_def by (auto dest: next_attempt_safe)

lemma rows_of_append_None:
  "rows_of (progress @ rows) k = None \<longleftrightarrow> rows_of progress k = None \<and> rows_of rows k = None"
  by (auto simp: rows_of_def map_add_def split: option.splits)

lemma pass_split:
  assumes "CallIntent a x # CallSend a # tail @ cs = before @ CallSend b # later" "settling tail"
  obtains (here) "before = [CallIntent a x]" "b = a"
  | (later) before' where "before = CallIntent a x # CallSend a # tail @ before'" "cs = before' @ CallSend b # later"
proof -
  from assms(1) obtain before1 where before: "before = CallIntent a x # before1"
    and eq: "CallSend a # tail @ cs = before1 @ CallSend b # later"
    by (auto simp: Cons_eq_append_conv)
  show ?thesis
  proof (cases before1)
    case Nil
    with before eq show ?thesis by (intro here) auto
  next
    case (Cons c before2)
    with eq have c: "c = CallSend a" and "tail @ cs = before2 @ CallSend b # later" by auto
    then consider us where "tail = before2 @ us" "us @ cs = CallSend b # later"
      | us where "before2 = tail @ us" "cs = us @ CallSend b # later"
      by (auto simp: append_eq_append_conv2)
    then show ?thesis
    proof cases
      case (1 us)
      then show ?thesis
      proof (cases us)
        case Nil
        with 1 before Cons c show ?thesis by (intro later [of "[]"]) auto
      next
        case (Cons d us')
        with 1 have "CallSend b \<in> set tail" by auto
        with settling_calls(4) [OF assms(2)] show ?thesis by blast
      qed
    next
      case (2 us)
      with before Cons c show ?thesis by (intro later [of us]) auto
    qed
  qed
qed

lemma trace_dispatch:
  assumes "task_trace E T progress m cs"
  shows "\<And>before b later. cs = before @ CallSend b # later \<Longrightarrow>
      before \<noteq> [] \<and> last before = CallIntent b (Some ClaimCurrent)
      \<and> fresh_attempt T (progress @ settled_rows before) b"
  using assms
proof (induction rule: task_trace.induct)
  case (trace_idle cs progress m)
  then show ?case by force
next
  case (trace_last progress a m tail)
  from trace_last(4) have "CallIntent a (Some ClaimCurrent) # CallSend a # tail @ [] = before @ CallSend b # later" by simp
  from this trace_last(3) show ?case
    using opens_fresh [OF trace_last(1)] by (cases rule: pass_split) auto
next
  case (trace_again progress a m tail row cs)
  from trace_again.prems trace_again(3) show ?case
  proof (cases rule: pass_split)
    case here
    with opens_fresh [OF trace_again(1)] show ?thesis by simp
  next
    case (later before')
    from trace_again.IH [OF later(2)] later(1) trace_again(4) show ?thesis by auto
  qed
qed (auto simp: Cons_eq_append_conv)

lemma trace_sends:
  assumes "task_trace E T progress m cs"
  shows "distinct (sends cs) \<and> (\<forall>a \<in> set (sends cs). rows_of progress (attempt_key a) = None)
    \<and> length (sends cs) \<le> mt_maximum T - m \<and> length (sends cs) \<le> 2 * length (mt_decisions T) - length progress"
  using assms
proof (induction rule: task_trace.induct)
  case (trace_idle cs progress m)
  then have "sends cs = []" by (intro no_sends) force
  then show ?case by simp
next
  case (trace_last progress a m tail)
  then show ?case
    using opens_fresh [OF trace_last(1)]
    by (auto simp: settling_calls fresh_attempt_def opens_def dest: validate_progressD(6))
next
  case (trace_again progress a m tail row cs)
  let ?cs = "CallIntent a (Some ClaimCurrent) # CallSend a # tail @ cs"
  have "rows_of (progress @ [row]) (attempt_key a) \<noteq> None"
    using trace_again(5) unfolding rows_of_append_None by (simp add: rows_of_def row_key_def attempt_key_def)
  then have "a \<notin> set (sends cs)" using trace_again.IH by auto
  moreover have "length progress < 2 * length (mt_decisions T)"
    using trace_again(1) by (auto simp: opens_def dest: validate_progressD(6))
  ultimately show ?case
    using trace_again opens_fresh [OF trace_again(1)]
    by (auto simp: settling_calls fresh_attempt_def rows_of_append_None)
qed simp

section \<open>Acceptance\<close>

lemma trace_accept:
  assumes "task_trace E T progress m cs"
  shows "CallAccept acc out \<in> set cs \<Longrightarrow>
      accept_sound E T (progress @ settled_rows cs) (CallAccept acc out)
      \<and> length (settled_rows cs) = length (sends cs)"
  using assms
proof (induction rule: task_trace.induct)
  case (trace_idle cs progress m)
  have "sends cs = []" using trace_idle(1) by (intro no_sends) force
  moreover have "settled_rows cs = []"
    using trace_idle(1) by (induction cs) (fastforce split: option.splits)+
  moreover have "accept_sound E T progress (CallAccept acc out)" using trace_idle(1) [OF trace_idle(2)] by auto
  ultimately show ?case by simp
next
  case (trace_again progress a m tail row cs)
  then have "CallAccept acc out \<in> set cs" using settling_calls(3) [OF trace_again(3)] by auto
  from trace_again.IH [OF this] trace_again(3,4) show ?case by (simp add: settling_calls)
qed (use settling_calls(3) in auto)

lemma accepted_assessment:
  assumes "accept_sound E T progress (CallAccept acc out)"
  shows "validate_for_declarations (lib_writer E) (lib_int E) (ac_evaluated acc) (mt_decisions T) (mt_requirements T) = Inr ()
    \<and> assessed_attempts (ac_evaluated acc) = length progress
    \<and> (\<forall>d \<in> set (assessed_decisions (ac_evaluated acc)).
         rows_of progress (result_decision d, result_attempts d) = Some (AttemptAnswer d))"
  using assms complete_progress_sound unfolding accept_sound_def by blast

lemma no_panic:
  assumes "converts_finite (lib_float E)"
  shows "\<not> may_panic E T"
proof -
  have traced: "fst (plan_status_actions_with_budget F L actions c a prior st) = Inl PlanningPanic
      \<Longrightarrow> fst (plan_status_actions_traced F L actions c a prior st) = Inl PlanningPanic"
    for F :: "f64 \<Rightarrow> 'n option" and L actions c a prior st
    by (auto simp: plan_status_actions_with_budget_def ev_bind_def split: prod.splits sum.splits)
  have "\<not> plan_panics E T progress" for progress
  proof
    assume "plan_panics E T progress"
    then obtain v a where v: "validate_decision_progress (lib_writer E) (lib_int E) (mt_decisions T) (mt_requirements T) progress = Inr v"
      "vp_state v = ProgressComplete a"
      and panic: "publish_plan E (act_compiled (mt_activation T)) (mt_claimed T) a (pa_budget (mt_prepared T)) = Inl PlanningPanic"
      unfolding plan_panics_def by blast
    from complete_progress_sound [OF v]
    have "validate_for_declarations (lib_writer E) (lib_int E) a (mt_decisions T) (mt_requirements T) = Inr ()" by blast
    from validated_plan_no_panic [OF this assms] panic show False
      unfolding publish_plan_def by (blast dest: traced)
  qed
  moreover have "find (\<lambda>b. block_name b = attempt_decision a) (mt_decisions T) \<noteq> None" if "opens E T progress a" for progress a
    using opens_fresh [OF that] by (auto simp: fresh_attempt_def find_None_iff)
  ultimately show ?thesis unfolding may_panic_def by blast
qed

section \<open>A run of one decision\<close>

definition sample_lib :: "nat engine_lib" where
  "sample_lib = \<lparr>lib_writer = (\<lambda>_. ([], None)), lib_int = id,
     lib_float = (\<lambda>v. if is_finite v then Some 0 else None), lib_json = nat_lib\<rparr>"

definition sample_store :: "(nat, unit) check_store" where
  "sample_store =
     \<lparr>st_release_claim = (\<lambda>_. ev_return ClaimCurrent), st_claim_due = (\<lambda>_ now _. ev_return (ClaimNotDue now)),
      st_load_progress = (\<lambda>_. ev_return []), st_load_preparation = (\<lambda>_. ev_return None),
      st_record_preparation = (\<lambda>_ _. ev_return ClaimCurrent), st_record_local_start = (\<lambda>_ _ _ _. ev_return ClaimCurrent),
      st_record_rejection = (\<lambda>_ _. ev_return ClaimCurrent), st_record_intent = (\<lambda>_ _ _ _. ev_return ClaimCurrent),
      st_record_attempt_failure = (\<lambda>_ _ _ _. ev_return ClaimCurrent), st_record_answer = (\<lambda>_ _ _. ev_return ClaimCurrent),
      st_accept = (\<lambda>_. ev_return AcceptAccepted), st_record_evaluation_failure = (\<lambda>_ _. ev_return ClaimCurrent),
      st_record_not_assessed = (\<lambda>_ _. ev_return ClaimCurrent)\<rparr>"

definition sample_prepared :: "nat prepared_assessment" where
  "sample_prepared = \<lparr>pa_version = 1, pa_profile = ''p'', pa_budget = default_budget, pa_work = 0, pa_decisions = []\<rparr>"

definition sample_evaluator :: "(nat, unit, unit) decision_evaluator" where
  "sample_evaluator =
     \<lparr>dv_local_current = (\<lambda>_ w. (True, w)), dv_prepare = (\<lambda>_ _ _. ev_return sample_prepared), dv_recorded = (\<lambda>_ w. w),
      dv_validate = (\<lambda>_ _ _. ev_return ()), dv_evaluate = (\<lambda>_ _ _ _. ev_return sample_result)\<rparr>"

definition sample_claimed :: "nat claimed_candidate" where
  "sample_claimed = \<lparr>cl_id = ''c'', cl_candidate = sample_candidate\<lparr>cand_context := \<lparr>context_value = JObject [],
     context_dependencies = []\<rparr>\<rparr>, cl_prior_status = None, cl_fence = 1\<rparr>"

definition sample_task :: "(nat, unit, unit) model_task" where
  "sample_task =
     \<lparr>mt_store = sample_store, mt_evaluator = sample_evaluator,
      mt_activation = sample_activation 1\<lparr>act_compiled := sample_check\<lparr>check_decisions := [sample_block]\<rparr>\<rparr>,
      mt_candidate = sample_candidate, mt_claimed = sample_claimed, mt_prepared = sample_prepared, mt_maximum = 8,
      mt_now = 0, mt_cooldown = 0, mt_policy = LivePolicy, mt_key = sample_key\<rparr>"

definition sample_state :: "(nat, unit, unit) run_state" where
  "sample_state = \<lparr>io_world = (), io_calls = [], rn_release = True, rn_safe = True, rn_sched = sample_running,
     rn_attempts = 0, rn_intents = 0\<rparr>"

definition sample_first :: decision_attempt where
  "sample_first = \<lparr>attempt_decision = ''review'', attempt_number = 1\<rparr>"

lemma sample_task_checks:
  "mt_decisions sample_task = [sample_block]" "mt_requirements sample_task = [sample_requirements]"
  by (simp_all add: mt_decisions_def mt_requirements_def sample_task_def sample_activation_def sample_check_def
      check_requirements_def question_requirement_def sample_block_def sample_question_def sample_requirements_def)

lemma sample_none:
  "validate_decision_progress (\<lambda>_. ([], None)) id [sample_block] [sample_requirements] []
     = Inr \<lparr>vp_attempts = 0, vp_state = ProgressNext sample_first 1\<rparr>"
  by (simp add: sample_first_def validate_decision_progress_def validate_requirements_def validate_declarations_def block_validate_def
      sample_block_def sample_question_def sample_requirements_def sample_names attempt_validate_def
      MAX_QUESTIONS_PER_DECISION_def question_validate_def declared_questions_def bt_collect_def
      bt_get_def validate_for_question_def block_progress_def attempt_new_def row_key_def bt_contains_def
      bt_remove_def measure_json_def assessment_serde_def RESULT_LIMITS_def
      counter_new_def charge_def ev_bind_def MAX_FIT_INPUT_DEPTH_def MAX_RESULT_BYTES_def Let_def)

lemma sample_answer:
  "validate_answer sample_lib sample_task sample_first sample_result [] = Some (Inr sample_result)"
proof -
  have valid: "validate_for_declaration (\<lambda>_. ([], None)) id sample_result sample_block [sample_requirements] = Inr ()"
    using assessment_new_validates [OF sample_assessment]
    by (auto simp: validate_for_declarations_def check_declared_iff split: if_splits)
  have size: "\<exists>m. measure_decision_results_with_next (\<lambda>_. ([], None)) id [] sample_result = Inr m"
    by (simp add: measure_decision_results_with_next_def total_attempts_def sample_result_def u64_max_def measure_json_def
        assessment_serde_def decision_serde_def answer_serde_def RESULT_LIMITS_def RESULT_VERSION_def
        counter_new_def charge_def ev_bind_def MAX_FIT_INPUT_DEPTH_def MAX_RESULT_BYTES_def f64_le_def Let_def)
  have facts: "lib_writer sample_lib = (\<lambda>_. ([], None))" "lib_int sample_lib = id" "block_name sample_block = ''review''"
    "result_attempts sample_result = 1" "saved_answers [] = []"
    "attempt_decision sample_first = ''review''" "attempt_number sample_first = 1"
    by (simp_all add: sample_first_def sample_lib_def sample_block_def sample_result_def saved_answers_def List.map_filter_def)
  from size obtain m where "measure_decision_results_with_next (\<lambda>_. ([], None)) id [] sample_result = Inr m" ..
  then show ?thesis
    by (simp add: validate_answer_def facts sample_task_checks valid Let_def)
qed

lemma sample_plan:
  "\<exists>p. publish_plan sample_lib (act_compiled (mt_activation sample_task)) sample_claimed
      \<lparr>assessed_version = 1, assessed_decisions = [sample_result], assessed_attempts = 1\<rparr> default_budget = Inr p"
proof -
  have "fst (step 1 (start_state default_budget)) = Inr ()"
    by (simp add: step_def check_active_def ev_bind_def start_state_def default_state_simps)
  then show ?thesis
    by (auto simp: publish_plan_def sample_lib_def sample_task_def sample_claimed_def bt_contains_def bt_get_def
      plan_status_actions_with_budget_def plan_status_actions_traced_def context_with_assessment_def finite_number_def
      decision_value_def sample_result_def ev_bind_def sample_activation_def sample_check_def split: prod.splits)
qed

lemma sample_task_run:
  obtains acc s' where "run_model sample_lib sample_task [] True None sample_state = (Inr RunAccepted, s')"
    "io_calls s' = [CallIntent sample_first (Some ClaimCurrent), CallSend sample_first,
       CallAnswer sample_first sample_result (Some ClaimCurrent), CallAccept acc (Some AcceptAccepted)]"
proof -
  define a where "a = \<lparr>assessed_version = 1, assessed_decisions = [sample_result], assessed_attempts = 1\<rparr>"
  obtain p where plan: "publish_plan sample_lib (act_compiled (mt_activation sample_task)) sample_claimed a default_budget = Inr p"
    using sample_plan unfolding a_def by blast
  have lib: "lib_writer sample_lib = (\<lambda>_. ([], None))" "lib_int sample_lib = id" by (simp_all add: sample_lib_def)
  have parts: "mt_maximum sample_task = 8" "mt_store sample_task = sample_store" "mt_evaluator sample_task = sample_evaluator"
    "mt_claimed sample_task = sample_claimed" "mt_prepared sample_task = sample_prepared"
    "rn_attempts sample_state = 0" "rn_intents sample_state = 0" "io_calls sample_state = []"
    "pa_budget sample_prepared = default_budget"
    by (simp_all add: sample_task_def sample_state_def sample_prepared_def)
  note sample_done = sample_complete [folded sample_first_def, folded a_def]
  note run = ev_bind_def current_progress_def store_call_def evaluator_call_def counted_def sample_task_checks lib parts
  obtain s1 where first: "model_turn sample_lib sample_task [] True None sample_state
      = (Inr (TurnAgain \<lparr>row_attempt = sample_first, row_outcome = AttemptAnswer sample_result\<rparr> None), s1)"
    and s1: "rn_attempts s1 = 1" "io_calls s1 = [CallIntent sample_first (Some ClaimCurrent), CallSend sample_first,
       CallAnswer sample_first sample_result (Some ClaimCurrent)]"
    by (simp add: model_turn_def next_turn_def dispatch_attempt_def send_attempt_def settle_decision_attempt_def Let_def
        sample_answer sample_none sample_done run sample_store_def sample_evaluator_def)
  obtain acc s' where second: "model_turn sample_lib sample_task
      [\<lparr>row_attempt = sample_first, row_outcome = AttemptAnswer sample_result\<rparr>] False None s1
      = (Inr (TurnEnds RunAccepted), s')" "io_calls s' = io_calls s1 @ [CallAccept acc (Some AcceptAccepted)]"
    using s1(1) by (simp add: model_turn_def publish_model_def publish_actions_def plan Let_def
        sample_done run sample_store_def sample_evaluator_def)
  have "run_model sample_lib sample_task [] True None sample_state = (Inr RunAccepted, s')"
    by (simp add: run_model.simps [of sample_lib sample_task "[]"] run_model.simps [of sample_lib sample_task "[_]"] first second)
  then show ?thesis using second(2) s1(2) by (intro that) auto
qed

section \<open>The properties of a run\<close>

text \<open>
  C1. The task sends an attempt only directly after the store has committed the intent of that
  same attempt as current, for whatever the store and the evaluator answer. Each attempt is sent at most
  once, never one already on record, and a second attempt of a decision only after the first
  failed in a way known to be safe: what may have been delivered is never sent again.
\<close>

theorem model_dispatch_safe:
  assumes "run_model E T progress first last_failure s = (r, s')"
  shows "\<exists>new. io_calls s' = io_calls s @ new \<and> distinct (sends new)
    \<and> (\<forall>a \<in> set (sends new). rows_of progress (attempt_key a) = None)
    \<and> (\<forall>before a later. new = before @ CallSend a # later \<longrightarrow>
         before \<noteq> [] \<and> last before = CallIntent a (Some ClaimCurrent)
         \<and> fresh_attempt T (progress @ settled_rows before) a)"
proof -
  obtain new where calls: "io_calls s' = io_calls s @ new" and trace: "task_trace E T progress (rn_intents s) new"
    using run_model_trace [OF assms] by blast
  from trace_sends [OF trace] trace_dispatch [OF trace] calls show ?thesis by blast
qed

theorem model_dispatch_safe_witness:
  "\<exists>s'. run_model sample_lib sample_task [] True None sample_state = (Inr RunAccepted, s')
     \<and> distinct (sends (io_calls s')) \<and> CallSend sample_first \<in> set (io_calls s')"
proof -
  obtain acc s' where run: "run_model sample_lib sample_task [] True None sample_state = (Inr RunAccepted, s')"
    and calls: "io_calls s' = [CallIntent sample_first (Some ClaimCurrent), CallSend sample_first,
       CallAnswer sample_first sample_result (Some ClaimCurrent), CallAccept acc (Some AcceptAccepted)]"
    by (rule sample_task_run)
  have "distinct (sends (io_calls s'))"
    using model_dispatch_safe [OF run] by (auto simp: sample_state_def)
  with run calls show ?thesis by auto
qed

text \<open>
  C10. A run sends at most its allowance of new intents and at most two attempts for every
  declared decision, saved attempts included. Its counters, also those in the error of a run
  that failed, are exactly the saved attempts and the attempts it sent.
\<close>

theorem model_dispatch_bounded:
  assumes "run_model E T progress first last_failure s = (r, s')" "rn_intents s = 0" "rn_attempts s = length progress"
  shows "\<exists>new. io_calls s' = io_calls s @ new \<and> length (sends new) \<le> mt_maximum T
    \<and> (sends new \<noteq> [] \<longrightarrow> length progress + length (sends new) \<le> 2 * length (mt_decisions T))
    \<and> rn_intents s' = length (sends new) \<and> rn_attempts s' = length progress + length (sends new)
    \<and> (\<forall>e. r = Inl (TaskFailed e) \<longrightarrow> te_attempts e = rn_attempts s' \<and> te_new_intents e = rn_intents s')"
proof -
  obtain new where calls: "io_calls s' = io_calls s @ new" and trace: "task_trace E T progress (rn_intents s) new"
    and tells: "run_tells s new r s'"
    using run_model_trace [OF assms(1)] by blast
  from trace_sends [OF trace]
  have "length progress + length (sends new) \<le> 2 * length (mt_decisions T)" if "sends new \<noteq> []"
    using that by (cases "sends new") auto
  with trace_sends [OF trace] calls tells assms(2,3) show ?thesis
    by (intro exI [of _ new]) (auto simp: run_tells_def counts_told_def)
qed

theorem model_dispatch_bounded_witness:
  "\<exists>s'. run_model sample_lib sample_task [] True None sample_state = (Inr RunAccepted, s') \<and> rn_intents s' = 1"
proof -
  obtain acc s' where run: "run_model sample_lib sample_task [] True None sample_state = (Inr RunAccepted, s')"
    and calls: "io_calls s' = [CallIntent sample_first (Some ClaimCurrent), CallSend sample_first,
       CallAnswer sample_first sample_result (Some ClaimCurrent), CallAccept acc (Some AcceptAccepted)]"
    by (rule sample_task_run)
  have "rn_intents s' = length (sends (io_calls s'))"
    using model_dispatch_bounded [OF run] by (auto simp: sample_state_def)
  with run calls show ?thesis by simp
qed

text \<open>
  C5. Whatever the task submits for acceptance is complete: its assessment passes the check
  against the declarations of the check, holds only answers that are saved or that this run has
  recorded, and counts the saved attempts and every attempt sent, none of them unsettled. Its
  actions are the plan of the check's actions on the candidate's context and this assessment.
\<close>

theorem model_accepts_complete:
  assumes "run_model E T progress first last_failure s = (r, s')"
  shows "\<exists>new. io_calls s' = io_calls s @ new
    \<and> (\<forall>acc out. CallAccept acc out \<in> set new \<longrightarrow>
         ac_claimed acc = mt_claimed T
         \<and> validate_for_declarations (lib_writer E) (lib_int E) (ac_evaluated acc) (mt_decisions T) (mt_requirements T) = Inr ()
         \<and> (\<forall>d \<in> set (assessed_decisions (ac_evaluated acc)).
              rows_of (progress @ settled_rows new) (result_decision d, result_attempts d) = Some (AttemptAnswer d))
         \<and> assessed_attempts (ac_evaluated acc) = length progress + length (sends new)
         \<and> publish_plan E (act_compiled (mt_activation T)) (mt_claimed T) (ac_evaluated acc) (pa_budget (mt_prepared T))
             = Inr (ac_actions acc))"
proof -
  obtain new where calls: "io_calls s' = io_calls s @ new" and trace: "task_trace E T progress (rn_intents s) new"
    using run_model_trace [OF assms] by blast
  show ?thesis
  proof (intro exI [of _ new] conjI allI impI, rule calls, goal_cases)
    case (1 acc out)
    with trace_accept [OF trace] show ?case unfolding accept_sound_def by blast
  next
    case (2 acc out)
    with trace_accept [OF trace] accepted_assessment show ?case by blast
  next
    case (3 acc out)
    with trace_accept [OF trace] accepted_assessment show ?case by blast
  next
    case (4 acc out)
    from trace_accept [OF trace 4] accepted_assessment [of E T "progress @ settled_rows new" acc out]
    show ?case by simp
  next
    case (5 acc out)
    with trace_accept [OF trace] show ?case unfolding accept_sound_def by blast
  qed
qed

theorem model_accepts_complete_witness:
  "\<exists>s' acc. run_model sample_lib sample_task [] True None sample_state = (Inr RunAccepted, s')
     \<and> CallAccept acc (Some AcceptAccepted) \<in> set (io_calls s') \<and> assessed_attempts (ac_evaluated acc) = 1"
proof -
  obtain acc s' where run: "run_model sample_lib sample_task [] True None sample_state = (Inr RunAccepted, s')"
    and calls: "io_calls s' = [CallIntent sample_first (Some ClaimCurrent), CallSend sample_first,
       CallAnswer sample_first sample_result (Some ClaimCurrent), CallAccept acc (Some AcceptAccepted)]"
    by (rule sample_task_run)
  have "assessed_attempts (ac_evaluated acc) = length (sends (io_calls s'))"
    using model_accepts_complete [OF run] calls by (auto simp: sample_state_def)
  with run calls show ?thesis by auto
qed

text \<open>
  C35. The task never panics, if \<open>Number::from_f64\<close> converts every finite number: the
  attempt that it settles always names a declared decision, and planning on a complete
  assessment meets no number that is not finite.
\<close>

theorem model_run_no_panic:
  assumes "converts_finite (lib_float E)"
  shows "fst (run_model E T progress first last_failure s) \<noteq> Inl TaskPanic"
proof -
  obtain r s' where run: "run_model E T progress first last_failure s = (r, s')" by (rule prod.exhaust)
  from run_model_trace [OF run] no_panic [OF assms, of T] run show ?thesis by auto
qed

theorem model_run_no_panic_witness:
  "fst (run_model sample_lib sample_task [] True None sample_state) \<noteq> Inl TaskPanic"
  by (rule model_run_no_panic) (simp add: converts_finite_def sample_lib_def)

end
