(* ===== verification/Engine_Laws.thy ===== *)
theory Engine_Laws
  imports Engine_Start Model_Safety
begin

text \<open>
  Starts and tasks are runs of the scheduler: whatever the store and the evaluator answer, they
  change it only by its own steps, and a branch is held exactly as long as its task runs.
\<close>

section \<open>Calls leave the scheduler alone\<close>

definition keeps_sched :: "(('n, 'f, 'w) engine_state, engine_failure, 'a) ev \<Rightarrow> bool" where
  "keeps_sched m \<longleftrightarrow> (\<forall>s r s'. m s = (r, s') \<longrightarrow> en_sched s' = en_sched s \<and> r \<noteq> Inl EnginePanic)"

lemma keeps_schedD: "keeps_sched m \<Longrightarrow> m s = (r, s') \<Longrightarrow> en_sched s' = en_sched s \<and> r \<noteq> Inl EnginePanic"
  unfolding keeps_sched_def by blast

lemma keeps_cases:
  assumes "keeps_sched m" "m s = (r, s')"
  obtains (failed) e where "r = Inl (StoreFailed e)" "en_sched s' = en_sched s"
  | (passed) a where "r = Inr a" "en_sched s' = en_sched s"
proof (cases r)
  case (Inl f)
  with keeps_schedD [OF assms] failed show ?thesis by (cases f) auto
next
  case (Inr a)
  with keeps_schedD [OF assms] passed show ?thesis by blast
qed

lemma still_return [intro]: "keeps_sched (ev_return a)"
  by (simp add: keeps_sched_def)

lemma still_bind [intro]:
  assumes "keeps_sched m" "\<And>a. keeps_sched (f a)"
  shows "keeps_sched (ev_bind m f)"
  unfolding keeps_sched_def
proof (intro allI impI)
  fix s r s' assume run: "ev_bind m f s = (r, s')"
  obtain x s1 where m: "m s = (x, s1)" by (rule prod.exhaust)
  note first = keeps_schedD [OF assms(1) m]
  show "en_sched s' = en_sched s \<and> r \<noteq> Inl EnginePanic"
  proof (cases x)
    case (Inr a)
    with run m have "f a s1 = (r, s')" by (simp add: ev_bind_def)
    with keeps_schedD [OF assms(2)] first show ?thesis by fastforce
  qed (use run m first in \<open>auto simp: ev_bind_def\<close>)
qed

lemma keeps_store [intro]: "keeps_sched (store_call m entry)"
  by (auto simp: keeps_sched_def store_call_def split: prod.splits sum.splits)

lemma keeps_evaluator [intro]: "keeps_sched (evaluator_call m entry)"
  by (auto simp: keeps_sched_def evaluator_call_def split: prod.splits)

lemma keeps_option [intro]: "keeps_sched n \<Longrightarrow> (\<And>a. keeps_sched (f a)) \<Longrightarrow> keeps_sched (case_option n f x)"
  and keeps_sum [intro]: "(\<And>e. keeps_sched (g e)) \<Longrightarrow> (\<And>a. keeps_sched (f a)) \<Longrightarrow> keeps_sched (case_sum g f y)"
  and keeps_prod [intro]: "(\<And>a b. keeps_sched (h a b)) \<Longrightarrow> keeps_sched (case_prod h z)"
  and keeps_if [intro]: "keeps_sched m \<Longrightarrow> keeps_sched m' \<Longrightarrow> keeps_sched (if c then m else m')"
  by (auto split: option.splits sum.splits prod.splits)

lemma keeps_release: "keeps_sched (release_call S claimed)"
  unfolding release_call_def by (rule keeps_store)

lemma keeps_reject: "keeps_sched (reject_preparation E S claimed failure)"
  using bounded_failure_some [of E failure] by (auto simp: reject_preparation_def intro!: still_bind keeps_store still_return)

lemma keeps_fresh: "keeps_sched (fresh_preparation G activation p)"
  unfolding fresh_preparation_def by (intro keeps_sum still_return keeps_prod still_bind keeps_evaluator)

lemma keeps_preparation: "keeps_sched (preparation_of G activation p claimed attempts purpose)"
  unfolding preparation_of_def Let_def
  by (intro still_bind keeps_store keeps_option keeps_if still_return keeps_fresh keeps_evaluator)

lemma keeps_check: "keeps_sched (check_preparation G activation p purpose rec)"
  by (cases rec) (simp_all add: check_preparation_def still_return keeps_sum still_bind keeps_evaluator)

lemma keeps_prepare: "keeps_sched (prepare_claimed G activation p claimed attempts purpose)"
  unfolding prepare_claimed_def
  by (intro still_bind keeps_preparation keeps_option keeps_sum still_return keeps_check keeps_reject keeps_prod)

section \<open>Steps of the scheduler\<close>

definition sched_run ::
  "(activation_key \<Rightarrow> bool) \<Rightarrow> ('n, 'f) guard list \<Rightarrow> ('n, 'f) scheduler \<Rightarrow> ('n, 'f) guard list \<Rightarrow> ('n, 'f) scheduler \<Rightarrow> bool" where
  "sched_run W gs s hs t \<longleftrightarrow> (sched_step W)\<^sup>*\<^sup>* (gs, s) (hs, t)"

lemma sched_run_refl [simp]: "sched_run W gs s gs s"
  by (simp add: sched_run_def)

lemma sched_run_trans: "sched_run W gs s hs t \<Longrightarrow> sched_run W hs t ks u \<Longrightarrow> sched_run W gs s ks u"
  by (simp add: sched_run_def)

lemma sched_run_step: "sched_step W (gs, s) (hs, t) \<Longrightarrow> sched_run W gs s hs t"
  by (simp add: sched_run_def)

lemma sched_run_finish: "sched_run W ((key, held) # gs) s gs (finish_guard key s)"
  using sched_step.finished [of key held "(key, held) # gs" W s] by (simp add: sched_run_step)

lemma sched_run_abandon: "sched_run W ((key, held) # gs) s gs (abandon_guard s)"
  using sched_step.abandoned [of key held "(key, held) # gs" W s] by (simp add: sched_run_step)

lemma sched_run_clear: "sched_run W gs s gs (clear_ticket_if_idle key s)"
  and sched_run_mark: "sched_run W gs s gs (mark_scheduler_started policy key now cooldown s)"
  by (simp_all add: sched_run_step sched_step.cleared sched_step.started)

lemma sched_run_releases:
  "sched_run W gs s gs (hold_release key claimed s)" "sched_run W gs s gs (forget_release key s)"
  by (simp_all add: sched_run_step hold_release_def forget_release_def sched_step.releases)

lemma sched_run_restore:
  "q = p \<or> q = p\<lparr>pc_resumed := True\<rparr> \<Longrightarrow> sched_run W ((key, Some p) # gs) s ((key, None) # gs) (restore_pending key q s)"
  using sched_step.restored [of key p "(key, Some p) # gs" q W s] by (simp add: sched_run_step)

lemma sched_run_defer: "sched_run W ((key, Some p) # gs) s ((key, None) # gs) (defer_candidate key p retry_at s)"
  using sched_step.deferred [of key p "(key, Some p) # gs" W s retry_at] by (simp add: sched_run_step)

lemma sched_run_ends:
  assumes "q = p \<or> q = p\<lparr>pc_resumed := True\<rparr>"
  shows "sched_run W ((key, Some p) # gs) s gs ((finish_guard key \<circ> clear_ticket_if_idle key) s)"
    and "sched_run W ((key, Some p) # gs) s gs ((finish_guard key \<circ> restore_pending key q) s)"
    and "sched_run W ((key, Some p) # gs) s gs ((finish_guard key \<circ> restore_pending key q \<circ> hold_release key claimed) s)"
    and "sched_run W ((key, Some p) # gs) s gs ((finish_guard key \<circ> defer_candidate key p retry_at) s)"
  unfolding comp_apply
  by (rule sched_run_trans [OF sched_run_clear sched_run_finish],
      rule sched_run_trans [OF sched_run_restore [OF assms] sched_run_finish],
      rule sched_run_trans [OF sched_run_releases(1) sched_run_trans [OF sched_run_restore [OF assms] sched_run_finish]],
      rule sched_run_trans [OF sched_run_defer sched_run_finish])

lemma sched_run_clear_end:
  "sched_run W ((key, Some p) # gs) s gs (finish_guard key (clear_ticket_if_idle key s))"
  "sched_run W ((key, Some p) # gs) s gs (finish_guard key (restore_pending key p s))"
  "sched_run W ((key, Some p) # gs) s gs (finish_guard key (defer_candidate key p retry_at s))"
  using sched_run_ends [OF disjI1 [OF refl]] by (simp_all only: comp_apply)

lemma restore_pre_dispatch_run:
  assumes "restore_pre_dispatch S key q claimed message s = (m, s')" "q = p \<or> q = p\<lparr>pc_resumed := True\<rparr>"
  shows "sched_run W ((key, Some p) # gs) (en_sched s) gs (en_sched s')"
proof -
  obtain r t where call: "release_call S claimed s = (r, t)" by (rule prod.exhaust)
  have t: "en_sched t = en_sched s" "r \<noteq> Inl EnginePanic" using keeps_schedD [OF keeps_release call] by simp_all
  consider "r = Inr ClaimCurrent" | "r = Inr ClaimStale" | e where "r = Inl (StoreFailed e)"
  proof (cases r)
    case (Inl e)
    with t(2) that(3) show ?thesis by (cases e) auto
  next
    case (Inr c)
    with that(1,2) show ?thesis by (cases c) auto
  qed
  then show ?thesis
  proof cases
    case 1
    with assms(1) call t(1) have "en_sched s' = (finish_guard key \<circ> restore_pending key q) (en_sched s)"
      by (auto simp: restore_pre_dispatch_def on_sched_def)
    then show ?thesis by (simp only: sched_run_ends(2) [OF assms(2)])
  next
    case 2
    with assms(1) call t(1) have "en_sched s' = finish_guard key (en_sched s)"
      by (auto simp: restore_pre_dispatch_def on_sched_def)
    then show ?thesis by (simp only: sched_run_finish)
  next
    case (3 e)
    with assms(1) call t(1)
    have "en_sched s' = (finish_guard key \<circ> restore_pending key q \<circ> hold_release key claimed) (en_sched s)"
      by (auto simp: restore_pre_dispatch_def on_sched_def)
    then show ?thesis by (simp only: sched_run_ends(3) [OF assms(2)])
  qed
qed

section \<open>A start\<close>

text \<open>The guard that a task holds; \<open>started_as\<close> relates a start to the scheduler before and after.\<close>

definition task_holds :: "('n, 'f, 'w) started_task \<Rightarrow> schedule_key \<Rightarrow> ('n, 'f) pending_candidate \<Rightarrow> bool" where
  "task_holds task key p \<longleftrightarrow>
     (case task of
        TaskSettled _ \<Rightarrow> False
      | TaskModel T _ _ q \<Rightarrow> mt_key T = key \<and> (q = p \<or> q = p\<lparr>pc_resumed := True\<rparr>)
      | TaskLocal _ k q _ _ \<Rightarrow> k = key \<and> q = p)"

definition holds_task :: "('n, 'f, 'w) started_task \<Rightarrow> bool" where
  "holds_task task \<longleftrightarrow> (case task of TaskSettled _ \<Rightarrow> False | _ \<Rightarrow> True)"

definition started_as ::
  "(activation_key \<Rightarrow> bool) \<Rightarrow> schedule_key \<Rightarrow> ('n, 'f) pending_candidate \<Rightarrow> ('n, 'f) guard list \<Rightarrow> ('n, 'f) scheduler
     \<Rightarrow> engine_failure + ('n, 'f, 'w) start_outcome \<Rightarrow> ('n, 'f) scheduler \<Rightarrow> bool" where
  "started_as W key p gs s r t \<longleftrightarrow>
     r \<noteq> Inl EnginePanic
     \<and> (case r of
          Inr (Started task) \<Rightarrow>
            if holds_task task then task_holds task key p \<and> sched_run W ((key, Some p) # gs) s ((key, Some p) # gs) t
            else sched_run W ((key, Some p) # gs) s gs t
        | _ \<Rightarrow> sched_run W ((key, Some p) # gs) s gs t)"

lemma started_end:
  "sched_run W ((key, Some p) # gs) s gs t \<Longrightarrow> r \<noteq> Inl EnginePanic
     \<Longrightarrow> (\<And>task. r = Inr (Started task) \<Longrightarrow> \<not> holds_task task) \<Longrightarrow> started_as W key p gs s r t"
  by (auto simp: started_as_def split: sum.splits start_outcome.splits)

lemma started_failed:
  assumes "restore_pre_dispatch S key q claimed message s = (m, s')" "q = p \<or> q = p\<lparr>pc_resumed := True\<rparr>"
    and "r = Inl (StoreFailed m) \<or> r = Inr (Started (TaskSettled x))"
  shows "started_as W key p gs (en_sched s) r (en_sched s')"
  by (rule started_end [OF restore_pre_dispatch_run [OF assms(1,2)]]) (use assms(3) in \<open>auto simp: holds_task_def\<close>)

lemma on_sched_simps [simp]: "en_sched (on_sched f s) = f (en_sched s)"
  by (simp add: on_sched_def)

lemma reject_progress_run:
  assumes "reject_progress G key claimed attempts message s = (r, s')"
  shows "started_as W key p gs (en_sched s) r (en_sched s')"
proof -
  obtain x t where call: "store_call (st_record_evaluation_failure (eg_store G) claimed
      \<lparr>ed_code = CodeInvalidDecision, ed_detail = message\<rparr>) (\<lambda>r. [CallEnd r]) s = (x, t)" by (rule prod.exhaust)
  from keeps_store call have "en_sched s' = finish_guard key (en_sched s) \<and> (\<exists>y. r = Inr (Started (TaskSettled y)))"
    by (cases rule: keeps_cases) (use assms call in \<open>auto simp: reject_progress_def\<close>)
  then show ?thesis by (auto intro!: started_end sched_run_finish simp: holds_task_def)
qed

lemma start_validated_run:
  assumes "start_validated G activation now maximum key p claimed progress v s = (r, s')"
  shows "started_as W key p gs (en_sched s) r (en_sched s')"
proof -
  let ?p = "p\<lparr>pc_resumed := pc_resumed p \<or> 0 < vp_attempts v\<rparr>"
  let ?purpose = "case vp_state v of ProgressComplete _ \<Rightarrow> PurposePublication | _ \<Rightarrow> PurposeDispatch"
  have p: "?p = p \<or> ?p = p\<lparr>pc_resumed := True\<rparr>" by (cases "pc_resumed p"; cases "0 < vp_attempts v") auto
  obtain x t where call: "prepare_claimed G activation ?p claimed (vp_attempts v) ?purpose s = (x, t)" by (rule prod.exhaust)
  from keeps_prepare call show ?thesis
  proof (cases rule: keeps_cases)
    case (failed e)
    obtain m u where restore: "restore_pre_dispatch (eg_store G) key ?p claimed e t = (m, u)" by (rule prod.exhaust)
    from assms call failed restore have "r = Inr (Started (TaskSettled (Inl (plain_error (vp_attempts v) m))))" "s' = u"
      by (auto simp: start_validated_def Let_def)
    with started_failed [OF restore p disjI2 [OF refl]] failed(2) show ?thesis by simp
  next
    case (passed out)
    show ?thesis
    proof (cases out)
      case (PreflightReady prepared)
      with assms call passed p show ?thesis
        by (auto simp: start_validated_def Let_def started_as_def holds_task_def task_holds_def)
    next
      case (PreflightSettled se)
      with assms call passed have "r = Inr (Started (TaskSettled (Inr se)))"
        "en_sched s' = (finish_guard key \<circ> clear_ticket_if_idle key) (en_sched s)"
        by (auto simp: start_validated_def Let_def)
      then show ?thesis by (auto intro!: started_end sched_run_clear_end simp: holds_task_def)
    next
      case PreflightStale
      with assms call passed have "r = Inr StartStale" "en_sched s' = finish_guard key (en_sched s)"
        by (auto simp: start_validated_def Let_def)
      then show ?thesis by (auto intro!: started_end sched_run_finish)
    qed
  qed
qed

lemma start_model_run:
  assumes "start_model G activation now maximum key p claimed s = (r, s')"
  shows "started_as W key p gs (en_sched s) r (en_sched s')"
proof -
  obtain x t where call: "store_call (st_load_progress (eg_store G) claimed) (\<lambda>_. []) s = (x, t)" by (rule prod.exhaust)
  from keeps_store call show ?thesis
  proof (cases rule: keeps_cases)
    case (failed e)
    obtain m u where restore: "restore_pre_dispatch (eg_store G) key (p\<lparr>pc_resumed := True\<rparr>) claimed e t = (m, u)"
      by (rule prod.exhaust)
    from assms call failed restore have "r = Inl (StoreFailed m)" "s' = u" by (auto simp: start_model_def)
    with started_failed [OF restore disjI2 [OF refl] disjI1 [OF refl]] failed(2) show ?thesis by simp
  next
    case (passed progress)
    show ?thesis
    proof (cases "validate_decision_progress (lib_writer (eg_lib G)) (lib_int (eg_lib G)) (check_decisions (pc_compiled p))
        (check_requirements (pc_compiled p)) progress")
      case (Inl message)
      with assms call passed have "reject_progress G key claimed (length progress) message t = (r, s')"
        by (simp add: start_model_def)
      from reject_progress_run [OF this] passed(2) show ?thesis by simp
    next
      case (Inr v)
      with assms call passed have "start_validated G activation now maximum key p claimed progress v t = (r, s')"
        by (simp add: start_model_def)
      from start_validated_run [OF this] passed(2) show ?thesis by simp
    qed
  qed
qed

lemma start_not_current_run:
  assumes "start_not_current G key p claimed s = (r, s')"
  shows "started_as W key p gs (en_sched s) r (en_sched s')"
proof -
  obtain x t where call: "release_call (eg_store G) claimed s = (x, t)" by (rule prod.exhaust)
  from keeps_release call show ?thesis
  proof (cases rule: keeps_cases)
    case (failed e)
    obtain m u where restore: "restore_pre_dispatch (eg_store G) key p claimed e t = (m, u)" by (rule prod.exhaust)
    from assms call failed restore have "r = Inl (StoreFailed m)" "s' = u" by (auto simp: start_not_current_def)
    with started_failed [OF restore disjI1 [OF refl] disjI1 [OF refl]] failed(2) show ?thesis by simp
  next
    case (passed c)
    with assms call show ?thesis
      by (cases c) (auto simp: start_not_current_def intro!: started_end sched_run_clear_end)
  qed
qed

lemma start_rejected_run:
  assumes "start_rejected G key p claimed failure s = (r, s')"
  shows "started_as W key p gs (en_sched s) r (en_sched s')"
proof -
  obtain x t where call: "store_call (st_record_rejection (eg_store G) claimed failure) (\<lambda>r. [CallEnd r]) s = (x, t)"
    by (rule prod.exhaust)
  from keeps_store call show ?thesis
  proof (cases rule: keeps_cases)
    case (failed e)
    obtain m u where restore: "restore_pre_dispatch (eg_store G) key p claimed e t = (m, u)" by (rule prod.exhaust)
    from assms call failed restore have "r = Inl (StoreFailed m)" "s' = u" by (auto simp: start_rejected_def)
    with started_failed [OF restore disjI1 [OF refl] disjI1 [OF refl]] failed(2) show ?thesis by simp
  next
    case (passed c)
    with assms call show ?thesis
      by (auto simp: start_rejected_def holds_task_def intro!: started_end sched_run_clear_end)
  qed
qed

lemma start_local_run:
  assumes "start_local G activation now key p claimed s = (r, s')"
  shows "started_as W key p gs (en_sched s) r (en_sched s')"
proof -
  obtain current w where gate: "dv_local_current (eg_evaluator G) activation (io_world s) = (current, w)" by (rule prod.exhaust)
  let ?s = "s\<lparr>io_world := w\<rparr>"
  consider "\<not> current" "start_not_current G key p claimed ?s = (r, s')"
    | failure where "start_rejected G key p claimed failure ?s = (r, s')"
    | (start) "current" "local_condition_failure (lib_json (eg_lib G)) (pc_compiled p) (pc_candidate p) = None"
    using assms gate by (auto simp: start_local_def Let_def split: bool.splits option.splits)
  then show ?thesis
  proof cases
    case 1
    from start_not_current_run [OF this(2)] show ?thesis by simp
  next
    case 2
    from start_rejected_run [OF this] show ?thesis by simp
  next
    case start
    let ?call = "store_call (st_record_local_start (eg_store G) claimed now (task_cooldown (eg_policy G) p) (local_new now)) (\<lambda>_. [])"
    obtain x t where call: "?call ?s = (x, t)" by (rule prod.exhaust)
    from keeps_store call show ?thesis
    proof (cases rule: keeps_cases)
      case (failed e)
      obtain m u where restore: "restore_pre_dispatch (eg_store G) key p claimed e t = (m, u)" by (rule prod.exhaust)
      from assms gate start call failed restore have "r = Inl (StoreFailed m)" "s' = u"
        by (auto simp: start_local_def Let_def)
      with started_failed [OF restore disjI1 [OF refl] disjI1 [OF refl]] failed(2) show ?thesis by simp
    next
      case (passed c)
      show ?thesis
      proof (cases c)
        case ClaimCurrent
        with assms gate start call passed have "r = Inr (Started (TaskLocal activation key p claimed (local_new now)))"
          "en_sched s' = mark_scheduler_started (eg_policy G) key now (task_cooldown (eg_policy G) p) (en_sched s)"
          by (auto simp: start_local_def Let_def)
        then show ?thesis by (simp add: started_as_def holds_task_def task_holds_def sched_run_mark)
      qed (use assms gate start call passed in
        \<open>auto simp: start_local_def Let_def intro!: started_end sched_run_clear_end\<close>)
    qed
  qed
qed

lemma start_reserved_run:
  assumes "start_reserved G activation now maximum key p s = (r, s')"
  shows "started_as W key p gs (en_sched s) r (en_sched s')"
proof -
  obtain x t where call: "store_call (st_claim_due (eg_store G) (pc_candidate p) now (eg_policy G = SequentialReplay))
      (\<lambda>_. []) s = (x, t)" by (rule prod.exhaust)
  from keeps_store call show ?thesis
  proof (cases rule: keeps_cases)
    case (failed e)
    with assms call show ?thesis by (auto simp: start_reserved_def intro!: started_end sched_run_clear_end)
  next
    case (passed out)
    show ?thesis
    proof (cases out)
      case (ClaimClaimed claimed)
      consider "start_local G activation now key p claimed t = (r, s')"
        | "start_model G activation now maximum key p claimed t = (r, s')"
        using assms call passed ClaimClaimed by (auto simp: start_reserved_def split: if_splits)
      then show ?thesis
      proof cases
        case 1
        from start_local_run [OF this] passed(2) show ?thesis by simp
      next
        case 2
        from start_model_run [OF this] passed(2) show ?thesis by simp
      qed
    qed (use assms call passed in \<open>auto simp: start_reserved_def intro!: started_end sched_run_clear_end\<close>)
  qed
qed

lemma start_one_run:
  assumes "start_one_due_matching G activation now maximum ready s = (r, s')"
  shows "r \<noteq> Inl EnginePanic"
    and "(\<forall>task. r = Inr (Started task) \<longrightarrow> \<not> holds_task task) \<and> sched_run W gs (en_sched s) gs (en_sched s')
      \<or> (\<exists>task key p. r = Inr (Started task) \<and> task_holds task key p
           \<and> sched_run W gs (en_sched s) ((key, Some p) # gs) (en_sched s'))"
proof -
  obtain taken sched where reserve: "reserve (eg_policy G) (act_id activation) ready now (en_sched s) = (taken, sched)"
    by (rule prod.exhaust)
  have "r \<noteq> Inl EnginePanic \<and> ((\<forall>task. r = Inr (Started task) \<longrightarrow> \<not> holds_task task) \<and> sched_run W gs (en_sched s) gs (en_sched s')
      \<or> (\<exists>task key p. r = Inr (Started task) \<and> task_holds task key p
           \<and> sched_run W gs (en_sched s) ((key, Some p) # gs) (en_sched s')))"
  proof (cases taken)
    case None
    with reserve have "sched = en_sched s"
      by (auto simp: reserve_def Let_def split: if_splits option.splits list.splits)
    with None assms reserve show ?thesis by (auto simp: start_one_due_matching_def)
  next
    case (Some taken')
    obtain key p where taken: "taken' = (key, p)" by (rule prod.exhaust)
    let ?s = "s\<lparr>en_sched := sched\<rparr>"
    have first: "sched_run W gs (en_sched s) ((key, Some p) # gs) sched"
      using reserve Some taken by (auto intro!: sched_run_step sched_step.reserved)
    have "started_as W key p gs sched r (en_sched s')"
    proof (cases "bt_get (sc_releases sched) key")
      case None
      with assms reserve Some taken have "start_reserved G activation now maximum key p ?s = (r, s')"
        by (simp add: start_one_due_matching_def Let_def)
      from start_reserved_run [OF this] show ?thesis by simp
    next
      case (Some previous)
      obtain x t where call: "release_call (eg_store G) previous ?s = (x, t)" by (rule prod.exhaust)
      note run = assms [unfolded start_one_due_matching_def reserve \<open>taken = Some taken'\<close> taken]
      from keeps_release call show ?thesis
      proof (cases rule: keeps_cases)
        case (failed e)
        with run Some call show ?thesis by (auto simp: Let_def intro!: started_end sched_run_clear_end)
      next
        case (passed c)
        with run Some call
        have "start_reserved G activation now maximum key p (on_sched (forget_release key) t) = (r, s')"
          by (simp add: Let_def)
        from start_reserved_run [OF this, of W gs] passed(2)
        have after: "started_as W key p gs (forget_release key sched) r (en_sched s')" by simp
        have forget: "sched_run W hs sched ks u" if "sched_run W hs (forget_release key sched) ks u" for hs ks u
          using sched_run_trans [OF sched_run_releases(2) that] .
        from after show ?thesis
          unfolding started_as_def by (auto split: sum.splits start_outcome.splits if_splits intro: forget)
      qed
    qed
    with sched_run_trans [OF first] show ?thesis
      unfolding started_as_def
      by (cases r) (auto split: start_outcome.splits if_splits simp del: split_paired_Ex split_paired_All)
  qed
  then show "r \<noteq> Inl EnginePanic"
    "(\<forall>task. r = Inr (Started task) \<longrightarrow> \<not> holds_task task) \<and> sched_run W gs (en_sched s) gs (en_sched s')
      \<or> (\<exists>task key p. r = Inr (Started task) \<and> task_holds task key p
           \<and> sched_run W gs (en_sched s) ((key, Some p) # gs) (en_sched s'))" by blast+
qed

section \<open>A task\<close>

text \<open>A step of a run changes the scheduler only by marking its own branch as started.\<close>

definition marks ::
  "(activation_key \<Rightarrow> bool) \<Rightarrow> (('n, 'f, 'w) run_state, 'e, 'a) ev \<Rightarrow> bool" where
  "marks W m \<longleftrightarrow> (\<forall>gs s r s'. m s = (r, s') \<longrightarrow> sched_run W gs (rn_sched s) gs (rn_sched s'))"

lemma marksD: "marks W m \<Longrightarrow> m s = (r, s') \<Longrightarrow> sched_run W gs (rn_sched s) gs (rn_sched s')"
  unfolding marks_def by blast

lemma marks_logs:
  assumes "logs m P"
  shows "marks W m" "marks W (counted m)"
proof -
  show "marks W m" using logsD [OF assms] unfolding marks_def same_run_def by (metis sched_run_refl)
  show "marks W (counted m)"
    using counted_logs [OF _ assms] unfolding marks_def same_run_def by (metis sched_run_refl)
qed

lemma marks_bind:
  assumes "marks W m" "\<And>a. marks W (f a)"
  shows "marks W (ev_bind m f)"
  unfolding marks_def
proof (intro allI impI)
  fix gs s r s' assume run: "ev_bind m f s = (r, s')"
  obtain x s1 where m: "m s = (x, s1)" by (rule prod.exhaust)
  note first = marksD [OF assms(1) m, of gs]
  show "sched_run W gs (rn_sched s) gs (rn_sched s')"
  proof (cases x)
    case (Inr a)
    with run m have "f a s1 = (r, s')" by (simp add: ev_bind_def)
    from sched_run_trans [OF first marksD [OF assms(2) this]] show ?thesis .
  qed (use run m first in \<open>auto simp: ev_bind_def\<close>)
qed

lemma marks_pure:
  "marks W (ev_return a)" "marks W (ev_fail e)" "marks W (task_fail e')" "marks W (current_progress E T progress)"
  by (auto simp: marks_def task_fail_def current_progress_def split: sum.splits)

lemma marks_choice: "marks W m \<Longrightarrow> marks W n \<Longrightarrow> marks W (\<lambda>s. if c s then m s else n s)"
  by (auto simp: marks_def)

lemma marks_send: "marks W (send_attempt E T progress a)"
  unfolding send_attempt_def
proof (intro marks_bind marks_logs(2) [OF logs_evaluator] marks_logs(2) [OF logs_settle], goal_cases)
  case (1 evaluated out)
  obtain recorded outcome diagnostic where out: "out = (recorded, outcome, diagnostic)" by (cases out) auto
  have last: "marks W (\<lambda>s. (Inr y, (case vp_state v of
                ProgressNext _ _ \<Rightarrow> s\<lparr>rn_release := True\<rparr>
              | ProgressComplete _ \<Rightarrow> s\<lparr>rn_release := True, rn_safe := False\<rparr>
              | ProgressTerminal _ \<Rightarrow> s)))" for y :: model_turn and v
    by (auto simp: marks_def split: progress_state.splits)
  show ?case unfolding out prod.case Let_def by (auto intro!: marks_pure marks_bind last)
qed

lemma marks_dispatch: "marks W (dispatch_attempt E T progress first a)"
  unfolding marks_def
proof (intro allI impI)
  fix gs s r s' assume run: "dispatch_attempt E T progress first a s = (r, s')"
  obtain x s1 where call: "store_call (st_record_intent (mt_store T) (mt_claimed T) (mt_now T) (mt_cooldown T) a)
      (\<lambda>r. [CallIntent a r]) (s\<lparr>rn_release := False\<rparr>) = (x, s1)" by (rule prod.exhaust)
  from logs_store call have same: "rn_sched s1 = rn_sched s" by (rule logsD) (simp add: same_run_def)
  let ?s = "s1\<lparr>rn_attempts := rn_attempts s1 + 1, rn_intents := rn_intents s1 + 1\<rparr>"
  let ?t = "if first \<and> rn_attempts ?s = 1
      then ?s\<lparr>rn_sched := mark_scheduler_started (mt_policy T) (mt_key T) (mt_now T) (mt_cooldown T) (rn_sched ?s)\<rparr> else ?s"
  show "sched_run W gs (rn_sched s) gs (rn_sched s')"
  proof (cases "x = Inr ClaimCurrent")
    case True
    have "send_attempt E T progress a ?t = (r, s')"
      using run unfolding dispatch_attempt_def call True Let_def by (simp only: prod.case sum.case claim_outcome.case)
    from marksD [OF marks_send this, of W gs] have "sched_run W gs (rn_sched ?t) gs (rn_sched s')" .
    moreover have "sched_run W gs (rn_sched s) gs (rn_sched ?t)" using same by (simp add: sched_run_mark)
    ultimately show ?thesis by (rule sched_run_trans [rotated])
  next
    case False
    with run call same show ?thesis
      by (auto simp: dispatch_attempt_def split: sum.splits engine_failure.splits claim_outcome.splits)
  qed
qed

lemma marks_ending:
  assumes "logs m P"
  shows "marks W (ev_bind (counted m) (\<lambda>x. ev_return (f x)))"
  by (rule marks_bind [OF marks_logs(2) [OF assms] marks_pure(1)])

lemma marks_next_turn: "marks W (next_turn E T progress first a n)"
proof -
  have "marks W (ev_bind (counted (evaluator_call
      (dv_validate (mt_evaluator T) (mt_activation T) (mt_prepared T) PurposeDispatch) [])) (\<lambda>checked.
        (case checked of
           Inl failure \<Rightarrow>
             ev_bind (counted (reject_preparation E (mt_store T) (mt_claimed T) failure)) (\<lambda>(recorded, f).
               ev_return (TurnEnds (stale_or (RunNotAssessed (pf_detail f)) recorded)))
         | Inr _ \<Rightarrow> dispatch_attempt E T progress first a)))"
    by (rule marks_bind [OF marks_logs(2) [OF logs_evaluator]])
      (auto simp: case_prod_beta' intro: marks_ending [OF logs_reject] marks_dispatch split: sum.splits)
  moreover have "marks W (ev_bind (counted (store_call (st_record_not_assessed (mt_store T) (mt_claimed T)
      ''Replay provider attempt limit reached.'') (\<lambda>r. [CallEnd r])))
        (\<lambda>recorded. ev_return (TurnEnds (stale_or RunLimitReached recorded))))"
    by (rule marks_ending [OF logs_store])
  ultimately show ?thesis unfolding next_turn_def [abs_def] Let_def by (intro marks_choice)
qed

lemma marks_model_turn: "marks W (model_turn E T progress first last_failure)"
  unfolding model_turn_def
proof (rule marks_bind [OF marks_pure(4)])
  fix v
  let ?complete = "\<lambda>evaluated. ev_bind (counted (publish_model E (mt_store T) (mt_evaluator T) (mt_activation T)
      (mt_claimed T) (mt_prepared T) evaluated)) (\<lambda>out. ev_return (TurnEnds out))"
  let ?d = "\<lambda>t. case last_failure of Some d \<Rightarrow> d | None \<Rightarrow> terminal_diagnostic t"
  let ?terminal = "\<lambda>t. ev_bind (counted (store_call
      (st_record_evaluation_failure (mt_store T) (mt_claimed T) (?d t)) (\<lambda>r. [CallEnd r])))
      (\<lambda>recorded. ev_return (TurnEnds (stale_or (RunFailed (ed_detail (?d t))) recorded)))"
  have complete: "marks W (?complete evaluated)" for evaluated by (rule marks_ending [OF logs_publish_model])
  have terminal: "marks W (?terminal t)" for t by (rule marks_ending [OF logs_store])
  show "marks W (\<lambda>s. if vp_attempts v \<noteq> rn_attempts s then task_fail ''saved attempt count changed during evaluation'' s
       else (case vp_state v of
            ProgressComplete evaluated \<Rightarrow> ?complete evaluated (s\<lparr>rn_release := True, rn_safe := False\<rparr>)
          | ProgressTerminal t \<Rightarrow>
              (let diagnostic = ?d t in
               ev_bind (counted (store_call (st_record_evaluation_failure (mt_store T) (mt_claimed T) diagnostic)
                   (\<lambda>r. [CallEnd r])))
                 (\<lambda>recorded. ev_return (TurnEnds (stale_or (RunFailed (ed_detail diagnostic)) recorded)))
                 (s\<lparr>rn_release := False\<rparr>))
          | ProgressNext a unfinished \<Rightarrow> next_turn E T progress first a unfinished s))"
    unfolding marks_def
  proof (intro allI impI, goal_cases)
    case (1 gs s r s')
    show ?case
    proof (cases "vp_attempts v = rn_attempts s")
      case True
      show ?thesis
      proof (cases "vp_state v")
        case (ProgressNext a n)
        with 1 True have "next_turn E T progress first a n s = (r, s')" by simp
        then show ?thesis by (rule marksD [OF marks_next_turn])
      next
        case (ProgressComplete evaluated)
        with 1 True have "?complete evaluated (s\<lparr>rn_release := True, rn_safe := False\<rparr>) = (r, s')" by simp
        from marksD [OF complete this] show ?thesis by simp
      next
        case (ProgressTerminal t)
        with 1 True have "?terminal t (s\<lparr>rn_release := False\<rparr>) = (r, s')" by (simp add: Let_def)
        from marksD [OF terminal this] show ?thesis by simp
      qed
    qed (use 1 in \<open>auto simp: task_fail_def\<close>)
  qed
qed

lemma run_model_sched:
  "run_model E T progress first last_failure s = (r, s') \<Longrightarrow> sched_run W gs (rn_sched s) gs (rn_sched s')"
proof (induction E T progress first last_failure s rule: run_model.induct)
  case (1 E T progress first last_failure s)
  obtain x s1 where turn: "model_turn E T progress first last_failure s = (x, s1)" by (rule prod.exhaust)
  note first = marksD [OF marks_model_turn turn, of W gs]
  show ?case
  proof (cases "\<exists>row d. x = Inr (TurnAgain row d)")
    case True
    then obtain row d where x: "x = Inr (TurnAgain row d)" by blast
    with "1.prems" turn have "run_model E T (progress @ [row]) False d s1 = (r, s')"
      by (simp add: run_model.simps [of E T progress first last_failure s])
    from "1.IH" [OF turn [symmetric] x refl this] show ?thesis by (rule sched_run_trans [OF first])
  next
    case False
    with "1.prems" turn have "s' = s1"
      by (auto simp: run_model.simps [of E T progress first last_failure s] split: sum.splits model_turn.splits)
    with first show ?thesis by simp
  qed
qed

end
