(* ===== verification/Engine_Safety.thy ===== *)
theory Engine_Safety
  imports Engine_Laws
begin

text \<open>
  The properties of starts and tasks: a branch is held exactly as long as its task runs, what may
  have been delivered keeps its branch for good, and a start that fails loses no work.
\<close>

section \<open>The end of a task\<close>

lemma safe_release_sched:
  assumes "q = p \<or> q = p\<lparr>pc_resumed := True\<rparr>"
  shows "sched_run W ((key, Some p) # gs) (en_sched s) gs (finish_guard key (en_sched (safe_release S key q claimed s)))"
proof -
  let ?q = "q\<lparr>pc_resumed := True\<rparr>"
  have q: "?q = p \<or> ?q = p\<lparr>pc_resumed := True\<rparr>" using assms by auto
  obtain x t where call: "release_call S claimed s = (x, t)" by (rule prod.exhaust)
  from keeps_release call show ?thesis
  proof (cases rule: keeps_cases)
    case (failed e)
    have "finish_guard key (en_sched (safe_release S key q claimed s))
        = (finish_guard key \<circ> restore_pending key ?q \<circ> hold_release key claimed) (en_sched s)"
      using call failed by (simp add: safe_release_def)
    then show ?thesis by (simp only: sched_run_ends(3) [OF q])
  next
    case (passed c)
    show ?thesis
    proof (cases c)
      case ClaimCurrent
      have "finish_guard key (en_sched (safe_release S key q claimed s))
          = (finish_guard key \<circ> restore_pending key ?q) (en_sched s)"
        using call passed ClaimCurrent by (simp add: safe_release_def)
      then show ?thesis by (simp only: sched_run_ends(2) [OF q])
    next
      case ClaimStale
      then show ?thesis using call passed by (simp add: safe_release_def sched_run_finish)
    qed
  qed
qed

lemma drop_guard_run:
  assumes "q = p \<or> q = p\<lparr>pc_resumed := True\<rparr>"
  shows "sched_run W ((key, Some p) # gs) (en_sched s) gs (en_sched (drop_guard S key q claimed release safe s))"
  using safe_release_sched [OF assms, of W key gs s S claimed]
  by (simp add: drop_guard_def sched_run_finish sched_run_abandon)

lemma run_model_task_run:
  assumes "run_model_task E T progress attempts q s = (r, s')" "q = p \<or> q = p\<lparr>pc_resumed := True\<rparr>"
  shows "sched_run W ((mt_key T, Some p) # gs) (en_sched s) gs (en_sched s')"
proof -
  obtain x t where run: "run_model E T progress True None (run_of_engine attempts s) = (x, t)" by (rule prod.exhaust)
  have sched: "sched_run W ((mt_key T, Some p) # gs) (en_sched s) ((mt_key T, Some p) # gs) (en_sched (engine_of_run t))"
    using run_model_sched [OF run, of W "(mt_key T, Some p) # gs"] by (simp add: run_of_engine_def engine_of_run_def)
  show ?thesis
  proof (cases x)
    case (Inl e)
    with assms(1) run have "s' = drop_guard (mt_store T) (mt_key T) q (mt_claimed T) (rn_release t) (rn_safe t) (engine_of_run t)"
      by (simp add: run_model_task_def)
    with sched_run_trans [OF sched drop_guard_run [OF assms(2)]] show ?thesis by simp
  next
    case (Inr outcome)
    with assms(1) run have "en_sched s' = finish_guard (mt_key T) (en_sched (engine_of_run t))"
      by (auto simp: run_model_task_def)
    with sched_run_trans [OF sched sched_run_finish] show ?thesis by simp
  qed
qed

lemma local_plan_no_panic:
  "fst (plan_status_actions_with_budget F L actions c assessment_local prior st) \<noteq> Inl PlanningPanic"
proof -
  have "context_with_assessment F c assessment_local \<noteq> Inl PlanningPanic"
    by (auto simp: context_with_assessment_def assessment_local_def split: json.splits)
  then have "fst (plan_status_actions_traced F L actions c assessment_local prior st) \<noteq> Inl PlanningPanic"
    using plan_loop_no_panic [of L _ 0 actions prior "[]"]
    by (auto simp: plan_status_actions_traced_def split: prod.splits sum.splits) (metis fst_conv)
  then show ?thesis
    by (auto simp: plan_status_actions_with_budget_def ev_bind_def split: prod.splits sum.splits)
qed

lemma keeps_publish: "plan \<noteq> Inl PlanningPanic \<Longrightarrow> keeps_sched (publish_actions S claimed evaluated plan)"
  by (cases plan rule: sum.exhaust)
    (auto simp: publish_actions_def Let_def intro!: still_bind keeps_store still_return split: planning_failure.splits)

lemma keeps_local: "keeps_sched (run_local G activation p claimed prepared)"
  unfolding run_local_def Let_def
  by (intro still_bind keeps_evaluator keeps_if still_return keeps_sum keeps_publish local_plan_no_panic)

lemma run_task_run:
  assumes "run_task G task s = (r, s')" "task_holds task key p"
  shows "sched_run W ((key, Some p) # gs) (en_sched s) gs (en_sched s')"
proof (cases task)
  case (TaskModel T progress attempts q)
  with assms have run: "run_model_task (eg_lib G) T progress attempts q s = (r, s')" and key: "mt_key T = key"
    and q: "q = p \<or> q = p\<lparr>pc_resumed := True\<rparr>"
    by (auto simp: run_task_def task_holds_def)
  from run_model_task_run [OF run q] key show ?thesis by simp
next
  case (TaskLocal activation k q claimed prepared)
  obtain x t where run: "run_local G activation q claimed prepared s = (x, t)" by (rule prod.exhaust)
  from keeps_local run have "en_sched s' = finish_guard key (en_sched s)"
    by (cases rule: keeps_cases) (use assms TaskLocal run in \<open>auto simp: run_task_def task_holds_def\<close>)
  then show ?thesis by (simp add: sched_run_finish)
qed (use assms in \<open>simp add: task_holds_def\<close>)

text \<open>A task that settles gives its branch back.\<close>

lemma run_task_settled:
  assumes "run_task G task s = (Inr se, s')" "task_holds task key p"
  shows "key \<notin> sc_in_flight (en_sched s')"
proof (cases task)
  case (TaskModel T progress attempts q)
  with assms show ?thesis
    by (auto simp: run_task_def run_model_task_def task_holds_def finish_guard_def split: prod.splits sum.splits)
next
  case (TaskLocal activation k q claimed prepared)
  with assms show ?thesis
    by (auto simp: run_task_def task_holds_def finish_guard_def split: prod.splits sum.splits engine_failure.splits)
qed (use assms in \<open>simp add: task_holds_def\<close>)

section \<open>Starts and tasks keep the schedule\<close>

lemma reachable_run: "sched_reachable W (gs, s) \<Longrightarrow> sched_run W gs s hs t \<Longrightarrow> sched_reachable W (hs, t)"
  by (simp add: sched_reachable_def sched_run_def)

text \<open>
  C12. Starting an evaluation is a run of the scheduler, whatever the store and the evaluator
  answer: the start never panics; when it returns a task that still has to run, exactly the
  branch of that task is held besides the branches held before, and in every other case, a
  store error at any step included, no branch is.
\<close>

theorem start_keeps_schedule:
  assumes "sched_reachable W (gs, en_sched s)" "start_one_due_matching G activation now maximum ready s = (r, s')"
  shows "r \<noteq> Inl EnginePanic
    \<and> ((\<exists>task key p. r = Inr (Started task) \<and> task_holds task key p \<and> sched_reachable W ((key, Some p) # gs, en_sched s'))
       \<or> (\<forall>task. r = Inr (Started task) \<longrightarrow> \<not> holds_task task) \<and> sched_reachable W (gs, en_sched s'))"
  using start_one_run(1) [OF assms(2)] start_one_run(2) [OF assms(2), of W gs] reachable_run [OF assms(1)] by blast

text \<open>
  C13. A task that is polled to its end is a run of the scheduler that gives its guard back, also
  when it fails or panics: the number of active evaluations drops by one, and a task that
  settles frees its branch for the next candidate.
\<close>

theorem task_keeps_schedule:
  assumes "sched_reachable W ((key, Some p) # gs, en_sched s)" "task_holds task key p"
    and "run_task G task s = (r, s')"
  shows "sched_reachable W (gs, en_sched s') \<and> sc_active (en_sched s) = Suc (sc_active (en_sched s'))
    \<and> ((\<exists>se. r = Inr se) \<longrightarrow> key \<notin> sc_in_flight (en_sched s'))"
proof -
  have after: "sched_reachable W (gs, en_sched s')"
    by (rule reachable_run [OF assms(1) run_task_run [OF assms(3,2)]])
  moreover have "sc_active (en_sched s) = Suc (length gs)" "sc_active (en_sched s') = length gs"
    using sched_reachable_ok [OF assms(1)] sched_reachable_ok [OF after] by (auto simp: sched_ok_def guards_ok_def)
  moreover have "key \<notin> sc_in_flight (en_sched s')" if "r = Inr se" for se
    using run_task_settled [OF assms(3) [unfolded that] assms(2)] .
  ultimately show ?thesis by auto
qed

text \<open>
  C2. When a task fails with an attempt sent and not settled, or with an intent that may have
  been committed, its branch is never started again, whatever the engine does later: the
  engine cannot send work that may have been delivered a second time.
\<close>

theorem unsettled_never_restarted:
  assumes "sched_reachable W ((key, Some p) # gs, en_sched s)" "task_holds (TaskModel T progress attempts q) key p"
    and "run_task G (TaskModel T progress attempts q) s = (Inl e, s')"
    and "io_calls s' = io_calls s @ new" "unsettled new"
    and "sched_run W gs (en_sched s') hs t"
  shows "reserve policy a ready now t \<noteq> (Some (key, p'), u)"
proof -
  obtain x y where run: "run_model (eg_lib G) T progress True None (run_of_engine attempts s) = (x, y)" by (rule prod.exhaust)
  have key: "mt_key T = key" using assms(2) by (simp add: task_holds_def)
  obtain cs where cs: "io_calls y = io_calls s @ cs" and tells: "unsettled cs \<longrightarrow> \<not> rn_release y"
    using run_model_trace [OF run] by (auto simp: run_tells_def run_of_engine_def)
  have s': "s' = drop_guard (mt_store T) key q (mt_claimed T) (rn_release y) (rn_safe y) (engine_of_run y)"
    using assms(3) run key by (auto simp: run_task_def run_model_task_def split: sum.splits)
  have "\<not> rn_release y"
  proof
    assume "rn_release y"
    then have kept: "\<not> unsettled cs" using tells by blast
    have "\<exists>rest. io_calls s' = io_calls y @ rest \<and> (\<forall>c \<in> set rest. \<exists>v w. c = CallRelease v w)"
      unfolding s' by (auto simp: drop_guard_def safe_release_def release_call_def store_call_def engine_of_run_def
          on_sched_def split: prod.splits sum.splits claim_outcome.splits)
    then obtain rest where rest: "new = cs @ rest" "\<And>c. c \<in> set rest \<Longrightarrow> \<exists>v w. c = CallRelease v w"
      using assms(4) cs by auto
    have "sends rest = []" by (rule no_sends) (use rest(2) in force)
    moreover have "\<nexists>a x. CallIntent a x \<in> set rest" using rest(2) by force
    ultimately have "\<not> unsettled new" using kept rest(1) by (auto simp: unsettled_def)
    with assms(5) show False by contradiction
  qed
  then have abandoned: "en_sched s' = abandon_guard (rn_sched y)" by (simp add: s' drop_guard_def engine_of_run_def)
  have "sched_run W ((key, Some p) # gs) (en_sched s) ((key, Some p) # gs) (rn_sched y)"
    using run_model_sched [OF run] by (simp add: run_of_engine_def)
  from sched_reachable_ok [OF reachable_run [OF assms(1) this]]
  have "sched_ok W ((key, Some p) # gs, rn_sched y)" .
  from abandon_stuck [OF this, of key "Some p"]
  have "sched_ok W (gs, en_sched s')" "stuck key (gs, en_sched s')" by (simp_all add: abandoned)
  from stuck_run [OF assms(6) [unfolded sched_run_def] this] have "sched_ok W (hs, t)" "stuck key (hs, t)" by blast+
  then show ?thesis by (rule stuck_not_reserved)
qed

section \<open>A failed start\<close>

text \<open>The queues are as if the candidate had been given back, as it was or as resumed work.\<close>

definition requeued ::
  "schedule_key \<Rightarrow> ('n, 'f) pending_candidate \<Rightarrow> ('n, 'f) scheduler \<Rightarrow> ('n, 'f) scheduler \<Rightarrow> bool" where
  "requeued key p s t \<longleftrightarrow>
     (\<exists>q. (q = p \<or> q = p\<lparr>pc_resumed := True\<rparr>) \<and> sc_pending t = sc_pending (restore_pending key q s))"

definition unstarted :: "engine_failure + ('n, 'f, 'w) start_outcome \<Rightarrow> bool" where
  "unstarted r \<longleftrightarrow> (case r of Inl _ \<Rightarrow> True | Inr out \<Rightarrow> out = StartNotDue)"

definition no_stale :: "('n, 'f, 'w) engine_state \<Rightarrow> bool" where
  "no_stale s \<longleftrightarrow> (\<forall>c. CallRelease c (Some ClaimStale) \<notin> set (io_calls s))"

lemma restore_same: "sc_pending s = sc_pending t \<Longrightarrow> sc_pending (restore_pending key q s) = sc_pending (restore_pending key q t)"
  by (auto simp: restore_pending_def queue_of_def Let_def)

lemma finish_pending [simp]: "sc_pending (finish_guard key s) = sc_pending s"
  by (simp add: finish_guard_def)

lemma requeuedI:
  "q = p \<or> q = p\<lparr>pc_resumed := True\<rparr> \<Longrightarrow> sc_pending u = sc_pending s
     \<Longrightarrow> requeued key p s (finish_guard key (restore_pending key q u))"
  unfolding requeued_def using restore_same [of u s key q] by auto

lemma restore_pre_dispatch_requeues:
  assumes "restore_pre_dispatch S key q claimed message s = (m, s')" "no_stale s'"
    and "q = p \<or> q = p\<lparr>pc_resumed := True\<rparr>"
  shows "requeued key p (en_sched s) (en_sched s')"
proof -
  obtain x t where call: "release_call S claimed s = (x, t)" by (rule prod.exhaust)
  from keeps_release call show ?thesis
  proof (cases rule: keeps_cases)
    case (failed e)
    with assms(1) call have "en_sched s'
        = finish_guard key (restore_pending key q (hold_release key claimed (en_sched s)))"
      by (auto simp: restore_pre_dispatch_def)
    then show ?thesis by (simp add: requeuedI [OF assms(3)] hold_release_def)
  next
    case (passed c)
    show ?thesis
    proof (cases c)
      case ClaimCurrent
      with assms(1) call passed have "en_sched s' = finish_guard key (restore_pending key q (en_sched s))"
        by (auto simp: restore_pre_dispatch_def)
      then show ?thesis by (simp add: requeuedI [OF assms(3)])
    next
      case ClaimStale
      with call passed have "CallRelease claimed (Some ClaimStale) \<in> set (io_calls t)"
        by (auto simp: release_call_def store_call_def split: prod.splits sum.splits)
      moreover have "io_calls s' = io_calls t"
        using assms(1) call passed ClaimStale by (auto simp: restore_pre_dispatch_def on_sched_def)
      ultimately show ?thesis using assms(2) by (auto simp: no_stale_def)
    qed
  qed
qed

lemma start_model_requeues:
  assumes "start_model G activation now maximum key p claimed s = (r, s')" "unstarted r" "no_stale s'"
  shows "requeued key p (en_sched s) (en_sched s')"
proof -
  obtain x t where call: "store_call (st_load_progress (eg_store G) claimed) (\<lambda>_. []) s = (x, t)" by (rule prod.exhaust)
  from keeps_store call show ?thesis
  proof (cases rule: keeps_cases)
    case (failed e)
    obtain m u where restore: "restore_pre_dispatch (eg_store G) key (p\<lparr>pc_resumed := True\<rparr>) claimed e t = (m, u)"
      by (rule prod.exhaust)
    from assms call failed restore have "s' = u" by (auto simp: start_model_def)
    with restore_pre_dispatch_requeues [OF restore _ disjI2 [OF refl]] assms(3) failed(2) show ?thesis by simp
  next
    case (passed progress)
    have "\<not> unstarted r"
    proof (cases "validate_decision_progress (lib_writer (eg_lib G)) (lib_int (eg_lib G)) (check_decisions (pc_compiled p))
        (check_requirements (pc_compiled p)) progress")
      case (Inl message)
      with assms call passed have run: "reject_progress G key claimed (length progress) message t = (r, s')"
        by (simp add: start_model_def)
      then show ?thesis
        by (auto simp: reject_progress_def unstarted_def store_call_def split: prod.splits sum.splits)
    next
      case (Inr v)
      with assms call passed have run: "start_validated G activation now maximum key p claimed progress v t = (r, s')"
        by (simp add: start_model_def)
      from start_validated_run [OF run] have "r \<noteq> Inl EnginePanic" by (simp add: started_as_def)
      with run show ?thesis
        by (auto simp: start_validated_def unstarted_def Let_def
            split: prod.splits sum.splits preflight.splits engine_failure.splits)
    qed
    with assms(2) show ?thesis by contradiction
  qed
qed

lemma start_not_current_requeues:
  assumes "start_not_current G key p claimed s = (r, s')" "unstarted r" "no_stale s'"
  shows "requeued key p (en_sched s) (en_sched s')"
proof -
  obtain x t where call: "release_call (eg_store G) claimed s = (x, t)" by (rule prod.exhaust)
  from keeps_release call show ?thesis
  proof (cases rule: keeps_cases)
    case (failed e)
    obtain m u where restore: "restore_pre_dispatch (eg_store G) key p claimed e t = (m, u)" by (rule prod.exhaust)
    from assms call failed restore have "s' = u" by (auto simp: start_not_current_def)
    with restore_pre_dispatch_requeues [OF restore _ disjI1 [OF refl]] assms(3) failed(2) show ?thesis by simp
  next
    case (passed c)
    with assms call have "en_sched s' = finish_guard key (restore_pending key p (en_sched s))"
      by (cases c) (auto simp: start_not_current_def unstarted_def)
    then show ?thesis by (simp add: requeuedI)
  qed
qed

lemma start_rejected_requeues:
  assumes "start_rejected G key p claimed failure s = (r, s')" "unstarted r" "no_stale s'"
  shows "requeued key p (en_sched s) (en_sched s')"
proof -
  obtain x t where call: "store_call (st_record_rejection (eg_store G) claimed failure) (\<lambda>r. [CallEnd r]) s = (x, t)"
    by (rule prod.exhaust)
  from keeps_store call show ?thesis
  proof (cases rule: keeps_cases)
    case (failed e)
    obtain m u where restore: "restore_pre_dispatch (eg_store G) key p claimed e t = (m, u)" by (rule prod.exhaust)
    from assms call failed restore have "s' = u" by (auto simp: start_rejected_def)
    with restore_pre_dispatch_requeues [OF restore _ disjI1 [OF refl]] assms(3) failed(2) show ?thesis by simp
  qed (use assms call in \<open>auto simp: start_rejected_def unstarted_def\<close>)
qed

lemma start_local_requeues:
  assumes "start_local G activation now key p claimed s = (r, s')" "unstarted r" "no_stale s'"
  shows "requeued key p (en_sched s) (en_sched s')"
proof -
  obtain current w where gate: "dv_local_current (eg_evaluator G) activation (io_world s) = (current, w)" by (rule prod.exhaust)
  let ?s = "s\<lparr>io_world := w\<rparr>"
  consider "start_not_current G key p claimed ?s = (r, s')"
    | failure where "start_rejected G key p claimed failure ?s = (r, s')"
    | (start) "current" "local_condition_failure (lib_json (eg_lib G)) (pc_compiled p) (pc_candidate p) = None"
    using assms gate by (auto simp: start_local_def Let_def split: bool.splits option.splits)
  then show ?thesis
  proof cases
    case 1
    from start_not_current_requeues [OF this assms(2,3)] show ?thesis by simp
  next
    case 2
    from start_rejected_requeues [OF this assms(2,3)] show ?thesis by simp
  next
    case start
    let ?call = "store_call (st_record_local_start (eg_store G) claimed now (task_cooldown (eg_policy G) p) (local_new now)) (\<lambda>_. [])"
    obtain x t where call: "?call ?s = (x, t)" by (rule prod.exhaust)
    from keeps_store call show ?thesis
    proof (cases rule: keeps_cases)
      case (failed e)
      obtain m u where restore: "restore_pre_dispatch (eg_store G) key p claimed e t = (m, u)" by (rule prod.exhaust)
      from assms gate start call failed restore have "s' = u" by (auto simp: start_local_def Let_def)
      with restore_pre_dispatch_requeues [OF restore _ disjI1 [OF refl]] assms(3) failed(2) show ?thesis by simp
    next
      case (passed c)
      with assms gate start call show ?thesis by (cases c) (auto simp: start_local_def Let_def unstarted_def)
    qed
  qed
qed

lemma start_reserved_requeues:
  assumes "start_reserved G activation now maximum key p s = (r, s')" "unstarted r" "no_stale s'"
  shows "requeued key p (en_sched s) (en_sched s')"
proof -
  obtain x t where call: "store_call (st_claim_due (eg_store G) (pc_candidate p) now (eg_policy G = SequentialReplay))
      (\<lambda>_. []) s = (x, t)" by (rule prod.exhaust)
  from keeps_store call show ?thesis
  proof (cases rule: keeps_cases)
    case (failed e)
    with assms call show ?thesis by (auto simp: start_reserved_def intro!: requeuedI)
  next
    case (passed out)
    show ?thesis
    proof (cases out)
      case (ClaimClaimed claimed)
      consider "start_local G activation now key p claimed t = (r, s')"
        | "start_model G activation now maximum key p claimed t = (r, s')"
        using assms call passed ClaimClaimed by (auto simp: start_reserved_def split: if_splits)
      then show ?thesis
      proof cases
        case 1
        from start_local_requeues [OF this assms(2,3)] passed(2) show ?thesis by simp
      next
        case 2
        from start_model_requeues [OF this assms(2,3)] passed(2) show ?thesis by simp
      qed
    next
      case (ClaimNotDue retry_at)
      with assms call passed show ?thesis
        by (auto simp: start_reserved_def defer_candidate_def intro!: requeuedI)
    qed (use assms call passed in \<open>auto simp: start_reserved_def unstarted_def\<close>)
  qed
qed

lemma queue_of_insert:
  "bt_ok (sc_pending s) \<Longrightarrow>
     queue_of (s\<lparr>sc_pending := bt_insert key q (sc_pending s)\<rparr>) k = (if k = key then q else queue_of s k)"
  by (simp add: queue_of_def bt_get_insert)

lemma restore_contains:
  assumes "queues_ok W s" "bt_contains (queue_of s k) position \<or> k = key \<and> position = cand_trigger_position (pc_candidate q)"
    and "pc_resumed q \<or> \<not> is_windowed (pc_compiled q) \<or> \<not> has_fresh (queue_of s key)"
  shows "bt_contains (queue_of (restore_pending key q s) k) position"
proof -
  have own: "bt_ok (queue_of s key)" using queue_of_ok [OF assms(1)] by (simp add: queue_ok_def)
  let ?s = "s\<lparr>sc_pending := bt_insert key (queue_of s key) (sc_pending s)\<rparr>"
  have ok: "bt_ok (sc_pending s)" "bt_ok (sc_pending ?s)" using assms(1) by (simp_all add: queues_ok_def bt_ok_insert)
  note queues = queue_of_insert [OF ok(1)] queue_of_insert [OF ok(2)]
  show ?thesis
  proof (cases "bt_contains (queue_of s key) (cand_trigger_position (pc_candidate q))")
    case True
    with assms(2,3) show ?thesis by (auto simp: restore_pending_def Let_def queues(1))
  next
    case False
    with assms(3) have "restore_pending key q s
        = ?s\<lparr>sc_pending := bt_insert key (bt_insert (cand_trigger_position (pc_candidate q)) q (queue_of s key)) (sc_pending ?s)\<rparr>"
      by (auto simp: restore_pending_def Let_def)
    then have "queue_of (restore_pending key q s) k
        = (if k = key then bt_insert (cand_trigger_position (pc_candidate q)) q (queue_of s key) else queue_of s k)"
      using queues by simp
    with assms(2) own show ?thesis by (auto simp: bt_contains_def bt_get_insert)
  qed
qed

lemma start_one_requeues:
  assumes "queues_ok W (en_sched s)" "start_one_due_matching G activation now maximum ready s = (r, s')"
    and "unstarted r" "no_stale s'" "bt_contains (queue_of (en_sched s) k) position"
  shows "bt_contains (queue_of (en_sched s') k) position"
proof -
  obtain taken sched where reserve: "reserve (eg_policy G) (act_id activation) ready now (en_sched s) = (taken, sched)"
    by (rule prod.exhaust)
  show ?thesis
  proof (cases taken)
    case None
    with reserve have "sched = en_sched s"
      by (auto simp: reserve_def Let_def split: if_splits option.splits list.splits)
    with None assms(2,5) reserve show ?thesis by (auto simp: start_one_due_matching_def)
  next
    case (Some taken')
    obtain key p where taken: "taken' = (key, p)" by (rule prod.exhaust)
    note taken_out = reserveD [OF reserve [unfolded Some taken] assms(1)]
    note run = assms(2) [unfolded start_one_due_matching_def reserve \<open>taken = Some taken'\<close> taken]
    let ?s = "s\<lparr>en_sched := sched\<rparr>"
    have "requeued key p sched (en_sched s')"
    proof (cases "bt_get (sc_releases sched) key")
      case None
      with run have "start_reserved G activation now maximum key p ?s = (r, s')" by (simp add: Let_def)
      from start_reserved_requeues [OF this assms(3,4)] show ?thesis by simp
    next
      case (Some previous)
      obtain x t where call: "release_call (eg_store G) previous ?s = (x, t)" by (rule prod.exhaust)
      from keeps_release call show ?thesis
      proof (cases rule: keeps_cases)
        case (failed e)
        with run Some call show ?thesis by (auto simp: Let_def intro!: requeuedI)
      next
        case (passed c)
        with run Some call
        have "start_reserved G activation now maximum key p (on_sched (forget_release key) t) = (r, s')"
          by (simp add: Let_def)
        from start_reserved_requeues [OF this assms(3,4)] passed(2)
        have "requeued key p (forget_release key sched) (en_sched s')" by simp
        then show ?thesis
          unfolding requeued_def using restore_same [of "forget_release key sched" sched]
          by (auto simp: forget_release_def)
      qed
    qed
    then obtain q where q: "q = p \<or> q = p\<lparr>pc_resumed := True\<rparr>"
      and pending: "sc_pending (en_sched s') = sc_pending (restore_pending key q sched)"
      unfolding requeued_def by blast
    have given: "bt_contains (queue_of sched k) position \<or> k = key \<and> position = cand_trigger_position (pc_candidate q)"
      using assms(5) taken_out(3) taken_out(4) [of k] q
      by (cases "k = key") (auto simp: bt_contains_def bt_get_def split: if_splits)
    have "queue_ok W key (queue_of (en_sched s) key)" by (rule queue_of_ok [OF assms(1)])
    then have "pc_resumed q \<or> \<not> is_windowed (pc_compiled q) \<or> \<not> has_fresh (queue_of sched key)"
      using taken_out(3,5) q by (auto simp: queue_ok_def queued_as_def has_fresh_iff fresh_count_def split: if_splits)
    from restore_contains [OF taken_out(6) given this] show ?thesis by (simp add: queue_of_def pending)
  qed
qed


section \<open>Closed examples\<close>

definition sample_engine :: "(nat, unit, unit) engine" where
  "sample_engine = \<lparr>eg_lib = sample_lib, eg_store = sample_store, eg_evaluator = sample_evaluator, eg_policy = LivePolicy\<rparr>"

definition engine_in :: "(nat, unit) scheduler \<Rightarrow> (nat, unit, unit) engine_state" where
  "engine_in sched = \<lparr>io_world = (), io_calls = [], en_sched = sched\<rparr>"

text \<open>A store that cannot write an intent.\<close>

definition sample_broken :: "(nat, unit, unit) model_task" where
  "sample_broken = sample_task\<lparr>mt_store := sample_store\<lparr>st_record_intent := (\<lambda>_ _ _ _. ev_fail ''db'')\<rparr>\<rparr>"

lemma sample_queued_reachable: "sched_reachable (\<lambda>_. False) ([], sample_queued)"
proof -
  have "sched_step (\<lambda>_. False) ([], scheduler_default) ([], sample_queued)"
    using sched_step.enqueued [of sample_candidate "sample_activation 1" "\<lambda>_. False" "[]" scheduler_default
        "\<lambda>_. Inr []" False]
    unfolding sample_queue snd_conv
    by (simp add: sample_candidate_def sample_activation_def sample_check_def is_windowed_def)
  then show ?thesis by (simp add: sched_reachable_def)
qed

lemma sample_not_due:
  obtains s' where "start_one_due_matching sample_engine (sample_activation 1) 0 8 (\<lambda>_. True) (engine_in sample_queued)
      = (Inr StartNotDue, s')" "no_stale s'"
proof -
  have "bt_get (sc_releases sample_running) sample_key = None"
    by (simp add: sample_running_def sample_queued_def scheduler_default_def bt_get_def)
  then show ?thesis
    using that sample_reserve
    by (simp add: start_one_due_matching_def start_reserved_def sample_engine_def engine_in_def store_call_def
        sample_store_def no_stale_def on_sched_def Let_def)
qed

theorem start_keeps_schedule_witness:
  "\<exists>s'. start_one_due_matching sample_engine (sample_activation 1) 0 8 (\<lambda>_. True) (engine_in sample_queued)
      = (Inr StartNotDue, s') \<and> sched_reachable (\<lambda>_. False) ([], en_sched s')"
proof -
  obtain s' where run: "start_one_due_matching sample_engine (sample_activation 1) 0 8 (\<lambda>_. True) (engine_in sample_queued)
      = (Inr StartNotDue, s')" by (rule sample_not_due)
  have "sched_reachable (\<lambda>_. False) ([], en_sched (engine_in sample_queued))"
    using sample_queued_reachable by (simp add: engine_in_def)
  from start_keeps_schedule [OF this run] run show ?thesis by auto
qed


lemma sample_running_reachable:
  "sched_reachable (\<lambda>_. False) ([(sample_key, Some sample_pending)], en_sched (engine_in sample_running))"
  using Scheduler_Laws.sample_run by (simp add: engine_in_def)

theorem task_keeps_schedule_witness:
  "\<exists>se s'. run_task sample_engine (TaskModel sample_task [] 0 sample_pending) (engine_in sample_running) = (Inr se, s')
     \<and> sample_key \<notin> sc_in_flight (en_sched s')"
proof -
  obtain acc t where "run_model sample_lib sample_task [] True None sample_state = (Inr RunAccepted, t)"
    by (rule sample_task_run)
  moreover have "run_of_engine 0 (engine_in sample_running) = sample_state"
    by (simp add: run_of_engine_def engine_in_def sample_state_def)
  ultimately obtain se s' where run: "run_task sample_engine (TaskModel sample_task [] 0 sample_pending)
      (engine_in sample_running) = (Inr se, s')"
    by (simp add: run_task_def run_model_task_def sample_engine_def)
  have "task_holds (TaskModel sample_task [] 0 sample_pending) sample_key sample_pending"
    by (simp add: task_holds_def sample_task_def)
  from task_keeps_schedule [OF sample_running_reachable this run] run show ?thesis by blast
qed

lemma sample_broken_run:
  obtains e s' where "run_task sample_engine (TaskModel sample_broken [] 0 sample_pending) (engine_in sample_running) = (Inl e, s')"
    "io_calls s' = io_calls (engine_in sample_running) @ [CallIntent sample_first None]"
proof -
  have parts: "mt_decisions sample_broken = [sample_block]" "mt_requirements sample_broken = [sample_requirements]"
    "mt_maximum sample_broken = 8" "mt_evaluator sample_broken = sample_evaluator"
    "st_record_intent (mt_store sample_broken) = (\<lambda>_ _ _ _. ev_fail ''db'')"
    "lib_writer sample_lib = (\<lambda>_. ([], None))" "lib_int sample_lib = id" "eg_lib sample_engine = sample_lib"
    using sample_task_checks
    by (simp_all add: sample_broken_def sample_task_def mt_decisions_def mt_requirements_def sample_lib_def sample_engine_def)
  obtain e t where run: "run_model sample_lib sample_broken [] True None (run_of_engine 0 (engine_in sample_running)) = (Inl e, t)"
    and calls: "io_calls t = [CallIntent sample_first None]" and kept: "\<not> rn_release t"
    by (simp add: run_model.simps [of sample_lib sample_broken "[]"] model_turn_def next_turn_def dispatch_attempt_def
        ev_bind_def current_progress_def counted_def store_call_def evaluator_call_def parts sample_none run_of_engine_def
        engine_in_def sample_evaluator_def Let_def)
  show ?thesis
  proof (rule that)
    show "run_task sample_engine (TaskModel sample_broken [] 0 sample_pending) (engine_in sample_running)
        = (Inl e, on_sched abandon_guard (engine_of_run t))"
      by (simp add: run_task_def run_model_task_def parts(8) run drop_guard_def kept)
    show "io_calls (on_sched abandon_guard (engine_of_run t)) = io_calls (engine_in sample_running) @ [CallIntent sample_first None]"
      by (simp add: on_sched_def engine_of_run_def calls engine_in_def)
  qed
qed

theorem unsettled_never_restarted_witness:
  "\<exists>e s'. run_task sample_engine (TaskModel sample_broken [] 0 sample_pending) (engine_in sample_running) = (Inl e, s')
     \<and> (\<forall>policy a ready now p u. reserve policy a ready now (en_sched s') \<noteq> (Some (sample_key, p), u))"
proof -
  obtain e s' where run: "run_task sample_engine (TaskModel sample_broken [] 0 sample_pending) (engine_in sample_running)
      = (Inl e, s')" and calls: "io_calls s' = io_calls (engine_in sample_running) @ [CallIntent sample_first None]"
    by (rule sample_broken_run)
  have holds: "task_holds (TaskModel sample_broken [] 0 sample_pending) sample_key sample_pending"
    by (simp add: task_holds_def sample_broken_def sample_task_def)
  have "unsettled [CallIntent sample_first None]" by (simp add: unsettled_def)
  from unsettled_never_restarted [OF sample_running_reachable holds run calls this sched_run_refl] run
  show ?thesis by blast
qed

end
