(* ===== verification/Depth_Limit.thy ===== *)
theory Depth_Limit
  imports Expr_Parser Eval_Laws
begin

text \<open>
  The parser of \<open>expression.rs\<close> rejects trees whose depth exceeds the depth limit of the
  evaluator, but its count leaves out the segments of a path, which the evaluator charges by
  their position.
\<close>

text \<open>A path with more segments than the depth limit parses but has no value.\<close>

definition long_path :: string where
  "long_path = CHR ''a'' # concat (replicate 33 ''.b'')"

definition long_segments :: "path_segment list" where
  "long_segments = PathProperty ''a'' # replicate 33 (PathProperty ''b'')"

lemma long_path_parses: "parse_expression (L :: 'n::equal json_lib) long_path = Some (Inr (Path long_segments))"
  by code_simp

lemma step_too_deep: "max_depth (limits b) < d \<Longrightarrow> \<exists>e. fst (step d b) = Inl e"
  by (simp add: step_def ev_bind_def check_active_def budget_fail_def split: prod.split sum.split)

lemma bind_fails: "\<exists>e. fst (m b) = Inl e \<Longrightarrow> \<exists>e. fst (ev_bind m f b) = Inl e"
  by (auto simp: ev_bind_def split: prod.splits sum.splits)

lemma fold_fails:
  assumes "\<And>x v. metered (f x v)" "x \<in> set xs"
    and "\<And>v b. limits b = l \<Longrightarrow> \<exists>e. fst (f x v b) = Inl e"
  shows "limits b = l \<Longrightarrow> \<exists>e. fst (ev_fold f xs v b) = Inl e"
  using assms(2)
proof (induction xs arbitrary: v b)
  case (Cons y ys)
  have l: "limits (snd (f y v b)) = l"
    using meteredD(1) [OF assms(1), of b y v] Cons.prems(1) by (simp add: budget_extends_def)
  show ?case
  proof (cases "y = x")
    case True
    then show ?thesis using assms(3) [OF Cons.prems(1), of v] bind_fails [of "f y v"] by simp
  next
    case False
    then have "x \<in> set ys" using Cons.prems(2) by simp
    from Cons.IH [OF l this] show ?thesis
      by (cases "f y v b") (auto simp: ev_bind_def split: sum.splits)
  qed
qed simp

lemma long_path_no_value: "\<exists>e. evaluate_expression L (Path long_segments) context = Inl e"
proof -
  define f where "f = (\<lambda>(position :: nat, segment) v. ev_bind (step (usize_saturating_add 1 position)) (\<lambda>_. select L v segment))"
  have deep: "\<exists>e. fst (f (32, PathProperty ''b'') v b) = Inl e" if "limits b = default_limits" for v and b :: eval_state
    using that by (auto intro!: bind_fails step_too_deep
        simp: f_def usize_saturating_add_def usize_max_def default_limits_def DEFAULT_MAX_EVALUATION_DEPTH_def)
  have "\<exists>e. fst (eval_path L context [] long_segments 1 b) = Inl e" if "limits b = default_limits" for b :: eval_state
    unfolding eval_path_def long_segments_def list.case path_segment.case f_def [symmetric]
  proof (rule fold_fails [where l = default_limits and x = "(32, PathProperty ''b'')"])
    show "metered (f x v)" for x v by (cases x) (simp add: f_def metered_bind)
    show "(32, PathProperty ''b'') \<in> set (List.enumerate 0 (replicate 33 (PathProperty ''b'')))"
      by (simp add: in_set_enumerate_eq)
  qed (use deep that in auto)
  moreover have "limits t = limits b" if "step 1 b = (r, t)" for b t :: eval_state and r
    using meteredD(1) [OF metered_step, of b 1] that by (simp add: budget_extends_def)
  ultimately have "\<exists>e. fst (evaluate L context [] (Path long_segments) 1 b) = Inl e"
    if "limits b = default_limits" for b :: eval_state
    using that by (cases "step 1 b") (auto simp: ev_bind_def split: sum.splits)
  then have "\<exists>e. fst (evaluate_expression_with_budget L (Path long_segments) context [] 1 b) = Inl e"
    if "limits b = default_limits" for b :: eval_state
    using that by (auto simp: evaluate_expression_with_budget_def intro: bind_fails)
  from this [of "start_state (budget_new default_limits DEFAULT_MAX_EVALUATION_ITEMS DEFAULT_MAX_GENERATED_BYTES)"]
  show ?thesis
    by (auto simp: evaluate_expression_def evaluate_expression_with_limits_def budget_new_def
        new_with_materialization_limit_def split: sum.splits)
qed

theorem accepted_path_never_evaluates:
  "parse_expression (L :: 'n::equal json_lib) long_path = Some (Inr (Path long_segments))
   \<and> (\<forall>context. \<exists>e. evaluate_expression L (Path long_segments) context = Inl e)"
  using long_path_parses long_path_no_value by blast

end
