(* ===== verification/Source_Pages.thy ===== *)
theory Source_Pages
  imports Selection Engine_Start
begin

text \<open>
  The application of a page of published source events by \<open>engine.rs\<close>, with the durable
  progress of \<open>check_store.rs\<close> and the normalised events of \<open>source/mod.rs\<close>. The engine keeps the
  progress of an activation in memory and replaces it when the store has committed the page, its
  observations, the new progress and the candidates in one transaction. A capture of current
  inventories is a function of the publication and the observation that ask for it.
\<close>

section \<open>Events and progress\<close>

datatype 'n source_event =
    EventIgnored nat
  | EventObservation nat "string option" string nat "'n observation_draft"
  | EventRemoval nat string nat string
  | EventGap nat string string
  | EventUnsafeUpdate nat string string
  | EventSegmentReset nat string string
  | EventCoverageRestored nat string

fun event_cursor :: "'n source_event \<Rightarrow> nat" where
  "event_cursor (EventIgnored c) = c"
| "event_cursor (EventObservation c _ _ _ _) = c"
| "event_cursor (EventRemoval c _ _ _) = c"
| "event_cursor (EventGap c _ _) = c"
| "event_cursor (EventUnsafeUpdate c _ _) = c"
| "event_cursor (EventSegmentReset c _ _) = c"
| "event_cursor (EventCoverageRestored c _) = c"

record 'n committed_observation =
  co_cursor :: nat
  co_identity :: string
  co_revision :: nat
  co_observation :: "'n observation"
  co_window_invalidated :: bool

record 'n source_batch =
  sb_events :: "'n source_event list"
  sb_next :: nat
  sb_has_more :: bool

record 'n source_progress =
  sp_cursor :: nat
  sp_position :: nat
  sp_selection :: "'n selection_state"

definition source_progress_default :: "'n source_progress" where
  "source_progress_default = \<lparr>sp_cursor = 0, sp_position = 0, sp_selection = \<lparr>sel_branches = [], sel_seen = []\<rparr>\<rparr>"

record progress_head =
  hd_cursor :: nat
  hd_position :: nat
  hd_fingerprint :: string

text \<open>The checkpoint that is written; its JSON text is the serialiser's.\<close>

record 'n checkpoint =
  ck_version :: nat
  ck_cursor :: nat
  ck_position :: nat
  ck_branches :: "(string, 'n branch_selection) bt"
  ck_seen :: "((string \<times> string) \<times> seen_result) list"

record 'n checkpoint_lib =
  ck_write :: "'n checkpoint \<Rightarrow> string option"
  ck_read :: "string \<Rightarrow> 'n checkpoint option"
  ck_digest :: "string \<Rightarrow> string"

definition progress_encode :: "'n checkpoint_lib \<Rightarrow> 'n source_progress \<Rightarrow> (string, string) res" where
  "progress_encode C p =
     (case ck_write C \<lparr>ck_version = 1, ck_cursor = sp_cursor p, ck_position = sp_position p,
         ck_branches = sel_branches (sp_selection p), ck_seen = sel_seen (sp_selection p)\<rparr> of
        None \<Rightarrow> Inl ''cannot encode selector checkpoint''
      | Some text \<Rightarrow> Inr text)"

text \<open>A checkpoint lists its seen results; collecting them keeps the last of equal keys.\<close>

definition progress_decode :: "'n checkpoint_lib \<Rightarrow> string \<Rightarrow> (string, 'n source_progress) res" where
  "progress_decode C text =
     (case ck_read C text of
        None \<Rightarrow> Inl ''invalid selector checkpoint''
      | Some k \<Rightarrow>
          if ck_version k \<noteq> 1 then Inl ''unsupported selector checkpoint version''
          else Inr \<lparr>sp_cursor = ck_cursor k, sp_position = ck_position k,
                 sp_selection = \<lparr>sel_branches = ck_branches k,
                   sel_seen = bt_collect (ck_seen k)\<rparr>\<rparr>)"

definition progress_head_of :: "'n checkpoint_lib \<Rightarrow> 'n source_progress \<Rightarrow> progress_head option" where
  "progress_head_of C p =
     (case progress_encode C p of
        Inl _ \<Rightarrow> None
      | Inr text \<Rightarrow> Some \<lparr>hd_cursor = sp_cursor p, hd_position = sp_position p,
          hd_fingerprint = ck_digest C text\<rparr>)"

section \<open>Checks on a page\<close>

fun validate_events :: "nat \<Rightarrow> 'n source_event list \<Rightarrow> (string, nat) res" where
  "validate_events previous [] = Inr previous"
| "validate_events previous (e # es) =
     (if event_cursor e \<le> previous then Inl ''source page does not advance publication progress''
      else validate_events (event_cursor e) es)"

definition validate_source_page :: "'n source_progress \<Rightarrow> 'n source_batch \<Rightarrow> (string, unit) res" where
  "validate_source_page progress page =
     res_bind (validate_events (sp_cursor progress) (sb_events page)) (\<lambda>previous.
       if sb_next page < previous \<or> sb_events page \<noteq> [] \<and> sb_next page \<noteq> previous
       then Inl ''source page cursor does not match its final event''
       else Inr ())"

section \<open>The events of a page\<close>

datatype page_invalidation =
    InvalidUpsert string string "string option"
  | InvalidNativeUpsert string string
  | InvalidRemoval string
  | InvalidBranch

type_synonym page_change = "nat \<times> string \<times> page_invalidation"

record 'n page_run =
  pr_progress :: "'n source_progress"
  pr_committed :: "'n committed_observation list"
  pr_candidates :: "('n frozen_candidate \<times> nat \<times> string) list"
  pr_conditions :: "(nat \<times> condition_outcome) list"
  pr_filters :: "(nat \<times> filter_diagnostic) list"
  pr_changes :: "page_change list"
  pr_resets :: "string set"
  pr_events :: "'n source_event list"

definition page_start :: "'n source_progress \<Rightarrow> 'n page_run" where
  "page_start progress =
     \<lparr>pr_progress = progress, pr_committed = [], pr_candidates = [], pr_conditions = [], pr_filters = [],
      pr_changes = [], pr_resets = {}, pr_events = []\<rparr>"

definition page_selection :: "'n page_run \<Rightarrow> 'n selection_state" where
  "page_selection pg = sp_selection (pr_progress pg)"

definition with_selection :: "('n selection_state \<Rightarrow> 'n selection_state) \<Rightarrow> 'n page_run \<Rightarrow> 'n page_run" where
  "with_selection f pg =
     pg\<lparr>pr_progress := (pr_progress pg)\<lparr>sp_selection := f (sp_selection (pr_progress pg))\<rparr>\<rparr>"

definition page_change :: "nat \<Rightarrow> string \<Rightarrow> page_invalidation \<Rightarrow> 'n page_run \<Rightarrow> 'n page_run" where
  "page_change index branch change pg = pg\<lparr>pr_changes := pr_changes pg @ [(index, branch, change)]\<rparr>"

definition page_keep :: "'n source_event \<Rightarrow> 'n page_run \<Rightarrow> 'n page_run" where
  "page_keep event pg = pg\<lparr>pr_events := pr_events pg @ [event]\<rparr>"

text \<open>What the outcome of the selector adds to the page.\<close>

definition page_outcome ::
  "nat \<Rightarrow> string \<Rightarrow> 'n observation \<Rightarrow> 'n selection_outcome \<Rightarrow> 'n page_run \<Rightarrow> 'n page_run" where
  "page_outcome index identity observation out pg =
     (case out of
        Candidate candidate \<Rightarrow> pg\<lparr>pr_candidates := pr_candidates pg @ [(candidate, index, identity)]\<rparr>
      | ConditionFiltered condition \<Rightarrow>
          pg\<lparr>pr_conditions := pr_conditions pg @ [(obs_position observation, condition)]\<rparr>
      | FilterRejected diagnostic \<Rightarrow>
          pg\<lparr>pr_filters := pr_filters pg @ [(obs_position observation, diagnostic)]\<rparr>
      | WindowInvalidated \<Rightarrow> page_change index (obs_branch observation) InvalidBranch pg
      | _ \<Rightarrow> pg)"

type_synonym 'n page_capture = "nat \<Rightarrow> 'n observation \<Rightarrow> (string, current_inventories option) res"

text \<open>An observation that the selector has not seen in this version yet.\<close>

definition page_observation ::
  "'n json_lib \<Rightarrow> 'n digest_lib \<Rightarrow> 'n page_capture \<Rightarrow> ('n, 'f) effective_activation \<Rightarrow> nat
     \<Rightarrow> nat \<Rightarrow> string option \<Rightarrow> string \<Rightarrow> nat \<Rightarrow> 'n observation_draft \<Rightarrow> 'n page_run
     \<Rightarrow> (engine_failure, 'n page_run) res" where
  "page_observation L D capture activation index cursor native identity revision draft pg =
     (if u64_max \<le> sp_position (pr_progress pg) then Inl (StoreFailed ''observation position is exhausted'')
      else
        (let position = sp_position (pr_progress pg) + 1;
             observation = commit_draft draft position;
             pg = pg\<lparr>pr_progress := (pr_progress pg)\<lparr>sp_position := position\<rparr>\<rparr>;
             pg = page_change index (obs_branch observation)
                     (InvalidUpsert identity (obs_version observation) native) pg
         in case apply_published_with_inventories L D (capture cursor observation) activation identity
                 revision observation (page_selection pg) of
              (Inl (CaptureFailed e), _) \<Rightarrow> Inl (StoreFailed e)
            | (Inl SelectionPanic, _) \<Rightarrow> Inl EnginePanic
            | (Inr out, selection) \<Rightarrow>
                (let pg = page_outcome index identity observation out (with_selection (\<lambda>_. selection) pg)
                 in Inr (pg\<lparr>pr_committed := pr_committed pg @
                      [\<lparr>co_cursor = cursor, co_identity = identity, co_revision = revision,
                        co_observation = observation,
                        co_window_invalidated = (out = WindowInvalidated)\<rparr>]\<rparr>))))"

text \<open>One event of the page at its index.\<close>

fun page_event ::
  "'n json_lib \<Rightarrow> 'n digest_lib \<Rightarrow> 'n page_capture \<Rightarrow> ('n, 'f) effective_activation
     \<Rightarrow> nat \<Rightarrow> 'n source_event \<Rightarrow> 'n page_run \<Rightarrow> (engine_failure, 'n page_run) res" where
  "page_event L D capture activation index (EventIgnored c) pg = Inr (page_keep (EventIgnored c) pg)"
| "page_event L D capture activation index (EventObservation c native identity revision draft) pg =
     (if \<not> accepts_update (page_selection pg) (obs_branch draft) identity revision (obs_version draft)
      then
        (let pg = (case native of
               None \<Rightarrow> pg
             | Some version \<Rightarrow>
                 if is_normalized_duplicate (page_selection pg) (obs_branch draft) identity revision
                      (obs_version draft)
                 then page_change index (obs_branch draft) (InvalidNativeUpsert identity version) pg
                 else pg)
         in Inr (page_keep (EventIgnored c) pg))
      else
        res_bind (page_observation L D capture activation index c native identity revision draft pg)
          (\<lambda>pg. Inr (page_keep (EventObservation c native identity revision draft) pg)))"
| "page_event L D capture activation index (EventRemoval c identity revision branch) pg =
     (case remove_result branch identity revision (page_selection pg) of
        (False, selection) \<Rightarrow> Inr (page_keep (EventIgnored c) (with_selection (\<lambda>_. selection) pg))
      | (True, selection) \<Rightarrow>
          Inr (page_keep (EventRemoval c identity revision branch)
            (page_change index branch (InvalidRemoval identity) (with_selection (\<lambda>_. selection) pg))))"
| "page_event L D capture activation index (EventGap c branch reason) pg =
     Inr (page_keep (EventGap c branch reason) (with_selection (mark_coverage_gap branch) pg))"
| "page_event L D capture activation index (EventUnsafeUpdate c branch reason) pg =
     Inr (page_keep (EventUnsafeUpdate c branch reason) (with_selection (reset_segment branch)
       ((page_change index branch InvalidBranch pg)\<lparr>pr_resets := insert branch (pr_resets pg)\<rparr>)))"
| "page_event L D capture activation index (EventSegmentReset c branch reason) pg =
     Inr (page_keep (EventSegmentReset c branch reason) (with_selection (reset_segment branch)
       ((page_change index branch InvalidBranch pg)\<lparr>pr_resets := insert branch (pr_resets pg)\<rparr>)))"
| "page_event L D capture activation index (EventCoverageRestored c branch) pg =
     Inr (page_keep (EventCoverageRestored c branch) (with_selection (restore_coverage branch) pg))"

fun page_events ::
  "'n json_lib \<Rightarrow> 'n digest_lib \<Rightarrow> 'n page_capture \<Rightarrow> ('n, 'f) effective_activation
     \<Rightarrow> nat \<Rightarrow> 'n source_event list \<Rightarrow> 'n page_run \<Rightarrow> (engine_failure, 'n page_run) res" where
  "page_events L D capture activation index [] pg = Inr pg"
| "page_events L D capture activation index (e # es) pg =
     res_bind (page_event L D capture activation index e pg)
       (page_events L D capture activation (Suc index) es)"

section \<open>Candidates that later events of the page invalidate\<close>

fun change_invalidates :: "string \<Rightarrow> page_invalidation \<Rightarrow> evidence_dependency \<Rightarrow> bool" where
  "change_invalidates own (InvalidUpsert identity version native) (DepMessage i v) \<longleftrightarrow> i = identity \<and> v \<noteq> version"
| "change_invalidates own (InvalidUpsert identity version native) (DepSourceEvidence i v) \<longleftrightarrow>
     i = identity \<and>
     (if i = own then v \<noteq> version else (case native of None \<Rightarrow> False | Some n \<Rightarrow> v \<noteq> n))"
| "change_invalidates own (InvalidNativeUpsert identity version) (DepSourceEvidence i v) \<longleftrightarrow>
     i = identity \<and> i \<noteq> own \<and> v \<noteq> version"
| "change_invalidates own (InvalidRemoval identity) (DepMessage i v) \<longleftrightarrow> i = identity"
| "change_invalidates own (InvalidRemoval identity) (DepSourceEvidence i v) \<longleftrightarrow> i = identity"
| "change_invalidates own _ _ \<longleftrightarrow> False"

definition candidate_invalidated :: "page_change list \<Rightarrow> 'n frozen_candidate \<times> nat \<times> string \<Rightarrow> bool" where
  "candidate_invalidated changes frozen =
     (case frozen of (candidate, index, own) \<Rightarrow>
        list_ex (\<lambda>(change_index, branch, change).
          index < change_index \<and> branch = cand_branch candidate
          \<and> (change = InvalidBranch \<or> list_ex (change_invalidates own change) (cand_dependencies candidate)))
        changes)"

definition page_candidates :: "'n page_run \<Rightarrow> 'n frozen_candidate list" where
  "page_candidates pg =
     map fst (filter (\<lambda>frozen. \<not> candidate_invalidated (pr_changes pg) frozen) (pr_candidates pg))"

section \<open>The page and the engine\<close>

record batch_outcome =
  bo_observations :: nat
  bo_candidates :: nat
  bo_coalesced :: nat
  bo_overflowed :: nat
  bo_conditions :: "(nat \<times> condition_outcome) list"
  bo_filters :: "(nat \<times> filter_diagnostic) list"

text \<open>
  The methods of the store that source pages use. \<open>load_terminal_candidate_ids\<close> only reads; the
  others are transactions on the world.
\<close>

record ('n, 'f, 'w) page_store =
  ps_activate ::
    "string \<Rightarrow> ('n, 'f) lifecycle_transition \<Rightarrow> ('n, 'f) effective_activation option \<Rightarrow> ('w, string, unit) ev"
  ps_load :: "('n, 'f) effective_activation \<Rightarrow> ('w, string, 'n source_progress) ev"
  ps_apply ::
    "('n, 'f) effective_activation \<Rightarrow> progress_head \<Rightarrow> 'n source_batch \<Rightarrow> 'n committed_observation list
       \<Rightarrow> 'n source_progress \<Rightarrow> 'n frozen_candidate list \<Rightarrow> ('w, string, unit) ev"
  ps_overflow :: "'n frozen_candidate \<Rightarrow> ('w, string, unit) ev"
  ps_terminal :: "'w \<Rightarrow> terminal_lookup"

record ('n, 'f, 'w) page_engine =
  pe_json :: "'n json_lib"
  pe_digest :: "'n digest_lib"
  pe_checkpoint :: "'n checkpoint_lib"
  pe_store :: "('n, 'f, 'w) page_store"

record ('n, 'f, 'w) source_state = "('n, 'f, 'w) engine_state" +
  so_selectors :: "(activation_key, 'n source_progress) bt"

type_synonym ('n, 'f, 'w, 'a) sourcing = "(('n, 'f, 'w) source_state, engine_failure, 'a) ev"

definition plain_call :: "('w, string, 'a) ev \<Rightarrow> ('n, 'f, 'w, 'a) sourcing" where
  "plain_call m = store_call m (\<lambda>_. [])"

definition load_selector ::
  "('n, 'f, 'w) page_engine \<Rightarrow> ('n, 'f) effective_activation \<Rightarrow> ('n, 'f, 'w, 'n source_progress) sourcing" where
  "load_selector G activation s =
     (case bt_get (so_selectors s) (activation_key (act_id activation)) of
        Some progress \<Rightarrow> (Inr progress, s)
      | None \<Rightarrow>
          ev_bind (plain_call (ps_load (pe_store G) activation)) (\<lambda>progress s.
            (Inr progress, s\<lparr>so_selectors :=
               bt_insert (activation_key (act_id activation)) progress (so_selectors s)\<rparr>)) s)"

text \<open>The page as it will be given to the store: its last state, or the reason it is refused.\<close>

definition run_page ::
  "('n, 'f, 'w) page_engine \<Rightarrow> 'n page_capture \<Rightarrow> ('n, 'f) effective_activation \<Rightarrow> 'n source_batch
     \<Rightarrow> 'n source_progress \<Rightarrow> (engine_failure, progress_head \<times> 'n page_run) res" where
  "run_page G capture activation page progress =
     res_bind (res_map_err StoreFailed (validate_source_page progress page)) (\<lambda>_.
       case progress_head_of (pe_checkpoint G) progress of
         None \<Rightarrow> Inl EnginePanic
       | Some head \<Rightarrow>
           res_bind (page_events (pe_json G) (pe_digest G) capture activation 0 (sb_events page)
               (page_start progress)) (\<lambda>pg.
             Inr (head, pg\<lparr>pr_progress := (pr_progress pg)\<lparr>sp_cursor := sb_next page\<rparr>\<rparr>)))"

definition commit_page ::
  "('n, 'f, 'w) page_engine \<Rightarrow> ('n, 'f) effective_activation \<Rightarrow> 'n source_batch \<Rightarrow> progress_head
     \<Rightarrow> 'n page_run \<Rightarrow> ('n, 'f, 'w, unit) sourcing" where
  "commit_page G activation page head pg s =
     (let key = activation_key (act_id activation) in
      case plain_call (ps_apply (pe_store G) activation head (page\<lparr>sb_events := pr_events pg\<rparr>)
          (pr_committed pg) (pr_progress pg) (page_candidates pg)) s of
        (Inl e, s) \<Rightarrow> (Inl e, s\<lparr>so_selectors := bt_remove key (so_selectors s)\<rparr>)
      | (Inr _, s) \<Rightarrow> (Inr (), s\<lparr>so_selectors := bt_insert key (pr_progress pg) (so_selectors s)\<rparr>))"

text \<open>The queue admission of one candidate, with the number of queues it coalesced and overflowed.\<close>

definition enqueue_candidate ::
  "('n, 'f, 'w) page_store \<Rightarrow> ('n, 'f) effective_activation \<Rightarrow> 'n frozen_candidate \<Rightarrow> bool
     \<Rightarrow> batch_outcome \<Rightarrow> ('n, 'f, 'w, batch_outcome) sourcing" where
  "enqueue_candidate S activation candidate resumed out s =
     (case enqueue_with_resume (ps_terminal S (io_world s)) activation candidate resumed (en_sched s) of
        (Inl e, sched) \<Rightarrow> (Inl (StoreFailed e), s\<lparr>en_sched := sched\<rparr>)
      | (Inr Queued, sched) \<Rightarrow> (Inr out, s\<lparr>en_sched := sched\<rparr>)
      | (Inr Coalesced, sched) \<Rightarrow> (Inr (out\<lparr>bo_coalesced := bo_coalesced out + 1\<rparr>), s\<lparr>en_sched := sched\<rparr>)
      | (Inr Overflow, sched) \<Rightarrow>
          ev_bind (plain_call (ps_overflow S candidate)) (\<lambda>_.
            ev_return (out\<lparr>bo_overflowed := bo_overflowed out + 1\<rparr>)) (s\<lparr>en_sched := sched\<rparr>))"

definition queue_page ::
  "('n, 'f, 'w) page_engine \<Rightarrow> ('n, 'f) effective_activation \<Rightarrow> 'n page_run
     \<Rightarrow> ('n, 'f, 'w, batch_outcome) sourcing" where
  "queue_page G activation pg s =
     ev_fold (\<lambda>candidate. enqueue_candidate (pe_store G) activation candidate False) (page_candidates pg)
       \<lparr>bo_observations = length (pr_committed pg), bo_candidates = length (page_candidates pg),
        bo_coalesced = 0, bo_overflowed = 0, bo_conditions = pr_conditions pg, bo_filters = pr_filters pg\<rparr>
       (if pr_resets pg = {} then s
        else s\<lparr>en_sched := drop_branches (act_id activation) (pr_resets pg) (en_sched s)\<rparr>)"

definition apply_source_page_with_inventories ::
  "('n, 'f, 'w) page_engine \<Rightarrow> 'n page_capture \<Rightarrow> ('n, 'f) effective_activation \<Rightarrow> 'n source_batch
     \<Rightarrow> ('n, 'f, 'w, batch_outcome) sourcing" where
  "apply_source_page_with_inventories G capture activation page =
     ev_bind (load_selector G activation) (\<lambda>progress.
       case run_page G capture activation page progress of
         Inl e \<Rightarrow> ev_fail e
       | Inr (head, pg) \<Rightarrow>
           ev_bind (commit_page G activation page head pg) (\<lambda>_. queue_page G activation pg))"

definition apply_source_page ::
  "('n, 'f, 'w) page_engine \<Rightarrow> ('n, 'f) effective_activation \<Rightarrow> 'n source_batch
     \<Rightarrow> ('n, 'f, 'w, batch_outcome) sourcing" where
  "apply_source_page G activation page =
     apply_source_page_with_inventories G (\<lambda>_ _. Inr None) activation page"

text \<open>\<open>engine_source_refresh.rs\<close>, and the transition of an activation.\<close>

definition refresh_source_progress ::
  "('n, 'f, 'w) page_engine \<Rightarrow> ('n, 'f) effective_activation \<Rightarrow> ('n, 'f, 'w, unit) sourcing" where
  "refresh_source_progress G activation =
     ev_bind (plain_call (ps_load (pe_store G) activation)) (\<lambda>progress s.
       (Inr (), s\<lparr>so_selectors := bt_insert (activation_key (act_id activation)) progress (so_selectors s)\<rparr>))"

definition keeps_selector :: "string \<Rightarrow> activation_id option \<Rightarrow> activation_key \<Rightarrow> bool" where
  "keeps_selector definition activation key = keeps_key definition activation (key, [])"

definition persist_activation ::
  "('n, 'f, 'w) page_engine \<Rightarrow> string \<Rightarrow> ('n, 'f) lifecycle_transition \<Rightarrow> ('n, 'f) effective_activation option
     \<Rightarrow> ('n, 'f, 'w, unit) sourcing" where
  "persist_activation G definition transition activation =
     ev_bind (plain_call (ps_activate (pe_store G) definition transition activation)) (\<lambda>_ s.
       (let current = map_option act_id activation in
        (Inr (), s\<lparr>en_sched := retain_activation definition current (en_sched s),
           so_selectors := bt_retain (\<lambda>key _. keeps_selector definition current key) (so_selectors s)\<rparr>)))"

end
