(* ===== verification/Source_Laws.thy ===== *)
theory Source_Laws
  imports Source_Pages Selection_Laws Engine_Laws
begin

text \<open>
  What the application of source pages guarantees: publications and positions only advance,
  candidates belong to observations of their page and an identity triggers at most once, across
  replayed pages, failed commits and restarts.
\<close>

section \<open>One event of a page\<close>

lemma page_fields [simp]:
  "pr_progress (page_change n b c pg) = pr_progress pg"
  "pr_committed (page_change n b c pg) = pr_committed pg"
  "pr_candidates (page_change n b c pg) = pr_candidates pg"
  "pr_events (page_change n b c pg) = pr_events pg"
  "pr_resets (page_change n b c pg) = pr_resets pg"
  "pr_changes (page_change n b c pg) = pr_changes pg @ [(n, b, c)]"
  "pr_progress (page_keep e pg) = pr_progress pg"
  "pr_committed (page_keep e pg) = pr_committed pg"
  "pr_candidates (page_keep e pg) = pr_candidates pg"
  "pr_changes (page_keep e pg) = pr_changes pg"
  "pr_resets (page_keep e pg) = pr_resets pg"
  "pr_events (page_keep e pg) = pr_events pg @ [e]"
  "pr_committed (with_selection f pg) = pr_committed pg"
  "pr_candidates (with_selection f pg) = pr_candidates pg"
  "pr_changes (with_selection f pg) = pr_changes pg"
  "pr_resets (with_selection f pg) = pr_resets pg"
  "pr_events (with_selection f pg) = pr_events pg"
  "sp_cursor (pr_progress (with_selection f pg)) = sp_cursor (pr_progress pg)"
  "sp_position (pr_progress (with_selection f pg)) = sp_position (pr_progress pg)"
  "sp_selection (pr_progress (with_selection f pg)) = f (sp_selection (pr_progress pg))"
  by (simp_all add: page_change_def page_keep_def with_selection_def)

lemma page_outcome_fields [simp]:
  "pr_progress (page_outcome n i obs out pg) = pr_progress pg"
  "pr_committed (page_outcome n i obs out pg) = pr_committed pg"
  "pr_events (page_outcome n i obs out pg) = pr_events pg"
  "pr_resets (page_outcome n i obs out pg) = pr_resets pg"
  "pr_candidates (page_outcome n i obs out pg) =
     pr_candidates pg @ (case out of Candidate c \<Rightarrow> [(c, n, i)] | _ \<Rightarrow> [])"
  "pr_changes (page_outcome n i obs out pg) =
     pr_changes pg @ (if out = WindowInvalidated then [(n, obs_branch obs, InvalidBranch)] else [])"
  by (cases out; simp add: page_outcome_def)+

lemma commit_draft_fields [simp]:
  "obs_position (commit_draft draft position) = position"
  "obs_branch (commit_draft draft position) = obs_branch draft"
  "obs_version (commit_draft draft position) = obs_version draft"
  by (simp_all add: commit_draft_def observation_draft.defs)

definition committed_now :: "'n page_run \<Rightarrow> 'n page_run \<Rightarrow> nat \<Rightarrow> string \<Rightarrow> nat \<Rightarrow> 'n observation \<Rightarrow> bool" where
  "committed_now pg pg' cursor identity revision observation \<longleftrightarrow>
     (\<exists>window. pr_committed pg' = pr_committed pg @
        [\<lparr>co_cursor = cursor, co_identity = identity, co_revision = revision, co_observation = observation,
          co_window_invalidated = window\<rparr>])"

text \<open>An event either leaves the observations of the page as they are, or it commits one.\<close>

lemma page_observation_cases:
  assumes "page_observation L D capture activation n cursor native identity revision draft pg = Inr pg'"
  obtains out where
    "sp_position (pr_progress pg) < u64_max"
    "sp_cursor (pr_progress pg') = sp_cursor (pr_progress pg)"
    "sp_position (pr_progress pg') = sp_position (pr_progress pg) + 1"
    "apply_published_with_inventories L D
       (capture cursor (commit_draft draft (sp_position (pr_progress pg) + 1))) activation identity revision
       (commit_draft draft (sp_position (pr_progress pg) + 1)) (page_selection pg) = (Inr out, page_selection pg')"
    "pr_candidates pg' = pr_candidates pg @ (case out of Candidate c \<Rightarrow> [(c, n, identity)] | _ \<Rightarrow> [])"
    "pr_changes pg' = pr_changes pg @ [(n, obs_branch draft, InvalidUpsert identity (obs_version draft) native)]
       @ (if out = WindowInvalidated then [(n, obs_branch draft, InvalidBranch)] else [])"
    "committed_now pg pg' cursor identity revision (commit_draft draft (sp_position (pr_progress pg) + 1))"
    "pr_resets pg' = pr_resets pg"
  using assms
  by (auto simp: page_observation_def Let_def page_selection_def committed_now_def
      split: if_splits prod.splits sum.splits selection_failure.splits)

lemma page_event_cases:
  assumes "page_event L D capture activation n e pg = Inr pg'"
  obtains (quiet) "pr_committed pg' = pr_committed pg" "pr_candidates pg' = pr_candidates pg"
      "sp_position (pr_progress pg') = sp_position (pr_progress pg)"
      "sp_cursor (pr_progress pg') = sp_cursor (pr_progress pg)"
      "(selection_step L D activation)\<^sup>*\<^sup>* (page_selection pg) (page_selection pg')"
  | (observed) native identity revision draft observation out
    where "e = EventObservation (event_cursor e) native identity revision draft"
      "observation = commit_draft draft (sp_position (pr_progress pg) + 1)"
      "sp_position (pr_progress pg) < u64_max"
      "sp_cursor (pr_progress pg') = sp_cursor (pr_progress pg)"
      "sp_position (pr_progress pg') = sp_position (pr_progress pg) + 1"
      "apply_published_with_inventories L D (capture (event_cursor e) observation) activation identity revision
         observation (page_selection pg) = (Inr out, page_selection pg')"
      "pr_candidates pg' = pr_candidates pg @ (case out of Candidate c \<Rightarrow> [(c, n, identity)] | _ \<Rightarrow> [])"
      "committed_now pg pg' (event_cursor e) identity revision observation"
proof (cases e)
  case (EventObservation cursor native identity revision draft)
  show ?thesis
  proof (cases "accepts_update (page_selection pg) (obs_branch draft) identity revision (obs_version draft)")
    case True
    then obtain mid where mid: "page_observation L D capture activation n cursor native identity revision draft pg = Inr mid"
      and after: "pg' = page_keep (EventObservation cursor native identity revision draft) mid"
      using assms EventObservation by auto
    from mid show ?thesis
    proof (rule page_observation_cases)
      fix out
      assume *: "sp_position (pr_progress pg) < u64_max"
        "sp_cursor (pr_progress mid) = sp_cursor (pr_progress pg)"
        "sp_position (pr_progress mid) = sp_position (pr_progress pg) + 1"
        "apply_published_with_inventories L D
          (capture cursor (commit_draft draft (sp_position (pr_progress pg) + 1))) activation identity revision
          (commit_draft draft (sp_position (pr_progress pg) + 1)) (page_selection pg) = (Inr out, page_selection mid)"
        "pr_candidates mid = pr_candidates pg @ (case out of Candidate c \<Rightarrow> [(c, n, identity)] | _ \<Rightarrow> [])"
        "committed_now pg mid cursor identity revision (commit_draft draft (sp_position (pr_progress pg) + 1))"
      show ?thesis
        by (rule observed [OF _ refl, of native identity revision draft out])
          (use * EventObservation after in \<open>simp_all add: page_selection_def committed_now_def\<close>)
    qed
  next
    case False
    then show ?thesis
      using assms EventObservation
      by (intro quiet) (auto simp: page_selection_def split: option.splits if_splits)
  qed
next
  case (EventRemoval cursor identity revision branch)
  then show ?thesis
    using assms selection_step.removed [of L D activation "page_selection pg" branch identity revision]
    by (intro quiet) (auto simp: page_selection_def split: prod.splits bool.splits)
next
  case (EventGap cursor branch reason)
  then show ?thesis
    using assms selection_step.gap [of L D activation "page_selection pg" branch] by (intro quiet) (auto simp: page_selection_def)
next
  case (EventUnsafeUpdate cursor branch reason)
  then show ?thesis
    using assms selection_step.segment [of L D activation "page_selection pg" branch] by (intro quiet) (auto simp: page_selection_def)
next
  case (EventSegmentReset cursor branch reason)
  then show ?thesis
    using assms selection_step.segment [of L D activation "page_selection pg" branch] by (intro quiet) (auto simp: page_selection_def)
next
  case (EventCoverageRestored cursor branch)
  then show ?thesis
    using assms selection_step.restored [of L D activation "page_selection pg" branch] by (intro quiet) (auto simp: page_selection_def)
qed (use assms in \<open>auto intro: quiet simp: page_selection_def\<close>)

text \<open>Induction over the events of a page with their cursors.\<close>

lemma page_events_induct:
  assumes "validate_events c es = Inr q" "page_events L D capture activation n es pg = Inr pg'" "I c n pg"
    and step: "\<And>c n e pg pg'. c < event_cursor e \<Longrightarrow> page_event L D capture activation n e pg = Inr pg' \<Longrightarrow> I c n pg
      \<Longrightarrow> I (event_cursor e) (Suc n) pg'"
  shows "I q (n + length es) pg'"
  using assms(1-3)
proof (induction es arbitrary: c n pg)
  case (Cons e es)
  then show ?case using step [of c e n pg] by (fastforce split: if_splits)
qed simp

section \<open>Cursors, positions and triggers\<close>

abbreviation co_position :: "'n committed_observation \<Rightarrow> nat" where
  "co_position ob \<equiv> obs_position (co_observation ob)"

abbreviation co_branch :: "'n committed_observation \<Rightarrow> string" where
  "co_branch ob \<equiv> obs_branch (co_observation ob)"

definition order_ok :: "nat \<Rightarrow> nat \<Rightarrow> 'n committed_observation list \<Rightarrow> bool" where
  "order_ok cursor position observations \<longleftrightarrow>
     sorted_wrt (<) (map co_cursor observations) \<and> (\<forall>ob \<in> set observations. co_cursor ob \<le> cursor)
     \<and> sorted_wrt (<) (map co_position observations) \<and> (\<forall>ob \<in> set observations. co_position ob \<le> position)"

text \<open>The identity whose observation triggered a candidate.\<close>

definition trigger_of :: "'n committed_observation list \<Rightarrow> 'n frozen_candidate \<Rightarrow> (string \<times> string) option" where
  "trigger_of observations c =
     map_option (\<lambda>ob. (co_branch ob, co_identity ob))
       (find (\<lambda>ob. co_position ob = cand_trigger_position c) observations)"

definition trigger_ok :: "'n selection_state \<Rightarrow> 'n committed_observation list \<Rightarrow> 'n frozen_candidate list \<Rightarrow> bool" where
  "trigger_ok sel observations candidates \<longleftrightarrow>
     sel_ok sel \<and> distinct (map (trigger_of observations) candidates)
     \<and> (\<forall>c \<in> set candidates. \<exists>key. trigger_of observations c = Some key \<and> fst key = cand_branch c \<and> settled key sel)"

lemma order_ok_le: "order_ok c p obs \<Longrightarrow> c \<le> c' \<Longrightarrow> p \<le> p' \<Longrightarrow> order_ok c' p' obs"
  by (fastforce simp: order_ok_def)

lemma order_ok_snoc:
  "order_ok c p obs \<Longrightarrow> c < co_cursor ob \<Longrightarrow> p < co_position ob
   \<Longrightarrow> order_ok (co_cursor ob) (co_position ob) (obs @ [ob])"
  by (fastforce simp: order_ok_def sorted_wrt_append)

lemma trigger_of_append: "trigger_of obs c = Some key \<Longrightarrow> trigger_of (obs @ obs') c = Some key"
  by (induction obs) (auto simp: trigger_of_def)

lemma trigger_of_last:
  "order_ok c p obs \<Longrightarrow> p < co_position ob \<Longrightarrow> cand_trigger_position cand = co_position ob
   \<Longrightarrow> trigger_of (obs @ [ob]) cand = Some (co_branch ob, co_identity ob)"
proof -
  assume *: "order_ok c p obs" "p < co_position ob" "cand_trigger_position cand = co_position ob"
  then have "\<forall>x \<in> set obs. co_position x \<noteq> co_position ob" by (fastforce simp: order_ok_def)
  then have "find (\<lambda>x. co_position x = co_position ob) (obs @ [ob]) = Some ob" by (induction obs) auto
  then show ?thesis by (simp add: trigger_of_def *(3))
qed

text \<open>A candidate is that of the observation that froze it.\<close>

definition frozen_from :: "('n, 'f) effective_activation \<Rightarrow> 'n observation \<Rightarrow> 'n selection_outcome \<Rightarrow> bool" where
  "frozen_from activation observation out \<longleftrightarrow>
     (case out of Candidate c \<Rightarrow> cand_activation c = act_id activation \<and> cand_branch c = obs_branch observation
         \<and> cand_trigger_position c = obs_position observation
      | _ \<Rightarrow> True)"

lemma frozen_from_simps [simp]:
  "frozen_from activation observation (freeze_candidate D (act_id activation) observation ms context deps)"
  "no_candidate out \<Longrightarrow> frozen_from activation observation out"
  by (simp_all add: frozen_from_def freeze_candidate_def no_candidate_def split: selection_outcome.splits)

lemma apply_frozen_from:
  "returns (apply_with_inventories L D capture activation observation) (frozen_from activation observation)"
proof -
  have event: "returns (freeze_event D capture activation observation ctx) (frozen_from activation observation)" for ctx
    by (auto simp: freeze_event_def Let_def intro!: returns_bind_any)
  have ended: "returns (finish_window D capture activation observation ctx results) (frozen_from activation observation)"
    for ctx results by (auto simp: finish_window_def Let_def intro!: returns_bind_any)
  then have window: "returns (freeze_window D capture activation observation ctx message) (frozen_from activation observation)"
    for ctx message by (auto simp: returns_def freeze_window_def Let_def frozen_from_def split: if_splits)
  have body: "returns (ev_bind m (\<lambda>ctx. if evaluate_trigger_condition L check (context_value ctx) \<noteq> CondMatched
        then ev_return (ConditionFiltered (evaluate_trigger_condition L check (context_value ctx)))
        else (case observation_message observation of
                None \<Rightarrow> freeze_event D capture activation observation ctx
              | Some message \<Rightarrow> freeze_window D capture activation observation ctx message)))
      (frozen_from activation observation)" for m check
    using event window
    by (auto intro!: returns_bind_any simp: frozen_from_def [of _ _ "ConditionFiltered _"] split: option.split)
  show ?thesis
    unfolding returns_def apply_with_inventories_def Let_def
    by (auto simp: frozen_from_def [of _ _ "FilterRejected _"] frozen_from_def [of _ _ Updated] frozen_from_def [of _ _ Filtered]
        frozen_from_def [of _ _ Incomplete] split: if_splits sum.splits bool.splits option.splits
        dest: returnsD [OF body])
qed

lemma published_frozen_from:
  assumes "apply_published_with_inventories L D capture activation identity revision observation s = (Inr out, t)"
  shows "frozen_from activation observation out"
proof (cases "no_candidate out")
  case False
  have "returns (apply_recorded L D capture activation identity previous observation) (frozen_from activation observation)" for previous
  proof (cases "case previous of None \<Rightarrow> True | Some seen \<Rightarrow> \<not> seen_terminal seen")
    case True
    then show ?thesis
      by (auto simp: apply_recorded_def Let_def intro!: returns_bind_any returns_bind [OF apply_frozen_from])
  next
    case False
    then obtain r where "previous = Some r" "seen_terminal r" by (auto split: option.splits)
    then show ?thesis
      using returns_mono [OF recorded_no_candidate, of r _ L D capture activation identity observation] by simp
  qed
  then show ?thesis
    using assms False by (auto simp: apply_published_with_inventories_def Let_def dest: returnsD split: if_splits)
qed simp

lemma page_event_order:
  assumes "page_event L D capture activation n e pg = Inr pg'" "c < event_cursor e"
    and "order_ok c (sp_position (pr_progress pg)) (obs @ pr_committed pg)"
  shows "order_ok (event_cursor e) (sp_position (pr_progress pg')) (obs @ pr_committed pg')"
  using assms(1)
proof (cases rule: page_event_cases)
  case quiet
  then show ?thesis using order_ok_le [OF assms(3)] assms(2) by simp
next
  case (observed native identity revision draft observation out)
  then obtain window where "pr_committed pg' = pr_committed pg @ [\<lparr>co_cursor = event_cursor e, co_identity = identity,
      co_revision = revision, co_observation = observation, co_window_invalidated = window\<rparr>]"
    by (auto simp: committed_now_def)
  then show ?thesis using order_ok_snoc [OF assms(3), of "last (pr_committed pg')"] observed assms(2) by simp
qed

lemma trigger_ok_settles:
  assumes "trigger_ok sel obs cands" "sel_extends sel sel'"
  shows "trigger_ok sel' obs cands"
  using assms settled_extends [of sel sel'] by (fastforce simp: trigger_ok_def sel_extends_def)

lemma trigger_ok_append:
  assumes "trigger_ok sel obs cands"
  shows "trigger_ok sel (obs @ obs') cands"
proof -
  have same: "trigger_of (obs @ obs') c = trigger_of obs c" if "c \<in> set cands" for c
    using assms that trigger_of_append by (fastforce simp: trigger_ok_def)
  have "distinct (map (trigger_of (obs @ obs')) cands)"
    using assms same by (metis (mono_tags, lifting) map_eq_conv trigger_ok_def)
  then show ?thesis using assms same by (simp add: trigger_ok_def)
qed

lemma trigger_ok_filter: "trigger_ok sel obs (cands @ new) \<Longrightarrow> set new' \<subseteq> set new \<Longrightarrow> distinct (map (trigger_of obs) new')
   \<Longrightarrow> trigger_ok sel obs (cands @ new')"
  by (fastforce simp: trigger_ok_def)

lemma page_event_trigger:
  assumes "page_event L D capture activation n e pg = Inr pg'"
    and order: "order_ok c (sp_position (pr_progress pg)) (obs @ pr_committed pg)"
    and ok: "trigger_ok (page_selection pg) (obs @ pr_committed pg) (cands @ map fst (pr_candidates pg))"
  shows "trigger_ok (page_selection pg') (obs @ pr_committed pg') (cands @ map fst (pr_candidates pg'))"
  using assms(1)
proof (cases rule: page_event_cases)
  case quiet
  then show ?thesis using trigger_ok_settles [OF ok run_extends] by simp
next
  case (observed native identity revision draft observation out)
  then obtain window where after: "pr_committed pg' = pr_committed pg @ [\<lparr>co_cursor = event_cursor e,
      co_identity = identity, co_revision = revision, co_observation = observation,
      co_window_invalidated = window\<rparr>]" (is "_ = _ @ [?o]")
    by (auto simp: committed_now_def)
  have "sel_extends (page_selection pg) (page_selection pg')"
    using step_extends [OF selection_step.published] observed(6) by (metis snd_conv)
  then have kept: "trigger_ok (page_selection pg') (obs @ pr_committed pg') (cands @ map fst (pr_candidates pg))"
    using trigger_ok_append [OF trigger_ok_settles [OF ok], of _ "[?o]"] after by simp
  show ?thesis
  proof (cases "no_candidate out")
    case True
    then show ?thesis using kept observed(7) by (cases out) (simp_all add: no_candidate_def)
  next
    case False
    then obtain new where new: "out = Candidate new" by (cases out) (simp_all add: no_candidate_def)
    let ?key = "(obs_branch observation, identity)"
    have "cand_branch new = obs_branch observation" "cand_trigger_position new = obs_position observation"
      using published_frozen_from [OF observed(6)] new by (simp_all add: frozen_from_def)
    then have trigger: "trigger_of (obs @ pr_committed pg') new = Some ?key"
      using trigger_of_last [OF order, of ?o new] observed(2) after by simp
    have "\<not> settled ?key (page_selection pg)"
      using settled_no_candidate [OF _ observed(6)] False by blast
    then have "Some ?key \<notin> trigger_of (obs @ pr_committed pg) ` set (cands @ map fst (pr_candidates pg))"
      using ok unfolding trigger_ok_def by (auto simp del: set_append)
    moreover have "trigger_of (obs @ pr_committed pg') x = trigger_of (obs @ pr_committed pg) x"
      if "x \<in> set (cands @ map fst (pr_candidates pg))" for x
      using ok that trigger_of_append after by (fastforce simp: trigger_ok_def simp del: set_append)
    ultimately have "Some ?key \<notin> trigger_of (obs @ pr_committed pg') ` set (cands @ map fst (pr_candidates pg))"
      by (auto simp del: set_append)
    moreover have "settled ?key (page_selection pg')"
      using candidate_settles [OF _ observed(6) False] ok by (simp add: trigger_ok_def)
    ultimately show ?thesis
      using kept observed(7) new trigger \<open>cand_branch new = obs_branch observation\<close>
      by (auto simp: trigger_ok_def)
  qed
qed

section \<open>A whole page\<close>

lemma run_page_Inr:
  assumes "run_page G capture activation page progress = Inr (head, pg)"
  obtains mid q where "progress_head_of (pe_checkpoint G) progress = Some head"
    "validate_events (sp_cursor progress) (sb_events page) = Inr q" "q \<le> sb_next page"
    "page_events (pe_json G) (pe_digest G) capture activation 0 (sb_events page) (page_start progress) = Inr mid"
    "pg = mid\<lparr>pr_progress := (pr_progress mid)\<lparr>sp_cursor := sb_next page\<rparr>\<rparr>"
proof -
  obtain q where valid: "validate_events (sp_cursor progress) (sb_events page) = Inr q" "q \<le> sb_next page"
    using assms by (auto simp: run_page_def validate_source_page_def split: if_splits)
  obtain mid where mid: "progress_head_of (pe_checkpoint G) progress = Some head"
      "page_events (pe_json G) (pe_digest G) capture activation 0 (sb_events page) (page_start progress) = Inr mid"
      "pg = mid\<lparr>pr_progress := (pr_progress mid)\<lparr>sp_cursor := sb_next page\<rparr>\<rparr>"
    using assms by (auto simp: run_page_def split: option.splits)
  show ?thesis by (rule that [OF mid(1) valid mid(2,3)])
qed

lemma run_page_order:
  assumes "run_page G capture activation page progress = Inr (head, pg)"
    and "order_ok (sp_cursor progress) (sp_position progress) obs"
  shows "order_ok (sp_cursor (pr_progress pg)) (sp_position (pr_progress pg)) (obs @ pr_committed pg)"
  using assms(1)
proof (rule run_page_Inr)
  fix mid q
  assume valid: "validate_events (sp_cursor progress) (sb_events page) = Inr q" and q: "q \<le> sb_next page"
    and events: "page_events (pe_json G) (pe_digest G) capture activation 0 (sb_events page) (page_start progress) = Inr mid"
    and pg: "pg = mid\<lparr>pr_progress := (pr_progress mid)\<lparr>sp_cursor := sb_next page\<rparr>\<rparr>"
  have "order_ok q (sp_position (pr_progress mid)) (obs @ pr_committed mid)"
    by (rule page_events_induct [OF valid events, where
          I = "\<lambda>c n pg. order_ok c (sp_position (pr_progress pg)) (obs @ pr_committed pg)"])
      (use assms(2) page_event_order in \<open>auto simp: page_start_def\<close>)
  then show ?thesis using order_ok_le q pg by fastforce
qed

lemma page_candidates_sub:
  "set (page_candidates pg) \<subseteq> set (map fst (pr_candidates pg))"
  "distinct (map f (map fst (pr_candidates pg))) \<Longrightarrow> distinct (map f (page_candidates pg))"
  by (auto simp: page_candidates_def comp_def distinct_map_filter)

lemma run_page_trigger:
  assumes "run_page G capture activation page progress = Inr (head, pg)"
    and order: "order_ok (sp_cursor progress) (sp_position progress) obs"
    and ok: "trigger_ok (sp_selection progress) obs cands"
  shows "trigger_ok (sp_selection (pr_progress pg)) (obs @ pr_committed pg) (cands @ page_candidates pg)"
  using assms(1)
proof (rule run_page_Inr)
  fix mid q
  assume valid: "validate_events (sp_cursor progress) (sb_events page) = Inr q"
    and events: "page_events (pe_json G) (pe_digest G) capture activation 0 (sb_events page) (page_start progress) = Inr mid"
    and pg: "pg = mid\<lparr>pr_progress := (pr_progress mid)\<lparr>sp_cursor := sb_next page\<rparr>\<rparr>"
  have "order_ok q (sp_position (pr_progress mid)) (obs @ pr_committed mid)
      \<and> trigger_ok (page_selection mid) (obs @ pr_committed mid) (cands @ map fst (pr_candidates mid))"
    by (rule page_events_induct [OF valid events, where
          I = "\<lambda>c n pg. order_ok c (sp_position (pr_progress pg)) (obs @ pr_committed pg)
            \<and> trigger_ok (page_selection pg) (obs @ pr_committed pg) (cands @ map fst (pr_candidates pg))"])
      (use order ok page_event_order page_event_trigger in \<open>auto simp: page_start_def page_selection_def\<close>)
  then have mid: "trigger_ok (page_selection mid) (obs @ pr_committed mid) (cands @ map fst (pr_candidates mid))" ..
  then have "distinct (map (trigger_of (obs @ pr_committed mid)) (map fst (pr_candidates mid)))"
    by (simp add: trigger_ok_def)
  then show ?thesis
    using trigger_ok_filter [OF mid page_candidates_sub(1) page_candidates_sub(2)] pg
    by (simp add: page_selection_def page_candidates_def)
qed

section \<open>The store and the runs of the engine\<close>

text \<open>What a store holds for an activation, as far as source pages are concerned.\<close>

record 'n page_ledger =
  le_progress :: "'n source_progress"
  le_observations :: "'n committed_observation list"
  le_candidates :: "'n frozen_candidate list"

type_synonym ('n, 'w) ledger = "'w \<Rightarrow> activation_key \<Rightarrow> 'n page_ledger"

text \<open>
  What else happens to the ledger, in this process or another one: progress may move on,
  and the selector may learn, but nothing is taken back.
\<close>

definition ledger_moves :: "(activation_key \<Rightarrow> 'n page_ledger) \<Rightarrow> (activation_key \<Rightarrow> 'n page_ledger) \<Rightarrow> bool" where
  "ledger_moves l l' \<longleftrightarrow>
     (\<forall>key. le_observations (l' key) = le_observations (l key) \<and> le_candidates (l' key) = le_candidates (l key)
        \<and> sp_cursor (le_progress (l key)) \<le> sp_cursor (le_progress (l' key))
        \<and> sp_position (le_progress (l key)) \<le> sp_position (le_progress (l' key))
        \<and> sel_extends (sp_selection (le_progress (l key))) (sp_selection (le_progress (l' key))))"

lemma ledger_moves_refl [simp]: "ledger_moves l l"
  by (simp add: ledger_moves_def sel.refl)

text \<open>
  The contract of \<open>apply_source_page\<close>: a page is applied as a whole, and only if \<open>expected\<close> is the
  head of the durable progress. A failing call may still have committed. An activation may set the
  boundary from which its progress starts; the other methods do not touch the ledger.
\<close>

definition store_commits ::
  "'n checkpoint_lib \<Rightarrow> ('n, 'f, 'w) page_store \<Rightarrow> ('n, 'w) ledger \<Rightarrow> bool" where
  "store_commits C S ledger \<longleftrightarrow>
     (\<forall>a head page obs next cands w.
        ledger (snd (ps_apply S a head page obs next cands w)) = ledger w
          \<and> (\<exists>e. fst (ps_apply S a head page obs next cands w) = Inl e)
        \<or> (let key = activation_key (act_id a) in
           progress_head_of C (le_progress (ledger w key)) = Some head
           \<and> ledger (snd (ps_apply S a head page obs next cands w)) = (ledger w)(key :=
               \<lparr>le_progress = next, le_observations = le_observations (ledger w key) @ obs,
                le_candidates = le_candidates (ledger w key) @ cands\<rparr>)))
     \<and> (\<forall>a w. ledger (snd (ps_load S a w)) = ledger w)
     \<and> (\<forall>c w. ledger (snd (ps_overflow S c w)) = ledger w)
     \<and> (\<forall>d transition a w. ledger_moves (ledger w) (ledger (snd (ps_activate S d transition a w))))"

inductive source_step ::
  "('n, 'f, 'w) page_engine \<Rightarrow> ('n, 'w) ledger \<Rightarrow> ('n, 'f, 'w) source_state \<Rightarrow> ('n, 'f, 'w) source_state \<Rightarrow> bool"
  for G :: "('n, 'f, 'w) page_engine" and ledger :: "('n, 'w) ledger" where
  page: "source_step G ledger s (snd (apply_source_page_with_inventories G capture activation page s))"
| refreshed: "source_step G ledger s (snd (refresh_source_progress G activation s))"
| transition: "source_step G ledger s (snd (persist_activation G ident tr activation s))"
| restarted: "source_step G ledger s (s\<lparr>en_sched := scheduler_default, so_selectors := []\<rparr>)"
| elsewhere: "ledger_moves (ledger (io_world s)) (ledger w)
    \<Longrightarrow> source_step G ledger s (s\<lparr>io_world := w, io_calls := calls, en_sched := sched\<rparr>)"

lemma plain_call_world: "snd (plain_call m s) = s\<lparr>io_world := snd (m (io_world s))\<rparr>"
  by (auto simp: plain_call_def store_call_def split: prod.splits sum.splits)

lemma store_laws:
  assumes "store_commits C S ledger"
  shows "ledger (snd (ps_load S a w)) = ledger w" "ledger (snd (ps_overflow S c w)) = ledger w"
    "ledger_moves (ledger w) (ledger (snd (ps_activate S d transition a' w)))"
  using assms by (auto simp: store_commits_def)

lemma bind_ledger:
  assumes "f (io_world (snd (m s))) = f (io_world s)" "\<And>x t. f (io_world (snd (g x t))) = f (io_world t)"
  shows "f (io_world (snd (ev_bind m g s))) = f (io_world s)"
  using assms by (auto simp: ev_bind_def split: prod.splits sum.splits)

lemma load_ledger:
  "store_commits C (pe_store G) ledger \<Longrightarrow> ledger (io_world (snd (load_selector G activation s))) = ledger (io_world s)"
  by (auto simp: load_selector_def plain_call_world store_laws intro!: bind_ledger split: option.split)

lemma queue_ledger:
  assumes "store_commits C (pe_store G) ledger"
  shows "ledger (io_world (snd (queue_page G activation pg s))) = ledger (io_world s)"
proof -
  have one: "ledger (io_world (snd (enqueue_candidate (pe_store G) activation c resumed out s))) = ledger (io_world s)"
    for c resumed out and s :: "('a, 'b, 'c) source_state"
    using assms
    by (auto simp: enqueue_candidate_def plain_call_world ev_bind_def store_laws
        split: prod.splits sum.splits enqueue_outcome.splits dest!: arg_cong [of _ _ snd])
  have "ledger (io_world (snd (ev_fold (\<lambda>c. enqueue_candidate (pe_store G) activation c False) cs out s))) = ledger (io_world s)"
    for cs out and s :: "('a, 'b, 'c) source_state"
    by (induction cs arbitrary: out s) (auto intro!: bind_ledger one)
  then show ?thesis by (simp add: queue_page_def)
qed

lemma page_ledger_cases:
  assumes "store_commits (pe_checkpoint G) (pe_store G) ledger"
  obtains (same) "ledger (io_world (snd (apply_source_page_with_inventories G capture activation page s))) = ledger (io_world s)"
  | (committed) progress head pg where
      "run_page G capture activation page progress = Inr (head, pg)"
      "progress_head_of (pe_checkpoint G)
         (le_progress (ledger (io_world s) (activation_key (act_id activation)))) = Some head"
      "ledger (io_world (snd (apply_source_page_with_inventories G capture activation page s))) =
         (ledger (io_world s))(activation_key (act_id activation) :=
           \<lparr>le_progress = pr_progress pg,
            le_observations = le_observations (ledger (io_world s) (activation_key (act_id activation))) @ pr_committed pg,
            le_candidates = le_candidates (ledger (io_world s) (activation_key (act_id activation))) @ page_candidates pg\<rparr>)"
proof -
  let ?key = "activation_key (act_id activation)"
  let ?final = "\<lambda>m. ledger (io_world (snd (m :: _ \<times> ('a, 'b, 'c) source_state)))"
  obtain r s1 where load: "load_selector G activation s = (r, s1)" by (cases "load_selector G activation s")
  have s1: "ledger (io_world s1) = ledger (io_world s)" using load_ledger [OF assms, of activation s] load by simp
  show ?thesis
  proof (cases r)
    case (Inl e)
    then show ?thesis using load s1 by (intro same) (simp add: apply_source_page_with_inventories_def ev_bind_def)
  next
    case progress: (Inr progress)
    show ?thesis
    proof (cases "run_page G capture activation page progress")
      case (Inl e)
      then show ?thesis
        using load s1 progress by (intro same) (simp add: apply_source_page_with_inventories_def ev_bind_def)
    next
      case (Inr headpg)
      then obtain head pg where pg: "run_page G capture activation page progress = Inr (head, pg)"
        by (cases headpg) auto
      have "?final (apply_source_page_with_inventories G capture activation page s) = ?final (commit_page G activation page head pg s1)"
        using load progress pg
        by (auto simp: apply_source_page_with_inventories_def ev_bind_def queue_ledger [OF assms]
            split: prod.split sum.split)
      moreover have "?final (commit_page G activation page head pg s1) =
          ledger (snd (ps_apply (pe_store G) activation head (page\<lparr>sb_events := pr_events pg\<rparr>)
            (pr_committed pg) (pr_progress pg) (page_candidates pg) (io_world s1)))"
        by (auto simp: commit_page_def Let_def plain_call_def store_call_def split: prod.split sum.split)
      ultimately show ?thesis
        using assms s1 same committed [OF pg] unfolding store_commits_def Let_def by metis
    qed
  qed
qed

lemma head_cursor:
  "progress_head_of C p = Some head \<Longrightarrow> hd_cursor head = sp_cursor p \<and> hd_position head = sp_position p"
  by (auto simp: progress_head_of_def split: sum.splits)

definition ordered_ledger :: "'n page_ledger \<Rightarrow> bool" where
  "ordered_ledger l \<longleftrightarrow> order_ok (sp_cursor (le_progress l)) (sp_position (le_progress l)) (le_observations l)"

definition triggered_ledger :: "'n page_ledger \<Rightarrow> bool" where
  "triggered_ledger l \<longleftrightarrow> trigger_ok (sp_selection (le_progress l)) (le_observations l) (le_candidates l)"

lemma page_start_head:
  assumes "run_page G capture activation page progress = Inr (head, pg)"
  shows "progress_head_of (pe_checkpoint G) progress = Some head"
  using assms by (rule run_page_Inr)

lemma ordered_moves:
  assumes "ledger_moves l l'" "ordered_ledger (l key)"
  shows "ordered_ledger (l' key)"
proof -
  have "le_observations (l' key) = le_observations (l key)"
    "sp_cursor (le_progress (l key)) \<le> sp_cursor (le_progress (l' key))"
    "sp_position (le_progress (l key)) \<le> sp_position (le_progress (l' key))"
    using assms(1) by (simp_all only: ledger_moves_def)
  then show ?thesis using assms(2) order_ok_le unfolding ordered_ledger_def by metis
qed

lemma triggered_moves:
  assumes "ledger_moves l l'" "triggered_ledger (l key)"
  shows "triggered_ledger (l' key)"
proof -
  have "le_observations (l' key) = le_observations (l key)" "le_candidates (l' key) = le_candidates (l key)"
    "sel_extends (sp_selection (le_progress (l key))) (sp_selection (le_progress (l' key)))"
    using assms(1) by (simp_all only: ledger_moves_def)
  then show ?thesis using assms(2) trigger_ok_settles unfolding triggered_ledger_def by metis
qed

lemma source_step_ledger:
  assumes laws: "store_commits (pe_checkpoint G) (pe_store G) ledger" and "source_step G ledger s t"
  obtains (moved) "ledger_moves (ledger (io_world s)) (ledger (io_world t))"
  | (committed) capture activation page progress head pg key where
      "run_page G capture activation page progress = Inr (head, pg)"
      "progress_head_of (pe_checkpoint G) progress = Some head"
      "progress_head_of (pe_checkpoint G) (le_progress (ledger (io_world s) key)) = Some head"
      "ledger (io_world t) = (ledger (io_world s))(key :=
         \<lparr>le_progress = pr_progress pg,
          le_observations = le_observations (ledger (io_world s) key) @ pr_committed pg,
          le_candidates = le_candidates (ledger (io_world s) key) @ page_candidates pg\<rparr>)"
  using assms(2)
proof (cases rule: source_step.cases)
  case (page capture activation page)
  show ?thesis
    using laws
  proof (cases rule: page_ledger_cases [of G ledger capture activation page s])
    case same
    then show ?thesis using page moved by simp
  next
    case (committed progress head pg)
    show ?thesis by (rule that(2) [OF committed(1) page_start_head [OF committed(1)] committed(2)]) (simp add: page committed(3))
  qed
next
  case (refreshed activation)
  have "ledger (io_world t) = ledger (io_world s)"
    unfolding refreshed refresh_source_progress_def
    by (rule bind_ledger) (simp_all add: plain_call_world store_laws [OF laws])
  then show ?thesis using moved by simp
next
  case (transition ident tr activation)
  have "io_world t = snd (ps_activate (pe_store G) ident tr activation (io_world s))"
    by (auto simp: transition persist_activation_def ev_bind_def plain_call_def store_call_def Let_def
        split: prod.split sum.split)
  then show ?thesis using moved store_laws(3) [OF laws] by metis
next
  case (elsewhere w calls sched)
  then show ?thesis using moved by simp
qed (use moved in simp)

lemma step_ordered:
  assumes "store_commits (pe_checkpoint G) (pe_store G) ledger" "source_step G ledger s t"
    and ok: "\<And>key. ordered_ledger (ledger (io_world s) key)"
  shows "ordered_ledger (ledger (io_world t) key)"
  using assms(1,2)
proof (cases rule: source_step_ledger)
  case moved
  show ?thesis by (rule ordered_moves [OF moved ok])
next
  case (committed capture activation page progress head pg k)
  have "order_ok (sp_cursor progress) (sp_position progress) (le_observations (ledger (io_world s) k))"
    using ok [of k] head_cursor [OF committed(2)] head_cursor [OF committed(3)] by (simp add: ordered_ledger_def)
  from run_page_order [OF committed(1) this] show ?thesis using ok committed(4) by (simp add: ordered_ledger_def)
qed

text \<open>Distinct checkpoints have distinct fingerprints.\<close>

definition faithful_heads :: "'n checkpoint_lib \<Rightarrow> bool" where
  "faithful_heads C \<longleftrightarrow>
     (\<forall>p q head. progress_head_of C p = Some head \<and> progress_head_of C q = Some head \<longrightarrow> p = q)"

lemma step_triggered:
  assumes "store_commits (pe_checkpoint G) (pe_store G) ledger" "source_step G ledger s t"
    and faithful: "faithful_heads (pe_checkpoint G)"
    and ordered: "\<And>key. ordered_ledger (ledger (io_world s) key)"
    and ok: "\<And>key. triggered_ledger (ledger (io_world s) key)"
  shows "triggered_ledger (ledger (io_world t) key)"
  using assms(1,2)
proof (cases rule: source_step_ledger)
  case moved
  show ?thesis by (rule triggered_moves [OF moved ok])
next
  case (committed capture activation page progress head pg k)
  have "progress = le_progress (ledger (io_world s) k)"
    using faithful committed(2,3) by (auto simp: faithful_heads_def)
  with run_page_trigger [OF committed(1)] ordered [of k] ok [of k]
  show ?thesis using ok committed(4) by (simp add: ordered_ledger_def triggered_ledger_def)
qed

definition empty_ledger :: "'n page_ledger" where
  "empty_ledger = \<lparr>le_progress = source_progress_default, le_observations = [], le_candidates = []\<rparr>"

lemma empty_ledger_ok [simp]: "ordered_ledger empty_ledger" "triggered_ledger empty_ledger"
  using initial_ok
  by (simp_all add: ordered_ledger_def triggered_ledger_def empty_ledger_def order_ok_def trigger_ok_def
      source_progress_default_def initial_selection_def)

lemma run_ordered:
  assumes "store_commits (pe_checkpoint G) (pe_store G) ledger" "(source_step G ledger)\<^sup>*\<^sup>* s t"
    and "ledger (io_world s) = (\<lambda>_. empty_ledger)"
  shows "ordered_ledger (ledger (io_world t) key)"
  using assms(2)
proof (induction arbitrary: key rule: rtranclp_induct)
  case (step t u)
  show ?case by (rule step_ordered [OF assms(1) step(2) step(3)])
qed (simp add: assms(3))

lemma run_triggered:
  assumes "store_commits (pe_checkpoint G) (pe_store G) ledger" "(source_step G ledger)\<^sup>*\<^sup>* s t"
    and "ledger (io_world s) = (\<lambda>_. empty_ledger)" "faithful_heads (pe_checkpoint G)"
  shows "triggered_ledger (ledger (io_world t) key)"
  using assms(2)
proof (induction arbitrary: key rule: rtranclp_induct)
  case (step t u)
  show ?case
    by (rule step_triggered [OF assms(1) step(2) assms(4) run_ordered [OF assms(1) step(1) assms(3)] step(3)])
qed (simp add: assms(3))

section \<open>Publications and triggers\<close>

text \<open>
  C3. Every publication is committed at most once: whatever pages the engine is given, replayed,
  stale or overlapping ones included, and however often its store fails, its process restarts or
  another process moves the progress on, the observations that the store holds for an activation
  carry strictly increasing publication cursors and strictly increasing positions.
\<close>

theorem publications_committed_once:
  assumes "store_commits (pe_checkpoint G) (pe_store G) ledger" "ledger (io_world s) = (\<lambda>_. empty_ledger)"
    and "(source_step G ledger)\<^sup>*\<^sup>* s t"
  shows "sorted_wrt (<) (map co_cursor (le_observations (ledger (io_world t) key)))
    \<and> sorted_wrt (<) (map co_position (le_observations (ledger (io_world t) key)))"
  using run_ordered [OF assms(1,3,2), of key] by (simp add: ordered_ledger_def order_ok_def)

text \<open>
  C4. Across replayed pages, failed commits and restarts a source identity triggers an activation
  at most once: the candidates that the store holds for an activation were triggered by pairwise
  different identities, each that of a committed observation on the candidate's branch.
\<close>

theorem identities_trigger_once:
  assumes "store_commits (pe_checkpoint G) (pe_store G) ledger" "ledger (io_world s) = (\<lambda>_. empty_ledger)"
    and "faithful_heads (pe_checkpoint G)" "(source_step G ledger)\<^sup>*\<^sup>* s t"
  shows "distinct (map (trigger_of (le_observations (ledger (io_world t) key))) (le_candidates (ledger (io_world t) key)))
    \<and> list_all (\<lambda>c. map_option fst (trigger_of (le_observations (ledger (io_world t) key)) c) = Some (cand_branch c))
        (le_candidates (ledger (io_world t) key))"
  using run_triggered [OF assms(1,4,2,3), of key] by (auto simp: triggered_ledger_def trigger_ok_def list_all_iff)

text \<open>A store that holds its ledger in memory, and a page with one user message.\<close>

definition memory_checkpoint :: "nat checkpoint_lib" where
  "memory_checkpoint =
     \<lparr>ck_write = (\<lambda>k. if ck_branches k = [] \<and> ck_seen k = [] then Some [] else None),
      ck_read = (\<lambda>_. None), ck_digest = (\<lambda>text. text)\<rparr>"

definition memory_store :: "(nat, unit, activation_key \<Rightarrow> nat page_ledger) page_store" where
  "memory_store =
     \<lparr>ps_activate = (\<lambda>_ _ _. ev_return ()), ps_load = (\<lambda>a w. (Inr (le_progress (w (activation_key (act_id a)))), w)),
      ps_apply = (\<lambda>a head page obs next cands w.
        let key = activation_key (act_id a) in
        if progress_head_of memory_checkpoint (le_progress (w key)) = Some head
        then (Inr (), w(key := \<lparr>le_progress = next, le_observations = le_observations (w key) @ obs,
                                 le_candidates = le_candidates (w key) @ cands\<rparr>))
        else (Inl ''stale progress'', w)),
      ps_overflow = (\<lambda>_. ev_return ()), ps_terminal = (\<lambda>_ _. Inr [])\<rparr>"

definition memory_engine :: "(nat, unit, activation_key \<Rightarrow> nat page_ledger) page_engine" where
  "memory_engine = \<lparr>pe_json = nat_lib, pe_digest = sample_digest, pe_checkpoint = memory_checkpoint, pe_store = memory_store\<rparr>"

definition memory_start :: "(nat, unit, activation_key \<Rightarrow> nat page_ledger) source_state" where
  "memory_start = \<lparr>io_world = (\<lambda>_. empty_ledger), io_calls = [], en_sched = scheduler_default, so_selectors = []\<rparr>"

definition message_page :: "nat source_batch" where
  "message_page =
     \<lparr>sb_events = [EventObservation 1 None ''m'' 1 (observation_draft.truncate (message_event 1))],
      sb_next = 1, sb_has_more = False\<rparr>"

lemma memory_commits: "store_commits memory_checkpoint memory_store (\<lambda>w. w)"
  by (auto simp: store_commits_def memory_store_def Let_def)

lemma memory_faithful: "faithful_heads memory_checkpoint"
  by (auto simp: faithful_heads_def progress_head_of_def progress_encode_def memory_checkpoint_def
      split: if_splits sum.splits option.splits)

lemma message_draft: "commit_draft (observation_draft.truncate (message_event 1)) 1 = message_event 1"
  by (simp add: commit_draft_def message_event_def observation_draft.defs)

lemma message_page_runs:
  "\<exists>pg head c. run_page memory_engine (\<lambda>_ _. Inr None) message_activation message_page source_progress_default = Inr (head, pg)
     \<and> map co_cursor (pr_committed pg) = [1] \<and> page_candidates pg = [c]
     \<and> progress_head_of memory_checkpoint source_progress_default = Some head"
proof -
  obtain c t where c: "apply_published_with_inventories nat_lib sample_digest (Inr None :: string capture)
      message_activation ''m'' 1 (message_event 1) initial_selection = (Inr (Candidate c), t)"
    using message_event_candidate by blast
  let ?draft = "observation_draft.truncate (message_event 1)"
  have accept: "accepts_update initial_selection (obs_branch ?draft) ''m'' 1 (obs_version ?draft)"
    by (simp add: accepts_update_def initial_selection_def bt_get_def)
  have draft: "commit_draft ?draft (Suc 0) = message_event 1" using message_draft by simp
  have empty: "sel_branches (initial_selection :: nat selection_state) = []"
      "sel_seen (initial_selection :: nat selection_state) = []"
    by (simp_all add: initial_selection_def)
  show ?thesis
    using c accept draft empty
    by (simp add: run_page_def validate_source_page_def message_page_def source_progress_default_def
        initial_selection_def [symmetric] progress_head_of_def progress_encode_def memory_engine_def
        memory_checkpoint_def page_start_def page_selection_def page_observation_def Let_def u64_max_def
        page_candidates_def candidate_invalidated_def)
qed


abbreviation message_key :: activation_key where
  "message_key \<equiv> activation_key (act_id message_activation)"

definition memory_after :: "(nat, unit, activation_key \<Rightarrow> nat page_ledger) source_state" where
  "memory_after = snd (apply_source_page_with_inventories memory_engine (\<lambda>_ _. Inr None) message_activation message_page memory_start)"

lemma memory_run: "(source_step memory_engine (\<lambda>w. w))\<^sup>*\<^sup>* memory_start memory_after"
  unfolding memory_after_def by (rule r_into_rtranclp, rule source_step.page)

lemma memory_after_ledger:
  "map co_cursor (le_observations (io_world memory_after message_key)) = [1]
   \<and> length (le_candidates (io_world memory_after message_key)) = 1"
proof -
  obtain pg head c where pg: "run_page memory_engine (\<lambda>_ _. Inr None) message_activation message_page
      source_progress_default = Inr (head, pg)" "map co_cursor (pr_committed pg) = [1]" "page_candidates pg = [c]"
      "progress_head_of memory_checkpoint source_progress_default = Some head"
    using message_page_runs by auto
  let ?s = "memory_start\<lparr>so_selectors := [(message_key, source_progress_default)]\<rparr>"
  have load: "load_selector memory_engine message_activation memory_start = (Inr source_progress_default, ?s)"
    by (simp add: load_selector_def memory_start_def bt_get_def plain_call_def store_call_def memory_engine_def
        memory_store_def ev_bind_def empty_ledger_def)
  have commit: "commit_page memory_engine message_activation message_page head pg ?s =
      (Inr (), ?s\<lparr>so_selectors := bt_insert message_key (pr_progress pg) [(message_key, source_progress_default)],
        io_world := (\<lambda>_. empty_ledger)(message_key := \<lparr>le_progress = pr_progress pg,
          le_observations = pr_committed pg, le_candidates = [c]\<rparr>)\<rparr>)"
    using pg(3,4)
    by (simp add: commit_page_def plain_call_def store_call_def memory_engine_def memory_store_def Let_def
        memory_start_def empty_ledger_def)
  have laws: "store_commits (pe_checkpoint memory_engine) (pe_store memory_engine) (\<lambda>w. w)"
    using memory_commits by (simp add: memory_engine_def)
  show ?thesis
    using pg queue_ledger [OF laws] load commit
    by (simp add: memory_after_def apply_source_page_with_inventories_def ev_bind_def)
qed

theorem publications_committed_once_witness:
  "map co_cursor (le_observations (io_world memory_after message_key)) = [1]
   \<and> sorted_wrt (<) (map co_cursor (le_observations (io_world memory_after message_key)))"
  using publications_committed_once [of memory_engine "\<lambda>w. w" memory_start memory_after message_key]
    memory_commits memory_run memory_after_ledger
  by (simp add: memory_engine_def memory_start_def)

theorem identities_trigger_once_witness:
  "length (le_candidates (io_world memory_after message_key)) = 1
   \<and> distinct (map (trigger_of (le_observations (io_world memory_after message_key)))
       (le_candidates (io_world memory_after message_key)))"
  using identities_trigger_once [of memory_engine "\<lambda>w. w" memory_start memory_after message_key]
    memory_commits memory_run memory_after_ledger memory_faithful
  by (simp add: memory_engine_def memory_start_def)

section \<open>Pages and the scheduler\<close>

lemma page_event_activation:
  assumes "page_event L D capture activation n e pg = Inr pg'"
    and "\<forall>(c, _) \<in> set (pr_candidates pg). cand_activation c = act_id activation"
  shows "\<forall>(c, _) \<in> set (pr_candidates pg'). cand_activation c = act_id activation"
  using assms(1)
proof (cases rule: page_event_cases)
  case quiet
  then show ?thesis using assms(2) by simp
next
  case (observed native identity revision draft observation out)
  then show ?thesis
    using assms(2) published_frozen_from [OF observed(6)] by (cases out) (auto simp: frozen_from_def)
qed

lemma page_events_activation:
  assumes "page_events L D capture activation n es pg = Inr pg'"
    and "\<forall>(c, _) \<in> set (pr_candidates pg). cand_activation c = act_id activation"
  shows "\<forall>(c, _) \<in> set (pr_candidates pg'). cand_activation c = act_id activation"
  using assms
proof (induction es arbitrary: n pg)
  case (Cons e es)
  then obtain mid where mid: "page_event L D capture activation n e pg = Inr mid"
      "page_events L D capture activation (Suc n) es mid = Inr pg'" by auto
  show ?case by (rule Cons.IH [OF mid(2) page_event_activation [OF mid(1) Cons.prems(2)]])
qed simp

lemma run_page_activation:
  assumes "run_page G capture activation page progress = Inr (head, pg)" "c \<in> set (page_candidates pg)"
  shows "cand_activation c = act_id activation"
  using assms(1)
proof (rule run_page_Inr)
  fix mid q
  assume events: "page_events (pe_json G) (pe_digest G) capture activation 0 (sb_events page) (page_start progress) = Inr mid"
    and pg: "pg = mid\<lparr>pr_progress := (pr_progress mid)\<lparr>sp_cursor := sb_next page\<rparr>\<rparr>"
  show ?thesis
    using page_events_activation [OF events] assms(2) pg by (auto simp: page_start_def page_candidates_def)
qed

lemma plain_call_sched [simp]: "en_sched (snd (plain_call m s)) = en_sched s"
  by (simp add: plain_call_world)

lemma load_sched [simp]: "en_sched (snd (load_selector G activation s)) = en_sched s"
  by (auto simp: load_selector_def ev_bind_def plain_call_def store_call_def split: option.split prod.split sum.split)

lemma commit_sched [simp]: "en_sched (snd (commit_page G activation page head pg s)) = en_sched s"
  by (auto simp: commit_page_def Let_def plain_call_def store_call_def split: prod.split sum.split)

lemma enqueue_candidate_run:
  assumes "cand_activation c = act_id activation" "is_windowed (act_compiled activation) = W (activation_key (act_id activation))"
  shows "sched_run W gs (en_sched s) gs (en_sched (snd (enqueue_candidate S activation c resumed out s)))"
proof -
  have "en_sched (snd (enqueue_candidate S activation c resumed out s))
      = snd (enqueue_with_resume (ps_terminal S (io_world s)) activation c resumed (en_sched s))"
    by (auto simp: enqueue_candidate_def plain_call_def store_call_def ev_bind_def
        split: prod.splits sum.splits enqueue_outcome.splits)
  then show ?thesis using sched_run_step [OF enqueued [where W = W and a = activation, OF assms]] by metis
qed

lemma enqueue_all_run:
  assumes "\<And>c. c \<in> set cs \<Longrightarrow> cand_activation c = act_id activation"
    "is_windowed (act_compiled activation) = W (activation_key (act_id activation))"
  shows "sched_run W gs (en_sched s) gs
    (en_sched (snd (ev_fold (\<lambda>c. enqueue_candidate S activation c resumed) cs out s)))"
  using assms(1)
proof (induction cs arbitrary: out s)
  case (Cons c cs)
  obtain r t where one: "enqueue_candidate S activation c resumed out s = (r, t)"
    by (cases "enqueue_candidate S activation c resumed out s")
  have "sched_run W gs (en_sched s) gs (en_sched t)"
    using enqueue_candidate_run [of c activation W gs s S resumed out] Cons.prems assms(2) one by simp
  then show ?case
    using Cons.IH [where s = t] Cons.prems one by (cases r) (auto simp: ev_bind_def intro: sched_run_trans)
qed simp

lemma commit_selector:
  assumes "commit_page G activation page head pg s = (Inr u, t)" "bt_ok (so_selectors s)"
  shows "bt_get (so_selectors t) (activation_key (act_id activation)) = Some (pr_progress pg)"
  using assms
  by (auto simp: commit_page_def Let_def plain_call_def store_call_def bt_get_insert split: prod.splits sum.splits)

lemma load_selectors_ok:
  "bt_ok (so_selectors s) \<Longrightarrow> bt_ok (so_selectors (snd (load_selector G activation s)))"
  by (auto simp: load_selector_def ev_bind_def plain_call_def store_call_def bt_ok_insert
      split: option.split prod.split sum.split)

lemma enqueue_selectors: "so_selectors (snd (enqueue_candidate S activation c resumed out s)) = so_selectors s"
  by (auto simp: enqueue_candidate_def plain_call_def store_call_def ev_bind_def
      split: prod.splits sum.splits enqueue_outcome.splits)

lemma enqueue_all_selectors:
  "so_selectors (snd (ev_fold (\<lambda>c. enqueue_candidate S activation c resumed) cs out s)) = so_selectors s"
proof (induction cs arbitrary: out s)
  case (Cons c cs)
  then show ?case
    using enqueue_selectors [of S activation c resumed out s]
    by (cases "enqueue_candidate S activation c resumed out s") (auto simp: ev_bind_def split: sum.split)
qed simp

lemma queue_selectors: "so_selectors (snd (queue_page G activation pg s)) = so_selectors s"
  by (simp add: queue_page_def enqueue_all_selectors)

lemma queue_run:
  assumes "is_windowed (act_compiled activation) = W (activation_key (act_id activation))"
    and pg: "run_page G capture activation page progress = Inr (head, pg)"
  shows "sched_run W gs (en_sched s) gs (en_sched (snd (queue_page G activation pg s)))"
proof -
  let ?s = "if pr_resets pg = {} then s
    else s\<lparr>en_sched := drop_branches (act_id activation) (pr_resets pg) (en_sched s)\<rparr>"
  have "sched_run W gs (en_sched s) gs (en_sched ?s)" by (auto intro: sched_run_step [OF dropped])
  moreover have "sched_run W gs (en_sched ?s) gs (en_sched (snd (queue_page G activation pg s)))"
    unfolding queue_page_def
    by (rule enqueue_all_run [where W = W and activation = activation, OF run_page_activation [OF pg] assms(1)])
  ultimately show ?thesis by (rule sched_run_trans)
qed



end
