(* ===== verification/Spec2Isabelle.thy ===== *)
theory Spec2Isabelle
  imports Expr_Parser Eval_Laws Filters Preparation Decision Actions Lifecycle Selection_Laws Progress Scheduler_Laws
    Fit_Laws Prepared Requirements Engine_Safety Depth_Limit
    Source_Laws
begin

text \<open>
  Verification of the check runtime of antiburn, the crate \<open>antiburn-checks\<close>
  (\<open>src/crates/antiburn-checks/src\<close>; the file names below are relative to it).

  \<^bold>\<open>The program.\<close> A user writes checks in YAML files. A check names a trigger (which events of an
  agent session it looks at), an optional condition, decisions (questions put to a model about a
  bounded JSON input) and status actions. Discovery resolves the files of the global and the
  project scope into one definition per identity, the lifecycle turns definitions into activations
  with generations, the selector of an activation turns the published events of a session into
  frozen candidates, the scheduler queues candidates per activation and branch, and an evaluation
  claims a candidate, prepares its inputs, fits them to the limits of the provider, sends each
  decision at most once per durable intent, validates the answers and plans the status actions.
  Expressions, templates, conditions and actions run on one metered budget.

  \<^bold>\<open>Theories and sources.\<close>
  \<^item> \<open>Prelude\<close>: results (\<open>'e + 'a\<close>), effectful computations as functions from a state to a result
    and a state, saturating integers, the ordered maps of \<open>std\<close> as sorted association lists
    (\<open>bt\<close>) with the locale of ordered maps, the locale of relations kept by computations.
  \<^item> \<open>Diagnostics\<close> (\<open>diagnostics.rs\<close>), \<open>Json_Value\<close> (\<open>serde_json::Value\<close>), \<open>Paths\<close>
    (the part of \<open>std::path\<close> in use), \<open>Float64\<close> (\<open>f64\<close> addition and comparison with rounding).
  \<^item> \<open>Budget\<close>, \<open>Decimal\<close>, \<open>Expr_Syntax\<close>, \<open>Expr_Parser\<close>, \<open>Eval_Value\<close>, \<open>Eval_Json\<close>, \<open>Eval_Expr\<close>,
    \<open>Eval_Laws\<close> (\<open>expression.rs\<close>, \<open>expression_eval.rs\<close> and its directory): the expression
    language from text to value; \<open>Depth_Limit\<close> shows that an accepted path can exceed the depth
    that the evaluator allows.
  \<^item> \<open>Filters\<close> (\<open>filters.rs\<close>), \<open>Check_Types\<close> (the data of \<open>compiler.rs\<close>, \<open>decision.rs\<close>,
    \<open>domain.rs\<close>), \<open>Preparation\<close> (\<open>preparation.rs\<close>), \<open>Decision\<close> (\<open>decision.rs\<close>),
    \<open>Bounded_Json\<close> (\<open>bounded_json.rs\<close>, \<open>bounded_json/measure.rs\<close>), \<open>Results\<close> (\<open>results.rs\<close>),
    \<open>Requirements\<close> (\<open>compiler/requirements.rs\<close>, \<open>results/capacity.rs\<close>), \<open>Actions\<close>
    (\<open>actions.rs\<close>), \<open>Fit\<close> and \<open>Fit_Laws\<close> (\<open>fit.rs\<close>, \<open>fit_limits.rs\<close>), \<open>Prepared\<close>
    (\<open>prepared_assessment.rs\<close>).
  \<^item> \<open>Discovery\<close> (\<open>discovery.rs\<close>), \<open>Lifecycle\<close> (\<open>definition_lifecycle.rs\<close>), \<open>Inventories\<close>
    (\<open>context.rs\<close>, \<open>compiler/inventories.rs\<close>), \<open>Selection\<close> and \<open>Selection_Laws\<close>
    (\<open>selection.rs\<close>), \<open>Progress\<close> (the attempts of \<open>check_store.rs\<close>).
  \<^item> \<open>Scheduler\<close>, \<open>Scheduler_Laws\<close> (the queues of \<open>engine.rs\<close>), \<open>Model_Run\<close>, \<open>Model_Laws\<close>,
    \<open>Model_Safety\<close> (\<open>engine/model.rs\<close>), \<open>Engine_Start\<close>, \<open>Engine_Laws\<close>, \<open>Engine_Safety\<close>
    (the start of an evaluation in \<open>engine.rs\<close> and \<open>engine_local.rs\<close>), \<open>Source_Pages\<close>,
    \<open>Source_Laws\<close> (\<open>apply_source_page_with_inventories\<close> and \<open>persist_activation\<close> of \<open>engine.rs\<close>,
    \<open>engine_source_refresh.rs\<close>, the checkpoint of \<open>check_store.rs\<close>).
  Definitions keep the names of the source; a method that mutates its receiver returns the new
  state, an \<open>expect\<close> or an index out of range is a failure value of its own (\<open>SelectionPanic\<close>,
  \<open>EnginePanic\<close>, \<open>None\<close>), and each early return is a branch.

  \<^bold>\<open>What the lemmas show.\<close> The evaluator stays within its budget, fails with the limit code exactly
  when it exhausts it, and depends only on the roots that the paths of an expression name; its
  parser returns on every text. Strict JSON decoding and measuring agree with their limits. The
  selector keeps its bounds and an identity triggers at most once. Runs of the scheduler, for every
  interleaving of its operations, keep queues and evaluations bounded and one evaluation per
  branch. The task of a candidate, for every store and every evaluator, sends an attempt only after
  its own durable intent and never sends again what may have been delivered; starts, tasks
  and source pages refine the runs of the scheduler. Across replayed pages, failed commits and
  restarts no publication is committed twice and no identity triggers an activation twice, given
  a store whose page transaction is atomic and compares the head of the progress.

  \<^bold>\<open>Bounds and fuel.\<close> Structural recursion and measures are used where they exist. The parser runs
  on fuel \<open>130 + length\<close> of the tokens, enough because each call consumes a token or descends one of
  at most 128 levels (shown in \<open>Expr_Parser\<close>). The bounds of the code (40 messages, 4096
  identities, 128 pending candidates, 4 evaluations, depth 32, 10000 steps and so on) are
  definitions with the names of the source.

  \<^bold>\<open>Parameters.\<close> The number reader, the streaming parser and the writer of \<open>serde_json\<close>
  (\<open>json_lib\<close>, \<open>writer\<close>), SHA-256 (\<open>digest_lib\<close>), the YAML compiler as discovery calls it, the
  store and the evaluator are arguments: records of arbitrary functions on a world. Where a
  property needs a documented law of one of them it is a hypothesis, and a witness instantiates it.

  \<^bold>\<open>Not modelled.\<close> The YAML reader and the admission of check files (\<open>config/yaml.rs\<close>, the rest of
  \<open>compiler.rs\<close>, \<open>compiler/access.rs\<close>, \<open>compiler/triggers.rs\<close>): discovery takes the compiler
  as a parameter. The readers of saved results and preparations (\<open>results/decode.rs\<close>, derived
  \<open>Deserialize\<close>): they restore what the constructors here build. The normalisation of native
  evidence (\<open>source/\<close>), the reload of unfinished work after a restart (\<open>recover_pending\<close>) and the
  replay driver (\<open>replay.rs\<close>). The scheduler's mutex is not contended:
  an operation that takes the lock more than once is one step. Outside the crate: the SQLite store
  (\<open>antiburn-checks-store\<close>, a client of a database engine), the vendor readers and discovery of
  \<open>antiburn-local\<close>, the desktop application and the remote collector, which are mostly file and
  network access around their own formats.
\<close>

section \<open>From check files to activations\<close>

text \<open>
  C26. Discovery and the lifecycle compose: after the definition that discovery reports for
  an identity is reconciled, the check is active exactly when a single enabled file of the
  deciding scope compiles, whatever was effective before.
\<close>

theorem discovered_check_active:
  "(live (apply_transition s (reconcile_scoped s
      (r\<lparr>rc_definition := List.find (\<lambda>d. def_id d = ident)
           (definitions (discover_definitions compile digest config files))\<rparr>))) \<noteq> None)
   \<longleftrightarrow> (\<exists>check. sole_source compile config files ident check)"
  unfolding reconciled_live find_effective effective_ready [of compile digest, symmetric] by auto

end
